(* ===== verification/Prelude.thy ===== *)
theory Prelude
  imports Main "HOL-Library.AList"
begin

text \<open>
  What every component shares: the exceptions a Python operation can leave by, the result type
  that carries them, sequencing of such results, a few facts on lists (removing the first match,
  updating every match, strictly increasing keys) and the collections the component proofs use.
\<close>

named_theorems res_simps \<open>unfolding of the result combinators\<close>
named_theorems op_defs \<open>definitions of the operations of a component, for case analysis\<close>

section \<open>Exceptions and results\<close>

text \<open>
  The exception classes the modelled code raises or catches.  \<open>TaskPrerequisitesError\<close>,
  \<open>SkipTask\<close> and \<open>OBValidationError\<close> are the verifier's own (openbadges/verifier/exceptions.py);
  \<open>DjangoValidationError\<close>, \<open>ProtectedError\<close>, \<open>DoesNotExist\<close> and \<open>QuotaExceeded\<close> are those of
  the issuer application; \<open>OtherError\<close> stands for an exception of another class, a third-party one for instance.
\<close>

datatype py_exn =
    KeyError | IndexError | TypeError | ValueError | AttributeError | AssertionError
  | NotImplementedError | TaskPrerequisitesError | SkipTask | OBValidationError string
  | DjangoValidationError string | ProtectedError string | DoesNotExist | QuotaExceeded
  | OtherError string

type_synonym 'a res = "py_exn + 'a"

definition bindR :: "'e + 'a \<Rightarrow> ('a \<Rightarrow> 'e + 'b) \<Rightarrow> 'e + 'b" where
  "bindR m f = (case m of Inl e \<Rightarrow> Inl e | Inr x \<Rightarrow> f x)"

definition catchR :: "'a res \<Rightarrow> (py_exn \<Rightarrow> 'a res) \<Rightarrow> 'a res" where
  "catchR m h = (case m of Inl e \<Rightarrow> h e | Inr x \<Rightarrow> Inr x)"

lemma bindR_simps [simp, res_simps]:
  "bindR (Inl e) f = Inl e" "bindR (Inr x) f = f x"
  by (simp_all add: bindR_def)

lemma catchR_simps [simp, res_simps]:
  "catchR (Inl e) h = h e" "catchR (Inr x) h = Inr x"
  by (simp_all add: catchR_def)

lemma bindR_Inr_iff:
  "bindR m f = Inr y \<longleftrightarrow> (\<exists>x. m = Inr x \<and> f x = Inr y)"
  by (cases m) auto

lemma bindR_Inl_iff:
  "bindR m f = Inl e \<longleftrightarrow> m = Inl e \<or> (\<exists>x. m = Inr x \<and> f x = Inl e)"
  by (cases m) auto

lemma bindR_cong [fundef_cong]:
  "m = m' \<Longrightarrow> (\<And>x. m' = Inr x \<Longrightarrow> f x = f' x) \<Longrightarrow> bindR m f = bindR m' f'"
  by (cases m') auto

text \<open>A Python loop body that may raise, run over a list.\<close>

fun foldR :: "('a \<Rightarrow> 'b \<Rightarrow> 'e + 'b) \<Rightarrow> 'a list \<Rightarrow> 'b \<Rightarrow> 'e + 'b" where
  "foldR f [] s = Inr s"
| "foldR f (x # xs) s = bindR (f x s) (foldR f xs)"

fun mapR :: "('a \<Rightarrow> 'e + 'b) \<Rightarrow> 'a list \<Rightarrow> 'e + 'b list" where
  "mapR f [] = Inr []"
| "mapR f (x # xs) = bindR (f x) (\<lambda>y. bindR (mapR f xs) (\<lambda>ys. Inr (y # ys)))"

lemma foldR_append:
  "foldR f (xs @ ys) s = bindR (foldR f xs s) (foldR f ys)"
  by (induction xs arbitrary: s) (auto simp: bindR_def split: sum.splits)

text \<open>An invariant of the body is an invariant of the loop.\<close>

lemma foldR_invariant:
  assumes "foldR f xs s = Inr t" and "I s"
    and "\<And>x u v. x \<in> set xs \<Longrightarrow> I u \<Longrightarrow> f x u = Inr v \<Longrightarrow> I v"
  shows "I t"
  using assms
proof (induction xs arbitrary: s)
  case Nil
  then show ?case by simp
next
  case (Cons x xs)
  from Cons.prems(1) obtain u where u: "f x s = Inr u" and rest: "foldR f xs u = Inr t"
    by (auto simp: bindR_Inr_iff)
  have "I u"
    using Cons.prems(2) Cons.prems(3) u by fastforce
  then show ?case
    using Cons.IH [OF rest] Cons.prems(3) by (meson list.set_intros(2))
qed

section \<open>Lists\<close>

text \<open>\<open>[x for x in xs if p(x)][0]\<close>: the first match, or \<open>IndexError\<close>.\<close>

definition first_or_index_error :: "'a list \<Rightarrow> 'a res" where
  "first_or_index_error xs = (case xs of [] \<Rightarrow> Inl IndexError | x # _ \<Rightarrow> Inr x)"

lemma first_or_index_error_simps [simp]:
  "first_or_index_error [] = Inl IndexError"
  "first_or_index_error (x # xs) = Inr x"
  by (simp_all add: first_or_index_error_def)

lemma first_filter_Inr:
  "first_or_index_error (filter p xs) = Inr x \<Longrightarrow> x \<in> set xs \<and> p x"
  by (cases "filter p xs") (auto dest: filter_eq_ConsD)

lemma first_filter_Inl:
  "first_or_index_error (filter p xs) = Inl e \<longleftrightarrow> e = IndexError \<and> (\<forall>x \<in> set xs. \<not> p x)"
  by (cases "filter p xs") (auto simp: filter_empty_conv dest: filter_eq_ConsD)

text \<open>Dropping one object from a list by identity: the first element that satisfies \<open>p\<close>.\<close>

fun remove_first :: "('a \<Rightarrow> bool) \<Rightarrow> 'a list \<Rightarrow> 'a list" where
  "remove_first p [] = []"
| "remove_first p (x # xs) = (if p x then xs else x # remove_first p xs)"

lemma set_remove_first_subset: "set (remove_first p xs) \<subseteq> set xs"
  by (induction xs) auto

lemma remove_first_idle: "(\<forall>x \<in> set xs. \<not> p x) \<Longrightarrow> remove_first p xs = xs"
  by (induction xs) auto

lemma length_remove_first:
  "(\<exists>x \<in> set xs. p x) \<Longrightarrow> Suc (length (remove_first p xs)) = length xs"
  by (induction xs) auto

lemma filter_remove_first_other:
  "(\<And>x. p x \<Longrightarrow> \<not> q x) \<Longrightarrow> filter q (remove_first p xs) = filter q xs"
  by (induction xs) auto

lemma distinct_map_filter_filter:
  "distinct (map f (filter p xs)) \<Longrightarrow> distinct (map f (filter p (filter q xs)))"
  by (induction xs) auto

text \<open>Strictly increasing keys: the shape of a table that is only appended to.\<close>

definition increasing :: "('a \<Rightarrow> 'k::linorder) \<Rightarrow> 'a list \<Rightarrow> bool" where
  "increasing key xs \<longleftrightarrow> sorted_wrt (<) (map key xs)"

lemma increasing_Nil [simp, intro]: "increasing key []"
  by (simp add: increasing_def)

lemma increasing_snoc:
  "increasing key (xs @ [x]) \<longleftrightarrow> increasing key xs \<and> (\<forall>y \<in> set xs. key y < key x)"
  by (auto simp: increasing_def sorted_wrt_append)

lemma increasing_filter: "increasing key xs \<Longrightarrow> increasing key (filter p xs)"
  by (auto simp: increasing_def sorted_wrt_map intro: sorted_wrt_filter)

lemma increasing_map_keys:
  "map key ys = map key xs \<Longrightarrow> increasing key ys = increasing key xs"
  by (simp add: increasing_def)

lemma increasing_distinct: "increasing key xs \<Longrightarrow> distinct (map key xs)"
  by (simp add: increasing_def strict_sorted_iff)

lemma increasing_last_max:
  "increasing key xs \<Longrightarrow> x \<in> set xs \<Longrightarrow> key x \<le> key (last xs)"
  by (induction xs rule: rev_induct) (auto simp: increasing_snoc less_imp_le)

lemma increasing_inj:
  "increasing key xs \<Longrightarrow> x \<in> set xs \<Longrightarrow> y \<in> set xs \<Longrightarrow> key x = key y \<Longrightarrow> x = y"
  using increasing_distinct [of key xs] by (simp add: distinct_map inj_on_def)

section \<open>Strings\<close>

definition startswith :: "'a list \<Rightarrow> 'a list \<Rightarrow> bool" where
  "startswith s p \<longleftrightarrow> take (length p) s = p"

definition endswith :: "string \<Rightarrow> string \<Rightarrow> bool" where
  "endswith s p \<longleftrightarrow> length p \<le> length s \<and> drop (length s - length p) s = p"

lemma startswith_append [simp]: "startswith (p @ s) p"
  by (simp add: startswith_def)

lemma endswith_append [simp]: "endswith (s @ p) p"
  by (simp add: endswith_def)

lemma startswith_iff: "startswith s p \<longleftrightarrow> (\<exists>r. s = p @ r)"
  by (auto simp: startswith_def) (metis append_take_drop_id)

text \<open>\<open>needle in haystack\<close> on strings.\<close>

fun contains_str :: "string \<Rightarrow> string \<Rightarrow> bool" where
  "contains_str [] n = (n = [])"
| "contains_str (c # cs) n = (startswith (c # cs) n \<or> contains_str cs n)"

text \<open>\<open>sep.join(xs)\<close>.\<close>

fun join_str :: "'a list \<Rightarrow> 'a list list \<Rightarrow> 'a list" where
  "join_str sep [] = []"
| "join_str sep [x] = x"
| "join_str sep (x # y # ys) = x @ sep @ join_str sep (y # ys)"

text \<open>\<open>s.split(c)\<close> for a one-character separator: always at least one piece.\<close>

fun split_on :: "'a \<Rightarrow> 'a list \<Rightarrow> 'a list list" where
  "split_on c [] = [[]]"
| "split_on c (x # xs) =
     (if x = c then [] # split_on c xs
      else (case split_on c xs of [] \<Rightarrow> [[x]] | p # ps \<Rightarrow> (x # p) # ps))"

lemma split_on_not_Nil [simp]: "split_on c s \<noteq> []"
  by (induction s) (auto split: list.splits)

lemma join_split_on: "join_str [c] (split_on c s) = s"
proof (induction s)
  case Nil
  then show ?case by simp
next
  case (Cons x xs)
  obtain p ps where ps: "split_on c xs = p # ps"
    by (cases "split_on c xs") auto
  with Cons show ?case
    by (cases ps) auto
qed

lemma split_on_pieces: "p \<in> set (split_on c s) \<Longrightarrow> c \<notin> set p"
  by (induction s arbitrary: p) (auto split: list.splits if_splits)

text \<open>Decimal text of an integer, as \<open>str(n)\<close> prints it.\<close>

definition digit_char :: "nat \<Rightarrow> char" where
  "digit_char d = char_of (48 + d)"

fun nat_to_string :: "nat \<Rightarrow> string" where
  "nat_to_string n =
     (if n < 10 then [digit_char n] else nat_to_string (n div 10) @ [digit_char (n mod 10)])"

declare nat_to_string.simps [simp del]

definition int_to_string :: "int \<Rightarrow> string" where
  "int_to_string i = (if i < 0 then CHR ''-'' # nat_to_string (nat (- i)) else nat_to_string (nat i))"

definition lower_char :: "char \<Rightarrow> char" where
  "lower_char c =
     (let n = (of_char c :: nat) in if 65 \<le> n \<and> n \<le> 90 then char_of (n + 32) else c)"

definition lower_str :: "string \<Rightarrow> string" where
  "lower_str s = map lower_char s"

lemma length_lower_str [simp]: "length (lower_str s) = length s"
  by (simp add: lower_str_def)

end
