(* ===== verification/Py_Value.thy ===== *)
theory Py_Value
  imports Prelude
begin

text \<open>
  The dynamic values the Open Badges verifier computes with: what \<open>json.loads\<close> returns, and the
  dictionaries the verifier builds for its nodes, tasks, actions and messages.  A dictionary is
  an association list in insertion order with distinct keys, as Python keeps it; reading,
  writing, deleting and merging follow dict.get, d[k] = v, del d[k] and dict.update.  A float is
  carried as the text Python prints for it (the code never computes with one), a \<open>bytes\<close> object
  as the characters with its codes.  Equality of
  values is structural; the code compares only identifiers, names, paths and keys with it, where
  it agrees with Python's.
\<close>

section \<open>Values\<close>

datatype json =
    JNull
  | JBool bool
  | JInt int
  | JFloat string
  | JStr string
  | JBytes string
  | JList "json list"
  | JDict "(string \<times> json) list"

type_synonym pydict = "(string \<times> json) list"

section \<open>Dictionaries\<close>

definition dget :: "pydict \<Rightarrow> string \<Rightarrow> json" where
  "dget d k = (case map_of d k of None \<Rightarrow> JNull | Some v \<Rightarrow> v)"

definition dget_default :: "pydict \<Rightarrow> string \<Rightarrow> json \<Rightarrow> json" where
  "dget_default d k v0 = (case map_of d k of None \<Rightarrow> v0 | Some v \<Rightarrow> v)"

definition dhas :: "pydict \<Rightarrow> string \<Rightarrow> bool" where
  "dhas d k = (map_of d k \<noteq> None)"

text \<open>\<open>d[k]\<close> raises \<open>KeyError\<close> where the key is missing.\<close>

definition dindex :: "pydict \<Rightarrow> string \<Rightarrow> json res" where
  "dindex d k = (case map_of d k of None \<Rightarrow> Inl KeyError | Some v \<Rightarrow> Inr v)"

definition dset :: "string \<Rightarrow> json \<Rightarrow> pydict \<Rightarrow> pydict" where
  "dset k v d = AList.update k v d"

definition dupdate :: "pydict \<Rightarrow> pydict \<Rightarrow> pydict" where
  "dupdate d e = fold (\<lambda>(k, v). dset k v) e d"

definition ddel :: "string \<Rightarrow> pydict \<Rightarrow> pydict" where
  "ddel k d = AList.delete k d"

lemma dget_Nil [simp]: "dget [] k = JNull"
  by (simp add: dget_def)

lemma dget_Cons [simp]: "dget ((k', v) # d) k = (if k' = k then v else dget d k)"
  by (auto simp: dget_def)

lemma dget_default_Nil [simp]: "dget_default [] k v0 = v0"
  by (simp add: dget_default_def)

lemma dget_default_Cons [simp]:
  "dget_default ((k', v) # d) k v0 = (if k' = k then v else dget_default d k v0)"
  by (auto simp: dget_default_def)

lemma dget_dset [simp]: "dget (dset k v d) k' = (if k' = k then v else dget d k')"
  by (auto simp: dget_def dset_def update_conv')

lemma dindex_dset [simp]: "dindex (dset k v d) k' = (if k' = k then Inr v else dindex d k')"
  by (auto simp: dindex_def dset_def update_conv')

lemma dhas_dset [simp]: "dhas (dset k v d) k' \<longleftrightarrow> k' = k \<or> dhas d k'"
  by (auto simp: dhas_def dset_def update_conv')

lemma dhas_Nil [simp]: "\<not> dhas [] k"
  by (simp add: dhas_def)

lemma dhas_Cons [simp]: "dhas ((k', v) # d) k \<longleftrightarrow> k' = k \<or> dhas d k"
  by (auto simp: dhas_def)

lemma dget_ddel [simp]: "dget (ddel k d) k' = (if k' = k then JNull else dget d k')"
  by (auto simp: dget_def ddel_def AList.delete_conv')

lemma dindex_Inr_iff: "dindex d k = Inr v \<longleftrightarrow> dhas d k \<and> dget d k = v"
  by (auto simp: dindex_def dhas_def dget_def split: option.splits)

lemma dindex_Inl_iff: "dindex d k = Inl e \<longleftrightarrow> \<not> dhas d k \<and> e = KeyError"
  by (auto simp: dindex_def dhas_def split: option.splits)

lemma dget_not_has: "\<not> dhas d k \<Longrightarrow> dget d k = JNull"
  by (simp add: dhas_def dget_def)

lemma dget_default_has: "dhas d k \<Longrightarrow> dget_default d k v0 = dget d k"
  by (auto simp: dhas_def dget_default_def dget_def)

lemma dget_default_not_has: "\<not> dhas d k \<Longrightarrow> dget_default d k v0 = v0"
  by (auto simp: dhas_def dget_default_def)

lemma dupdate_Nil [simp]: "dupdate d [] = d"
  by (simp add: dupdate_def)

lemma dupdate_Cons [simp]: "dupdate d ((k, v) # e) = dupdate (dset k v d) e"
  by (simp add: dupdate_def)

text \<open>The merged dictionary answers from the second where it has the key (the last entry wins).\<close>

lemma dget_dupdate_other: "\<not> dhas e k \<Longrightarrow> dget (dupdate d e) k = dget d k"
  by (induction e arbitrary: d) auto

lemma dhas_dupdate: "dhas (dupdate d e) k \<longleftrightarrow> dhas d k \<or> dhas e k"
  by (induction e arbitrary: d) auto

lemma dget_dupdate:
  assumes "distinct (map fst e)"
  shows "dget (dupdate d e) k = (if dhas e k then dget e k else dget d k)"
  using assms
proof (induction e arbitrary: d)
  case Nil
  then show ?case by simp
next
  case (Cons p e)
  obtain k' v where p: "p = (k', v)" by (cases p)
  have "\<not> dhas e k'"
    using Cons.prems p by (auto simp: dhas_def map_of_eq_None_iff)
  with Cons p show ?case
    by (auto simp: dget_dupdate_other)
qed

lemma keys_dset: "set (map fst (dset k v d)) = insert k (set (map fst d))"
  by (simp add: dset_def dom_update)

lemma distinct_dset: "distinct (map fst d) \<Longrightarrow> distinct (map fst (dset k v d))"
  by (simp add: dset_def distinct_update)

section \<open>Truth, types and text\<close>

text \<open>\<open>bool(v)\<close>.\<close>

fun truthy :: "json \<Rightarrow> bool" where
  "truthy JNull = False"
| "truthy (JBool b) = b"
| "truthy (JInt i) = (i \<noteq> 0)"
| "truthy (JFloat s) = (s \<noteq> ''0.0'' \<and> s \<noteq> ''-0.0'')"
| "truthy (JStr s) = (s \<noteq> [])"
| "truthy (JBytes s) = (s \<noteq> [])"
| "truthy (JList xs) = (xs \<noteq> [])"
| "truthy (JDict d) = (d \<noteq> [])"

fun is_str :: "json \<Rightarrow> bool" where
  "is_str (JStr _) = True"
| "is_str _ = False"

fun is_list :: "json \<Rightarrow> bool" where
  "is_list (JList _) = True"
| "is_list _ = False"

fun is_dict :: "json \<Rightarrow> bool" where
  "is_dict (JDict _) = True"
| "is_dict _ = False"

fun is_bool :: "json \<Rightarrow> bool" where
  "is_bool (JBool _) = True"
| "is_bool _ = False"

text \<open>\<open>isinstance(v, numbers.Number)\<close>: a bool is a number in Python.\<close>

fun is_number :: "json \<Rightarrow> bool" where
  "is_number (JBool _) = True"
| "is_number (JInt _) = True"
| "is_number (JFloat _) = True"
| "is_number _ = False"

text \<open>\<open>str(v)\<close> and \<open>repr(v)\<close>.\<close>

definition has_char :: "char \<Rightarrow> string \<Rightarrow> bool" where
  "has_char c s = (c \<in> set s)"

definition escape_char :: "char \<Rightarrow> char \<Rightarrow> string" where
  "escape_char q c =
     (if c = q then [CHR 0x5C, c]
      else if c = CHR 0x5C then [CHR 0x5C, CHR 0x5C]
      else if c = CHR 0x0A then [CHR 0x5C, CHR ''n'']
      else if c = CHR 0x0D then [CHR 0x5C, CHR ''r'']
      else if c = CHR 0x09 then [CHR 0x5C, CHR ''t'']
      else [c])"

definition repr_str :: "string \<Rightarrow> string" where
  "repr_str s =
     (let q = (if has_char CHR 0x27 s \<and> \<not> has_char CHR 0x22 s then CHR 0x22 else CHR 0x27)
      in [q] @ concat (map (escape_char q) s) @ [q])"

fun py_repr :: "json \<Rightarrow> string" where
  "py_repr JNull = ''None''"
| "py_repr (JBool b) = (if b then ''True'' else ''False'')"
| "py_repr (JInt i) = int_to_string i"
| "py_repr (JFloat s) = s"
| "py_repr (JStr s) = repr_str s"
| "py_repr (JBytes s) = ''b'' @ repr_str s"
| "py_repr (JList xs) = ''['' @ join_str '', '' (map py_repr xs) @ '']''"
| "py_repr (JDict d) =
     ''{'' @ join_str '', '' (map (\<lambda>(k, v). repr_str k @ '': '' @ py_repr v) d) @ ''}''"

definition py_str :: "json \<Rightarrow> string" where
  "py_str v = (case v of JStr s \<Rightarrow> s | _ \<Rightarrow> py_repr v)"

lemma py_str_JStr [simp]: "py_str (JStr s) = s"
  by (simp add: py_str_def)

text \<open>
  \<open>fmt.format(args)\<close> for templates whose only fields are \<open>{}\<close>: each field takes the next
  argument; a field with no argument left raises \<open>IndexError\<close>; extra arguments are ignored.
\<close>

fun py_format :: "string \<Rightarrow> string list \<Rightarrow> string res" where
  "py_format [] as = Inr []"
| "py_format [c] as = Inr [c]"
| "py_format (c # c' # cs) as =
     (if c = CHR ''{'' \<and> c' = CHR ''}'' then
        (case as of
           [] \<Rightarrow> Inl IndexError
         | a # as' \<Rightarrow> bindR (py_format cs as') (\<lambda>r. Inr (a @ r)))
      else bindR (py_format (c' # cs) as) (\<lambda>r. Inr (c # r)))"

section \<open>The helper list_of (openbadges/verifier/utils.py)\<close>

fun list_of :: "json \<Rightarrow> json list" where
  "list_of JNull = []"
| "list_of (JList xs) = xs"
| "list_of v = [v]"

lemma list_of_idem: "list_of (JList (list_of v)) = list_of v"
  by simp

lemma set_list_of_scalar: "\<not> is_list v \<Longrightarrow> v \<noteq> JNull \<Longrightarrow> list_of v = [v]"
  by (cases v) auto

text \<open>Method access on a value that should be a dictionary: anything else has no \<open>get\<close>.\<close>

fun as_dict :: "json \<Rightarrow> pydict res" where
  "as_dict (JDict d) = Inr d"
| "as_dict _ = Inl AttributeError"

text \<open>\<open>v[k]\<close> with a string key: a dictionary answers, a list or a scalar raises \<open>TypeError\<close>.\<close>

fun subscript :: "json \<Rightarrow> string \<Rightarrow> json res" where
  "subscript (JDict d) k = dindex d k"
| "subscript _ k = Inl TypeError"

text \<open>What iterating over a value yields; \<open>len\<close> and iteration fail on a scalar.\<close>

fun sequence_of :: "json \<Rightarrow> json list res" where
  "sequence_of (JList xs) = Inr xs"
| "sequence_of (JStr s) = Inr (map (\<lambda>c. JStr [c]) s)"
| "sequence_of (JBytes s) = Inr (map (\<lambda>c. JInt (int (of_char c))) s)"
| "sequence_of (JDict d) = Inr (map (JStr \<circ> fst) d)"
| "sequence_of _ = Inl TypeError"

text \<open>\<open>x in container\<close>; a scalar is no container.\<close>

fun py_in :: "json \<Rightarrow> json \<Rightarrow> bool res" where
  "py_in x (JList xs) = Inr (x \<in> set xs)"
| "py_in (JStr s) (JStr t) = Inr (contains_str t s)"
| "py_in (JStr s) (JDict d) = Inr (dhas d s)"
| "py_in x (JDict d) = Inr False"
| "py_in _ _ = Inl TypeError"

end
