(* ===== verification/Verifier_State.thy ===== *)
theory Verifier_State
  imports Py_Value
begin

text \<open>
  The store of the Open Badges verifier (openbadges/verifier/state.py): the user's input, the
  graph of nodes, the task table and the report, with the selectors the other parts read it
  through.  \<open>v_blank\<close> is the module variable \<open>current_node_number\<close> of reducers/graph.py.
\<close>

section \<open>The state\<close>

record vstate =
  v_input :: pydict
  v_graph :: "pydict list"
  v_tasks :: "pydict list"
  v_report :: pydict
  v_blank :: int

definition INITIAL_STATE :: vstate where
  "INITIAL_STATE =
     \<lparr>v_input = [], v_graph = [], v_tasks = [], v_report = [], v_blank = -1\<rparr>"

section \<open>Task selectors\<close>

definition names_task :: "json \<Rightarrow> pydict \<Rightarrow> bool" where
  "names_task prereq pt \<longleftrightarrow> dget pt ''name'' = prereq \<or> dget pt ''task_key'' = prereq"

definition task_is_ready :: "pydict list \<Rightarrow> pydict \<Rightarrow> bool" where
  "task_is_ready tasks task =
     (if truthy (dget task ''complete'') then False
      else list_all
             (\<lambda>prereq.
                let prereq_tasks = filter (names_task prereq) tasks
                in prereq_tasks \<noteq> []
                   \<and> list_all (\<lambda>pt. truthy (dget pt ''complete'')) prereq_tasks)
             (list_of (dget_default task ''prerequisites'' (JList []))))"

definition filter_active_tasks :: "vstate \<Rightarrow> pydict list" where
  "filter_active_tasks state = filter (task_is_ready (v_tasks state)) (v_tasks state)"

definition filter_failed_tasks :: "vstate \<Rightarrow> pydict list" where
  "filter_failed_tasks state =
     filter (\<lambda>t. \<not> truthy (dget t ''success'')) (v_tasks state)"

definition is_reportable :: "pydict \<Rightarrow> bool" where
  "is_reportable t \<longleftrightarrow>
     dget t ''success'' = JBool False \<or> dget t ''messageLevel'' = JStr ''INFO''
     \<or> dget t ''name'' = JStr ''REPORT_MESSAGE''"

definition filter_messages_for_report :: "vstate \<Rightarrow> pydict list" where
  "filter_messages_for_report state = filter is_reportable (v_tasks state)"

definition format_message :: "pydict \<Rightarrow> pydict" where
  "format_message task_meta =
     (let ret0 = [(''name'', dget task_meta ''name''),
                  (''success'', dget_default task_meta ''success'' (JBool False)),
                  (''result'', dget_default task_meta ''result'' (JStr '''')),
                  (''messageLevel'', dget_default task_meta ''messageLevel'' (JStr ''ERROR''))];
          ret1 = (if truthy (dget task_meta ''node_id'')
                  then dset ''node_id'' (dget task_meta ''node_id'') ret0 else ret0);
          ret2 = (if truthy (dget task_meta ''prop_name'')
                  then dset ''prop_name'' (dget task_meta ''prop_name'') ret1 else ret1)
      in if \<not> truthy (dget task_meta ''complete'') \<and> \<not> truthy (dget ret2 ''result'')
         then dset ''result'' (JStr ''Task could not execute.'') ret2
         else ret2)"

section \<open>Graph selectors\<close>

definition has_node_id :: "json \<Rightarrow> pydict \<Rightarrow> bool" where
  "has_node_id node_id node \<longleftrightarrow> dget node ''id'' = node_id"

definition get_node_by_id :: "vstate \<Rightarrow> json \<Rightarrow> pydict res" where
  "get_node_by_id state node_id =
     first_or_index_error (filter (has_node_id node_id) (v_graph state))"

text \<open>\<open>xs[i]\<close> on a list: negative indices count from the end, a bool is an int.\<close>

definition list_at :: "json list \<Rightarrow> int \<Rightarrow> json res" where
  "list_at xs i =
     (let k = (if 0 \<le> i then i else i + int (length xs))
      in if k < 0 \<or> int (length xs) \<le> k then Inl IndexError else Inr (xs ! nat k))"

fun list_index :: "json list \<Rightarrow> json \<Rightarrow> json res" where
  "list_index xs (JInt i) = list_at xs i"
| "list_index xs (JBool b) = list_at xs (if b then 1 else 0)"
| "list_index xs _ = Inl TypeError"

fun expect_str :: "json \<Rightarrow> string res" where
  "expect_str (JStr s) = Inr s"
| "expect_str _ = Inl TypeError"

text \<open>
  Where a walk goes on from a value: a dictionary is walked into, anything else names a node of
  the graph.
\<close>

fun node_of :: "vstate \<Rightarrow> json \<Rightarrow> pydict res" where
  "node_of state (JDict d) = Inr d"
| "node_of state v = get_node_by_id state v"

text \<open>
  The loop of \<open>get_node_by_path\<close>, standing at \<open>node\<close> with the rest of the path.  Running out of
  path (\<open>StopIteration\<close>) returns the dictionary or list reached.
\<close>

fun walk_path :: "vstate \<Rightarrow> pydict \<Rightarrow> json list \<Rightarrow> json res" where
  "walk_path state node [] = Inr (JDict node)"
| "walk_path state node (p # rest) =
     bindR (expect_str p) (\<lambda>prop_name.
     bindR (dindex node prop_name) (\<lambda>val.
       if is_list val then
         (case rest of
            [] \<Rightarrow> Inr val
          | i # rest' \<Rightarrow>
              bindR (list_index (list_of val) i) (\<lambda>v.
              bindR (node_of state v) (\<lambda>n. walk_path state n rest')))
       else bindR (node_of state val) (\<lambda>n. walk_path state n rest)))"

definition get_node_by_path :: "vstate \<Rightarrow> json list \<Rightarrow> json res" where
  "get_node_by_path state node_path =
     (case node_path of
        [] \<Rightarrow> Inl IndexError
      | p # rest \<Rightarrow> bindR (get_node_by_id state p) (\<lambda>node. walk_path state node rest))"

text \<open>The path as tasks carry it: \<open>len(None)\<close> raises \<open>TypeError\<close>.\<close>

definition get_node_at :: "vstate \<Rightarrow> json \<Rightarrow> json res" where
  "get_node_at state node_path = bindR (sequence_of node_path) (get_node_by_path state)"

definition node_match_exists :: "vstate \<Rightarrow> json \<Rightarrow> bool" where
  "node_match_exists state node_id =
     (case get_node_by_id state node_id of Inl _ \<Rightarrow> False | Inr _ \<Rightarrow> True)"

section \<open>Lemmas on the selectors\<close>

lemma get_node_by_id_Inr:
  "get_node_by_id s i = Inr n \<Longrightarrow> n \<in> set (v_graph s) \<and> dget n ''id'' = i"
  by (auto simp: get_node_by_id_def has_node_id_def dest: first_filter_Inr)

lemma get_node_by_id_Inl:
  "get_node_by_id s i = Inl e \<longleftrightarrow>
     e = IndexError \<and> (\<forall>n \<in> set (v_graph s). dget n ''id'' \<noteq> i)"
  by (simp add: get_node_by_id_def first_filter_Inl has_node_id_def)

lemma node_match_exists_iff:
  "node_match_exists s i \<longleftrightarrow> (\<exists>n \<in> set (v_graph s). dget n ''id'' = i)"
proof (cases "get_node_by_id s i")
  case (Inl e)
  then have "\<forall>n \<in> set (v_graph s). dget n ''id'' \<noteq> i"
    by (simp add: get_node_by_id_Inl)
  with Inl show ?thesis by (auto simp: node_match_exists_def)
next
  case (Inr n)
  then show ?thesis by (auto simp: node_match_exists_def dest: get_node_by_id_Inr)
qed

lemma list_at_Inl: "list_at xs i = Inl e \<Longrightarrow> e = IndexError"
  by (auto simp: list_at_def Let_def split: if_splits)

lemma list_index_Inl: "list_index xs v = Inl e \<Longrightarrow> e \<in> {IndexError, TypeError}"
  by (cases v) (auto dest: list_at_Inl)

lemma list_at_Inr: "list_at xs i = Inr v \<Longrightarrow> v \<in> set xs"
  by (auto simp: list_at_def Let_def split: if_splits)

text \<open>A task is handed out exactly when it is open and everything it waits for is done.\<close>

lemma in_filter_active_tasks:
  "t \<in> set (filter_active_tasks s) \<longleftrightarrow>
     t \<in> set (v_tasks s) \<and> \<not> truthy (dget t ''complete'')
     \<and> (\<forall>p \<in> set (list_of (dget_default t ''prerequisites'' (JList []))).
          (\<exists>pt \<in> set (v_tasks s). names_task p pt)
          \<and> (\<forall>pt \<in> set (v_tasks s). names_task p pt \<longrightarrow> truthy (dget pt ''complete'')))"
  by (auto simp: filter_active_tasks_def task_is_ready_def list_all_iff Let_def filter_empty_conv)

lemma expect_str_Inl: "expect_str v = Inl e \<Longrightarrow> e = TypeError"
  by (cases v) auto

lemma node_of_Inl: "node_of s v = Inl e \<Longrightarrow> e = IndexError"
  by (cases v) (auto simp: get_node_by_id_Inl)

lemma walk_path_container: "walk_path s n p = Inr v \<Longrightarrow> is_dict v \<or> is_list v"
proof (induction s n p rule: walk_path.induct)
  case (1 state node)
  then show ?case by auto
next
  case (2 state node p rest)
  from "2.prems" obtain k val where k: "expect_str p = Inr k" and val: "dindex node k = Inr val"
    by (auto simp: bindR_Inr_iff)
  with "2.prems" "2.IH" [OF k val] show ?case
    by (cases rest) (auto simp: bindR_Inr_iff split: if_splits)
qed

lemma walk_path_errors: "walk_path s n p = Inl e \<Longrightarrow> e \<in> {KeyError, IndexError, TypeError}"
proof (induction s n p rule: walk_path.induct)
  case (1 state node)
  then show ?case by auto
next
  case (2 state node p rest)
  show ?case
  proof (cases "expect_str p")
    case (Inl e')
    with "2.prems" show ?thesis by (auto dest: expect_str_Inl)
  next
    case k: (Inr k)
    show ?thesis
    proof (cases "dindex node k")
      case (Inl e')
      with k "2.prems" show ?thesis by (auto simp: dindex_Inl_iff)
    next
      case (Inr val)
      with k "2.prems" "2.IH" [OF k Inr] show ?thesis
        by (cases rest)
          (auto simp: bindR_Inl_iff split: if_splits dest: list_index_Inl node_of_Inl)
    qed
  qed
qed

lemma get_node_by_path_single:
  "get_node_by_path s [i] = bindR (get_node_by_id s i) (\<lambda>n. Inr (JDict n))"
  by (simp add: get_node_by_path_def)

end
