(* ===== verification/Verifier_Actions.thy ===== *)
theory Verifier_Actions
  imports Py_Value
begin

text \<open>
  The names of tasks (openbadges/verifier/tasks/task_types.py) and the action creators
  (openbadges/verifier/actions/).  An action is a dictionary whose \<open>type\<close> selects the reducer
  branch.  A creator that checks its argument returns a result; where a caller passes a literal
  that passes the check, it uses the dictionary (\<open>task_action\<close>, \<open>message_action\<close>, ...) directly.
  The key \<open>generate_task_key\<close> draws (a random UUID) is an argument.
\<close>

section \<open>Task names\<close>

definition UPGRADE_TASKS :: "string list" where
  "UPGRADE_TASKS = [''UPGRADE_0_5_NODE'', ''UPGRADE_1_0_NODE'', ''UPGRADE_1_1_NODE'']"

definition CLASS_VALIDATION_TASKS :: "string list" where
  "CLASS_VALIDATION_TASKS =
     [''ASSERTION_TIMESTAMP_CHECKS'', ''ASSERTION_VERIFICATION_CHECK'',
      ''ASSERTION_VERIFICATION_DEPENDENCIES'', ''CRITERIA_PROPERTY_DEPENDENCIES'',
      ''FLATTEN_EMBEDDED_RESOURCE'', ''IDENTITY_OBJECT_PROPERTY_DEPENDENCIES'',
      ''IMAGE_VALIDATION'', ''ISSUER_PROPERTY_DEPENDENCIES'',
      ''VALIDATE_REVOCATIONLIST_ENTRIES'', ''VERIFY_RECIPIENT_IDENTIFIER'']"

text \<open>The task names of the module, in its order.\<close>

definition task_types :: "string list" where
  "task_types =
     [''DETECT_INPUT_TYPE'', ''PROCESS_BAKED_RESOURCE'',
      ''FETCH_HTTP_NODE'', ''INTAKE_JSON'', ''JSONLD_COMPACT_DATA'', ''PROCESS_JWS_INPUT'',
      ''UPGRADE_0_5_NODE'', ''UPGRADE_1_0_NODE'', ''UPGRADE_1_1_NODE'',
      ''DETECT_AND_VALIDATE_NODE_CLASS'', ''VALIDATE_EXPECTED_NODE_CLASS'',
      ''VALIDATE_RDF_TYPE_PROPERTY'', ''VALIDATE_PROPERTY'',
      ''ASSERTION_TIMESTAMP_CHECKS'', ''ASSERTION_VERIFICATION_CHECK'',
      ''ASSERTION_VERIFICATION_DEPENDENCIES'', ''CRITERIA_PROPERTY_DEPENDENCIES'',
      ''FLATTEN_EMBEDDED_RESOURCE'', ''IDENTITY_OBJECT_PROPERTY_DEPENDENCIES'',
      ''IMAGE_VALIDATION'', ''ISSUER_PROPERTY_DEPENDENCIES'', ''VALIDATE_EXTENSION_NODE'',
      ''VALIDATE_EXTENSION_SINGLE'', ''VALIDATE_REVOCATIONLIST_ENTRIES'', ''VERIFY_JWS'',
      ''VERIFY_KEY_OWNERSHIP'',
      ''HOSTED_ID_IN_VERIFICATION_SCOPE'', ''VERIFY_RECIPIENT_IDENTIFIER'',
      ''VERIFY_SIGNED_ASSERTION_NOT_REVOKED'', ''SIGNING_KEY_FETCHED'']"

text \<open>What \<open>dir(task_types)\<close> lists: the names, the two tuples of names, the module attributes.\<close>

definition known_task_names :: "string list" where
  "known_task_names =
     task_types @ [''UPGRADE_TASKS'', ''CLASS_VALIDATION_TASKS'', ''__builtins__'', ''__cached__'',
      ''__doc__'', ''__file__'', ''__loader__'', ''__name__'', ''__package__'', ''__spec__'']"

section \<open>Task actions (actions/tasks.py)\<close>

definition task_action :: "string \<Rightarrow> string \<Rightarrow> pydict \<Rightarrow> pydict" where
  "task_action key task_name kwargs =
     dupdate
       [(''type'', JStr ''ADD_TASK''), (''name'', JStr task_name),
        (''task_key'', dget_default kwargs ''task_key'' (JStr key))]
       kwargs"

definition add_task :: "string \<Rightarrow> string \<Rightarrow> pydict \<Rightarrow> pydict res" where
  "add_task key task_name kwargs =
     (if task_name \<in> set known_task_names then Inr (task_action key task_name kwargs)
      else Inl AssertionError)"

definition resolve_task :: "json \<Rightarrow> json \<Rightarrow> json \<Rightarrow> pydict" where
  "resolve_task task_id success result =
     [(''type'', JStr ''RESOLVE_TASK''), (''task_id'', task_id),
      (''success'', success), (''result'', result)]"

definition trigger_condition :: "json \<Rightarrow> json \<Rightarrow> pydict" where
  "trigger_condition condition_key result =
     [(''type'', JStr ''TRIGGER_CONDITION''), (''name'', condition_key),
      (''success'', JBool True), (''result'', result)]"

definition delete_outdated_node_tasks :: "json \<Rightarrow> pydict" where
  "delete_outdated_node_tasks node_id =
     [(''type'', JStr ''DELETE_OUTDATED_NODE_TASKS''), (''node_id'', node_id)]"

definition delete_task :: "json \<Rightarrow> pydict" where
  "delete_task task_id = [(''type'', JStr ''DELETE_TASK''), (''task_id'', task_id)]"

definition update_task :: "json \<Rightarrow> string \<Rightarrow> pydict \<Rightarrow> pydict res" where
  "update_task task_id task_name kwargs =
     (if task_name \<in> set known_task_names
      then Inr (dupdate [(''type'', JStr ''UPDATE_TASK''), (''task_id'', task_id),
                         (''name'', JStr task_name)] kwargs)
      else Inl AssertionError)"

definition MESSAGE_LEVELS :: "string list" where
  "MESSAGE_LEVELS = [''ERROR'', ''WARNING'', ''INFO'']"

definition message_action :: "string \<Rightarrow> string \<Rightarrow> bool \<Rightarrow> pydict" where
  "message_action msg message_level success =
     [(''type'', JStr ''REPORT_MESSAGE''), (''message'', JStr msg),
      (''messageLevel'', JStr message_level), (''success'', JBool success)]"

definition report_message :: "string \<Rightarrow> string \<Rightarrow> bool \<Rightarrow> pydict res" where
  "report_message msg message_level success =
     (if message_level \<in> set MESSAGE_LEVELS then Inr (message_action msg message_level success)
      else Inl TypeError)"

section \<open>Graph actions (actions/graph.py)\<close>

text \<open>\<open>data=None\<close> is replaced by an empty dictionary.\<close>

definition add_node :: "json \<Rightarrow> json \<Rightarrow> pydict" where
  "add_node node_id data =
     [(''type'', JStr ''ADD_NODE''), (''node_id'', node_id),
      (''data'', if data = JNull then JDict [] else data)]"

definition update_node :: "json \<Rightarrow> json \<Rightarrow> pydict" where
  "update_node node_id data =
     [(''type'', JStr ''UPDATE_NODE''), (''node_id'', node_id), (''data'', data)]"

definition patch_node :: "json \<Rightarrow> pydict \<Rightarrow> pydict" where
  "patch_node node_id data = dset ''type'' (JStr ''PATCH_NODE'') (update_node node_id (JDict data))"

definition patch_node_reference :: "json \<Rightarrow> json \<Rightarrow> pydict" where
  "patch_node_reference node_path new_id =
     [(''type'', JStr ''PATCH_NODE_REFERENCE''), (''node_path'', node_path), (''new_id'', new_id)]"

section \<open>Input actions (actions/input.py)\<close>

definition store_input :: "json \<Rightarrow> pydict" where
  "store_input badge_input = [(''type'', JStr ''STORE_INPUT''), (''input'', badge_input)]"

definition input_type_action :: "string \<Rightarrow> pydict" where
  "input_type_action type_string =
     [(''type'', JStr ''SET_INPUT_TYPE''), (''input_type'', JStr type_string)]"

definition set_input_type :: "string \<Rightarrow> pydict res" where
  "set_input_type type_string =
     (if type_string \<in> {''file'', ''json'', ''jws'', ''url''}
      then Inr (input_type_action type_string) else Inl TypeError)"

definition store_expected_profile_id :: "json \<Rightarrow> pydict" where
  "store_expected_profile_id profile_id =
     [(''type'', JStr ''SET_PROFILE_ID''), (''node_id'', profile_id)]"

definition store_original_resource :: "json \<Rightarrow> json \<Rightarrow> pydict" where
  "store_original_resource node_id data =
     [(''type'', JStr ''STORE_ORIGINAL_JSON''), (''data'', data), (''file'', JNull),
      (''node_id'', node_id)]"

section \<open>Report actions (actions/validation\_report.py)\<close>

definition run_validation_report :: pydict where
  "run_validation_report = [(''type'', JStr ''RUN_VALIDATION_REPORT'')]"

definition version_action :: "string \<Rightarrow> pydict" where
  "version_action version_string =
     [(''type'', JStr ''SET_OPENBADGES_VERSION''), (''version'', JStr version_string)]"

definition set_openbadges_version :: "string \<Rightarrow> pydict res" where
  "set_openbadges_version version_string =
     (if version_string \<in> {''0.5'', ''1.0'', ''1.1'', ''2.0''}
      then Inr (version_action version_string) else Inl ValueError)"

definition set_validation_subject :: "json \<Rightarrow> pydict" where
  "set_validation_subject node_id =
     [(''type'', JStr ''SET_VALIDATION_SUBJECT''), (''node_id'', node_id)]"

definition set_verified_recipient_profile :: "json \<Rightarrow> json \<Rightarrow> pydict" where
  "set_verified_recipient_profile id_type confirmed_id =
     [(''type'', JStr ''SET_VERIFIED_PROFILE''), (''identityType'', id_type),
      (''identityValue'', confirmed_id)]"

section \<open>Facts on the creators\<close>

lemma dget_update_node: "dget (update_node i d) k =
   (if k = ''type'' then JStr ''UPDATE_NODE'' else if k = ''node_id'' then i
    else if k = ''data'' then d else JNull)"
  by (simp add: update_node_def)

lemma dget_patch_node: "dget (patch_node i d) k =
   (if k = ''type'' then JStr ''PATCH_NODE'' else if k = ''node_id'' then i
    else if k = ''data'' then JDict d else JNull)"
  by (simp add: patch_node_def dget_update_node)

lemma task_action_name:
  "\<not> dhas kw ''name'' \<Longrightarrow> dget (task_action key n kw) ''name'' = JStr n"
  by (simp add: task_action_def dget_dupdate_other)

lemma task_action_type:
  "\<not> dhas kw ''type'' \<Longrightarrow> dget (task_action key n kw) ''type'' = JStr ''ADD_TASK''"
  by (simp add: task_action_def dget_dupdate_other)

lemma add_task_known:
  "n \<in> set known_task_names \<Longrightarrow> add_task key n kw = Inr (task_action key n kw)"
  by (simp add: add_task_def)

lemma upgrade_tasks_known: "set UPGRADE_TASKS \<subseteq> set task_types"
  by (simp add: UPGRADE_TASKS_def task_types_def)

lemma class_validation_tasks_known: "set CLASS_VALIDATION_TASKS \<subseteq> set task_types"
  by (simp add: CLASS_VALIDATION_TASKS_def task_types_def)

lemma task_types_distinct: "distinct task_types"
  by (simp add: task_types_def)

end
