(* ===== verification/Verifier_Reducers.thy ===== *)
theory Verifier_Reducers
  imports Verifier_State Verifier_Actions
begin

text \<open>
  The reducers (openbadges/verifier/reducers/): how each action changes the four parts of the
  store, and \<open>dispatch\<close>, which applies them all (pydux's \<open>combine_reducers\<close>) or leaves the store
  as it was when one of them raises.
\<close>

section \<open>Input (reducers/input.py)\<close>

definition input_reducer :: "pydict \<Rightarrow> pydict \<Rightarrow> pydict res" where
  "input_reducer state action =
     (if dget action ''type'' = JStr ''STORE_INPUT''
      then Inr (dset ''value'' (dget action ''input'') state)
      else if dget action ''type'' = JStr ''SET_INPUT_TYPE''
      then Inr (dset ''input_type'' (dget action ''input_type'') state)
      else if dget action ''type'' = JStr ''STORE_ORIGINAL_JSON'' then
        bindR (dindex action ''node_id'') (\<lambda>node_id.
        bindR (expect_str node_id) (\<lambda>key.
          case dget_default state ''original_json'' (JDict []) of
            JDict original_json \<Rightarrow>
              Inr (dset ''original_json'' (JDict (dset key (dget action ''data'') original_json)) state)
          | _ \<Rightarrow> Inl TypeError))
      else Inr state)"

section \<open>Graph (reducers/graph.py)\<close>

definition blank_node_id :: "int \<Rightarrow> string" where
  "blank_node_id n = ''_:b'' @ int_to_string n"

text \<open>
  \<open>get_node_by_id\<close> over the list of nodes; \<open>[n for n in state if n is not existing]\<close> drops the
  one object found.
\<close>

definition find_node :: "pydict list \<Rightarrow> json \<Rightarrow> pydict res" where
  "find_node nodes node_id = first_or_index_error (filter (has_node_id node_id) nodes)"

definition replace_node :: "json \<Rightarrow> pydict \<Rightarrow> pydict list \<Rightarrow> pydict list" where
  "replace_node node_id updated nodes = remove_first (has_node_id node_id) nodes @ [updated]"

definition add_node_reducer :: "int \<Rightarrow> pydict list \<Rightarrow> pydict \<Rightarrow> (int \<times> pydict list) res" where
  "add_node_reducer blank state action =
     bindR (as_dict (dget action ''data'')) (\<lambda>new_node.
       if truthy (dget new_node ''id'') then Inr (blank, state @ [new_node])
       else
         let next_blank = blank + 1
         in Inr (next_blank,
                 state @ [dset ''id'' (dget_default action ''node_id''
                                         (JStr (blank_node_id next_blank))) new_node]))"

definition patch_reference_reducer :: "pydict list \<Rightarrow> pydict \<Rightarrow> pydict list res" where
  "patch_reference_reducer state action =
     bindR (dindex action ''node_path'') (\<lambda>path.
     bindR (dindex action ''new_id'') (\<lambda>new_node_id.
       case path of
         JList node_path \<Rightarrow>
           (case node_path of
              [] \<Rightarrow> Inr state
            | p # rest \<Rightarrow>
                (case find_node state p of
                   Inl _ \<Rightarrow> Inr state
                 | Inr existing_node \<Rightarrow>
                     if length node_path > 2 then Inl NotImplementedError
                     else
                       (case rest of
                          [] \<Rightarrow> Inr state
                        | prop # _ \<Rightarrow>
                            bindR (expect_str prop) (\<lambda>k.
                              Inr (replace_node p (dset k new_node_id existing_node) state)))))
       | _ \<Rightarrow> Inl TypeError))"

definition graph_reducer :: "int \<Rightarrow> pydict list \<Rightarrow> pydict \<Rightarrow> (int \<times> pydict list) res" where
  "graph_reducer blank state action =
     (let atype = dget action ''type''; node_id = dget action ''node_id'' in
      if atype = JStr ''ADD_NODE'' then add_node_reducer blank state action
      else if atype = JStr ''UPDATE_NODE'' then
        bindR (find_node state node_id) (\<lambda>_.
        bindR (as_dict (dget action ''data'')) (\<lambda>updated_node.
          Inr (blank, replace_node node_id updated_node state)))
      else if atype = JStr ''PATCH_NODE'' then
        (case find_node state node_id of
           Inl _ \<Rightarrow> Inr (blank, state)
         | Inr existing_node \<Rightarrow>
             (case dget action ''data'' of
                JDict patch \<Rightarrow>
                  Inr (blank, replace_node node_id (dupdate existing_node patch) state)
              | _ \<Rightarrow> Inl TypeError))
      else if atype = JStr ''PATCH_NODE_REFERENCE'' then
        bindR (patch_reference_reducer state action) (\<lambda>state'. Inr (blank, state'))
      else Inr (blank, state))"

section \<open>Tasks (reducers/tasks.py)\<close>

definition same_field :: "string \<Rightarrow> pydict \<Rightarrow> pydict \<Rightarrow> bool" where
  "same_field k a t \<longleftrightarrow> dget a k = dget t k"

definition task_to_add_exists :: "pydict list \<Rightarrow> pydict \<Rightarrow> bool" where
  "task_to_add_exists state action =
     (let name = dget action ''name'' in
      if name = JStr ''VALIDATE_EXPECTED_NODE_CLASS'' then
        list_ex (\<lambda>t. same_field ''name'' action t \<and> same_field ''node_id'' action t
                     \<and> same_field ''node_path'' action t) state
      else if name = JStr ''VALIDATE_PROPERTY'' \<or> name = JStr ''VALIDATE_RDF_TYPE_PROPERTY'' then
        list_ex (\<lambda>t. same_field ''node_id'' action t \<and> same_field ''node_path'' action t
                     \<and> same_field ''prop_name'' action t) state
      else if name = JStr ''FETCH_HTTP_NODE'' then list_ex (same_field ''url'' action) state
      else False)"

text \<open>\<open>state[-1]['task_id'] + 1\<close>: numbers from 1 on an empty table.\<close>

definition task_id_of :: "pydict \<Rightarrow> int" where
  "task_id_of t = (case dget t ''task_id'' of JInt i \<Rightarrow> i | _ \<Rightarrow> 0)"

definition next_task_id :: "pydict list \<Rightarrow> int res" where
  "next_task_id state =
     (if state = [] then Inr 1
      else bindR (dindex (last state) ''task_id'')
             (\<lambda>v. case v of JInt i \<Rightarrow> Inr (i + 1) | JBool b \<Rightarrow> Inr (if b then 2 else 1)
                  | _ \<Rightarrow> Inl TypeError))"

text \<open>The keys of the action other than \<open>dropped\<close>, copied into a dictionary in order.\<close>

definition copy_keys :: "string list \<Rightarrow> pydict \<Rightarrow> pydict \<Rightarrow> pydict" where
  "copy_keys dropped action d = dupdate d (filter (\<lambda>p. fst p \<notin> set dropped) action)"

definition new_task_entry :: "int \<Rightarrow> pydict \<Rightarrow> pydict" where
  "new_task_entry task_counter action =
     copy_keys [''type''] action [(''task_id'', JInt task_counter), (''complete'', JBool False)]"

definition new_state_with_updated_item :: "pydict list \<Rightarrow> json \<Rightarrow> pydict \<Rightarrow> pydict list" where
  "new_state_with_updated_item state item_id update =
     map (\<lambda>t. if item_id \<noteq> dget t ''task_id'' then t else update) state"

text \<open>
  \<open>[t for t in state if t['task_id'] == action['task_id']][0]\<close> under \<open>except KeyError\<close>: an entry or an
  action without \<open>task_id\<close> gives up quietly (\<open>Inr None\<close>), but no match raises \<open>IndexError\<close>.
\<close>

definition task_by_action_id :: "pydict list \<Rightarrow> pydict \<Rightarrow> pydict option res" where
  "task_by_action_id state action =
     (if state \<noteq> [] \<and> (\<not> dhas action ''task_id'' \<or> \<not> list_all (\<lambda>t. dhas t ''task_id'') state)
      then Inr None
      else bindR (first_or_index_error
                    (filter (\<lambda>t. dget t ''task_id'' = dget action ''task_id'') state))
             (\<lambda>t. Inr (Some t)))"

definition resolved_entry :: "pydict \<Rightarrow> pydict \<Rightarrow> pydict" where
  "resolved_entry action task =
     dupdate task [(''complete'', JBool True), (''success'', dget action ''success''),
                   (''result'', dget action ''result'')]"

definition report_entry :: "int \<Rightarrow> pydict \<Rightarrow> pydict" where
  "report_entry task_counter action =
     [(''task_id'', JInt task_counter), (''name'', JStr ''REPORT_MESSAGE''),
      (''complete'', JBool True), (''success'', dget_default action ''success'' (JBool True)),
      (''result'', dget action ''message''),
      (''messageLevel'', dget_default action ''messageLevel'' (JStr ''INFO''))]"

definition trigger_entry :: "int \<Rightarrow> pydict \<Rightarrow> pydict" where
  "trigger_entry task_counter action =
     [(''task_id'', JInt task_counter), (''complete'', JBool True), (''name'', dget action ''name''),
      (''success'', dget_default action ''success'' (JBool True)),
      (''result'', dget action ''message'')]"

definition is_outdated :: "json \<Rightarrow> pydict \<Rightarrow> bool" where
  "is_outdated node_id t \<longleftrightarrow>
     dget t ''node_id'' = node_id \<and> dget t ''name'' \<in> JStr ` set UPGRADE_TASKS"

definition task_reducer :: "pydict list \<Rightarrow> pydict \<Rightarrow> pydict list res" where
  "task_reducer state action =
     bindR (next_task_id state) (\<lambda>task_counter.
       let atype = dget action ''type'' in
       if atype = JStr ''ADD_TASK'' \<and> \<not> task_to_add_exists state action
       then Inr (state @ [new_task_entry task_counter action])
       else if atype = JStr ''RESOLVE_TASK'' then
         bindR (task_by_action_id state action) (\<lambda>found.
           case found of
             None \<Rightarrow> Inr state
           | Some task \<Rightarrow>
               Inr (new_state_with_updated_item state (dget action ''task_id'')
                      (resolved_entry action task)))
       else if atype = JStr ''UPDATE_TASK'' then
         bindR (task_by_action_id state action) (\<lambda>found.
           case found of
             None \<Rightarrow> Inr state
           | Some task \<Rightarrow>
               Inr (new_state_with_updated_item state (dget action ''task_id'')
                      (copy_keys [''type'', ''task_id''] action task)))
       else if atype = JStr ''REPORT_MESSAGE'' then
         Inr (state @ [report_entry task_counter action])
       else if atype = JStr ''TRIGGER_CONDITION'' then
         Inr (state @ [trigger_entry task_counter action])
       else if atype = JStr ''DELETE_OUTDATED_NODE_TASKS'' then
         Inr (filter (\<lambda>t. \<not> is_outdated (dget_default action ''node_id'' (JStr ''UNKNOWN'')) t) state)
       else Inr state)"

section \<open>Report (reducers/verification\_report.py)\<close>

definition verification_report_reducer :: "pydict \<Rightarrow> pydict \<Rightarrow> pydict res" where
  "verification_report_reducer state action =
     (let atype = dget action ''type'' in
      if atype = JStr ''RUN_VALIDATION_REPORT'' then Inr state
      else if atype = JStr ''SET_OPENBADGES_VERSION''
      then Inr (dset ''openBadgesVersion'' (dget action ''version'') state)
      else if atype = JStr ''SET_VALIDATION_SUBJECT''
      then Inr (dset ''validationSubject'' (dget action ''node_id'') state)
      else if atype = JStr ''SET_VERIFIED_PROFILE'' then
        (case dget_default action ''identityType'' (JStr ''email'') of
           JStr k \<Rightarrow> Inr (dset ''recipientProfile'' (JDict [(k, dget action ''identityValue'')]) state)
         | _ \<Rightarrow> Inl TypeError)
      else Inr state)"

section \<open>All of them (reducers/\_\_init\_\_.py)\<close>

definition dispatch :: "pydict \<Rightarrow> vstate \<Rightarrow> vstate res" where
  "dispatch action s =
     bindR (input_reducer (v_input s) action) (\<lambda>inp.
     bindR (graph_reducer (v_blank s) (v_graph s) action) (\<lambda>(blank, graph).
     bindR (task_reducer (v_tasks s) action) (\<lambda>tasks.
     bindR (verification_report_reducer (v_report s) action) (\<lambda>report.
       Inr \<lparr>v_input = inp, v_graph = graph, v_tasks = tasks, v_report = report,
            v_blank = blank\<rparr>))))"

definition dispatch_all :: "pydict list \<Rightarrow> vstate \<Rightarrow> vstate res" where
  "dispatch_all actions s = foldR dispatch actions s"

end
