(* ===== verification/Verifier_Invariants.thy ===== *)
theory Verifier_Invariants
  imports Verifier_Reducers
begin

text \<open>
  What the store keeps under every action: the task table is numbered by strictly increasing
  ids, a resolved task stays resolved, duplicates of the deduplicated kinds are not added, a
  patched node replaces exactly one node.  The interface the engine relies on is the locale
  \<open>settled_store\<close>: an invariant and a family of facts (``task i is settled'') that every
  admissible action keeps; its client lemmas lift them to runs of actions.
\<close>

section \<open>Well-formed task tables\<close>

definition wf_task :: "pydict \<Rightarrow> bool" where
  "wf_task t \<longleftrightarrow> (\<exists>i. 1 \<le> i \<and> dget t ''task_id'' = JInt i)"

definition wf_tasks :: "pydict list \<Rightarrow> bool" where
  "wf_tasks ts \<longleftrightarrow> (\<forall>t \<in> set ts. wf_task t) \<and> increasing task_id_of ts"

text \<open>The actions a task may return: no task numbers of its own choosing, no resolution or update.\<close>

definition wf_action :: "pydict \<Rightarrow> bool" where
  "wf_action a \<longleftrightarrow>
     distinct (map fst a)
     \<and> (dget a ''type'' = JStr ''ADD_TASK'' \<longrightarrow> \<not> dhas a ''task_id'')
     \<and> dget a ''type'' \<noteq> JStr ''UPDATE_TASK'' \<and> dget a ''type'' \<noteq> JStr ''RESOLVE_TASK''"

lemma wf_tasks_Nil [simp, intro]: "wf_tasks []"
  by (simp add: wf_tasks_def)

lemma wf_task_has_id: "wf_task t \<Longrightarrow> dhas t ''task_id''"
  by (auto simp: wf_task_def dhas_def dget_def split: option.splits)

lemma wf_task_id: "wf_task t \<Longrightarrow> dget t ''task_id'' = JInt (task_id_of t) \<and> 1 \<le> task_id_of t"
  by (auto simp: wf_task_def task_id_of_def)

lemma wf_tasks_same_id:
  "wf_tasks ts \<Longrightarrow> t \<in> set ts \<Longrightarrow> u \<in> set ts \<Longrightarrow> task_id_of t = task_id_of u \<Longrightarrow> t = u"
  by (auto simp: wf_tasks_def intro: increasing_inj)

lemma next_task_id_wf:
  assumes "wf_tasks ts" and "next_task_id ts = Inr n"
  shows "1 \<le> n \<and> (\<forall>t \<in> set ts. task_id_of t < n)"
proof (cases "ts = []")
  case True
  with assms show ?thesis by (simp add: next_task_id_def)
next
  case False
  then have l: "last ts \<in> set ts" by simp
  with assms(1) have wl: "wf_task (last ts)" by (simp add: wf_tasks_def)
  then have "dindex (last ts) ''task_id'' = Inr (JInt (task_id_of (last ts)))"
    using wf_task_id [OF wl] wf_task_has_id [OF wl] by (simp add: dindex_Inr_iff)
  with assms(2) False have n: "n = task_id_of (last ts) + 1"
    by (simp add: next_task_id_def)
  have "\<forall>t \<in> set ts. task_id_of t \<le> task_id_of (last ts)"
    using assms(1) by (auto simp: wf_tasks_def intro: increasing_last_max)
  with n wf_task_id [OF wl] show ?thesis by fastforce
qed

lemma next_task_id_total: "wf_tasks ts \<Longrightarrow> \<exists>n. next_task_id ts = Inr n"
proof (cases "ts = []")
  case False
  assume "wf_tasks ts"
  with False have wl: "wf_task (last ts)" by (simp add: wf_tasks_def)
  then have "dindex (last ts) ''task_id'' = Inr (JInt (task_id_of (last ts)))"
    using wf_task_id [OF wl] wf_task_has_id [OF wl] by (simp add: dindex_Inr_iff)
  with False show ?thesis by (simp add: next_task_id_def)
qed (simp add: next_task_id_def)

lemma wf_tasks_snoc:
  assumes "wf_tasks ts" and "next_task_id ts = Inr n" and "dget t ''task_id'' = JInt n"
  shows "wf_tasks (ts @ [t])"
  using assms next_task_id_wf [OF assms(1,2)]
  by (auto simp: wf_tasks_def increasing_snoc wf_task_def task_id_of_def)

lemma wf_tasks_filter: "wf_tasks ts \<Longrightarrow> wf_tasks (filter p ts)"
  by (auto simp: wf_tasks_def increasing_filter)

lemma map_update_entry_keys:
  assumes "\<And>t. t \<in> set ts \<Longrightarrow> dget t ''task_id'' = i \<Longrightarrow> dget u ''task_id'' = i"
  shows "map task_id_of (new_state_with_updated_item ts i u) = map task_id_of ts"
  using assms by (auto simp: new_state_with_updated_item_def task_id_of_def)

lemma wf_tasks_update:
  assumes "wf_tasks ts" and "dget u ''task_id'' = i"
  shows "wf_tasks (new_state_with_updated_item ts i u)"
proof -
  have keys: "map task_id_of (new_state_with_updated_item ts i u) = map task_id_of ts"
    using assms(2) by (rule map_update_entry_keys)
  have "increasing task_id_of (new_state_with_updated_item ts i u)"
    using assms(1) increasing_map_keys [OF keys] by (simp add: wf_tasks_def)
  moreover have "\<forall>t \<in> set (new_state_with_updated_item ts i u). wf_task t"
    using assms by (auto simp: wf_tasks_def new_state_with_updated_item_def wf_task_def)
  ultimately show ?thesis by (simp add: wf_tasks_def)
qed

lemma new_task_entry_id:
  "\<not> dhas a ''task_id'' \<Longrightarrow> dget (new_task_entry n a) ''task_id'' = JInt n"
proof -
  assume "\<not> dhas a ''task_id''"
  then have "\<not> dhas (filter (\<lambda>p. fst p \<notin> set [''type'']) a) ''task_id''"
    by (auto simp: dhas_def map_of_eq_None_iff)
  then show ?thesis
    by (simp add: new_task_entry_def copy_keys_def dget_dupdate_other)
qed

lemma copy_keys_other:
  "k \<in> set dropped \<Longrightarrow> dget (copy_keys dropped a d) k = dget d k"
  unfolding copy_keys_def
  by (rule dget_dupdate_other) (auto simp: dhas_def map_of_eq_None_iff)

lemma resolved_entry_get:
  "dget (resolved_entry a t) k =
     (if k = ''complete'' then JBool True else if k = ''success'' then dget a ''success''
      else if k = ''result'' then dget a ''result'' else dget t k)"
  by (simp add: resolved_entry_def)

lemma report_entry_get:
  "dget (report_entry n a) ''task_id'' = JInt n"
  "dget (report_entry n a) ''complete'' = JBool True"
  by (simp_all add: report_entry_def)

lemma trigger_entry_get:
  "dget (trigger_entry n a) ''task_id'' = JInt n"
  "dget (trigger_entry n a) ''complete'' = JBool True"
  by (simp_all add: trigger_entry_def)

lemma task_by_action_id_Some:
  "task_by_action_id ts a = Inr (Some t) \<Longrightarrow>
     t \<in> set ts \<and> dget t ''task_id'' = dget a ''task_id''"
  by (auto simp: task_by_action_id_def bindR_Inr_iff split: if_splits dest: first_filter_Inr)

section \<open>The reducer, branch by branch\<close>

lemma task_reducer_add:
  "dget a ''type'' = JStr ''ADD_TASK'' \<Longrightarrow> next_task_id ts = Inr n \<Longrightarrow>
   task_reducer ts a =
     Inr (if task_to_add_exists ts a then ts else ts @ [new_task_entry n a])"
  by (simp add: task_reducer_def)

text \<open>
  The changes the reducer can make to the table, as a step relation: one rule per branch that
  changes it.
\<close>

inductive task_change :: "pydict list \<Rightarrow> pydict \<Rightarrow> pydict list \<Rightarrow> bool" for ts a where
  unchanged: "task_change ts a ts"
| added: "dget a ''type'' = JStr ''ADD_TASK'' \<Longrightarrow> next_task_id ts = Inr n \<Longrightarrow>
     \<not> task_to_add_exists ts a \<Longrightarrow> task_change ts a (ts @ [new_task_entry n a])"
| resolved: "dget a ''type'' = JStr ''RESOLVE_TASK'' \<Longrightarrow> t \<in> set ts \<Longrightarrow>
     dget t ''task_id'' = dget a ''task_id'' \<Longrightarrow>
     task_change ts a
       (new_state_with_updated_item ts (dget a ''task_id'') (resolved_entry a t))"
| updated: "dget a ''type'' = JStr ''UPDATE_TASK'' \<Longrightarrow> t \<in> set ts \<Longrightarrow>
     dget t ''task_id'' = dget a ''task_id'' \<Longrightarrow>
     task_change ts a
       (new_state_with_updated_item ts (dget a ''task_id'')
          (copy_keys [''type'', ''task_id''] a t))"
| reported: "dget a ''type'' = JStr ''REPORT_MESSAGE'' \<Longrightarrow> next_task_id ts = Inr n \<Longrightarrow>
     task_change ts a (ts @ [report_entry n a])"
| triggered: "dget a ''type'' = JStr ''TRIGGER_CONDITION'' \<Longrightarrow> next_task_id ts = Inr n \<Longrightarrow>
     task_change ts a (ts @ [trigger_entry n a])"
| outdated: "dget a ''type'' = JStr ''DELETE_OUTDATED_NODE_TASKS'' \<Longrightarrow>
     task_change ts a
       (filter (\<lambda>t. \<not> is_outdated (dget_default a ''node_id'' (JStr ''UNKNOWN'')) t) ts)"

lemma task_reducer_change:
  assumes "task_reducer ts a = Inr ts'"
  shows "task_change ts a ts'"
proof -
  from assms obtain n where n: "next_task_id ts = Inr n"
    by (auto simp: task_reducer_def bindR_Inr_iff)
  note red = assms [unfolded task_reducer_def n bindR_simps Let_def]
  consider (Add) "dget a ''type'' = JStr ''ADD_TASK''"
    | (Res) "dget a ''type'' = JStr ''RESOLVE_TASK''"
    | (Upd) "dget a ''type'' = JStr ''UPDATE_TASK''"
    | (Other) "dget a ''type'' \<notin> {JStr ''ADD_TASK'', JStr ''RESOLVE_TASK'', JStr ''UPDATE_TASK''}"
    by blast
  then show ?thesis
  proof cases
    case Add
    with red n show ?thesis by (auto split: if_splits intro: task_change.intros)
  next
    case Res
    with red show ?thesis
      by (auto simp: bindR_Inr_iff split: option.splits
          intro: task_change.unchanged task_change.resolved dest!: task_by_action_id_Some)
  next
    case Upd
    with red show ?thesis
      by (auto simp: bindR_Inr_iff split: option.splits
          intro: task_change.unchanged task_change.updated dest!: task_by_action_id_Some)
  next
    case Other
    with red n show ?thesis by (auto split: if_splits intro: task_change.intros)
  qed
qed

lemma task_change_wf:
  assumes "task_change ts a ts'" and "wf_tasks ts"
    and "dget a ''type'' = JStr ''ADD_TASK'' \<longrightarrow> \<not> dhas a ''task_id''"
  shows "wf_tasks ts'"
  using assms
  by (induction rule: task_change.induct)
    (simp_all add: wf_tasks_snoc wf_tasks_filter wf_tasks_update new_task_entry_id
      resolved_entry_get report_entry_get trigger_entry_get copy_keys_other)

lemmas task_reducer_wf = task_change_wf [OF task_reducer_change]

section \<open>Settled tasks\<close>

text \<open>
  Task \<open>i\<close> is settled: it is in the table and complete.  The second form adds that it is not one
  of the upgrade tasks, which are the only ones an action can delete.
\<close>

definition settled :: "int \<Rightarrow> pydict list \<Rightarrow> bool" where
  "settled i ts \<longleftrightarrow> (\<exists>t \<in> set ts. task_id_of t = i \<and> dget t ''complete'' = JBool True)"

definition settled_for_good :: "int \<Rightarrow> pydict list \<Rightarrow> bool" where
  "settled_for_good i ts \<longleftrightarrow>
     (\<exists>t \<in> set ts. task_id_of t = i \<and> dget t ''complete'' = JBool True
        \<and> dget t ''name'' \<notin> JStr ` set UPGRADE_TASKS)"

lemma settled_complete:
  "wf_tasks ts \<Longrightarrow> settled i ts \<Longrightarrow> t \<in> set ts \<Longrightarrow> task_id_of t = i \<Longrightarrow>
     dget t ''complete'' = JBool True"
  unfolding settled_def using wf_tasks_same_id by blast

lemma settled_for_good_settled: "settled_for_good i ts \<Longrightarrow> settled i ts"
  by (auto simp: settled_def settled_for_good_def)

definition deletes_tasks :: "pydict \<Rightarrow> bool" where
  "deletes_tasks a \<longleftrightarrow> dget a ''type'' = JStr ''DELETE_OUTDATED_NODE_TASKS''"

lemma task_change_settled:
  assumes "task_change ts a ts'" and "settled i ts" and "wf_action a" and "\<not> deletes_tasks a"
  shows "settled i ts'"
  using assms
  by (induction rule: task_change.induct) (auto simp: settled_def wf_action_def deletes_tasks_def)

lemma task_change_settled_for_good:
  assumes "task_change ts a ts'" and "settled_for_good i ts" and "wf_action a"
  shows "settled_for_good i ts'"
  using assms
  by (induction rule: task_change.induct)
    (auto simp: settled_for_good_def wf_action_def is_outdated_def)

section \<open>Each address is fetched once\<close>

text \<open>
  A new entry carries the fields of its action, so the test \<open>task_to_add_exists\<close> finds it again.
\<close>

lemma new_task_entry_get:
  assumes "distinct (map fst a)" and "k \<noteq> ''type''" "k \<noteq> ''task_id''" "k \<noteq> ''complete''"
  shows "dget (new_task_entry n a) k = dget a k"
proof -
  let ?e = "filter (\<lambda>p. fst p \<notin> set [''type'']) a"
  have d: "distinct (map fst ?e)"
    using assms(1) by (simp add: distinct_map_filter)
  have same: "map_of ?e k = map_of a k"
    using assms(2) by (induction a) auto
  have eq: "dget ?e k = dget a k" "dhas ?e k = dhas a k"
    by (simp_all only: dget_def dhas_def same)
  show ?thesis
    unfolding new_task_entry_def copy_keys_def dget_dupdate [OF d] eq
    using assms(3,4) dget_not_has [of a k] by auto
qed

definition is_fetch :: "pydict \<Rightarrow> bool" where
  "is_fetch t \<longleftrightarrow> dget t ''name'' = JStr ''FETCH_HTTP_NODE'' \<and> dget t ''url'' \<noteq> JNull"

definition fetch_urls :: "pydict list \<Rightarrow> json list" where
  "fetch_urls ts = map (\<lambda>t. dget t ''url'') (filter is_fetch ts)"

lemma fetch_urls_snoc:
  "fetch_urls (ts @ [t]) = fetch_urls ts @ (if is_fetch t then [dget t ''url''] else [])"
  by (simp add: fetch_urls_def)

lemma fetch_urls_resolved:
  assumes "wf_tasks ts" and "t \<in> set ts" and "dget t ''task_id'' = i"
  shows "fetch_urls (new_state_with_updated_item ts i (resolved_entry a t)) = fetch_urls ts"
proof -
  have "\<And>u. u \<in> set ts \<Longrightarrow> dget u ''task_id'' = i \<Longrightarrow> u = t"
    using assms wf_tasks_same_id by (fastforce simp: task_id_of_def)
  then have "fetch_urls (map (\<lambda>u. if i \<noteq> dget u ''task_id'' then u else resolved_entry a t) xs)
               = fetch_urls xs" if "set xs \<subseteq> set ts" for xs
    using that
    by (induction xs) (auto simp: fetch_urls_def is_fetch_def resolved_entry_get)
  then show ?thesis
    by (simp add: new_state_with_updated_item_def)
qed

lemma task_change_fetch_urls:
  assumes "task_change ts a ts'" and "wf_tasks ts" and "distinct (fetch_urls ts)"
    and "dget a ''type'' = JStr ''ADD_TASK'' \<longrightarrow> distinct (map fst a)"
    and "dget a ''type'' \<noteq> JStr ''UPDATE_TASK''"
  shows "distinct (fetch_urls ts')"
  using assms
proof (induction rule: task_change.induct)
  case (added n)
  show ?case
  proof (cases "is_fetch (new_task_entry n a)")
    case True
    have d: "distinct (map fst a)" using added by simp
    have nm: "dget a ''name'' = JStr ''FETCH_HTTP_NODE''"
      using True new_task_entry_get [OF d, of "''name''" n] by (simp add: is_fetch_def)
    have url: "dget (new_task_entry n a) ''url'' = dget a ''url''"
      by (rule new_task_entry_get [OF d]) simp_all
    have "dget a ''url'' \<notin> set (fetch_urls ts)"
      using added.hyps(3) nm
      by (auto simp: task_to_add_exists_def list_ex_iff same_field_def fetch_urls_def)
    with True url added.prems show ?thesis by (simp add: fetch_urls_snoc)
  next
    case False
    with added.prems show ?thesis by (simp add: fetch_urls_snoc)
  qed
next
  case outdated
  then show ?case
    by (simp add: fetch_urls_def distinct_map_filter_filter del: filter_filter)
qed (auto simp: fetch_urls_resolved fetch_urls_snoc is_fetch_def report_entry_def
      trigger_entry_def)

section \<open>The interface of the store to its clients\<close>

text \<open>
  What a client that feeds actions to a store may rely on: admissible actions keep the
  invariant and keep settled what is settled.
\<close>

locale settled_store =
  fixes step :: "'a \<Rightarrow> 's \<Rightarrow> 's res"
    and ok :: "'a \<Rightarrow> bool"
    and inv :: "'s \<Rightarrow> bool"
    and settled_at :: "int \<Rightarrow> 's \<Rightarrow> bool"
  assumes inv_step: "inv s \<Longrightarrow> ok a \<Longrightarrow> step a s = Inr s' \<Longrightarrow> inv s'"
    and settled_step:
      "inv s \<Longrightarrow> ok a \<Longrightarrow> settled_at i s \<Longrightarrow> step a s = Inr s' \<Longrightarrow> settled_at i s'"
begin

lemma run_inv:
  "foldR step as s = Inr s' \<Longrightarrow> inv s \<Longrightarrow> (\<And>a. a \<in> set as \<Longrightarrow> ok a) \<Longrightarrow> inv s'"
  by (erule foldR_invariant) (auto intro: inv_step)

lemma run_settled:
  assumes "foldR step as s = Inr s'" and "inv s" and "settled_at i s"
    and "\<And>a. a \<in> set as \<Longrightarrow> ok a"
  shows "settled_at i s'"
proof -
  have "inv s' \<and> settled_at i s'"
    using assms(1) conjI [OF assms(2,3)]
    by (rule foldR_invariant) (auto intro: inv_step settled_step assms(4))
  then show ?thesis ..
qed

end

text \<open>With an operation that settles a task: closing it and then running admissible actions.\<close>

locale closing_store = settled_store +
  fixes close :: "int \<Rightarrow> 'a" and present :: "int \<Rightarrow> 's \<Rightarrow> bool"
  assumes close_inv: "inv s \<Longrightarrow> step (close i) s = Inr s' \<Longrightarrow> inv s'"
    and close_settles: "inv s \<Longrightarrow> present i s \<Longrightarrow> step (close i) s = Inr s' \<Longrightarrow> settled_at i s'"
begin

lemma close_then_run:
  assumes "step (close i) s = Inr u" and "foldR step as u = Inr s'"
    and "inv s" and "present i s" and "\<And>a. a \<in> set as \<Longrightarrow> ok a"
  shows "inv s' \<and> settled_at i s'"
  using assms close_inv close_settles run_inv run_settled by blast

end

text \<open>The store of the verifier provides it, in two forms.\<close>

definition store_inv :: "vstate \<Rightarrow> bool" where
  "store_inv s \<longleftrightarrow> wf_tasks (v_tasks s) \<and> distinct (fetch_urls (v_tasks s))"

definition store_settled :: "int \<Rightarrow> vstate \<Rightarrow> bool" where
  "store_settled i s \<longleftrightarrow> settled i (v_tasks s)"

definition store_settled_for_good :: "int \<Rightarrow> vstate \<Rightarrow> bool" where
  "store_settled_for_good i s \<longleftrightarrow> settled_for_good i (v_tasks s)"

definition has_task :: "int \<Rightarrow> vstate \<Rightarrow> bool" where
  "has_task i s \<longleftrightarrow> (\<exists>t \<in> set (v_tasks s). task_id_of t = i)"

definition has_lasting_task :: "int \<Rightarrow> vstate \<Rightarrow> bool" where
  "has_lasting_task i s \<longleftrightarrow>
     (\<exists>t \<in> set (v_tasks s). task_id_of t = i \<and> dget t ''name'' \<notin> JStr ` set UPGRADE_TASKS)"

definition keeping_action :: "pydict \<Rightarrow> bool" where
  "keeping_action a \<longleftrightarrow> wf_action a \<and> \<not> deletes_tasks a"

lemma dispatch_Inr:
  "dispatch a s = Inr s' \<Longrightarrow>
     input_reducer (v_input s) a = Inr (v_input s')
     \<and> graph_reducer (v_blank s) (v_graph s) a = Inr (v_blank s', v_graph s')
     \<and> task_reducer (v_tasks s) a = Inr (v_tasks s')
     \<and> verification_report_reducer (v_report s) a = Inr (v_report s')"
  by (auto simp: dispatch_def bindR_Inr_iff)

lemma dispatch_tasks: "dispatch a s = Inr s' \<Longrightarrow> task_change (v_tasks s) a (v_tasks s')"
  by (rule task_reducer_change) (simp add: dispatch_Inr)

lemma dispatch_store_inv:
  assumes "store_inv s" and "wf_action a" and "dispatch a s = Inr s'"
  shows "store_inv s'"
  using task_change_wf [OF dispatch_tasks [OF assms(3)]]
    task_change_fetch_urls [OF dispatch_tasks [OF assms(3)]] assms(1,2)
  by (simp add: store_inv_def wf_action_def)

lemma dispatch_settled:
  assumes "keeping_action a" and "store_settled i s" and "dispatch a s = Inr s'"
  shows "store_settled i s'"
  using task_change_settled [OF dispatch_tasks [OF assms(3)]] assms(1,2)
  by (simp add: store_settled_def keeping_action_def)

lemma dispatch_settled_for_good:
  assumes "wf_action a" and "store_settled_for_good i s" and "dispatch a s = Inr s'"
  shows "store_settled_for_good i s'"
  using task_change_settled_for_good [OF dispatch_tasks [OF assms(3)]] assms(1,2)
  by (simp add: store_settled_for_good_def)

lemma resolve_task_get:
  "dget (resolve_task i ok r) k =
     (if k = ''type'' then JStr ''RESOLVE_TASK'' else if k = ''task_id'' then i
      else if k = ''success'' then ok else if k = ''result'' then r else JNull)"
  by (simp add: resolve_task_def)

inductive_cases task_change_resolveE: "task_change ts (resolve_task i ok r) ts'"

lemma resolve_inv:
  "store_inv s \<Longrightarrow> dispatch (resolve_task i ok r) s = Inr s' \<Longrightarrow> store_inv s'"
  using task_change_wf [OF dispatch_tasks, of "resolve_task i ok r" s s']
    task_change_fetch_urls [OF dispatch_tasks, of "resolve_task i ok r" s s']
  by (simp add: store_inv_def resolve_task_get)

text \<open>Resolving a task that is there rewrites its entry: complete, with the given outcome.\<close>

lemma resolve_tasks:
  assumes "wf_tasks ts" and "t \<in> set ts"
  shows "task_reducer ts (resolve_task (JInt (task_id_of t)) ok r) =
     Inr (map (\<lambda>u. if task_id_of u = task_id_of t
                    then resolved_entry (resolve_task (JInt (task_id_of t)) ok r) t else u) ts)"
proof -
  let ?a = "resolve_task (JInt (task_id_of t)) ok r"
  obtain n where n: "next_task_id ts = Inr n"
    using next_task_id_total [OF assms(1)] by auto
  have ids: "\<And>u. u \<in> set ts \<Longrightarrow> dget u ''task_id'' = JInt (task_id_of u) \<and> dhas u ''task_id''"
    using assms(1) wf_task_id wf_task_has_id by (auto simp: wf_tasks_def)
  have "first_or_index_error (filter (\<lambda>u. dget u ''task_id'' = dget ?a ''task_id'') ts) = Inr t"
  proof (cases "first_or_index_error (filter (\<lambda>u. dget u ''task_id'' = dget ?a ''task_id'') ts)")
    case (Inl e)
    with assms(2) ids show ?thesis by (auto simp: first_filter_Inl resolve_task_get)
  next
    case (Inr u)
    then have "u \<in> set ts" "dget u ''task_id'' = JInt (task_id_of t)"
      by (auto simp: resolve_task_get dest: first_filter_Inr)
    with ids assms have "u = t" using wf_tasks_same_id by fastforce
    with Inr show ?thesis by simp
  qed
  moreover have "dhas ?a ''task_id''" by (simp add: resolve_task_def)
  ultimately have "task_by_action_id ts ?a = Inr (Some t)"
    using ids by (auto simp: task_by_action_id_def list_all_iff)
  then show ?thesis
    using n ids
    by (auto simp: task_reducer_def resolve_task_get new_state_with_updated_item_def)
qed

lemma resolve_settles:
  assumes "store_inv s" and "t \<in> set (v_tasks s)"
    and "dispatch (resolve_task (JInt (task_id_of t)) ok r) s = Inr s'"
  shows "\<exists>u \<in> set (v_tasks s'). task_id_of u = task_id_of t
           \<and> dget u ''complete'' = JBool True \<and> dget u ''name'' = dget t ''name''"
proof -
  let ?u = "resolved_entry (resolve_task (JInt (task_id_of t)) ok r) t"
  have "?u \<in> set (v_tasks s')"
    using dispatch_Inr [OF assms(3)] resolve_tasks [of "v_tasks s" t ok r] assms(1,2)
    by (auto simp: store_inv_def)
  moreover have "task_id_of ?u = task_id_of t"
    by (simp add: task_id_of_def resolved_entry_get)
  ultimately show ?thesis
    by (intro bexI [of _ ?u]) (simp_all add: resolved_entry_get)
qed

definition close_task :: "json \<Rightarrow> json \<Rightarrow> int \<Rightarrow> pydict" where
  "close_task ok r i = resolve_task (JInt i) ok r"

lemma close_settles_task:
  assumes "store_inv s" and "t \<in> set (v_tasks s)" and "task_id_of t = i"
    and "dispatch (close_task ok r i) s = Inr s'"
  obtains u where "u \<in> set (v_tasks s')" and "task_id_of u = i"
    and "dget u ''complete'' = JBool True" and "dget u ''name'' = dget t ''name''"
  using resolve_settles [of s t ok r s'] assms by (auto simp: close_task_def)

lemma close_settles:
  assumes "store_inv s" and "has_task i s" and "dispatch (close_task ok r i) s = Inr s'"
  shows "store_settled i s'"
proof -
  obtain t where t: "t \<in> set (v_tasks s)" "task_id_of t = i"
    using assms(2) by (auto simp: has_task_def)
  show ?thesis
    by (rule close_settles_task [OF assms(1) t assms(3)])
      (auto simp: store_settled_def settled_def)
qed

lemma close_settles_for_good:
  assumes "store_inv s" and "has_lasting_task i s" and "dispatch (close_task ok r i) s = Inr s'"
  shows "store_settled_for_good i s'"
proof -
  obtain t where t: "t \<in> set (v_tasks s)" "task_id_of t = i"
    and n: "dget t ''name'' \<notin> JStr ` set UPGRADE_TASKS"
    using assms(2) by (auto simp: has_lasting_task_def)
  obtain u where u: "u \<in> set (v_tasks s')" "task_id_of u = i"
    "dget u ''complete'' = JBool True" "dget u ''name'' = dget t ''name''"
    by (rule close_settles_task [OF assms(1) t assms(3)])
  with n show ?thesis
    unfolding store_settled_for_good_def settled_for_good_def
    by (intro bexI [OF _ u(1)]) simp
qed

interpretation keeping: closing_store dispatch keeping_action store_inv store_settled
    "close_task ok r" has_task for ok r
proof
  show "store_inv s \<Longrightarrow> keeping_action a \<Longrightarrow> dispatch a s = Inr s' \<Longrightarrow> store_inv s'" for s a s'
    by (auto simp: keeping_action_def intro: dispatch_store_inv)
  show "store_inv s \<Longrightarrow> keeping_action a \<Longrightarrow> store_settled i s \<Longrightarrow> dispatch a s = Inr s' \<Longrightarrow>
      store_settled i s'" for s a i s'
    by (rule dispatch_settled)
  show "store_inv s \<Longrightarrow> dispatch (close_task ok r i) s = Inr s' \<Longrightarrow> store_inv s'" for s i s'
    unfolding close_task_def by (rule resolve_inv)
  show "store_inv s \<Longrightarrow> has_task i s \<Longrightarrow> dispatch (close_task ok r i) s = Inr s' \<Longrightarrow>
      store_settled i s'" for s i s'
    by (rule close_settles)
qed

interpretation lasting: closing_store dispatch wf_action store_inv store_settled_for_good
    "close_task ok r" has_lasting_task for ok r
proof
  show "store_inv s \<Longrightarrow> wf_action a \<Longrightarrow> dispatch a s = Inr s' \<Longrightarrow> store_inv s'" for s a s'
    by (rule dispatch_store_inv)
  show "store_inv s \<Longrightarrow> wf_action a \<Longrightarrow> store_settled_for_good i s \<Longrightarrow>
      dispatch a s = Inr s' \<Longrightarrow> store_settled_for_good i s'" for s a i s'
    by (rule dispatch_settled_for_good)
  show "store_inv s \<Longrightarrow> dispatch (close_task ok r i) s = Inr s' \<Longrightarrow> store_inv s'" for s i s'
    unfolding close_task_def by (rule resolve_inv)
  show "store_inv s \<Longrightarrow> has_lasting_task i s \<Longrightarrow> dispatch (close_task ok r i) s = Inr s' \<Longrightarrow>
      store_settled_for_good i s'" for s i s'
    by (rule close_settles_for_good)
qed

end
