(* ===== verification/Verifier_Engine.thy ===== *)
theory Verifier_Engine
  imports Verifier_Invariants
begin

text \<open>
  The engine of the verifier (openbadges/verifier/verifier.py): calling one task and feeding its
  actions to the store, the loop that picks the first ready task until none is left, and the
  report.  The task functions are an argument (\<open>funcs\<close>: the table \<open>FUNCTIONS\<close>, applied to the
  number of the step, because a task may draw random keys and talk to the network); so is the text
  Python prints for an exception (\<open>exn_text\<close>).  The loop has a fuel argument, since remote
  nodes can keep it busy for ever.
\<close>

type_synonym outcome = "bool \<times> string \<times> json list"

type_synonym task_fun = "vstate \<Rightarrow> pydict \<Rightarrow> outcome res"

definition task_result :: "bool \<Rightarrow> string \<Rightarrow> pydict list \<Rightarrow> outcome res" where
  "task_result success message actions = Inr (success, message, map JDict actions)"

section \<open>One task\<close>

text \<open>\<open>store.dispatch\<close> of what a task returned, which must be dictionaries.\<close>

fun dispatch_checked :: "json \<Rightarrow> vstate \<Rightarrow> vstate res" where
  "dispatch_checked (JDict action) s = dispatch action s"
| "dispatch_checked _ s = Inl TypeError"

definition completed_by :: "pydict \<Rightarrow> string" where
  "completed_by task_meta =
     ''Completed by '' @ py_str (dget task_meta ''task_id'') @ '': '' @ py_str (dget task_meta ''name'')"

definition completion_triggers :: "pydict \<Rightarrow> pydict list" where
  "completion_triggers task_meta =
     map (\<lambda>trigger. trigger_condition trigger (JStr (completed_by task_meta)))
       (list_of (dget_default task_meta ''triggers_completion'' (JList [])))"

text \<open>
  \<open>draws\<close> is the number of blank node ids a task draws for itself from the module's counter, which
  moves on whether or not the task uses them.
\<close>

type_synonym draw_count = "vstate \<Rightarrow> pydict \<Rightarrow> nat"

definition advance_blank :: "nat \<Rightarrow> vstate \<Rightarrow> vstate" where
  "advance_blank k s = s\<lparr>v_blank := v_blank s + int k\<rparr>"

definition call_task ::
  "draw_count \<Rightarrow> task_fun \<Rightarrow> (py_exn \<Rightarrow> string) \<Rightarrow> pydict \<Rightarrow> vstate \<Rightarrow> vstate res" where
  "call_task draws task_func exn_text task_meta s0 =
     (let task_id = dget task_meta ''task_id''; s = advance_blank (draws s0 task_meta) s0 in
      case task_func s0 task_meta of
        Inl e \<Rightarrow>
          if e = SkipTask then Inl NotImplementedError
          else if e = TaskPrerequisitesError then
            dispatch (resolve_task task_id (JBool False)
                        (JStr ''Task could not run due to unmet prerequisites.'')) s
          else dispatch (resolve_task task_id (JBool False) (JStr (exn_text e))) s
      | Inr (success, message, actions) \<Rightarrow>
          bindR (dispatch (resolve_task task_id (JBool success) (JStr message)) s) (\<lambda>s1.
          bindR (foldR dispatch (if success then completion_triggers task_meta else []) s1) (\<lambda>s2.
          foldR dispatch_checked actions s2)))"

section \<open>The loop\<close>

type_synonym task_table = "nat \<Rightarrow> string \<Rightarrow> task_fun option"

definition task_named :: "task_table \<Rightarrow> nat \<Rightarrow> json \<Rightarrow> task_fun res" where
  "task_named funcs n key =
     (case key of
        JStr name \<Rightarrow> (case funcs n name of None \<Rightarrow> Inl KeyError | Some f \<Rightarrow> Inr f)
      | _ \<Rightarrow> Inl KeyError)"

datatype run_result = Finished vstate | Crashed py_exn | OutOfFuel

fun run_tasks ::
  "nat \<Rightarrow> task_table \<Rightarrow> draw_count \<Rightarrow> (py_exn \<Rightarrow> string) \<Rightarrow> nat \<Rightarrow> json \<Rightarrow> vstate \<Rightarrow> run_result"
where
  "run_tasks 0 funcs draws exn_text n last_task_id s = OutOfFuel"
| "run_tasks (Suc fuel) funcs draws exn_text n last_task_id s =
     (case filter_active_tasks s of
        [] \<Rightarrow> Finished s
      | task_meta # _ \<Rightarrow>
          (case bindR (dindex task_meta ''name'') (task_named funcs n) of
             Inl e \<Rightarrow> Crashed e
           | Inr task_func \<Rightarrow>
               (case dindex task_meta ''task_id'' of
                  Inl e \<Rightarrow> Crashed e
                | Inr task_id \<Rightarrow>
                    if task_id = last_task_id then Finished s
                    else
                      (case call_task draws task_func exn_text task_meta s of
                         Inl e \<Rightarrow> Crashed e
                       | Inr s' \<Rightarrow> run_tasks fuel funcs draws exn_text (Suc n) task_id s'))))"

section \<open>Feeding the input\<close>

text \<open>
  The input: a file with what \<open>unbake\<close> made of it and its name, or a plain value.  Only a
  \<open>ValueError\<close> is caught; an image without metadata raises one.
\<close>

datatype badge_input = BakedFile "json res" string | PlainInput json

definition no_metadata_text :: string where
  "no_metadata_text =
     ''No Open Badges metadata found in PNG. Provide assertion URL or JSON instead.''"

definition badge_data_of :: "badge_input \<Rightarrow> json res" where
  "badge_data_of inp =
     (case inp of
        PlainInput v \<Rightarrow> Inr v
      | BakedFile unbaked name \<Rightarrow>
          bindR unbaked (\<lambda>v. if v = JNull then Inl ValueError else Inr v))"

definition feed_input ::
  "string \<Rightarrow> string \<Rightarrow> badge_input \<Rightarrow> vstate \<Rightarrow> vstate res" where
  "feed_input key value_error_text inp store =
     (case badge_data_of inp of
        Inr badge_data \<Rightarrow>
          foldR dispatch [store_input badge_data, task_action key ''DETECT_INPUT_TYPE'' []] store
      | Inl e \<Rightarrow>
          if e = ValueError then
            (let name = (case inp of BakedFile _ n \<Rightarrow> n | PlainInput v \<Rightarrow> py_str v) in
             bindR (foldR dispatch
                      [store_input (JStr name), task_action key ''DETECT_INPUT_TYPE'' [],
                       input_type_action ''file''] store) (\<lambda>s.
             bindR (list_at (map JDict (v_tasks s)) 0) (\<lambda>t.
             bindR (as_dict t) (\<lambda>task.
               dispatch (resolve_task (dget task ''task_id'') (JBool False)
                           (JStr value_error_text)) s))))
          else Inl e)"

definition OPENBADGES_CONTEXT_V2_URI :: string where
  "OPENBADGES_CONTEXT_V2_URI = ''https://w3id.org/openbadges/v2''"

definition feed_profile ::
  "string \<Rightarrow> (json \<Rightarrow> string) \<Rightarrow> pydict \<Rightarrow> vstate \<Rightarrow> vstate res" where
  "feed_profile key dumps recipient_profile store =
     (if recipient_profile = [] then Inr store
      else
        let profile_id = dget recipient_profile ''id'';
            profile = dset ''@context''
                        (dget_default recipient_profile ''@context''
                           (JStr OPENBADGES_CONTEXT_V2_URI)) recipient_profile;
            task = task_action key ''JSONLD_COMPACT_DATA''
                     [(''data'', JStr (dumps (JDict profile))),
                      (''expected_class'', JStr ''ExpectedRecipientProfile'')]
        in dispatch (if truthy profile_id then dset ''node_id'' profile_id task else task) store)"

definition verification_store ::
  "nat \<Rightarrow> task_table \<Rightarrow> draw_count \<Rightarrow> (py_exn \<Rightarrow> string) \<Rightarrow> (json \<Rightarrow> string) \<Rightarrow> (nat \<Rightarrow> string) \<Rightarrow>
   string \<Rightarrow> badge_input \<Rightarrow> pydict \<Rightarrow> run_result" where
  "verification_store fuel funcs draws exn_text dumps keys value_error_text inp recipient_profile =
     (case bindR (feed_input (keys 0) value_error_text inp INITIAL_STATE)
             (feed_profile (keys 1) dumps recipient_profile) of
        Inl e \<Rightarrow> Crashed e
      | Inr store \<Rightarrow> run_tasks fuel funcs draws exn_text 0 (JInt 0) store)"

section \<open>The report\<close>

definition count_level :: "string \<Rightarrow> pydict list \<Rightarrow> nat" where
  "count_level level messages =
     length (filter (\<lambda>m. dget m ''messageLevel'' = JStr level) messages)"

definition report_messages :: "vstate \<Rightarrow> pydict list" where
  "report_messages s = map format_message (filter_messages_for_report s)"

definition report_valid :: "vstate \<Rightarrow> bool" where
  "report_valid s \<longleftrightarrow> \<not> (count_level ''ERROR'' (report_messages s) \<noteq> 0 \<or> v_graph s = [])"

definition generate_report :: "bool \<Rightarrow> vstate \<Rightarrow> pydict" where
  "generate_report include_original_json s =
     (let processed_input =
            (if include_original_json then v_input s else ddel ''original_json'' (v_input s));
          messages = report_messages s;
          report = dupdate (v_report s)
            [(''messages'', JList (map JDict messages)),
             (''errorCount'', JInt (int (count_level ''ERROR'' messages))),
             (''warningCount'', JInt (int (count_level ''WARNING'' messages))),
             (''valid'', JBool (report_valid s))]
      in [(''graph'', JList (map JDict (v_graph s))), (''input'', JDict processed_input),
          (''report'', JDict report)])"

section \<open>What task functions promise\<close>

text \<open>
  Every action a task function returns is a dictionary the store admits, and the upgrade tasks
  delete no tasks.
\<close>

definition good_task :: "string \<Rightarrow> task_fun \<Rightarrow> bool" where
  "good_task name f \<longleftrightarrow>
     (\<forall>s t ok msg acts. f s t = Inr (ok, msg, acts) \<longrightarrow>
        (\<exists>ds. acts = map JDict ds
              \<and> (\<forall>d \<in> set ds. wf_action d \<and> (name \<in> set UPGRADE_TASKS \<longrightarrow> \<not> deletes_tasks d))))"

definition good_table :: "task_table \<Rightarrow> bool" where
  "good_table funcs \<longleftrightarrow> (\<forall>n name f. funcs n name = Some f \<longrightarrow> good_task name f)"

lemma good_taskI:
  assumes "\<And>s t ok msg acts. f s t = Inr (ok, msg, acts) \<Longrightarrow>
     \<exists>ds. acts = map JDict ds
          \<and> (\<forall>d \<in> set ds. wf_action d \<and> (name \<in> set UPGRADE_TASKS \<longrightarrow> \<not> deletes_tasks d))"
  shows "good_task name f"
  using assms by (auto simp: good_task_def)

text \<open>
  The same of one outcome, with rules that follow the way task functions are composed.  \<open>keep\<close>
  says that no task may be deleted.
\<close>

definition good_actions :: "bool \<Rightarrow> pydict list \<Rightarrow> bool" where
  "good_actions keep ds \<longleftrightarrow> (\<forall>d \<in> set ds. wf_action d \<and> (keep \<longrightarrow> \<not> deletes_tasks d))"

definition good_outcome :: "bool \<Rightarrow> outcome res \<Rightarrow> bool" where
  "good_outcome keep r \<longleftrightarrow>
     (\<forall>ok msg acts. r = Inr (ok, msg, acts) \<longrightarrow> (\<exists>ds. acts = map JDict ds \<and> good_actions keep ds))"

lemma good_actions_simps [simp]:
  "good_actions k []"
  "good_actions k (a # as) \<longleftrightarrow> wf_action a \<and> (k \<longrightarrow> \<not> deletes_tasks a) \<and> good_actions k as"
  "good_actions k (as @ bs) \<longleftrightarrow> good_actions k as \<and> good_actions k bs"
  by (auto simp: good_actions_def)

lemma good_actions_filter: "good_actions k as \<Longrightarrow> good_actions k (filter p as)"
  by (simp add: good_actions_def)

lemma good_task_iff: "good_task name f \<longleftrightarrow> (\<forall>s t. good_outcome (name \<in> set UPGRADE_TASKS) (f s t))"
  by (simp add: good_task_def good_outcome_def good_actions_def)

named_theorems good_intros \<open>how outcomes with admissible actions are composed\<close>

lemma good_outcome_Inl [good_intros]: "good_outcome k (Inl e)"
  by (simp add: good_outcome_def)

lemma good_outcome_result [good_intros]: "good_actions k as \<Longrightarrow> good_outcome k (task_result b m as)"
  by (auto simp: good_outcome_def task_result_def)

lemma good_outcome_bind [good_intros]:
  "(\<And>x. m = Inr x \<Longrightarrow> good_outcome k (f x)) \<Longrightarrow> good_outcome k (bindR m f)"
  by (auto simp: good_outcome_def bindR_Inr_iff)

lemma good_outcome_if [good_intros]:
  "(b \<Longrightarrow> good_outcome k r) \<Longrightarrow> (\<not> b \<Longrightarrow> good_outcome k q) \<Longrightarrow> good_outcome k (if b then r else q)"
  by simp

lemma good_outcome_cases [good_intros]:
  "(\<And>a b. p = (a, b) \<Longrightarrow> good_outcome k (f a b)) \<Longrightarrow> good_outcome k (case p of (a, b) \<Rightarrow> f a b)"
  "(x = None \<Longrightarrow> good_outcome k r) \<Longrightarrow> (\<And>y. x = Some y \<Longrightarrow> good_outcome k (g y)) \<Longrightarrow>
     good_outcome k (case x of None \<Rightarrow> r | Some y \<Rightarrow> g y)"
  "(\<And>l. u = Inl l \<Longrightarrow> good_outcome k (h l)) \<Longrightarrow> (\<And>r. u = Inr r \<Longrightarrow> good_outcome k (i r)) \<Longrightarrow>
     good_outcome k (case u of Inl l \<Rightarrow> h l | Inr r \<Rightarrow> i r)"
  by (auto split: prod.split option.split sum.split)

lemma good_outcome_json [good_intros]:
  "good_outcome k f1 \<Longrightarrow> (\<And>b. good_outcome k (f2 b)) \<Longrightarrow> (\<And>i. good_outcome k (f3 i)) \<Longrightarrow>
   (\<And>s. good_outcome k (f4 s)) \<Longrightarrow> (\<And>s. good_outcome k (f5 s)) \<Longrightarrow>
   (\<And>s. good_outcome k (f6 s)) \<Longrightarrow> (\<And>xs. good_outcome k (f7 xs)) \<Longrightarrow>
   (\<And>d. good_outcome k (f8 d)) \<Longrightarrow>
   good_outcome k (case v of JNull \<Rightarrow> f1 | JBool b \<Rightarrow> f2 b | JInt i \<Rightarrow> f3 i | JFloat s \<Rightarrow> f4 s
     | JStr s \<Rightarrow> f5 s | JBytes s \<Rightarrow> f6 s | JList xs \<Rightarrow> f7 xs | JDict d \<Rightarrow> f8 d)"
  by (cases v) auto

lemma good_outcome_catch:
  "good_outcome k m \<Longrightarrow> (\<And>e. good_outcome k (h e)) \<Longrightarrow> good_outcome k (catchR m h)"
  by (cases m) auto

lemma foldR_dispatch_checked: "foldR dispatch_checked (map JDict ds) s = foldR dispatch ds s"
  by (induction ds arbitrary: s) (auto intro: bindR_cong)

lemma completion_triggers_keep:
  "a \<in> set (completion_triggers t) \<Longrightarrow> wf_action a \<and> \<not> deletes_tasks a"
  by (auto simp: completion_triggers_def trigger_condition_def wf_action_def deletes_tasks_def)

text \<open>
  The shape of a successful call: the task is closed, and then a list of admissible actions is
  dispatched.
\<close>

lemma advance_blank_parts [simp]:
  "v_tasks (advance_blank k s) = v_tasks s" "v_graph (advance_blank k s) = v_graph s"
  "v_input (advance_blank k s) = v_input s" "v_report (advance_blank k s) = v_report s"
  by (simp_all add: advance_blank_def)

lemma advance_blank_keeps [simp]:
  "store_inv (advance_blank k s) = store_inv s"
  "has_task i (advance_blank k s) = has_task i s"
  "has_lasting_task i (advance_blank k s) = has_lasting_task i s"
  by (simp_all add: store_inv_def has_task_def has_lasting_task_def)

lemma call_task_shape:
  assumes "call_task draws f tx t s0 = Inr s'" and "good_task name f"
  obtains ok r u acts where
    "dispatch (resolve_task (dget t ''task_id'') ok r) (advance_blank (draws s0 t) s0) = Inr u"
    and "foldR dispatch acts u = Inr s'"
    and "\<forall>a \<in> set acts. wf_action a \<and> (name \<in> set UPGRADE_TASKS \<longrightarrow> \<not> deletes_tasks a)"
    and "\<forall>a \<in> set acts. a \<in> set (completion_triggers t)
           \<or> (\<exists>ok msg as. f s0 t = Inr (ok, msg, as) \<and> JDict a \<in> set as)"
proof (cases "f s0 t")
  case (Inl e)
  with assms(1) obtain r where 
    "dispatch (resolve_task (dget t ''task_id'') (JBool False) r) (advance_blank (draws s0 t) s0) = Inr s'"
    by (auto simp: call_task_def Let_def split: if_splits)
  then show ?thesis by (rule that [of "JBool False" r s' "[]"]) auto
next
  case (Inr out)
  obtain ok msg acts where out: "out = (ok, msg, acts)" by (cases out)
  obtain ds where ds: "acts = map JDict ds"
    and wf: "\<forall>d \<in> set ds. wf_action d \<and> (name \<in> set UPGRADE_TASKS \<longrightarrow> \<not> deletes_tasks d)"
    using assms(2) Inr out unfolding good_task_def by blast
  define trs where "trs = (if ok then completion_triggers t else [])"
  from assms(1) Inr out ds obtain u where
    u: "dispatch (resolve_task (dget t ''task_id'') (JBool ok) (JStr msg))
          (advance_blank (draws s0 t) s0) = Inr u"
    and rest: "foldR dispatch (trs @ ds) u = Inr s'"
    by (auto simp: call_task_def bindR_Inr_iff foldR_dispatch_checked foldR_append trs_def Let_def)
  have "\<forall>a \<in> set (trs @ ds). wf_action a \<and> (name \<in> set UPGRADE_TASKS \<longrightarrow> \<not> deletes_tasks a)"
    using wf completion_triggers_keep [of _ t] by (auto simp: trs_def split: if_splits)
  moreover have "\<forall>a \<in> set (trs @ ds). a \<in> set (completion_triggers t)
      \<or> (\<exists>ok msg as. f s0 t = Inr (ok, msg, as) \<and> JDict a \<in> set as)"
    using Inr out ds by (auto simp: trs_def)
  ultimately show ?thesis by (rule that [OF u rest])
qed

text \<open>After a call the table is well formed and the called task is settled.\<close>

lemma call_task_settles:
  assumes "call_task draws f tx t s = Inr s'" and "good_task name f"
    and "store_inv s" and "t \<in> set (v_tasks s)" and "dget t ''name'' = JStr name"
  shows "store_inv s' \<and> store_settled (task_id_of t) s'"
proof -
  let ?s = "advance_blank (draws s t) s"
  obtain ok r u acts where
    close: "dispatch (resolve_task (dget t ''task_id'') ok r) ?s = Inr u"
    and run: "foldR dispatch acts u = Inr s'"
    and acts: "\<forall>a \<in> set acts. wf_action a \<and> (name \<in> set UPGRADE_TASKS \<longrightarrow> \<not> deletes_tasks a)"
    using assms(1,2) by (rule call_task_shape)
  have "dget t ''task_id'' = JInt (task_id_of t)"
    using assms(3,4) wf_task_id by (auto simp: store_inv_def wf_tasks_def)
  with close have close': "dispatch (close_task ok r (task_id_of t)) ?s = Inr u"
    by (simp add: close_task_def)
  show ?thesis
  proof (cases "name \<in> set UPGRADE_TASKS")
    case True
    have "has_task (task_id_of t) ?s" using assms(4) by (auto simp: has_task_def)
    with close' run assms(3) acts True show ?thesis
      by (intro keeping.close_then_run [where s = ?s]) (auto simp: keeping_action_def)
  next
    case False
    have "has_lasting_task (task_id_of t) ?s"
      using assms(4,5) False by (auto simp: has_lasting_task_def)
    with close' run assms(3) acts have
      "store_inv s' \<and> store_settled_for_good (task_id_of t) s'"
      by (intro lasting.close_then_run [where s = ?s]) auto
    then show ?thesis
      by (simp add: store_settled_def store_settled_for_good_def settled_for_good_settled)
  qed
qed

lemma active_head:
  "filter_active_tasks s = t # ts \<Longrightarrow> t \<in> set (v_tasks s) \<and> \<not> truthy (dget t ''complete'')"
  using in_filter_active_tasks [of t s] by simp

lemma settled_not_active:
  assumes "store_inv s" and "store_settled i s" and "t \<in> set (filter_active_tasks s)"
  shows "task_id_of t \<noteq> i"
proof
  assume "task_id_of t = i"
  then have "dget t ''complete'' = JBool True"
    using assms settled_complete [of "v_tasks s" i t]
    by (auto simp: store_inv_def store_settled_def in_filter_active_tasks)
  with assms(3) show False by (simp add: in_filter_active_tasks)
qed

text \<open>What the loop keeps: the table is well formed and the last task called is settled.\<close>

definition loop_inv :: "json \<Rightarrow> vstate \<Rightarrow> bool" where
  "loop_inv prev s \<longleftrightarrow>
     store_inv s \<and> (\<forall>t \<in> set (filter_active_tasks s). dget t ''task_id'' \<noteq> prev)"

lemma loop_inv_start: "store_inv s \<Longrightarrow> loop_inv (JInt 0) s"
  using wf_task_id by (fastforce simp: loop_inv_def store_inv_def wf_tasks_def in_filter_active_tasks)

lemma call_task_loop_inv:
  assumes "loop_inv prev s" and "good_table funcs"
    and act: "filter_active_tasks s = t # ts"
    and f: "bindR (dindex t ''name'') (task_named funcs n) = Inr f"
    and call: "call_task draws f tx t s = Inr s'"
  shows "loop_inv (dget t ''task_id'') s'"
proof -
  from f obtain name where name: "dget t ''name'' = JStr name" and fn: "funcs n name = Some f"
    by (auto simp: bindR_Inr_iff task_named_def dindex_Inr_iff split: json.splits option.splits)
  have t: "t \<in> set (v_tasks s)" using active_head [OF act] by simp
  have inv: "store_inv s" using assms(1) by (simp add: loop_inv_def)
  have good: "good_task name f" using assms(2) fn by (auto simp: good_table_def)
  have s': "store_inv s'" "store_settled (task_id_of t) s'"
    using call_task_settles [OF call good inv t name] by auto
  have tid: "dget t ''task_id'' = JInt (task_id_of t)"
    using inv t wf_task_id by (auto simp: store_inv_def wf_tasks_def)
  have "dget u ''task_id'' \<noteq> dget t ''task_id''" if u: "u \<in> set (filter_active_tasks s')" for u
  proof -
    have "u \<in> set (v_tasks s')" using u by (simp add: in_filter_active_tasks)
    then have "dget u ''task_id'' = JInt (task_id_of u)"
      using s'(1) wf_task_id by (auto simp: store_inv_def wf_tasks_def)
    with tid settled_not_active [OF s' u] show ?thesis by simp
  qed
  with s'(1) show ?thesis by (simp add: loop_inv_def)
qed

lemma run_tasks_finished:
  "run_tasks fuel funcs draws tx n prev s = Finished s' \<Longrightarrow> good_table funcs \<Longrightarrow> loop_inv prev s \<Longrightarrow>
     store_inv s' \<and> filter_active_tasks s' = []"
proof (induction fuel arbitrary: n prev s)
  case 0
  then show ?case by simp
next
  case (Suc fuel)
  show ?case
  proof (cases "filter_active_tasks s")
    case Nil
    with Suc.prems show ?thesis by (simp add: loop_inv_def)
  next
    case (Cons t ts)
    then have t: "t \<in> set (filter_active_tasks s)" by simp
    from Suc.prems(1) Cons obtain f i where
      f: "bindR (dindex t ''name'') (task_named funcs n) = Inr f" and
      i: "dindex t ''task_id'' = Inr i"
      by (auto split: sum.splits)
    have "i \<noteq> prev"
      using Suc.prems(3) t i by (auto simp: loop_inv_def dindex_Inr_iff)
    with Suc.prems(1) Cons f i obtain s1 where
      call: "call_task draws f tx t s = Inr s1" and
      rest: "run_tasks fuel funcs draws tx (Suc n) i s1 = Finished s'"
      by (auto split: sum.splits)
    have "loop_inv i s1"
      using call_task_loop_inv [OF Suc.prems(3,2) Cons f call] i by (simp add: dindex_Inr_iff)
    with Suc.IH [OF rest Suc.prems(2)] show ?thesis by simp
  qed
qed

section \<open>Feeding keeps the store well formed\<close>

lemma store_inv_initial: "store_inv INITIAL_STATE"
  by (simp add: store_inv_def INITIAL_STATE_def fetch_urls_def)

lemma distinct_dupdate: "distinct (map fst d) \<Longrightarrow> distinct (map fst (dupdate d e))"
  by (induction e arbitrary: d) (auto simp: distinct_dset)

lemma distinct_task_action: "distinct (map fst (task_action key n kw))"
  by (simp add: task_action_def distinct_dupdate)

text \<open>The actions the modelled code creates are admissible.\<close>

lemma task_action_wf:
  assumes "\<not> dhas kw ''type''" and "\<not> dhas kw ''task_id''"
  shows "wf_action (task_action key n kw)"
  using assms by (auto simp: wf_action_def distinct_task_action task_action_type)
    (simp add: task_action_def dhas_dupdate)

lemma task_action_keeps:
  "\<not> dhas kw ''type'' \<Longrightarrow> \<not> deletes_tasks (task_action key n kw)"
  by (simp add: deletes_tasks_def task_action_type)

lemma dset_wf_action:
  assumes "wf_action a" and "k \<noteq> ''type''" and "k \<noteq> ''task_id''"
  shows "wf_action (dset k v a)"
  using assms by (auto simp: wf_action_def distinct_dset)

lemma plain_actions_wf:
  "wf_action (store_input v)" "wf_action (input_type_action ty)"
  "wf_action (message_action m l b)" "wf_action (version_action vs)"
  "wf_action (set_validation_subject v)" "wf_action (set_verified_recipient_profile v w)"
  "wf_action (store_original_resource v w)" "wf_action (add_node v w)"
  "wf_action (patch_node_reference v w)" "wf_action (delete_outdated_node_tasks v)"
  "wf_action (patch_node v d)"
  by (simp_all add: wf_action_def store_input_def input_type_action_def message_action_def
      version_action_def set_validation_subject_def set_verified_recipient_profile_def
      store_original_resource_def add_node_def patch_node_reference_def
      delete_outdated_node_tasks_def patch_node_def update_node_def distinct_dset)

lemma plain_actions_keep:
  "\<not> deletes_tasks (store_input v)" "\<not> deletes_tasks (input_type_action ty)"
  "\<not> deletes_tasks (message_action m l b)" "\<not> deletes_tasks (version_action vs)"
  "\<not> deletes_tasks (set_validation_subject v)"
  "\<not> deletes_tasks (set_verified_recipient_profile v w)"
  "\<not> deletes_tasks (store_original_resource v w)" "\<not> deletes_tasks (add_node v w)"
  "\<not> deletes_tasks (patch_node_reference v w)" "\<not> deletes_tasks (patch_node v d)"
  by (simp_all add: deletes_tasks_def store_input_def input_type_action_def message_action_def
      version_action_def set_validation_subject_def set_verified_recipient_profile_def
      store_original_resource_def add_node_def patch_node_reference_def patch_node_def
      update_node_def)

lemmas admissible = task_action_wf task_action_keeps plain_actions_wf plain_actions_keep

lemma feed_input_inv:
  assumes "feed_input key vt inp s = Inr s'" and "store_inv s"
  shows "store_inv s'"
proof (cases "badge_data_of inp")
  case (Inr v)
  with assms(1) have
    "foldR dispatch [store_input v, task_action key ''DETECT_INPUT_TYPE'' []] s = Inr s'"
    by (simp add: feed_input_def)
  then show ?thesis using assms(2)
    by (rule lasting.run_inv) (auto simp: admissible)
next
  case (Inl e)
  with assms(1) obtain nm u r i where u:
    "foldR dispatch [store_input (JStr nm), task_action key ''DETECT_INPUT_TYPE'' [],
        input_type_action ''file''] s = Inr u"
    and r: "dispatch (resolve_task i (JBool False) r) u = Inr s'"
    by (auto simp add: feed_input_def Let_def bindR_Inr_iff simp del: foldR.simps
        split: if_splits)
  from u assms(2) have "store_inv u"
    by (rule lasting.run_inv) (auto simp: admissible)
  then show ?thesis using r by (rule resolve_inv)
qed

lemma feed_profile_inv:
  assumes "feed_profile key dumps prof s = Inr s'" and "store_inv s"
  shows "store_inv s'"
proof (cases "prof = []")
  case True
  with assms show ?thesis by (simp add: feed_profile_def)
next
  case False
  have wf: "wf_action (task_action key ''JSONLD_COMPACT_DATA''
      [(''data'', v), (''expected_class'', c)])" for v c
    by (simp add: admissible)
  have wf': "wf_action (if b then dset ''node_id'' i a else a)" if "wf_action a" for b i a
    using that by (simp add: dset_wf_action)
  from assms(1) False show ?thesis
    unfolding feed_profile_def Let_def
    by (auto intro: dispatch_store_inv [OF assms(2) wf' [OF wf]])
qed

lemma feed_inv:
  "bindR (feed_input k1 vt inp INITIAL_STATE) (feed_profile k2 dumps prof) = Inr s \<Longrightarrow> store_inv s"
  by (auto simp: bindR_Inr_iff
      dest!: feed_input_inv [OF _ store_inv_initial] intro: feed_profile_inv)

lemma verification_store_finished:
  assumes "good_table funcs"
    and "verification_store fuel funcs draws tx dumps keys vt inp prof = Finished s"
  shows "store_inv s \<and> filter_active_tasks s = []"
proof -
  from assms(2) obtain s0 where
    "bindR (feed_input (keys 0) vt inp INITIAL_STATE) (feed_profile (keys 1) dumps prof) = Inr s0"
    and run: "run_tasks fuel funcs draws tx 0 (JInt 0) s0 = Finished s"
    by (auto simp: verification_store_def split: sum.splits)
  then have "loop_inv (JInt 0) s0" by (blast intro: feed_inv loop_inv_start)
  with run_tasks_finished [OF run assms(1)] show ?thesis by blast
qed

end
