(* ===== verification/Verifier_Values.thy ===== *)
theory Verifier_Values
  imports Verifier_Engine
begin

text \<open>
  The value checks of the verifier: openbadges/verifier/tasks/utils.py and the value types of
  tasks/validation.py.  The regular expressions of the source are written out as predicates on
  strings (\<open>$\<close> also matches before a final newline).  What third-party packages compute is
  an argument, the record \<open>ext\<close>: rfc3986 (URI syntax), pyld (JSON-LD), language_tags, aniso8601.
\<close>

section \<open>The packages the checks call\<close>

text \<open>
  A parsed datetime is an instant in seconds, aware of its time zone or not; comparing the two
  kinds raises \<open>TypeError\<close> in Python.
\<close>

datatype py_datetime = Naive int | Aware int

record ext =
  valid_uri :: "string \<Rightarrow> bool"
  uri_scheme :: "string \<Rightarrow> string"
  uri_authority :: "string \<Rightarrow> json"
  jsonld_expand :: "json \<Rightarrow> json res"
  jsonld_compact :: "json \<Rightarrow> json res"
  language_check :: "string \<Rightarrow> bool"
  parse_datetime :: "json \<Rightarrow> py_datetime res"
  datetime_str :: "py_datetime \<Rightarrow> string"

section \<open>Character classes and matching\<close>

definition code :: "char \<Rightarrow> nat" where
  "code c = of_char c"

definition in_range :: "char \<Rightarrow> char \<Rightarrow> char \<Rightarrow> bool" where
  "in_range lo hi c \<longleftrightarrow> code lo \<le> code c \<and> code c \<le> code hi"

definition is_digit :: "char \<Rightarrow> bool" where
  "is_digit = in_range CHR ''0'' CHR ''9''"

definition is_letter :: "char \<Rightarrow> bool" where
  "is_letter c \<longleftrightarrow> in_range CHR ''a'' CHR ''z'' c \<or> in_range CHR ''A'' CHR ''Z'' c"

definition is_hex :: "char \<Rightarrow> bool" where
  "is_hex c \<longleftrightarrow> is_digit c \<or> in_range CHR ''a'' CHR ''f'' c \<or> in_range CHR ''A'' CHR ''F'' c"

definition is_space :: "char \<Rightarrow> bool" where
  "is_space c \<longleftrightarrow> code c = 32 \<or> (9 \<le> code c \<and> code c \<le> 13) \<or> (28 \<le> code c \<and> code c \<le> 31)
     \<or> code c = 133 \<or> code c = 160"

text \<open>A regular expression without repetition, up to the end (\<open>$\<close>).\<close>

fun match_chars :: "(char \<Rightarrow> bool) list \<Rightarrow> string \<Rightarrow> bool" where
  "match_chars [] s = (s = [])"
| "match_chars (p # ps) [] = False"
| "match_chars (p # ps) (c # s) = (p c \<and> match_chars ps s)"

definition drop_final_newline :: "string \<Rightarrow> string" where
  "drop_final_newline s = (if s \<noteq> [] \<and> last s = CHR 0x0A then butlast s else s)"

definition match_line :: "(char \<Rightarrow> bool) list \<Rightarrow> string \<Rightarrow> bool" where
  "match_line ps s \<longleftrightarrow> match_chars ps s \<or> match_chars ps (drop_final_newline s)"

definition exactly :: "string \<Rightarrow> (char \<Rightarrow> bool) list" where
  "exactly s = map (\<lambda>c d. d = c) s"

definition exactly_ci :: "string \<Rightarrow> (char \<Rightarrow> bool) list" where
  "exactly_ci s = map (\<lambda>c d. lower_char d = lower_char c) s"

lemma match_chars_length: "match_chars ps s \<Longrightarrow> length s = length ps"
  by (induction ps s rule: match_chars.induct) auto

section \<open>tasks/utils.py\<close>

definition is_empty_list :: "json \<Rightarrow> bool" where
  "is_empty_list value \<longleftrightarrow> value = JList []"

definition is_null_list :: "json \<Rightarrow> bool" where
  "is_null_list value \<longleftrightarrow> is_list value \<and> list_all (\<lambda>val. val = JNull) (list_of value)"

definition abbreviate_text :: "nat \<Rightarrow> string \<Rightarrow> string" where
  "abbreviate_text n s = (if length s < n then s else take n s @ ''...'')"

definition abbreviate_value :: "nat \<Rightarrow> json \<Rightarrow> string" where
  "abbreviate_value n value =
     abbreviate_text n
       (case value of JList vs \<Rightarrow> join_str '', '' (map py_str vs) | _ \<Rightarrow> py_str value)"

definition abv :: "json \<Rightarrow> string" where
  "abv = abbreviate_value 48"

definition abv_node :: "json \<Rightarrow> json \<Rightarrow> string" where
  "abv_node node_id node_path = (if truthy node_id then py_str node_id else abv node_path)"

definition urn_uuid_pattern :: "(char \<Rightarrow> bool) list" where
  "urn_uuid_pattern =
     exactly_ci ''urn:uuid:'' @ replicate 8 is_hex @ exactly ''-'' @ replicate 4 is_hex
     @ exactly ''-'' @ [in_range CHR ''1'' CHR ''5''] @ replicate 3 is_hex
     @ exactly ''-'' @ [\<lambda>c. lower_char c \<in> set ''89ab''] @ replicate 3 is_hex
     @ exactly ''-'' @ replicate 12 is_hex"

definition is_urn_uuid :: "string \<Rightarrow> bool" where
  "is_urn_uuid s = match_line urn_uuid_pattern s"

text \<open>\<open>re.match\<close> raises \<open>TypeError\<close> on what is not a string.\<close>

definition is_blank_node_id :: "json \<Rightarrow> bool res" where
  "is_blank_node_id value = bindR (expect_str value) (\<lambda>s. Inr (startswith s ''_:''))"

definition is_url_str :: "ext \<Rightarrow> string \<Rightarrow> bool" where
  "is_url_str E s \<longleftrightarrow>
     s \<noteq> [] \<and> valid_uri E s \<and> lower_str (uri_scheme E s) \<in> {''http'', ''https''}"

fun is_url :: "ext \<Rightarrow> json \<Rightarrow> bool" where
  "is_url E (JStr s) = is_url_str E s"
| "is_url E _ = False"

definition is_iri :: "ext \<Rightarrow> json \<Rightarrow> bool res" where
  "is_iri E value =
     (if is_url E value then Inr True
      else bindR (expect_str value) (\<lambda>s. Inr (startswith s ''_:'' \<or> is_urn_uuid s)))"

text \<open>
  \<open>data:\<close>, anything without a comma (a media type and perhaps \<open>base64\<close>), a comma, the data on
  one line.
\<close>

definition data_uri_shape :: "string \<Rightarrow> bool" where
  "data_uri_shape s \<longleftrightarrow>
     lower_str (take 5 s) = ''data:''
     \<and> (let rest = dropWhile (\<lambda>c. c \<noteq> CHR '','') (drop 5 s)
        in rest \<noteq> [] \<and> CHR 0x0A \<notin> set (drop_final_newline (tl rest)))"

fun is_data_uri :: "ext \<Rightarrow> json \<Rightarrow> bool" where
  "is_data_uri E (JStr s) = (s \<noteq> [] \<and> valid_uri E s \<and> data_uri_shape s)"
| "is_data_uri E _ = False"

definition filter_tasks :: "vstate \<Rightarrow> pydict \<Rightarrow> pydict list" where
  "filter_tasks state kwargs =
     filter (\<lambda>val. list_all (\<lambda>(k, v). dget val k = v) kwargs) (v_tasks state)"

section \<open>The value types (tasks/validation.py)\<close>

definition value_types :: "string list" where
  "value_types =
     [''BOOLEAN'', ''COMPACT_IRI'', ''DATA_URI'', ''DATA_URI_OR_URL'', ''DATETIME'', ''EMAIL'', ''ID'',
      ''IDENTITY_HASH'', ''IRI'', ''LANGUAGE'', ''MARKDOWN_TEXT'', ''RDF_TYPE'', ''TELEPHONE'', ''TEXT'',
      ''TEXT_OR_NUMBER'', ''URL'', ''URL_AUTHORITY'']"

definition PRIMITIVES :: "string list" where
  "PRIMITIVES =
     [''BOOLEAN'', ''DATA_URI_OR_URL'', ''DATETIME'', ''ID'', ''IDENTITY_HASH'', ''IRI'', ''LANGUAGE'',
      ''MARKDOWN_TEXT'', ''TELEPHONE'', ''TEXT'', ''TEXT_OR_NUMBER'', ''URL'', ''URL_AUTHORITY'']"

definition has_utc_offset :: "string \<Rightarrow> bool" where
  "has_utc_offset s \<longleftrightarrow>
     (\<exists>n \<in> {3, 5, 6}.
        let t = drop_final_newline s; off = drop (length t - n) t in
        n \<le> length t \<and> hd off \<in> set ''+-''
        \<and> match_chars ((\<lambda>c. True) # (if n = 3 then replicate 2 is_digit
             else if n = 5 then replicate 4 is_digit
             else replicate 2 is_digit @ exactly '':'' @ replicate 2 is_digit)) off
        \<and> CHR 0x0A \<notin> set (take (length t - n) t))"

definition validate_datetime :: "ext \<Rightarrow> json \<Rightarrow> bool" where
  "validate_datetime E value =
     (case parse_datetime E value of
        Inl e \<Rightarrow> False
      | Inr _ \<Rightarrow>
          (case value of
             JStr s \<Rightarrow> (s \<noteq> [] \<and> last s = CHR ''Z'') \<or> has_utc_offset s
           | _ \<Rightarrow> False))"

definition validate_email :: "json \<Rightarrow> bool res" where
  "validate_email value =
     bindR (expect_str value) (\<lambda>s0.
       let s = drop_final_newline s0; user = takeWhile (\<lambda>c. c \<noteq> CHR ''@'') s;
           host = drop (Suc (length user)) s
       in Inr (CHR ''@'' \<in> set s \<and> user \<noteq> [] \<and> host \<noteq> [] \<and> CHR ''@'' \<notin> set host
               \<and> list_all (\<lambda>c. \<not> is_space c) s))"

definition is_hashed_identity_hash :: "json \<Rightarrow> bool res" where
  "is_hashed_identity_hash value =
     bindR (expect_str value) (\<lambda>s.
       Inr (match_line (exactly ''md5$'' @ replicate 32 is_hex) s
            \<or> match_line (exactly ''sha256$'' @ replicate 64 is_hex) s))"

definition validate_compact_iri :: "ext \<Rightarrow> json \<Rightarrow> json \<Rightarrow> bool res" where
  "validate_compact_iri E context value =
     (if value = JStr ''id'' then Inr True
      else
        bindR (is_iri E value) (\<lambda>iri.
          if iri then Inr True
          else
            bindR (expect_str value) (\<lambda>term.
            case bindR (jsonld_expand E (JDict (dset term (JStr ''TEST'') [(''@context'', context)])))
                   (\<lambda>expanded. bindR (sequence_of expanded) (\<lambda>xs.
                    bindR (list_at xs 0) sequence_of)) of
              Inl (OtherError _) \<Rightarrow> Inr False
            | Inl IndexError \<Rightarrow> Inr False
            | Inl e \<Rightarrow> Inl e
            | Inr keys \<Rightarrow> Inr (length keys = 1))))"

definition validate_rdf_type :: "ext \<Rightarrow> json \<Rightarrow> json \<Rightarrow> bool res" where
  "validate_rdf_type E context value =
     (if \<not> is_str value then Inr False
      else
        (case bindR (jsonld_expand E (JDict [(''@context'', context), (''type'', value)]))
                (\<lambda>expanded. bindR (sequence_of expanded) (\<lambda>xs. bindR (list_at xs 0) (\<lambda>d.
                 bindR (subscript d ''@type'') (\<lambda>ty. bindR (sequence_of ty) (\<lambda>tys.
                 bindR (list_at tys 0) (is_iri E)))))) of
           Inl (OtherError _) \<Rightarrow> Inr False
         | r \<Rightarrow> r))"

definition validate_tel :: "json \<Rightarrow> bool res" where
  "validate_tel value =
     bindR (expect_str value) (\<lambda>s0.
       let s = drop_final_newline s0;
           t = (if s \<noteq> [] \<and> hd s = CHR ''+'' then tl s else s);
           num = takeWhile is_digit t; rest = dropWhile is_digit t
       in Inr (num \<noteq> [] \<and> hd num \<noteq> CHR ''0'' \<and> 2 \<le> length num \<and> length num \<le> 15
               \<and> (rest = [] \<or> (startswith rest '';ext='' \<and> drop 5 rest \<noteq> []
                                \<and> list_all is_digit (drop 5 rest)))))"

definition hostname_label :: "string \<Rightarrow> bool" where
  "hostname_label l \<longleftrightarrow>
     l \<noteq> [] \<and> length l \<le> 63 \<and> hd l \<noteq> CHR ''-'' \<and> last l \<noteq> CHR ''-''
     \<and> list_all (\<lambda>c. is_letter c \<or> is_digit c \<or> c = CHR ''-'') l"

definition hostname_top :: "string \<Rightarrow> bool" where
  "hostname_top l \<longleftrightarrow> 2 \<le> length l \<and> length l \<le> 63 \<and> list_all is_letter l"

definition is_hostname :: "string \<Rightarrow> bool" where
  "is_hostname s \<longleftrightarrow>
     4 \<le> length s \<and> length s \<le> 253
     \<and> (let ls = split_on CHR ''.'' s
        in 2 \<le> length ls \<and> list_all hostname_label (butlast ls) \<and> hostname_top (last ls))"

text \<open>
  The authority is what \<open>urlparse\<close> finds before the first \<open>/\<close>, \<open>?\<close> or \<open>#\<close>; it must be the whole
  value.  An unbalanced bracket in it raises \<open>ValueError\<close>.
\<close>

definition validate_url_authority :: "json \<Rightarrow> bool res" where
  "validate_url_authority value =
     (case value of
        JStr s \<Rightarrow>
          (let au = takeWhile (\<lambda>c. c \<notin> set ''/?#'') s in
           if (CHR ''['' \<in> set au) \<noteq> (CHR '']'' \<in> set au) then Inl ValueError
           else Inr (au \<noteq> [] \<and> is_hostname au \<and> au = s))
      | _ \<Rightarrow> Inr False)"

text \<open>
  \<open>PrimitiveValueValidator(value_type)(value)\<close>.  The check for Markdown returns the function that
  checks a text, not its result, so it accepts every value.
\<close>

definition validate_primitive ::
  "ext \<Rightarrow> json \<Rightarrow> string \<Rightarrow> json \<Rightarrow> bool res" where
  "validate_primitive E context value_type value =
     (if value_type = ''BOOLEAN'' then Inr (is_bool value)
      else if value_type = ''DATA_URI'' then Inr (is_data_uri E value)
      else if value_type = ''DATA_URI_OR_URL'' then Inr (is_url E value \<or> is_data_uri E value)
      else if value_type = ''DATETIME'' then Inr (validate_datetime E value)
      else if value_type = ''EMAIL'' then validate_email value
      else if value_type = ''IDENTITY_HASH'' then Inr (is_str value)
      else if value_type = ''IRI'' then is_iri E value
      else if value_type = ''LANGUAGE''
        then Inr (case value of JStr s \<Rightarrow> language_check E s | _ \<Rightarrow> False)
      else if value_type = ''COMPACT_IRI'' then validate_compact_iri E context value
      else if value_type = ''MARKDOWN_TEXT'' then Inr True
      else if value_type = ''RDF_TYPE'' then validate_rdf_type E context value
      else if value_type = ''TELEPHONE'' then validate_tel value
      else if value_type = ''TEXT'' then Inr (is_str value)
      else if value_type = ''TEXT_OR_NUMBER'' then Inr (is_str value \<or> is_number value)
      else if value_type = ''URL'' then Inr (is_url E value)
      else if value_type = ''URL_AUTHORITY'' then validate_url_authority value
      else Inl KeyError)"

section \<open>Lemmas\<close>

lemma is_url_is_str: "is_url E v \<Longrightarrow> is_str v"
  by (cases v) auto

lemma is_iri_cases:
  "is_iri E (JStr s) = Inr (is_url_str E s \<or> startswith s ''_:'' \<or> is_urn_uuid s)"
  by (simp add: is_iri_def)

lemma is_iri_not_str: "\<not> is_str v \<Longrightarrow> is_iri E v = Inl TypeError"
  by (cases v) (auto simp: is_iri_def)

lemma validate_primitive_defined:
  "t \<in> set value_types \<Longrightarrow> t \<noteq> ''ID'' \<Longrightarrow> validate_primitive E ctx t v \<noteq> Inl KeyError \<or>
     t \<in> {''COMPACT_IRI'', ''RDF_TYPE''}"
  by (auto simp: value_types_def validate_primitive_def validate_email_def validate_tel_def
      validate_url_authority_def is_iri_def Let_def bindR_Inl_iff dest: expect_str_Inl
      split: json.splits if_splits)

end
