(* ===== verification/Verifier_Classes.thy ===== *)
theory Verifier_Classes
  imports Verifier_Values
begin

text \<open>
  The Open Badges classes and the validators of each (tasks/validation.py, class
  \<open>ClassValidators\<close>), and how a class is turned into the validation tasks of a node.  The random
  task keys are an argument, \<open>keys\<close>, indexed by the number of the draw.
\<close>

section \<open>The JSON-LD context (openbadges\_context.py)\<close>

definition OPENBADGES_CONTEXT_V2_TERMS :: pydict where
  "OPENBADGES_CONTEXT_V2_TERMS =
     [(''id'', JStr ''@id''), (''type'', JStr ''@type''),
      (''extensions'', JStr ''https://w3id.org/openbadges/extensions#''),
      (''obi'', JStr ''https://w3id.org/openbadges#''),
      (''validation'', JStr ''obi:validation''),
      (''cred'', JStr ''https://w3id.org/credentials#''),
      (''dc'', JStr ''http://purl.org/dc/terms/''), (''schema'', JStr ''http://schema.org/''),
      (''sec'', JStr ''https://w3id.org/security#''),
      (''xsd'', JStr ''http://www.w3.org/2001/XMLSchema#''),
      (''AlignmentObject'', JStr ''schema:AlignmentObject''),
      (''CryptographicKey'', JStr ''sec:Key''), (''Endorsement'', JStr ''cred:Credential''),
      (''Assertion'', JStr ''obi:Assertion''), (''BadgeClass'', JStr ''obi:BadgeClass''),
      (''Criteria'', JStr ''obi:Criteria''), (''Evidence'', JStr ''obi:Evidence''),
      (''Extension'', JStr ''obi:Extension''),
      (''FrameValidation'', JStr ''obi:FrameValidation''),
      (''IdentityObject'', JStr ''obi:IdentityObject''), (''Image'', JStr ''obi:Image''),
      (''HostedBadge'', JStr ''obi:HostedBadge''), (''hosted'', JStr ''obi:HostedBadge''),
      (''Issuer'', JStr ''obi:Issuer''), (''Profile'', JStr ''obi:Profile''),
      (''RevocationList'', JStr ''obi:RevocationList''),
      (''SignedBadge'', JStr ''obi:SignedBadge''), (''signed'', JStr ''obi:SignedBadge''),
      (''TypeValidation'', JStr ''obi:TypeValidation''),
      (''VerificationObject'', JStr ''obi:VerificationObject''),
      (''author'', JDict [(''@id'', JStr ''schema:author''), (''@type'', JStr ''@id'')]),
      (''caption'', JDict [(''@id'', JStr ''schema:caption'')]),
      (''claim'', JDict [(''@id'', JStr ''cred:claim''), (''@type'', JStr ''@id'')]),
      (''created'', JDict [(''@id'', JStr ''dc:created''), (''@type'', JStr ''xsd:dateTime'')]),
      (''creator'', JDict [(''@id'', JStr ''dc:creator''), (''@type'', JStr ''@id'')]),
      (''description'', JDict [(''@id'', JStr ''schema:description'')]),
      (''email'', JDict [(''@id'', JStr ''schema:email'')]),
      (''endorsement'', JDict [(''@id'', JStr ''cred:credential''), (''@type'', JStr ''@id'')]),
      (''expires'', JDict [(''@id'', JStr ''sec:expiration''), (''@type'', JStr ''xsd:dateTime'')]),
      (''genre'', JDict [(''@id'', JStr ''schema:genre'')]),
      (''image'', JDict [(''@id'', JStr ''schema:image''), (''@type'', JStr ''@id'')]),
      (''name'', JDict [(''@id'', JStr ''schema:name'')]),
      (''owner'', JDict [(''@id'', JStr ''sec:owner''), (''@type'', JStr ''@id'')]),
      (''publicKey'', JDict [(''@id'', JStr ''sec:publicKey''), (''@type'', JStr ''@id'')]),
      (''publicKeyPem'', JDict [(''@id'', JStr ''sec:publicKeyPem'')]),
      (''related'', JDict [(''@id'', JStr ''dc:relation''), (''@type'', JStr ''@id'')]),
      (''startsWith'', JDict [(''@id'', JStr ''http://purl.org/dqm-vocabulary/v1/dqm#startsWith'')]),
      (''tags'', JDict [(''@id'', JStr ''schema:keywords'')]),
      (''targetDescription'', JDict [(''@id'', JStr ''schema:targetDescription'')]),
      (''targetFramework'', JDict [(''@id'', JStr ''schema:targetFramework'')]),
      (''targetName'', JDict [(''@id'', JStr ''schema:targetName'')]),
      (''targetUrl'', JDict [(''@id'', JStr ''schema:targetUrl'')]),
      (''telephone'', JDict [(''@id'', JStr ''schema:telephone'')]),
      (''url'', JDict [(''@id'', JStr ''schema:url''), (''@type'', JStr ''@id'')]),
      (''version'', JDict [(''@id'', JStr ''schema:version'')]),
      (''alignment'', JDict [(''@id'', JStr ''obi:alignment''), (''@type'', JStr ''@id'')]),
      (''allowedOrigins'', JDict [(''@id'', JStr ''obi:allowedOrigins'')]),
      (''audience'', JDict [(''@id'', JStr ''obi:audience'')]),
      (''badge'', JDict [(''@id'', JStr ''obi:badge''), (''@type'', JStr ''@id'')]),
      (''criteria'', JDict [(''@id'', JStr ''obi:criteria''), (''@type'', JStr ''@id'')]),
      (''endorsementComment'', JDict [(''@id'', JStr ''obi:endorsementComment'')]),
      (''evidence'', JDict [(''@id'', JStr ''obi:evidence''), (''@type'', JStr ''@id'')]),
      (''hashed'', JDict [(''@id'', JStr ''obi:hashed''), (''@type'', JStr ''xsd:boolean'')]),
      (''identity'', JDict [(''@id'', JStr ''obi:identityHash'')]),
      (''issuedOn'', JDict [(''@id'', JStr ''obi:issueDate''), (''@type'', JStr ''xsd:dateTime'')]),
      (''issuer'', JDict [(''@id'', JStr ''obi:issuer''), (''@type'', JStr ''@id'')]),
      (''narrative'', JDict [(''@id'', JStr ''obi:narrative'')]),
      (''recipient'', JDict [(''@id'', JStr ''obi:recipient''), (''@type'', JStr ''@id'')]),
      (''revocationList'', JDict [(''@id'', JStr ''obi:revocationList''), (''@type'', JStr ''@id'')]),
      (''revocationReason'', JDict [(''@id'', JStr ''obi:revocationReason'')]),
      (''revoked'', JDict [(''@id'', JStr ''obi:revoked''), (''@type'', JStr ''xsd:boolean'')]),
      (''revokedAssertions'', JDict [(''@id'', JStr ''obi:revoked'')]),
      (''salt'', JDict [(''@id'', JStr ''obi:salt'')]),
      (''targetCode'', JDict [(''@id'', JStr ''obi:targetCode'')]),
      (''uid'', JDict [(''@id'', JStr ''obi:uid'')]),
      (''validatesType'', JStr ''obi:validatesType''),
      (''validationFrame'', JStr ''obi:validationFrame''),
      (''validationSchema'', JStr ''obi:validationSchema''),
      (''verification'', JDict [(''@id'', JStr ''obi:verify''), (''@type'', JStr ''@id'')]),
      (''verificationProperty'', JDict [(''@id'', JStr ''obi:verificationProperty'')]),
      (''verify'', JStr ''verification'')]"

definition OPENBADGES_CONTEXT_V2_DICT :: json where
  "OPENBADGES_CONTEXT_V2_DICT = JDict [(''@context'', JDict OPENBADGES_CONTEXT_V2_TERMS)]"

section \<open>Classes\<close>

definition ALL_CLASSES :: "string list" where
  "ALL_CLASSES =
     [''AlignmentObject'', ''Assertion'', ''BadgeClass'', ''Criteria'', ''CryptographicKey'',
      ''Endorsement'', ''EndorsementClaim'', ''ExpectedRecipientProfile'', ''Extension'', ''Evidence'',
      ''IdentityObject'', ''Image'', ''Issuer'', ''Profile'', ''RevocationList'',
      ''VerificationObject'', ''VerificationObjectAssertion'', ''VerificationObjectIssuer'']"

definition PRIMARY_OBJECTS :: "string list" where
  "PRIMARY_OBJECTS = [''Assertion'', ''BadgeClass'', ''Issuer'', ''Profile'', ''Endorsement'']"

definition default_for :: "json \<Rightarrow> string res" where
  "default_for class_name =
     (case class_name of
        JStr c \<Rightarrow>
          (if c \<notin> set ALL_CLASSES then Inl TypeError
           else if c = ''Issuer'' then Inr ''Profile'' else Inr c)
      | _ \<Rightarrow> Inl TypeError)"

section \<open>The validators of each class\<close>

definition validators_Assertion :: "pydict list" where
  "validators_Assertion =
     [[(''prop_name'', JStr ''id''), (''prop_type'', JStr ''IRI''), (''required'', JBool True)],
      [(''prop_name'', JStr ''type''), (''prop_type'', JStr ''RDF_TYPE''),
       (''required'', JBool True), (''many'', JBool True),
       (''must_contain_one'', JList [JStr ''Assertion''])],
      [(''prop_name'', JStr ''recipient''), (''prop_type'', JStr ''ID''),
       (''expected_class'', JStr ''IdentityObject''), (''required'', JBool True)],
      [(''prop_name'', JStr ''badge''), (''prop_type'', JStr ''ID''),
       (''prerequisites'', JStr ''ASN_FLATTEN_BC''), (''expected_class'', JStr ''BadgeClass''),
       (''fetch'', JBool True), (''required'', JBool True)],
      [(''prop_name'', JStr ''verification''), (''prop_type'', JStr ''ID''),
       (''expected_class'', JStr ''VerificationObjectAssertion''), (''required'', JBool True)],
      [(''prop_name'', JStr ''issuedOn''), (''prop_type'', JStr ''DATETIME''),
       (''required'', JBool True)],
      [(''prop_name'', JStr ''expires''), (''prop_type'', JStr ''DATETIME''),
       (''required'', JBool False)],
      [(''prop_name'', JStr ''image''), (''prop_type'', JStr ''ID''),
       (''required'', JBool False), (''allow_remote_url'', JBool True),
       (''expected_class'', JStr ''Image''), (''fetch'', JBool False),
       (''allow_data_uri'', JBool False)],
      [(''prop_name'', JStr ''narrative''), (''prop_type'', JStr ''MARKDOWN_TEXT''),
       (''required'', JBool False)],
      [(''prop_name'', JStr ''evidence''), (''prop_type'', JStr ''ID''),
       (''allow_remote_url'', JBool True), (''expected_class'', JStr ''Evidence''),
       (''many'', JBool True), (''fetch'', JBool False), (''required'', JBool False)],
      [(''task_type'', JStr ''ASSERTION_VERIFICATION_DEPENDENCIES''),
       (''prerequisites'', JStr ''ISSUER_PROPERTY_DEPENDENCIES'')],
      [(''task_type'', JStr ''ASSERTION_TIMESTAMP_CHECKS'')],
      [(''task_type'', JStr ''IMAGE_VALIDATION''), (''prop_name'', JStr ''image''),
       (''node_class'', JStr ''Assertion''), (''required'', JBool False),
       (''many'', JBool False), (''allow_data_uri'', JBool False)],
      [(''task_type'', JStr ''FLATTEN_EMBEDDED_RESOURCE''), (''prop_name'', JStr ''badge''),
       (''node_class'', JStr ''Assertion''), (''task_key'', JStr ''ASN_FLATTEN_BC'')]]"

definition validators_BadgeClass :: "pydict list" where
  "validators_BadgeClass =
     [[(''prop_name'', JStr ''id''), (''prop_type'', JStr ''IRI''), (''required'', JBool True)],
      [(''prop_name'', JStr ''type''), (''prop_type'', JStr ''RDF_TYPE''),
       (''required'', JBool True), (''many'', JBool True),
       (''must_contain_one'', JList [JStr ''BadgeClass''])],
      [(''prop_name'', JStr ''issuer''), (''prop_type'', JStr ''ID''),
       (''prerequisites'', JStr ''BC_FLATTEN_ISS''), (''expected_class'', JStr ''Profile''),
       (''fetch'', JBool True), (''required'', JBool True)],
      [(''prop_name'', JStr ''name''), (''prop_type'', JStr ''TEXT''),
       (''required'', JBool True)],
      [(''prop_name'', JStr ''description''), (''prop_type'', JStr ''TEXT''),
       (''required'', JBool True)],
      [(''prop_name'', JStr ''image''), (''prop_type'', JStr ''ID''),
       (''required'', JBool False), (''allow_remote_url'', JBool True),
       (''expected_class'', JStr ''Image''), (''fetch'', JBool False),
       (''allow_data_uri'', JBool True)],
      [(''prop_name'', JStr ''criteria''), (''prop_type'', JStr ''ID''),
       (''expected_class'', JStr ''Criteria''), (''fetch'', JBool False),
       (''required'', JBool True), (''allow_remote_url'', JBool True)],
      [(''prop_name'', JStr ''alignment''), (''prop_type'', JStr ''ID''),
       (''expected_class'', JStr ''AlignmentObject''), (''many'', JBool True),
       (''fetch'', JBool False), (''required'', JBool False)],
      [(''prop_name'', JStr ''tags''), (''prop_type'', JStr ''TEXT''), (''many'', JBool True),
       (''required'', JBool False)],
      [(''task_type'', JStr ''IMAGE_VALIDATION''), (''prop_name'', JStr ''image''),
       (''node_class'', JStr ''BadgeClass''), (''required'', JBool True),
       (''many'', JBool False), (''allow_data_uri'', JBool True)],
      [(''task_type'', JStr ''FLATTEN_EMBEDDED_RESOURCE''), (''prop_name'', JStr ''issuer''),
       (''node_class'', JStr ''BadgeClass''), (''task_key'', JStr ''BC_FLATTEN_ISS'')]]"

definition validators_CryptographicKey :: "pydict list" where
  "validators_CryptographicKey =
     [[(''prop_name'', JStr ''id''), (''prop_type'', JStr ''IRI''), (''required'', JBool False)],
      [(''prop_name'', JStr ''type''), (''prop_type'', JStr ''RDF_TYPE''),
       (''required'', JBool False), (''many'', JBool True),
       (''default'', JStr ''CryptographicKey'')],
      [(''prop_name'', JStr ''owner''), (''prop_type'', JStr ''IRI''),
       (''required'', JBool False), (''fetch'', JBool True)],
      [(''prop_name'', JStr ''publicKeyPem''), (''prop_type'', JStr ''TEXT''),
       (''required'', JBool False)],
      [(''task_type'', JStr ''ASSERTION_VERIFICATION_CHECK''),
       (''triggers_completion'', JStr ''SIGNING_KEY_FETCHED'')]]"

definition validators_Profile :: "pydict list" where
  "validators_Profile =
     [[(''prop_name'', JStr ''id''), (''prop_type'', JStr ''IRI''), (''required'', JBool True)],
      [(''prop_name'', JStr ''type''), (''prop_type'', JStr ''RDF_TYPE''),
       (''required'', JBool True), (''many'', JBool True),
       (''must_contain_one'', JList [JStr ''Issuer'', JStr ''Profile''])],
      [(''prop_name'', JStr ''name''), (''prop_type'', JStr ''TEXT''),
       (''required'', JBool True)],
      [(''prop_name'', JStr ''description''), (''prop_type'', JStr ''TEXT''),
       (''required'', JBool False)],
      [(''prop_name'', JStr ''image''), (''prop_type'', JStr ''ID''),
       (''required'', JBool False), (''allow_remote_url'', JBool True),
       (''expected_class'', JStr ''Image''), (''fetch'', JBool False),
       (''allow_data_uri'', JBool True)],
      [(''prop_name'', JStr ''url''), (''prop_type'', JStr ''URL''), (''required'', JBool True)],
      [(''prop_name'', JStr ''email''), (''prop_type'', JStr ''EMAIL''),
       (''required'', JBool True)],
      [(''prop_name'', JStr ''telephone''), (''prop_type'', JStr ''TELEPHONE''),
       (''required'', JBool False)],
      [(''prop_name'', JStr ''publicKey''), (''prop_type'', JStr ''ID''),
       (''expected_class'', JStr ''CryptographicKey''), (''fetch'', JBool True),
       (''required'', JBool False)],
      [(''prop_name'', JStr ''verification''), (''prop_type'', JStr ''ID''),
       (''expected_class'', JStr ''VerificationObjectIssuer''), (''fetch'', JBool False),
       (''required'', JBool False)],
      [(''task_type'', JStr ''ISSUER_PROPERTY_DEPENDENCIES''),
       (''messageLevel'', JStr ''WARNING'')]]"

definition validators_ExpectedRecipientProfile :: "pydict list" where
  "validators_ExpectedRecipientProfile =
     [[(''prop_name'', JStr ''id''), (''prop_type'', JStr ''IRI''), (''required'', JBool False)],
      [(''prop_name'', JStr ''type''), (''prop_type'', JStr ''RDF_TYPE''),
       (''required'', JBool False), (''many'', JBool True),
       (''must_contain_one'', JList [JStr ''Issuer'', JStr ''Profile'']),
       (''default'', JStr ''Profile'')],
      [(''prop_name'', JStr ''name''), (''prop_type'', JStr ''TEXT''),
       (''required'', JBool False)],
      [(''prop_name'', JStr ''description''), (''prop_type'', JStr ''TEXT''),
       (''required'', JBool False)],
      [(''prop_name'', JStr ''image''), (''prop_type'', JStr ''ID''),
       (''required'', JBool False), (''expected_class'', JStr ''Image''),
       (''fetch'', JBool False), (''allow_data_uri'', JBool True)],
      [(''prop_name'', JStr ''url''), (''prop_type'', JStr ''URL''), (''required'', JBool False),
       (''many'', JBool True)],
      [(''prop_name'', JStr ''email''), (''prop_type'', JStr ''EMAIL''),
       (''required'', JBool False), (''many'', JBool True)],
      [(''prop_name'', JStr ''telephone''), (''prop_type'', JStr ''TELEPHONE''),
       (''required'', JBool False), (''many'', JBool True)],
      [(''prop_name'', JStr ''publicKey''), (''prop_type'', JStr ''ID''), (''many'', JBool True),
       (''expected_class'', JStr ''CryptographicKey''), (''fetch'', JBool False),
       (''required'', JBool False)],
      [(''prop_name'', JStr ''verification''), (''prop_type'', JStr ''ID''),
       (''expected_class'', JStr ''VerificationObjectIssuer''), (''fetch'', JBool False),
       (''required'', JBool False)],
      [(''task_type'', JStr ''VERIFY_RECIPIENT_IDENTIFIER''),
       (''prerequisites'', JStr ''ASSERTION_VERIFICATION_DEPENDENCIES'')]]"

definition validators_AlignmentObject :: "pydict list" where
  "validators_AlignmentObject =
     [[(''prop_name'', JStr ''type''), (''prop_type'', JStr ''RDF_TYPE''),
       (''many'', JBool True), (''required'', JBool False),
       (''default'', JStr ''AlignmentObject'')],
      [(''prop_name'', JStr ''targetName''), (''prop_type'', JStr ''TEXT''),
       (''required'', JBool True)],
      [(''prop_name'', JStr ''targetUrl''), (''prop_type'', JStr ''URL''),
       (''required'', JBool True)],
      [(''prop_name'', JStr ''description''), (''prop_type'', JStr ''TEXT''),
       (''required'', JBool False)],
      [(''prop_name'', JStr ''targetFramework''), (''prop_type'', JStr ''TEXT''),
       (''required'', JBool False)],
      [(''prop_name'', JStr ''targetCode''), (''prop_type'', JStr ''TEXT''),
       (''required'', JBool False)]]"

definition validators_Criteria :: "pydict list" where
  "validators_Criteria =
     [[(''prop_name'', JStr ''type''), (''prop_type'', JStr ''RDF_TYPE''),
       (''many'', JBool True), (''required'', JBool False), (''default'', JStr ''Criteria'')],
      [(''prop_name'', JStr ''id''), (''prop_type'', JStr ''IRI''), (''required'', JBool False)],
      [(''prop_name'', JStr ''narrative''), (''prop_type'', JStr ''MARKDOWN_TEXT''),
       (''required'', JBool False)],
      [(''task_type'', JStr ''CRITERIA_PROPERTY_DEPENDENCIES'')]]"

definition validators_IdentityObject :: "pydict list" where
  "validators_IdentityObject =
     [[(''prop_name'', JStr ''type''), (''prop_type'', JStr ''RDF_TYPE''),
       (''required'', JBool True), (''many'', JBool False),
       (''must_contain_one'', JList [JStr ''id'', JStr ''email'', JStr ''url'', JStr ''telephone''])],
      [(''prop_name'', JStr ''identity''), (''prop_type'', JStr ''IDENTITY_HASH''),
       (''required'', JBool True)],
      [(''prop_name'', JStr ''hashed''), (''prop_type'', JStr ''BOOLEAN''),
       (''required'', JBool True)],
      [(''prop_name'', JStr ''salt''), (''prop_type'', JStr ''TEXT''),
       (''required'', JBool False)],
      [(''task_type'', JStr ''IDENTITY_OBJECT_PROPERTY_DEPENDENCIES'')]]"

definition validators_Evidence :: "pydict list" where
  "validators_Evidence =
     [[(''prop_name'', JStr ''type''), (''prop_type'', JStr ''RDF_TYPE''),
       (''many'', JBool True), (''required'', JBool False), (''default'', JStr ''Evidence'')],
      [(''prop_name'', JStr ''id''), (''prop_type'', JStr ''IRI''), (''required'', JBool False)],
      [(''prop_name'', JStr ''narrative''), (''prop_type'', JStr ''MARKDOWN_TEXT''),
       (''required'', JBool False)],
      [(''prop_name'', JStr ''name''), (''prop_type'', JStr ''TEXT''),
       (''required'', JBool False)],
      [(''prop_name'', JStr ''description''), (''prop_type'', JStr ''TEXT''),
       (''required'', JBool False)],
      [(''prop_name'', JStr ''genre''), (''prop_type'', JStr ''TEXT''),
       (''required'', JBool False)],
      [(''prop_name'', JStr ''audience''), (''prop_type'', JStr ''TEXT''),
       (''required'', JBool False)]]"

definition validators_Image :: "pydict list" where
  "validators_Image =
     [[(''prop_name'', JStr ''type''), (''prop_type'', JStr ''RDF_TYPE''),
       (''many'', JBool True), (''required'', JBool False),
       (''default'', JStr ''schema:ImageObject'')],
      [(''prop_name'', JStr ''id''), (''prop_type'', JStr ''DATA_URI_OR_URL''),
       (''required'', JBool True)],
      [(''prop_name'', JStr ''caption''), (''prop_type'', JStr ''TEXT''),
       (''required'', JBool False)],
      [(''prop_name'', JStr ''author''), (''prop_type'', JStr ''IRI''),
       (''required'', JBool False)],
      [(''task_type'', JStr ''IMAGE_VALIDATION''), (''prop_name'', JStr ''id''),
       (''allow_data_uri'', JBool True)]]"

definition validators_VerificationObjectAssertion :: "pydict list" where
  "validators_VerificationObjectAssertion =
     [[(''prop_name'', JStr ''type''), (''prop_type'', JStr ''RDF_TYPE''),
       (''required'', JBool True), (''many'', JBool False),
       (''must_contain_one'', JList [JStr ''HostedBadge'', JStr ''SignedBadge''])],
      [(''prop_name'', JStr ''creator''), (''prop_type'', JStr ''ID''),
       (''expected_class'', JStr ''CryptographicKey''), (''fetch'', JBool True),
       (''required'', JBool False),
       (''prerequisites'', JStr ''ASSERTION_VERIFICATION_DEPENDENCIES'')]]"

definition validators_VerificationObjectIssuer :: "pydict list" where
  "validators_VerificationObjectIssuer =
     [[(''prop_name'', JStr ''type''), (''prop_type'', JStr ''RDF_TYPE''),
       (''required'', JBool False), (''many'', JBool True),
       (''default'', JStr ''VerificationObject'')],
      [(''prop_name'', JStr ''verificationProperty''), (''prop_type'', JStr ''COMPACT_IRI''),
       (''required'', JBool False)],
      [(''prop_name'', JStr ''startsWith''), (''prop_type'', JStr ''URL''),
       (''required'', JBool False)],
      [(''prop_name'', JStr ''allowedOrigins''), (''prop_type'', JStr ''URL_AUTHORITY''),
       (''required'', JBool False), (''many'', JBool True)]]"

definition validators_RevocationList :: "pydict list" where
  "validators_RevocationList =
     [[(''prop_name'', JStr ''type''), (''prop_type'', JStr ''RDF_TYPE''),
       (''required'', JBool True), (''many'', JBool True),
       (''must_contain_one'', JStr ''RevocationList'')],
      [(''prop_name'', JStr ''id''), (''prop_type'', JStr ''IRI''), (''required'', JBool False)],
      [(''task_type'', JStr ''VALIDATE_REVOCATIONLIST_ENTRIES'')]]"

definition validators_Endorsement :: "string \<Rightarrow> pydict list" where
  "validators_Endorsement class_name =
     [[(''prop_name'', JStr ''id''), (''prop_type'', JStr ''IRI''), (''required'', JBool True)],
      [(''prop_name'', JStr ''type''), (''prop_type'', JStr ''RDF_TYPE''),
       (''required'', JBool True), (''many'', JBool True),
       (''must_contain_one'', JList [JStr ''Endorsement''])],
      [(''prop_name'', JStr ''claim''), (''prop_type'', JStr ''ID''), (''required'', JBool True),
       (''allow_remote_url'', JBool False), (''fetch'', JBool False),
       (''allow_data_uri'', JBool False),
       (''expected_class'', JList [JStr ''EndorsementClaim'', JStr class_name]),
       (''full_validate'', JBool False)],
      [(''prop_name'', JStr ''issuedOn''), (''prop_type'', JStr ''DATETIME''),
       (''required'', JBool True)],
      [(''prop_name'', JStr ''issuer''), (''prop_type'', JStr ''ID''),
       (''expected_class'', JStr ''Profile''), (''fetch'', JBool True),
       (''required'', JBool True)],
      [(''prop_name'', JStr ''verification'')]]"

definition validators_EndorsementClaim :: "pydict list" where
  "validators_EndorsementClaim =
     [[(''prop_name'', JStr ''id''), (''prop_type'', JStr ''IRI''), (''required'', JBool True)],
      [(''prop_name'', JStr ''endorsementComment''), (''prop_type'', JStr ''MARKDOWN_TEXT''),
       (''required'', JBool False)]]"

definition validators_primary :: "string \<Rightarrow> pydict list" where
  "validators_primary class_name =
     [[(''prop_name'', JStr ''@language''), (''prop_type'', JStr ''LANGUAGE''),
       (''required'', JBool False)],
      [(''prop_name'', JStr ''version''), (''prop_type'', JStr ''TEXT_OR_NUMBER''),
       (''required'', JBool False)],
      [(''prop_name'', JStr ''related''), (''prop_type'', JStr ''ID''),
       (''required'', JBool False), (''allow_remote_url'', JBool True), (''fetch'', JBool False),
       (''allow_data_uri'', JBool False), (''expected_class'', JStr class_name),
       (''full_validate'', JBool False), (''many'', JBool True)],
      [(''prop_name'', JStr ''endorsement''), (''prop_type'', JStr ''ID''),
       (''required'', JBool False), (''allow_remote_url'', JBool True), (''fetch'', JBool True),
       (''allow_data_uri'', JBool False), (''expected_class'', JStr ''Endorsement''),
       (''many'', JBool True)]]"

text \<open>The constructor: a class without validators raises.\<close>

definition class_validators :: "string \<Rightarrow> pydict list res" where
  "class_validators class_name =
     (let generic = (if class_name \<in> set PRIMARY_OBJECTS then validators_primary class_name else [])
      in if class_name = ''Assertion'' then Inr (validators_Assertion @ generic)
         else if class_name = ''BadgeClass'' then Inr (validators_BadgeClass @ generic)
         else if class_name = ''CryptographicKey'' then Inr (validators_CryptographicKey @ generic)
         else if class_name = ''Profile'' \<or> class_name = ''Issuer''
           then Inr (validators_Profile @ generic)
         else if class_name = ''ExpectedRecipientProfile''
           then Inr (validators_ExpectedRecipientProfile @ generic)
         else if class_name = ''AlignmentObject'' then Inr (validators_AlignmentObject @ generic)
         else if class_name = ''Criteria'' then Inr (validators_Criteria @ generic)
         else if class_name = ''IdentityObject'' then Inr (validators_IdentityObject @ generic)
         else if class_name = ''Evidence'' then Inr (validators_Evidence @ generic)
         else if class_name = ''Image'' then Inr (validators_Image @ generic)
         else if class_name = ''VerificationObjectAssertion''
           then Inr (validators_VerificationObjectAssertion @ generic)
         else if class_name = ''VerificationObjectIssuer''
           then Inr (validators_VerificationObjectIssuer @ generic)
         else if class_name = ''RevocationList'' then Inr (validators_RevocationList @ generic)
         else if class_name = ''Endorsement''
           then Inr (validators_Endorsement class_name @ generic)
         else if class_name = ''EndorsementClaim'' then Inr validators_EndorsementClaim
         else Inl NotImplementedError)"

section \<open>From validators to tasks\<close>

text \<open>
  One validator: the task it queues, if any.  A validator of type \<open>RDF_TYPE\<close> creates its action
  and then falls through the second \<open>if\<close> into \<open>continue\<close>, so it queues none.
\<close>

definition validator_action :: "string \<Rightarrow> json \<Rightarrow> json \<Rightarrow> pydict \<Rightarrow> pydict option" where
  "validator_action key node_id node_path validator =
     (let place = (\<lambda>action. if truthy node_id then dset ''node_id'' node_id action
                           else dset ''node_path'' node_path action) in
      if dget validator ''prop_type'' \<in> JStr ` set PRIMITIVES
        then Some (place (task_action key ''VALIDATE_PROPERTY'' validator))
      else
        (case dget validator ''task_type'' of
           JStr task_type \<Rightarrow>
             if task_type \<in> set CLASS_VALIDATION_TASKS
             then Some (place (task_action key task_type validator)) else None
         | _ \<Rightarrow> None))"

fun validator_actions ::
  "(nat \<Rightarrow> string) \<Rightarrow> nat \<Rightarrow> json \<Rightarrow> json \<Rightarrow> pydict list \<Rightarrow> pydict list" where
  "validator_actions keys i node_id node_path [] = []"
| "validator_actions keys i node_id node_path (v # vs) =
     (case validator_action (keys i) node_id node_path v of
        None \<Rightarrow> validator_actions keys (Suc i) node_id node_path vs
      | Some a \<Rightarrow> a # validator_actions keys (Suc i) node_id node_path vs)"

definition get_validation_actions ::
  "(nat \<Rightarrow> string) \<Rightarrow> nat \<Rightarrow> string \<Rightarrow> json \<Rightarrow> json \<Rightarrow> pydict list res" where
  "get_validation_actions keys i node_class node_id node_path =
     bindR (class_validators node_class)
       (\<lambda>vs. Inr (validator_actions keys i node_id node_path vs))"

section \<open>Queueing the tasks of a node\<close>

text \<open>\<open>node_id\<close> names the node, else \<open>node_path\<close> leads to it.\<close>

definition lookup_node :: "vstate \<Rightarrow> pydict \<Rightarrow> json res" where
  "lookup_node state task_meta =
     (if truthy (dget task_meta ''node_id'')
      then bindR (get_node_by_id state (dget task_meta ''node_id'')) (\<lambda>n. Inr (JDict n))
      else get_node_at state (dget task_meta ''node_path''))"

text \<open>The property named by an action is in the node with a value other than \<open>None\<close>.\<close>

definition has_prop :: "pydict \<Rightarrow> pydict \<Rightarrow> bool" where
  "has_prop node a =
     (case dget a ''prop_name'' of JStr p \<Rightarrow> dget node p \<noteq> JNull | _ \<Rightarrow> False)"

definition detect_and_validate_node_class :: "(nat \<Rightarrow> string) \<Rightarrow> task_fun" where
  "detect_and_validate_node_class keys state task_meta =
     bindR (lookup_node state task_meta) (\<lambda>node_value.
     bindR (as_dict node_value) (\<lambda>node.
       let declared = dget node ''type'';
           node_id = dget task_meta ''node_id''; node_path = dget task_meta ''node_path'' in
       case declared of
         JStr c \<Rightarrow>
           if c \<in> set ALL_CLASSES then
             bindR (default_for declared) (\<lambda>node_class.
             bindR (get_validation_actions keys 0 node_class node_id node_path) (\<lambda>actions.
               task_result True
                 (''Declared type on node '' @ abv_node node_id node_path @ '' is '' @ py_str declared)
                 (if dget_default task_meta ''full_validate'' (JBool True) = JBool False
                  then filter (\<lambda>a. dget a ''prop_name'' = JStr ''id'' \<or> has_prop node a) actions
                  else actions)))
           else Inl NotImplementedError
       | _ \<Rightarrow> Inl NotImplementedError))"

text \<open>The classes in turn; the draws of the second follow those of the first.\<close>

fun actions_of_classes ::
  "(nat \<Rightarrow> string) \<Rightarrow> nat \<Rightarrow> json \<Rightarrow> json \<Rightarrow> string list \<Rightarrow> pydict list res" where
  "actions_of_classes keys i node_id node_path [] = Inr []"
| "actions_of_classes keys i node_id node_path (c # cs) =
     bindR (class_validators c) (\<lambda>vs.
     bindR (actions_of_classes keys (i + length vs) node_id node_path cs) (\<lambda>rest.
       Inr (validator_actions keys i node_id node_path vs @ rest)))"

definition kept_for_related :: "pydict \<Rightarrow> pydict \<Rightarrow> bool" where
  "kept_for_related node a \<longleftrightarrow>
     dget_default a ''prop_name'' (JStr ''UNKNOWN'') \<in> {JStr ''id'', JStr ''endorsementComment''}
     \<or> has_prop node a
     \<or> (dget a ''prop_name'' = JNull \<and> dget a ''run_non_core'' = JBool True)"

definition validate_expected_node_class :: "(nat \<Rightarrow> string) \<Rightarrow> task_fun" where
  "validate_expected_node_class keys state task_meta =
     (let node_id = dget task_meta ''node_id''; node_path = dget task_meta ''node_path'' in
      bindR (dindex task_meta ''expected_class'') (\<lambda>expected.
      bindR (mapR default_for (list_of expected)) (\<lambda>node_classes.
      bindR (actions_of_classes keys 0 node_id node_path node_classes) (\<lambda>actions.
      bindR
        (if dget_default task_meta ''full_validate'' (JBool True) = JBool False then
           bindR (lookup_node state task_meta) (\<lambda>node_value.
             if actions = [] then Inr []
             else bindR (as_dict node_value) (\<lambda>node. Inr (filter (kept_for_related node) actions)))
         else Inr actions) (\<lambda>kept.
        if node_classes = [] then Inl (OtherError ''UnboundLocalError'')
        else
          task_result True
            (''Queued property validations for class '' @ last node_classes @ '' instance ''
             @ abv_node node_id node_path)
            kept)))))"

section \<open>Lemmas\<close>

lemma validator_actions_in:
  "a \<in> set (validator_actions keys i nid npath vs) \<Longrightarrow>
     \<exists>j v. v \<in> set vs \<and> validator_action (keys j) nid npath v = Some a"
  by (induction vs arbitrary: i) (fastforce split: option.splits)+

text \<open>No validator sets the keys an action must leave to the store.\<close>

definition clean_validator :: "pydict \<Rightarrow> bool" where
  "clean_validator v \<longleftrightarrow> \<not> dhas v ''type'' \<and> \<not> dhas v ''task_id'' \<and> \<not> dhas v ''name''"

lemma validator_action_wf:
  assumes "clean_validator v" and "validator_action key nid npath v = Some a"
  shows "wf_action a \<and> \<not> deletes_tasks a"
proof -
  have wf: "wf_action (task_action key n v)" for n
    using assms(1) by (intro task_action_wf) (auto simp: clean_validator_def)
  have "dget (task_action key n v) ''type'' = JStr ''ADD_TASK''" for n
    using assms(1) by (intro task_action_type) (simp add: clean_validator_def)
  with assms(2) wf show ?thesis
    by (auto simp: validator_action_def Let_def dset_wf_action deletes_tasks_def
        split: if_splits json.splits)
qed

lemma validators_clean:
  "list_all clean_validator validators_Assertion" "list_all clean_validator validators_BadgeClass"
  "list_all clean_validator validators_CryptographicKey"
  "list_all clean_validator validators_Profile"
  "list_all clean_validator validators_ExpectedRecipientProfile"
  "list_all clean_validator validators_AlignmentObject"
  "list_all clean_validator validators_Criteria"
  "list_all clean_validator validators_IdentityObject"
  "list_all clean_validator validators_Evidence" "list_all clean_validator validators_Image"
  "list_all clean_validator validators_VerificationObjectAssertion"
  "list_all clean_validator validators_VerificationObjectIssuer"
  "list_all clean_validator validators_RevocationList"
  "list_all clean_validator (validators_Endorsement c)"
  "list_all clean_validator validators_EndorsementClaim"
  "list_all clean_validator (validators_primary c)"
  unfolding validators_Assertion_def validators_BadgeClass_def validators_CryptographicKey_def
    validators_Profile_def validators_ExpectedRecipientProfile_def validators_AlignmentObject_def
    validators_Criteria_def validators_IdentityObject_def validators_Evidence_def
    validators_Image_def validators_VerificationObjectAssertion_def
    validators_VerificationObjectIssuer_def validators_RevocationList_def
    validators_Endorsement_def validators_EndorsementClaim_def validators_primary_def
  by (simp_all add: clean_validator_def)

lemma class_validators_all_clean:
  assumes "class_validators c = Inr vs"
  shows "list_all clean_validator vs"
proof -
  define g where "g = (if c \<in> set PRIMARY_OBJECTS then validators_primary c else [])"
  have g: "list_all clean_validator g" by (simp add: g_def validators_clean)
  note cases = assms [unfolded class_validators_def Let_def, folded g_def]
  show ?thesis
    using cases g validators_clean
    by (simp only: list_all_append sum.inject sum.distinct split: if_split_asm)
      (hypsubst,
       (rule list_all_append [THEN iffD2, OF conjI], assumption, assumption | assumption))+
qed

lemma class_validators_clean:
  "class_validators c = Inr vs \<Longrightarrow> v \<in> set vs \<Longrightarrow> clean_validator v"
  using class_validators_all_clean [of c vs] by (simp add: list_all_iff)

lemma get_validation_actions_admissible:
  assumes "get_validation_actions keys i c nid npath = Inr as" and "a \<in> set as"
  shows "wf_action a \<and> \<not> deletes_tasks a"
proof -
  from assms(1) obtain vs where vs: "class_validators c = Inr vs"
    and as: "as = validator_actions keys i nid npath vs"
    by (auto simp: get_validation_actions_def bindR_Inr_iff)
  then obtain j v where "v \<in> set vs" "validator_action (keys j) nid npath v = Some a"
    using assms(2) validator_actions_in by blast
  with vs show ?thesis using validator_action_wf [OF class_validators_clean] by blast
qed

lemma actions_of_classes_in:
  assumes "actions_of_classes keys i nid npath cs = Inr as" and "a \<in> set as"
  shows "\<exists>c j vs v. class_validators c = Inr vs \<and> v \<in> set vs
           \<and> validator_action (keys j) nid npath v = Some a"
  using assms
proof (induction cs arbitrary: i as)
  case Nil
  then show ?case by simp
next
  case (Cons c cs)
  then obtain vs rest where vs: "class_validators c = Inr vs"
    and rest: "actions_of_classes keys (i + length vs) nid npath cs = Inr rest"
    and as: "as = validator_actions keys i nid npath vs @ rest"
    by (auto simp: bindR_Inr_iff)
  show ?case
  proof (cases "a \<in> set rest")
    case True
    then show ?thesis using Cons.IH [OF rest] by blast
  next
    case False
    with Cons.prems as have "a \<in> set (validator_actions keys i nid npath vs)" by simp
    with vs show ?thesis using validator_actions_in by blast
  qed
qed

end
