(* ===== verification/Verifier_Validation.thy ===== *)
theory Verifier_Validation
  imports Verifier_Classes
begin

text \<open>
  The validation tasks (openbadges/verifier/tasks/validation.py): one property of a node, its
  type, and the checks of a whole node.  \<open>E\<close> are the packages, \<open>keys\<close> the random task keys,
  \<open>now\<close> the time \<open>datetime.now(utc)\<close> in seconds.
\<close>

section \<open>One property\<close>

text \<open>
  The node of a property task.  With neither an id nor a path the variable \<open>node\<close> is unbound.
\<close>

definition property_node :: "vstate \<Rightarrow> pydict \<Rightarrow> json res" where
  "property_node state task_meta =
     (if truthy (dget task_meta ''node_id'') \<or> truthy (dget task_meta ''node_path'')
      then lookup_node state task_meta
      else Inl (OtherError ''UnboundLocalError''))"

text \<open>\<open>node[prop_name]\<close> where the name may be missing from the task.\<close>

definition index_prop :: "json \<Rightarrow> json \<Rightarrow> json res" where
  "index_prop node prop_name =
     (case node of
        JDict d \<Rightarrow> (case prop_name of JStr k \<Rightarrow> dindex d k | _ \<Rightarrow> Inl KeyError)
      | _ \<Rightarrow> Inl TypeError)"

definition node_text :: "pydict \<Rightarrow> string" where
  "node_text task_meta =
     py_str (dget_default task_meta ''node_class'' (JStr ''unknown type node'')) @ '' ''
     @ abv_node (dget task_meta ''node_id'') (dget task_meta ''node_path'')"

text \<open>Every value must pass the primitive check; the first that does not is reported.\<close>

fun check_primitives :: "ext \<Rightarrow> pydict \<Rightarrow> json list \<Rightarrow> unit res" where
  "check_primitives E task_meta [] = Inr ()"
| "check_primitives E task_meta (val # vals) =
     bindR
       (case dget task_meta ''prop_type'' of
          JStr t \<Rightarrow> validate_primitive E OPENBADGES_CONTEXT_V2_DICT t val
        | _ \<Rightarrow> Inl KeyError) (\<lambda>ok.
       if ok then check_primitives E task_meta vals
       else Inl (OBValidationError
              (py_str (dget task_meta ''prop_type'') @ '' property ''
               @ py_str (dget task_meta ''prop_name'') @ '' value '' @ abv val
               @ '' not valid in '' @ node_text task_meta)))"

text \<open>
  A property of type \<open>ID\<close>: an embedded object is queued for validation, an identifier must have
  the right form and be known, fetched, or allowed to be remote.
\<close>

definition id_value_actions ::
  "ext \<Rightarrow> string \<Rightarrow> vstate \<Rightarrow> pydict \<Rightarrow> json list \<Rightarrow> json \<Rightarrow> pydict list res" where
  "id_value_actions E key state task_meta value_path val =
     (let flag = (\<lambda>k. truthy (dget task_meta k));
          prop_name = py_str (dget task_meta ''prop_name'');
          where_text = abv_node (dget task_meta ''node_id'') (dget task_meta ''node_path'');
          expected = dget task_meta ''expected_class'' in
      if is_dict val then
        Inr [task_action key ''VALIDATE_EXPECTED_NODE_CLASS''
               [(''node_path'', JList value_path), (''expected_class'', expected),
                (''full_validate'', dget_default task_meta ''full_validate'' (JBool True))]]
      else if flag ''allow_data_uri'' \<and> \<not> (is_url E val \<or> is_data_uri E val) then
        Inl (OBValidationError
          (''ID-type property '' @ prop_name @ '' had value `'' @ abv val
           @ ''` that isn't URI or DATA URI in '' @ where_text @ ''.''))
      else
        bindR (if flag ''allow_data_uri'' then Inr True else is_iri E val) (\<lambda>form_ok.
        if \<not> form_ok then
          Inl (OBValidationError
            (''ID-type property '' @ prop_name @ '' had value `'' @ abv val
             @ ''` not embedded node or in IRI format in '' @ where_text @ ''.''))
        else if node_match_exists state val then
          Inr [task_action key ''VALIDATE_EXPECTED_NODE_CLASS''
                 [(''node_id'', val), (''expected_class'', expected)]]
        else if \<not> flag ''fetch'' then
          (if (flag ''allow_remote_url'' \<and> is_url E val)
              \<or> (flag ''allow_data_uri'' \<and> is_data_uri E val)
           then Inr []
           else Inl (OBValidationError
             (''Node '' @ where_text @ '' has '' @ prop_name @ '' property value `'' @ abv val
              @ ''` that appears not to be in URI format or did not correspond to a known local node.'')))
        else
          Inr [task_action key ''FETCH_HTTP_NODE''
                 [(''url'', val), (''expected_class'', expected),
                  (''source_node_path'', JList value_path)]]))"

fun id_values_actions ::
  "ext \<Rightarrow> (nat \<Rightarrow> string) \<Rightarrow> vstate \<Rightarrow> pydict \<Rightarrow> bool \<Rightarrow> nat \<Rightarrow> json list \<Rightarrow> pydict list res" where
  "id_values_actions E keys state task_meta many i [] = Inr []"
| "id_values_actions E keys state task_meta many i (val # vals) =
     bindR (id_value_actions E (keys i) state task_meta
              ([dget task_meta ''node_id'', dget task_meta ''prop_name'']
               @ (if many then [JInt (int i)] else [])) val) (\<lambda>as.
     bindR (id_values_actions E keys state task_meta many (Suc i) vals) (\<lambda>bs.
       Inr (as @ bs)))"

definition validate_property :: "ext \<Rightarrow> (nat \<Rightarrow> string) \<Rightarrow> task_fun" where
  "validate_property E keys state task_meta =
     bindR (property_node state task_meta) (\<lambda>node.
       let prop_name = dget task_meta ''prop_name''; prop_text = py_str prop_name;
           required = truthy (dget task_meta ''required'');
           allow_many = truthy (dget task_meta ''many'') in
       case index_prop node prop_name of
         Inl e \<Rightarrow>
           if e \<noteq> KeyError then Inl e
           else if \<not> required then
             task_result True
               (''Optional property '' @ prop_text @ '' not present in '' @ node_text task_meta) []
           else
             task_result False
               (''Required property '' @ prop_text @ '' not present in '' @ node_text task_meta) []
       | Inr prop_value \<Rightarrow>
           let values_to_test = (if is_list prop_value then list_of prop_value else [prop_value]) in
           if is_null_list (JList values_to_test) then
             (if required then
                task_result False
                  (''Required property '' @ prop_text @ '' value '' @ abv prop_value
                   @ '' is not acceptable in '' @ node_text task_meta) []
              else
                task_result True
                  (''Optional property '' @ prop_text @ '' is null in '' @ node_text task_meta) [])
           else if \<not> allow_many \<and> length values_to_test > 1 then
             task_result False
               (''Property '' @ prop_text @ '' in '' @ node_text task_meta
                @ '' has more than the single allowed value.'') []
           else
             (case
                (if dget task_meta ''prop_type'' \<noteq> JStr ''ID''
                 then bindR (check_primitives E task_meta values_to_test) (\<lambda>_. Inr [])
                 else id_values_actions E keys state task_meta (is_list prop_value) 0 values_to_test)
              of
                Inl (OBValidationError message) \<Rightarrow> task_result False message []
              | Inl e \<Rightarrow> Inl e
              | Inr actions \<Rightarrow>
                  task_result True
                    (py_str (dget task_meta ''prop_type'') @ '' property '' @ prop_text
                     @ '' is valid in '' @ node_text task_meta) actions))"

section \<open>The type of a node\<close>

fun any_in :: "json \<Rightarrow> json list \<Rightarrow> bool res" where
  "any_in container [] = Inr False"
| "any_in container (v # vs) =
     bindR (py_in v container) (\<lambda>b. if b then Inr True else any_in container vs)"

definition validate_rdf_type_property :: "ext \<Rightarrow> (nat \<Rightarrow> string) \<Rightarrow> task_fun" where
  "validate_rdf_type_property E keys state task_meta =
     bindR (validate_property E keys state task_meta) (\<lambda>(success, message, acts).
       if \<not> success then Inr (success, message, acts)
       else
         bindR (property_node state task_meta) (\<lambda>node_value.
         bindR (as_dict node_value) (\<lambda>node.
           let prop_value = dget node ''type''; default = dget task_meta ''default'';
               must_contain_one = dget task_meta ''must_contain_one'';
               node_id = dget task_meta ''node_id'' in
           if \<not> truthy prop_value \<and> truthy default then
             task_result True message [patch_node node_id [(''type'', default)]]
           else
             let values_to_test = (if is_list prop_value then list_of prop_value else [prop_value]) in
             bindR (if truthy must_contain_one then any_in must_contain_one values_to_test
                    else Inr True) (\<lambda>allowed.
               if allowed then Inr (success, message, acts)
               else
                 task_result False
                   (''Node '' @ abv_node node_id (dget task_meta ''node_path'') @ '' of type ''
                    @ abv prop_value @ '' does not have type among allowed values (''
                    @ abv must_contain_one @ '')'') []))))"

section \<open>Checks of a whole node\<close>

definition prerequisites_on :: "py_exn set \<Rightarrow> 'a res \<Rightarrow> 'a res" where
  "prerequisites_on excs m =
     catchR m (\<lambda>e. if e \<in> excs then Inl TaskPrerequisitesError else Inl e)"

text \<open>\<open>[^@]+@[^@]+$\<close>.\<close>

definition email_shape :: "string \<Rightarrow> bool" where
  "email_shape s0 =
     (\<exists>s \<in> {s0, drop_final_newline s0}.
        let user = takeWhile (\<lambda>c. c \<noteq> CHR ''@'') s; host = drop (Suc (length user)) s
        in CHR ''@'' \<in> set s \<and> user \<noteq> [] \<and> host \<noteq> [] \<and> CHR ''@'' \<notin> set host)"

definition identity_object_property_dependencies :: task_fun where
  "identity_object_property_dependencies state task_meta =
     bindR (lookup_node state task_meta) (\<lambda>node_value.
     bindR (as_dict node_value) (\<lambda>node.
       let identity = dget node ''identity''; hashed = truthy (dget node ''hashed'') in
       bindR (is_hashed_identity_hash identity) (\<lambda>is_hashed.
       bindR (expect_str identity) (\<lambda>identity_text.
         if hashed \<and> \<not> is_hashed then
           task_result False
             (''Identity '' @ py_str identity @ '' must match known hash style if hashed is true'') []
         else if is_hashed \<and> \<not> hashed then
           task_result False
             (''Identity '' @ py_str identity @ '' must not be hashed if hashed is false'') []
         else
           bindR (if hashed then Inr False else py_in (JStr ''email'') (dget node ''type'')) (\<lambda>email_type.
             if email_type \<and> \<not> email_shape identity_text then
               task_result False ''Email type identity must match email format.'' []
             else task_result True ''IdentityObject passes validation rules.'' [])))))"

text \<open>\<open>_:b\d+$\<close>.\<close>

definition is_generated_blank_id :: "string \<Rightarrow> bool" where
  "is_generated_blank_id s \<longleftrightarrow>
     startswith s ''_:b''
     \<and> (let n = drop 3 (drop_final_newline s) in n \<noteq> [] \<and> list_all is_digit n)"

definition criteria_property_dependencies :: task_fun where
  "criteria_property_dependencies state task_meta =
     (let node_id = dget task_meta ''node_id''; node_path = dget task_meta ''node_path'' in
      bindR (prerequisites_on {IndexError, KeyError, TypeError} (lookup_node state task_meta)) (\<lambda>nv.
      bindR (as_dict nv) (\<lambda>node.
        let the_id = (if truthy node_id then node_id else dget_default node ''id'' (JStr ''''));
            narrative = truthy (dget node ''narrative'');
            shown = abv_node the_id node_path in
        bindR (expect_str the_id) (\<lambda>id_text.
          if is_generated_blank_id id_text \<and> \<not> narrative then
            task_result False
              (''Criteria node '' @ shown
               @ '' has no narrative. Either external id or narrative is required.'') []
          else if is_generated_blank_id id_text then
            task_result True
              (''Criteria node '' @ shown @ '' is a narrative-based piece of evidence.'') []
          else if narrative then
            task_result True (''Criteria node '' @ shown @ '' has a URL and narrative.'') []
          else task_result True (''Criteria node '' @ shown @ '' has a URL.'') []))))"

definition assertion_verification_dependencies :: "(nat \<Rightarrow> string) \<Rightarrow> task_fun" where
  "assertion_verification_dependencies keys state task_meta =
     (let assertion_id = dget task_meta ''node_id'' in
      bindR
        (prerequisites_on {IndexError, KeyError}
           (bindR (property_node state task_meta) (\<lambda>node.
            bindR (index_prop node (JStr ''verification'')) (\<lambda>verification.
              if is_str verification
              then bindR (get_node_by_id state verification) (\<lambda>n. Inr (JDict n))
              else Inr verification)))) (\<lambda>node_value.
      bindR (as_dict node_value) (\<lambda>node.
        task_result True
          (py_str (dget node ''type'') @ '' Assertion '' @ py_str assertion_id
           @ '' verification dependencies noted.'')
          (if dget node ''type'' = JStr ''HostedBadge''
           then [task_action (keys 0) ''HOSTED_ID_IN_VERIFICATION_SCOPE'' [(''node_id'', assertion_id)]]
           else []))))"

text \<open>Comparing a naive with an aware datetime raises \<open>TypeError\<close>.\<close>

fun datetime_less :: "py_datetime \<Rightarrow> py_datetime \<Rightarrow> bool res" where
  "datetime_less (Naive a) (Naive b) = Inr (a < b)"
| "datetime_less (Aware a) (Aware b) = Inr (a < b)"
| "datetime_less _ _ = Inl TypeError"

definition assertion_timestamp_checks :: "ext \<Rightarrow> int \<Rightarrow> task_fun" where
  "assertion_timestamp_checks E now_secs state task_meta =
     bindR
       (prerequisites_on {IndexError, KeyError, ValueError}
          (bindR (dindex task_meta ''node_id'') (\<lambda>node_id.
           bindR (get_node_by_id state node_id) (\<lambda>assertion.
           bindR (dindex assertion ''issuedOn'') (\<lambda>iss.
           bindR (parse_datetime E iss) (\<lambda>issued_on. Inr (node_id, assertion, issued_on)))))))
       (\<lambda>(node_id, assertion, issued_on).
         let now = Aware now_secs; id_text = py_str node_id; expires_value = dget assertion ''expires'' in
         bindR (datetime_less now issued_on) (\<lambda>future.
           if future then
             task_result False
               (''Assertion '' @ id_text @ '' has issue date '' @ datetime_str E issued_on
                @ '' in the future.'') []
           else
             bindR
               (if truthy expires_value then
                  bindR (parse_datetime E expires_value) (\<lambda>expires.
                  bindR (datetime_less expires issued_on) (\<lambda>before.
                    if before then
                      Inr (Some (''Assertion '' @ id_text @ '' expiration is prior to issue date.''))
                    else
                      bindR (datetime_less expires now) (\<lambda>over.
                        Inr (if over then Some (''Assertion '' @ id_text @ '' expired on ''
                                                @ py_str expires_value)
                             else None))))
                else Inr None) (\<lambda>problem.
               case problem of
                 Some message \<Rightarrow> task_result False message []
               | None \<Rightarrow>
                   task_result True
                     (''Assertion '' @ id_text @ '' was issued and has not expired.'') [])))"

definition issuer_property_dependencies :: task_fun where
  "issuer_property_dependencies state task_meta =
     bindR
       (prerequisites_on {IndexError, KeyError}
          (bindR (dindex task_meta ''node_id'') (\<lambda>node_id.
           bindR (get_node_by_id state node_id) (\<lambda>_. Inr node_id)))) (\<lambda>node_id.
     bindR (expect_str node_id) (\<lambda>s.
       if \<not> (startswith s ''http://'' \<or> startswith s ''https://'') then
         task_result False
           (''Issuer Profile '' @ s @ '' not hosted with HTTP-based identifier.''
            @ ''Many platforms can only handle HTTP(s)-hosted issuers.'') []
       else task_result True ''Issuer profile id meets expectations.'' []))"

definition placeholder_task :: task_fun where
  "placeholder_task state task_meta =
     task_result True ''Placeholder (prerequisite) task complete.'' []"

text \<open>One entry of a revocation list: what is wrong with it, if anything.\<close>

definition revocation_entry_problem :: "ext \<Rightarrow> json \<Rightarrow> json \<Rightarrow> string option res" where
  "revocation_entry_problem E node_id entry =
     (let not_iri = (\<lambda>v. Some (''RevocationList '' @ py_str node_id @ '' has entry with id ''
                             @ py_str v @ '' not in IRI format'')) in
      case entry of
        JDict d \<Rightarrow>
          (case dindex d ''id'' of
             Inr i \<Rightarrow> bindR (is_iri E i) (\<lambda>ok. Inr (if ok then None else not_iri i))
           | Inl _ \<Rightarrow>
               Inr (if is_str (dget d ''uid'') then None
                    else Some (''RevocationList '' @ py_str node_id @ '' has entry with uid ''
                               @ [CHR 0x27] @ abv (dget d ''uid'') @ [CHR 0x27]
                               @ '' not in text format.'')))
      | JStr s \<Rightarrow> bindR (is_iri E entry) (\<lambda>ok. Inr (if ok then None else not_iri entry))
      | _ \<Rightarrow> Inr (not_iri entry))"

fun first_problem :: "('a \<Rightarrow> string option res) \<Rightarrow> 'a list \<Rightarrow> string option res" where
  "first_problem f [] = Inr None"
| "first_problem f (x # xs) =
     bindR (f x) (\<lambda>p. case p of None \<Rightarrow> first_problem f xs | Some m \<Rightarrow> Inr (Some m))"

definition validate_revocationlist_entries :: "ext \<Rightarrow> task_fun" where
  "validate_revocationlist_entries E state task_meta =
     bindR
       (prerequisites_on {IndexError, KeyError}
          (bindR (dindex task_meta ''node_id'') (\<lambda>node_id.
           bindR (get_node_by_id state node_id) (\<lambda>l. Inr (node_id, l)))))
       (\<lambda>(node_id, revocation_list).
         case dindex revocation_list ''revokedAssertions'' of
           Inl _ \<Rightarrow>
             task_result False ''RevocationList {} missing required property revokedAssertions.'' []
         | Inr revoked \<Rightarrow>
             bindR (first_problem (revocation_entry_problem E node_id) (list_of revoked)) (\<lambda>problem.
               case problem of
                 Some message \<Rightarrow> task_result False message []
               | None \<Rightarrow> task_result True '''' []))"

end
