(* ===== verification/Verifier_Trust.thy ===== *)
theory Verifier_Trust
  imports Verifier_Validation
begin

text \<open>
  The verification tasks that decide whom to trust: hosted scope and recipient
  (openbadges/verifier/tasks/verification.py), signatures, key ownership and revocation
  (openbadges/verifier/tasks/crypto.py).  Hashing, RSA and JWS are arguments.
\<close>

text \<open>\<open>s.encode()\<close>, \<open>s.lower()\<close>, \<open>s.startswith()\<close>: only a string has them.\<close>

definition encoded :: "json \<Rightarrow> string res" where
  "encoded value = catchR (expect_str value) (\<lambda>_. Inl AttributeError)"

section \<open>Hosted verification (tasks/verification.py)\<close>

definition default_allowed_origins :: "ext \<Rightarrow> json \<Rightarrow> json res" where
  "default_allowed_origins E issuer_id =
     bindR (expect_str issuer_id) (\<lambda>s. Inr (uri_authority E s))"

definition default_verification_policy :: "ext \<Rightarrow> pydict \<Rightarrow> pydict res" where
  "default_verification_policy E issuer_node =
     bindR (default_allowed_origins E (dget issuer_node ''id'')) (\<lambda>origins.
       Inr [(''type'', JStr ''VerificationObject''), (''allowedOrigins'', origins),
            (''verificationProperty'', JStr ''id'')])"

text \<open>The issuer's policy: embedded, a node of the graph, or the default.\<close>

definition verification_policy :: "ext \<Rightarrow> vstate \<Rightarrow> pydict \<Rightarrow> pydict res" where
  "verification_policy E state issuer_node =
     (let policy = dget issuer_node ''verification'' in
      if policy = JNull \<or> is_str policy then
        catchR (get_node_by_id state policy)
          (\<lambda>e. if e = IndexError then default_verification_policy E issuer_node else Inl e)
      else as_dict policy)"

text \<open>\<open>any([assertion\_id.startswith(i) for i in starts\_with])\<close>.\<close>

definition any_prefix :: "json \<Rightarrow> json list \<Rightarrow> bool res" where
  "any_prefix value prefixes =
     (if prefixes = [] then Inr False
      else
        bindR (encoded value) (\<lambda>s.
        bindR (mapR expect_str prefixes) (\<lambda>ps. Inr (list_ex (startswith s) ps))))"

definition hosted_id_in_verification_scope :: "ext \<Rightarrow> task_fun" where
  "hosted_id_in_verification_scope E state task_meta =
     (let assertion_id = dget task_meta ''node_id'' in
      bindR
        (prerequisites_on {IndexError}
           (bindR (get_node_by_id state assertion_id) (\<lambda>assertion_node.
            bindR (dindex assertion_node ''badge'') (\<lambda>badge.
            bindR (get_node_by_id state badge) (\<lambda>badgeclass_node.
            bindR (dindex badgeclass_node ''issuer'') (get_node_by_id state)))))) (\<lambda>issuer_node.
      let issuer_id = dget issuer_node ''id'' in
      bindR (verification_policy E state issuer_node) (\<lambda>policy.
      bindR
        (if truthy (dget policy ''startsWith'')
         then any_prefix assertion_id (list_of (dget policy ''startsWith'')) else Inr True)
        (\<lambda>prefix_ok.
      if \<not> prefix_ok then
        task_result False
          (''Assertion id '' @ py_str assertion_id
           @ ''does not start with any permitted values in its issuer's verification policy.'') []
      else
        bindR (default_allowed_origins E issuer_id) (\<lambda>default_origins.
        let allowed = list_of (dget_default policy ''allowedOrigins'' default_origins) in
        bindR (if allowed = [] then Inr False
               else bindR (encoded issuer_id)
                      (\<lambda>s. Inr (startswith s ''http''))) (\<lambda>enforceable.
          if \<not> enforceable then
            task_result True
              ''There are no allowed hosted verification URL domains for this issuer's verification policy.''
              [message_action
                 (''Issuer '' @ py_str issuer_id
                  @ '' has no HTTP domain to enforce hosted verification policy against.'')
                 ''WARNING'' True]
          else
            bindR (expect_str assertion_id) (\<lambda>a.
              if uri_authority E a \<notin> set allowed then
                task_result False
                  (''Assertion '' @ abv assertion_id @ '' not hosted in allowed origins ''
                   @ abv (JList allowed)) []
              else
                task_result True
                  (''Assertion '' @ abv assertion_id
                   @ '' origin matches allowed value in issuer verification policy ''
                   @ abv (JList allowed) @ ''.'') [])))))))"

section \<open>The recipient\<close>

text \<open>
  \<open>identity\_hash\<close> of utils.py over the digests \<open>hashlib\<close> computes (hex text of the identifier
  with the salt appended).
\<close>

record digests =
  sha256_hex :: "string \<Rightarrow> string"
  md5_hex :: "string \<Rightarrow> string"

definition identity_hash :: "digests \<Rightarrow> json \<Rightarrow> json \<Rightarrow> string \<Rightarrow> string res" where
  "identity_hash H identifier salt alg =
     bindR (encoded identifier) (\<lambda>identifier_bytes.
     bindR (encoded salt) (\<lambda>salt_bytes.
       if alg = ''sha256'' then Inr (alg @ ''$'' @ sha256_hex H (identifier_bytes @ salt_bytes))
       else if alg = ''md5'' then Inr (alg @ ''$'' @ md5_hex H (identifier_bytes @ salt_bytes))
       else Inl ValueError))"

definition matches_hash :: "digests \<Rightarrow> json \<Rightarrow> string \<Rightarrow> json \<Rightarrow> bool res" where
  "matches_hash H profile_identifier id_hash salt =
     (if startswith id_hash ''md5'' then
        bindR (identity_hash H profile_identifier salt ''md5'') (\<lambda>h. Inr (h = id_hash))
      else if startswith id_hash ''sha256'' then
        bindR (identity_hash H profile_identifier salt ''sha256'') (\<lambda>h. Inr (h = id_hash))
      else Inl TypeError)"

text \<open>The first identifier whose hash is the recipient's.\<close>

fun find_hashed :: "digests \<Rightarrow> string \<Rightarrow> json \<Rightarrow> json list \<Rightarrow> json option res" where
  "find_hashed H id_hash salt [] = Inr None"
| "find_hashed H id_hash salt (p # ps) =
     bindR (matches_hash H p id_hash salt) (\<lambda>m.
       if m then Inr (Some p) else find_hashed H id_hash salt ps)"

definition recommended_recipient_types :: "string list" where
  "recommended_recipient_types = [''id'', ''email'', ''url'', ''telephone'']"

text \<open>The assertion's id, its recipient, the profile's id and node.\<close>

definition recipient_parts :: "vstate \<Rightarrow> pydict \<Rightarrow> (json \<times> json \<times> json \<times> pydict) res" where
  "recipient_parts state task_meta =
     bindR (first_or_index_error
              (filter (\<lambda>n. dget n ''type'' = JStr ''Assertion'') (v_graph state))) (\<lambda>asn.
     bindR (dindex asn ''id'') (\<lambda>assertion_id.
     bindR (get_node_by_path state [assertion_id, JStr ''recipient'']) (\<lambda>identity_node.
     bindR (dindex task_meta ''node_id'') (\<lambda>profile_id.
     bindR (get_node_by_id state profile_id) (\<lambda>profile_node.
       Inr (assertion_id, identity_node, profile_id, profile_node))))))"

definition recipient_outcome :: "digests \<Rightarrow> json \<Rightarrow> json \<Rightarrow> json \<Rightarrow> pydict \<Rightarrow> outcome res" where
  "recipient_outcome H assertion_id identity_node profile_id profile_node =
     bindR (subscript identity_node ''identity'') (\<lambda>a.
     bindR (subscript identity_node ''type'') (\<lambda>recipient_type.
       let actions =
             (if recipient_type \<in> JStr ` set recommended_recipient_types then []
              else [message_action
                      (''Recipient identifier type '' @ py_str recipient_type @ '' in assertion ''
                       @ py_str assertion_id @ '' is not one of the recommended types'')
                      ''INFO'' True]) in
       case index_prop (JDict profile_node) recipient_type of
         Inl _ \<Rightarrow>
           task_result False
             (''Profile identifier property of type '' @ py_str recipient_type
              @ '' not found in submitted profile '' @ py_str profile_id) actions
       | Inr prop \<Rightarrow>
           let p = list_of prop;
               confirm = (\<lambda>confirmed_id.
                 task_result True
                   (''Assertion '' @ abv assertion_id @ '' awarded to trusted profile identifier ''
                    @ py_str confirmed_id @ '' of type '' @ py_str recipient_type)
                   (actions @ [set_verified_recipient_profile recipient_type confirmed_id])) in
           bindR (subscript identity_node ''hashed'') (\<lambda>hashed.
           if truthy hashed then
             bindR (as_dict identity_node) (\<lambda>idn.
             bindR
               (if p = [] then Inr None
                else
                  bindR (encoded a) (\<lambda>a_text.
                    find_hashed H (lower_str a_text) (dget_default idn ''salt'' (JStr '''')) p))
               (\<lambda>found.
               case found of
                 Some confirmed_id \<Rightarrow> confirm confirmed_id
               | None \<Rightarrow>
                   task_result False
                     (''Profile '' @ abv profile_id @ '' identifier(s) '' @ abv (JList p) @ '' of type ''
                      @ py_str recipient_type @ '' did not match assertion '' @ abv assertion_id
                      @ '' recipient hash '' @ py_str a @ ''.'') actions))
           else if a \<in> set p then confirm a
           else
             task_result False
               (''Profile '' @ abv profile_id @ '' identifier '' @ py_str (JList p) @ '' of type ''
                @ py_str recipient_type @ '' did not match assertion '' @ abv assertion_id
                @ '' recipient value '' @ py_str a) actions)))"

definition verify_recipient_against_trusted_profile :: "digests \<Rightarrow> task_fun" where
  "verify_recipient_against_trusted_profile H state task_meta =
     bindR (prerequisites_on {IndexError, KeyError} (recipient_parts state task_meta))
       (\<lambda>(assertion_id, identity_node, profile_id, profile_node).
          recipient_outcome H assertion_id identity_node profile_id profile_node)"

section \<open>Signatures (tasks/crypto.py)\<close>

text \<open>
  \<open>jws\_claims\<close> is \<open>jws.get\_unverified\_claims(...).decode\<close> followed by \<open>json.loads\<close> (the text and
  the value); \<open>jws\_verify\<close> loads the key and checks the signature: \<open>Inr None\<close> when it is good,
  \<open>Inr (Some msg)\<close> for the JWS errors the task catches, \<open>Inl\<close> for any other exception.
\<close>

record signing =
  jws_claims :: "json \<Rightarrow> (string \<times> json) res"
  jws_verify :: "json \<Rightarrow> json \<Rightarrow> string option res"

definition process_jws_input :: "signing \<Rightarrow> (nat \<Rightarrow> string) \<Rightarrow> task_fun" where
  "process_jws_input S keys state task_meta =
     bindR (prerequisites_on {KeyError} (dindex task_meta ''data'')) (\<lambda>data.
     bindR (jws_claims S data) (\<lambda>(node_json, claims).
     bindR (as_dict claims) (\<lambda>node_data.
       let node_id = dget_default task_meta ''node_id'' (dget node_data ''id'') in
       task_result True ''Processed JWS-signed data and queued signature verification task''
         ([task_action (keys 0) ''INTAKE_JSON'' [(''data'', JStr node_json), (''node_id'', node_id)],
           task_action (keys 1) ''VERIFY_JWS''
             [(''node_id'', node_id), (''data'', data),
              (''prerequisites'', JStr ''SIGNING_KEY_FETCHED'')]]
          @ (if truthy node_id then [set_validation_subject node_id] else [])))))"

definition verify_jws_signature :: "signing \<Rightarrow> (nat \<Rightarrow> string) \<Rightarrow> task_fun" where
  "verify_jws_signature S keys state task_meta =
     bindR
       (prerequisites_on {KeyError, IndexError}
          (bindR (dindex task_meta ''data'') (\<lambda>data.
           bindR (dindex task_meta ''node_id'') (\<lambda>node_id.
           bindR (get_node_by_path state [node_id, JStr ''verification'', JStr ''creator'']) (\<lambda>key_node.
           bindR (subscript key_node ''publicKeyPem'') (\<lambda>public_pem.
             Inr (data, node_id, public_pem)))))))
       (\<lambda>(data, node_id, public_pem).
       let actions =
             [task_action (keys 0) ''VERIFY_KEY_OWNERSHIP'' [(''node_id'', node_id)],
              task_action (keys 1) ''VALIDATE_PROPERTY''
                [(''node_path'', JList [node_id, JStr ''badge'', JStr ''issuer'']),
                 (''prop_name'', JStr ''revocationList''), (''prop_type'', JStr ''ID''),
                 (''expected_class'', JStr ''RevocationList''), (''fetch'', JBool True),
                 (''required'', JBool False),
                 (''prerequisites'', JList [JStr ''ISSUER_PROPERTY_DEPENDENCIES''])]] in
       bindR (jws_verify S data public_pem) (\<lambda>failure.
         case failure of
           Some msg \<Rightarrow>
             task_result False
               (''Signature for node '' @ py_str node_id @ '' failed verification'' @ '' :: '' @ msg)
               actions
         | None \<Rightarrow>
             task_result True (''Signature for node '' @ py_str node_id @ '' passed verification'')
               actions))"

definition verify_key_ownership :: "(nat \<Rightarrow> string) \<Rightarrow> task_fun" where
  "verify_key_ownership keys state task_meta =
     bindR
       (prerequisites_on {KeyError, IndexError}
          (bindR (dindex task_meta ''node_id'') (\<lambda>node_id.
           bindR (get_node_by_path state [node_id, JStr ''badge'', JStr ''issuer'']) (\<lambda>issuer_value.
           bindR (get_node_by_path state [node_id, JStr ''verification'', JStr ''creator'']) (\<lambda>key_node.
           bindR (subscript key_node ''id'') (\<lambda>key_id. Inr (node_id, issuer_value, key_id)))))))
       (\<lambda>(node_id, issuer_value, key_id).
     bindR (as_dict issuer_value) (\<lambda>issuer_node.
       let actions =
             (if truthy (dget issuer_node ''revocationList'')
              then [task_action (keys 0) ''VERIFY_SIGNED_ASSERTION_NOT_REVOKED''
                      [(''node_id'', node_id),
                       (''prerequisites'', JList [JStr ''VALIDATE_REVOCATIONLIST_ENTRIES''])]]
              else []) in
       if key_id \<notin> set (list_of (dget issuer_node ''publicKey'')) then
         task_result False
           (''Assertion signed by a key '' @ py_str key_id
            @ '' other than those authorized by issuer profile'') actions
       else
         task_result True
           (''Assertion signing key '' @ py_str key_id @ '' is properly declared in issuer profile'')
           actions))"

definition revocation_match :: "json \<Rightarrow> json \<Rightarrow> bool res" where
  "revocation_match term container =
     (if is_str container then Inr (term = container)
      else bindR (as_dict container) (\<lambda>d. Inr (dget d ''id'' = term)))"

fun filterR :: "('a \<Rightarrow> bool res) \<Rightarrow> 'a list \<Rightarrow> 'a list res" where
  "filterR p [] = Inr []"
| "filterR p (x # xs) =
     bindR (p x) (\<lambda>b. bindR (filterR p xs) (\<lambda>ys. Inr (if b then x # ys else ys)))"

text \<open>The reason given by the last matching entry that has one.\<close>

fun revocation_reason_text :: "string \<Rightarrow> json list \<Rightarrow> string" where
  "revocation_reason_text msg [] = msg"
| "revocation_reason_text msg (a # as) =
     (case subscript a ''revocationReason'' of
        Inr (JStr r) \<Rightarrow> revocation_reason_text ('' with reason: '' @ r) as
      | _ \<Rightarrow> revocation_reason_text msg as)"

definition verify_signed_assertion_not_revoked :: task_fun where
  "verify_signed_assertion_not_revoked state task_meta =
     bindR
       (prerequisites_on {IndexError, KeyError, TypeError}
          (bindR (dindex task_meta ''node_id'') (\<lambda>assertion_id.
           bindR (get_node_by_path state [assertion_id, JStr ''badge'', JStr ''issuer'']) (\<lambda>iv.
             Inr (assertion_id, iv)))))
       (\<lambda>(assertion_id, issuer_value).
     bindR (as_dict issuer_value) (\<lambda>issuer.
       let list_id = dget issuer ''revocationList'' in
       if \<not> truthy list_id then
         task_result True
           (''Assertion '' @ py_str assertion_id @ '' is not revoked. Issuer ''
            @ py_str (dget issuer ''id'') @ '' has no revocation list'') []
       else
         bindR (get_node_by_id state list_id) (\<lambda>revocation_list.
         bindR (dindex revocation_list ''revokedAssertions'') (\<lambda>revoked.
         bindR (sequence_of revoked) (\<lambda>revoked_assertions.
         bindR (filterR (revocation_match assertion_id) revoked_assertions) (\<lambda>revoked_match.
         bindR (dindex revocation_list ''id'') (\<lambda>rl_id.
           let actions = [patch_node rl_id [(''revokedAssertions'', JList revoked_match)]] in
           if revoked_match \<noteq> [] then
             task_result False
               (''Assertion '' @ py_str assertion_id @ '' has been revoked in RevocationList ''
                @ py_str list_id @ revocation_reason_text '''' revoked_match) actions
           else
             task_result True
               (''Assertion '' @ py_str assertion_id
                @ '' is not marked as revoked in RevocationList '' @ py_str list_id) actions)))))))"

end
