(* ===== verification/Bakery.thy ===== *)
theory Bakery
  imports Py_Value
begin

text \<open>
  Baking badge data into images and reading it back (openbadges\_bakery/): PNG chunks
  (png\_bakery.py), the SVG document tree (svg\_bakery.py) and the choice between them (utils.py).
  What the file formats themselves mean is an argument, the record \<open>image_lib\<close>: pypng's chunk
  reader and writer, the XML parser and printer, \<open>json.loads\<close>, and the URL check that calls rfc3986.
  Bytes are characters with the same codes.
\<close>

section \<open>UTF-8\<close>

text \<open>
  Texts hold characters below U+0100.  A well-formed sequence for a character outside this range
  has no text here, and is an error of its own.
\<close>

definition byte_of :: "char \<Rightarrow> nat" where
  "byte_of c = of_char c"

definition utf8_char :: "char \<Rightarrow> string" where
  "utf8_char c =
     (let n = byte_of c
      in if n < 128 then [c] else [char_of (192 + n div 64), char_of (128 + n mod 64)])"

definition utf8_encode :: "string \<Rightarrow> string" where
  "utf8_encode s = concat (map utf8_char s)"

fun utf8_decode :: "string \<Rightarrow> string res" where
  "utf8_decode [] = Inr []"
| "utf8_decode [c] = (if byte_of c < 128 then Inr [c] else Inl ValueError)"
| "utf8_decode (c # d # cs) =
     (if byte_of c < 128 then bindR (utf8_decode (d # cs)) (\<lambda>r. Inr (c # r))
      else if byte_of c \<in> {194, 195} \<and> 128 \<le> byte_of d \<and> byte_of d < 192
      then bindR (utf8_decode cs)
             (\<lambda>r. Inr (char_of ((byte_of c - 192) * 64 + (byte_of d - 128)) # r))
      else if byte_of c < 194 \<or> 244 < byte_of c then Inl ValueError
      else Inl (OtherError ''character outside the model''))"

lemma byte_of_char_of: "n < 256 \<Longrightarrow> byte_of (char_of n) = n"
  by (simp add: byte_of_def)

lemma byte_of_less: "byte_of c < 256"
  by (simp add: byte_of_def)

lemma utf8_decode_step: "utf8_decode (utf8_char c @ cs) = bindR (utf8_decode cs) (\<lambda>r. Inr (c # r))"
proof (cases "byte_of c < 128")
  case True
  then show ?thesis by (cases cs) (simp_all add: utf8_char_def)
next
  case False
  define n where "n = byte_of c"
  have n: "128 \<le> n" "n < 256" using False byte_of_less [of c] by (simp_all add: n_def)
  then have lead: "192 + n div 64 \<in> {194, 195}" by auto
  have c: "char_of (n div 64 * 64 + n mod 64) = c"
    by (simp add: n_def byte_of_def)
  show ?thesis
    using n lead c by (auto simp: utf8_char_def Let_def byte_of_char_of simp flip: n_def)
qed

lemma utf8_decode_encode: "utf8_decode (utf8_encode s) = Inr s"
  by (induction s) (simp_all add: utf8_encode_def utf8_decode_step)

section \<open>PNG (png\_bakery.py)\<close>

type_synonym chunk = "string \<times> string"

definition NUL :: char where
  "NUL = CHR 0x00"

definition ob_keyword :: string where
  "ob_keyword = ''openbadges''"

definition obc_keyword :: string where
  "obc_keyword = ''openbadgecredential''"

text \<open>\<open>re.sub(b"keyword[\\x00]+", b"", content)\<close>: every occurrence goes.\<close>

function (sequential) sub_keyword :: "string \<Rightarrow> string \<Rightarrow> string" where
  "sub_keyword kw [] = []"
| "sub_keyword kw (c # cs) =
     (if startswith (c # cs) (kw @ [NUL])
      then sub_keyword kw (dropWhile (\<lambda>d. d = NUL) (drop (length kw) cs))
      else c # sub_keyword kw cs)"
  by pat_completeness auto
termination
proof (relation "measure (length \<circ> snd)")
  fix kw cs and c :: char
  have "length (dropWhile (\<lambda>d. d = NUL) (drop (length kw) cs)) \<le> length (drop (length kw) cs)"
    by (rule length_dropWhile_le)
  then show "((kw, dropWhile (\<lambda>d. d = NUL) (drop (length kw) cs)), kw, c # cs)
               \<in> measure (length \<circ> snd)" by simp
qed auto

definition keyed :: "string \<Rightarrow> string \<Rightarrow> bool" where
  "keyed kw content \<longleftrightarrow> startswith content (kw @ [NUL])"

text \<open>\<open>content.split(b"\\x00")[1]\<close>, where a separator is known to be present.\<close>

definition after_nul :: "string \<Rightarrow> string" where
  "after_nul content = hd (tl (split_on NUL content))"

text \<open>The result is \<open>None\<close> when no chunk matches.\<close>

fun unbake_chunks :: "chunk list \<Rightarrow> json res" where
  "unbake_chunks [] = Inr JNull"
| "unbake_chunks ((chunktype, content) # rest) =
     (let text = (\<lambda>bytes. bindR (utf8_decode bytes) (\<lambda>s. Inr (JStr s))) in
      if chunktype = ''iTXt'' \<and> keyed ob_keyword content then text (sub_keyword ob_keyword content)
      else if chunktype = ''tEXt'' \<and> keyed ob_keyword content then text (after_nul content)
      else if chunktype = ''iTXt'' \<and> keyed obc_keyword content
        then text (sub_keyword obc_keyword content)
      else if chunktype = ''tEXt'' \<and> keyed obc_keyword content then text (after_nul content)
      else unbake_chunks rest)"

definition is_not_previous_assertion :: "chunk \<Rightarrow> bool" where
  "is_not_previous_assertion ch \<longleftrightarrow>
     \<not> (keyed ob_keyword (snd ch) \<or> keyed obc_keyword (snd ch))"

text \<open>\<open>next\<close> on no chunk at all raises \<open>StopIteration\<close>.\<close>

definition baked_chunks :: "chunk list \<Rightarrow> chunk \<Rightarrow> chunk list res" where
  "baked_chunks original_chunks badge_chunk =
     (case original_chunks of
        [] \<Rightarrow> Inl (OtherError ''StopIteration'')
      | first_slice # others \<Rightarrow>
          Inr (first_slice # badge_chunk # filter is_not_previous_assertion others))"

definition badge_chunk_of :: "string \<Rightarrow> chunk" where
  "badge_chunk_of assertion_string =
     (''iTXt'', obc_keyword @ replicate 5 NUL @ utf8_encode assertion_string)"

section \<open>SVG (svg\_bakery.py)\<close>

text \<open>A document is the list of its top nodes.\<close>

datatype dom =
    Element string "(string \<times> string) list" "dom list"
  | CData string
  | OtherNode string

fun elements_by_tag :: "string \<Rightarrow> dom \<Rightarrow> dom list" where
  "elements_by_tag tag (Element name attrs children) =
     (if name = tag then [Element name attrs children] else [])
     @ concat (map (elements_by_tag tag) children)"
| "elements_by_tag tag (CData s) = []"
| "elements_by_tag tag (OtherNode s) = []"

definition get_elements :: "string \<Rightarrow> dom list \<Rightarrow> dom list" where
  "get_elements tag doc = concat (map (elements_by_tag tag) doc)"

text \<open>Changing the first element with a tag, in document order.\<close>

fun change_first :: "string \<Rightarrow> (dom \<Rightarrow> dom) \<Rightarrow> dom \<Rightarrow> dom option"
and change_first_list :: "string \<Rightarrow> (dom \<Rightarrow> dom) \<Rightarrow> dom list \<Rightarrow> dom list option" where
  "change_first tag f (Element name attrs children) =
     (if name = tag then Some (f (Element name attrs children))
      else map_option (Element name attrs) (change_first_list tag f children))"
| "change_first tag f (CData s) = None"
| "change_first tag f (OtherNode s) = None"
| "change_first_list tag f [] = None"
| "change_first_list tag f (d # ds) =
     (case change_first tag f d of
        Some d' \<Rightarrow> Some (d' # ds)
      | None \<Rightarrow> map_option ((#) d) (change_first_list tag f ds))"

record image_lib =
  png_chunks :: "string \<Rightarrow> chunk list res"
  png_write :: "chunk list \<Rightarrow> string"
  xml_parse :: "string \<Rightarrow> dom list res"
  xml_print :: "dom list \<Rightarrow> string"
  svg_loads :: "string \<Rightarrow> json res"
  svg_is_url :: "json \<Rightarrow> bool"

definition set_attr :: "string \<Rightarrow> string \<Rightarrow> (string \<times> string) list \<Rightarrow> (string \<times> string) list" where
  "set_attr k v attrs = AList.update k v attrs"

definition insert_first_child :: "string \<Rightarrow> dom \<Rightarrow> dom \<Rightarrow> dom" where
  "insert_first_child xmlns_url child d =
     (case d of
        Element name attrs children \<Rightarrow>
          Element name (set_attr ''xmlns:openbadges'' xmlns_url attrs) (child # children)
      | _ \<Rightarrow> d)"

definition OB3_CONTEXTS :: "string list" where
  "OB3_CONTEXTS =
     [''https://www.w3.org/2018/credentials/v1'', ''https://www.w3.org/ns/credentials/v2'']"

text \<open>
  Whether the data declares an Open Badges 3 context: \<open>assertion['@context']\<close> must exist, and a
  plain string is none.
\<close>

definition is_ob3 :: "json \<Rightarrow> bool res" where
  "is_ob3 assertion =
     bindR (subscript assertion ''@context'') (\<lambda>context.
       if is_str context then Inr False
       else
         bindR (py_in (JStr (OB3_CONTEXTS ! 0)) context) (\<lambda>a.
           if a then Inr True else py_in (JStr (OB3_CONTEXTS ! 1)) context))"

text \<open>
  The \<open>verify\<close> attribute: the id when it is a URL, else the hosted verification URL.  A text that
  is no JSON (\<open>ValueError\<close>) gets none.  A falsy JSON value has no \<open>@context\<close> to look up.
\<close>

definition verify_attribute :: "image_lib \<Rightarrow> string \<Rightarrow> json res" where
  "verify_attribute L assertion_string =
     (case svg_loads L assertion_string of
        Inl e \<Rightarrow> if e = ValueError then Inr JNull else Inl e
      | Inr assertion \<Rightarrow>
          bindR
            (if truthy assertion then
               bindR (as_dict assertion) (\<lambda>d.
                 if dget d ''id'' = JNull \<or> \<not> svg_is_url L (dget d ''id'') then
                   bindR (as_dict (dget_default d ''verify'' (JDict []))) (\<lambda>v. Inr (dget v ''url''))
                 else Inr (dget d ''id''))
             else Inr JNull) (\<lambda>verify_attr.
          bindR (is_ob3 assertion) (\<lambda>ob3. Inr (if ob3 then JBool False else verify_attr))))"

text \<open>A value other than a text fails when the document is printed.\<close>

definition populate_assertion_node :: "image_lib \<Rightarrow> string \<Rightarrow> string \<Rightarrow> dom res" where
  "populate_assertion_node L tag assertion_string =
     bindR (verify_attribute L assertion_string) (\<lambda>verify_attr.
       case verify_attr of
         JStr url \<Rightarrow>
           Inr (Element tag (if url \<noteq> [] then [(''verify'', url)] else []) [CData assertion_string])
       | v \<Rightarrow>
           if truthy v then Inl AttributeError
           else Inr (Element tag [] [CData assertion_string]))"

definition svg_tag :: "image_lib \<Rightarrow> string \<Rightarrow> (string \<times> string) res" where
  "svg_tag L assertion_string =
     (let plain = (''openbadges:assertion'', ''http://openbadges.org'') in
      case svg_loads L assertion_string of
        Inl e \<Rightarrow> if e = ValueError then Inr plain else Inl e
      | Inr assertion \<Rightarrow>
          bindR (is_ob3 assertion) (\<lambda>ob3.
            Inr (if ob3 then (''openbadges:credential'', ''https://purl.imsglobal.org/ob/v3p0'')
                 else plain)))"

text \<open>The printer refuses a CDATA section that holds its own end mark.\<close>

definition svg_bake_doc :: "image_lib \<Rightarrow> dom list \<Rightarrow> string \<Rightarrow> dom list res" where
  "svg_bake_doc L doc assertion_string =
     bindR (svg_tag L assertion_string) (\<lambda>(tag, xmlns_url).
     bindR (populate_assertion_node L tag assertion_string) (\<lambda>node.
       case change_first_list ''svg'' (insert_first_child xmlns_url node) doc of
         None \<Rightarrow> Inl IndexError
       | Some doc' \<Rightarrow> if contains_str assertion_string '']]>'' then Inl ValueError else Inr doc'))"

definition last_cdata :: "dom list \<Rightarrow> json" where
  "last_cdata children =
     fold (\<lambda>n acc. case n of CData s \<Rightarrow> JStr s | _ \<Rightarrow> acc) children JNull"

text \<open>The attribute wins over the text; it is handed out as bytes.\<close>

definition svg_unbake_doc :: "dom list \<Rightarrow> json res" where
  "svg_unbake_doc doc =
     bindR
       (catchR (first_or_index_error (get_elements ''openbadges:assertion'' doc))
          (\<lambda>_. first_or_index_error (get_elements ''openbadges:credential'' doc)))
       (\<lambda>node.
          case node of
            Element name attrs children \<Rightarrow>
              (case map_of attrs ''verify'' of
                 Some url \<Rightarrow>
                   if url \<noteq> [] then Inr (JBytes (utf8_encode url)) else Inr (last_cdata children)
               | None \<Rightarrow> Inr (last_cdata children))
          | _ \<Rightarrow> Inl AttributeError)"

section \<open>Choosing the format (utils.py)\<close>

definition PNG_SIGNATURE :: string where
  "PNG_SIGNATURE =
     [CHR 0x89, CHR ''P'', CHR ''N'', CHR ''G'', CHR 0x0D, CHR 0x0A, CHR 0x1A, CHR 0x0A]"

datatype image_type = PNG | SVG

definition check_image_type :: "string \<Rightarrow> image_type option" where
  "check_image_type image_file =
     (if take 8 image_file = PNG_SIGNATURE then Some PNG
      else if contains_str (take 256 image_file) ''<svg'' then Some SVG
      else None)"

definition unbake :: "image_lib \<Rightarrow> string \<Rightarrow> json res" where
  "unbake L image_file =
     (case check_image_type image_file of
        Some PNG \<Rightarrow> bindR (png_chunks L image_file) unbake_chunks
      | Some SVG \<Rightarrow> bindR (xml_parse L image_file) svg_unbake_doc
      | None \<Rightarrow> Inr JNull)"

definition bake :: "image_lib \<Rightarrow> string \<Rightarrow> string \<Rightarrow> string option res" where
  "bake L image_file assertion_string =
     (case check_image_type image_file of
        Some PNG \<Rightarrow>
          bindR (png_chunks L image_file) (\<lambda>chunks.
          bindR (baked_chunks chunks (badge_chunk_of assertion_string)) (\<lambda>baked.
            Inr (Some (png_write L baked))))
      | Some SVG \<Rightarrow>
          bindR (xml_parse L image_file) (\<lambda>doc.
          bindR (svg_bake_doc L doc assertion_string) (\<lambda>doc'. Inr (Some (xml_print L doc'))))
      | None \<Rightarrow> Inr None)"

end
