(* ===== verification/Verifier_Intake.thy ===== *)
theory Verifier_Intake
  imports Verifier_Classes Bakery
begin

text \<open>
  How data enters the verifier: recognising the input and reading baked images
  (openbadges/verifier/tasks/input.py), fetching, loading and compacting nodes (tasks/graph.py).
  The network, JSON text and the packages behind them are an argument, the record \<open>web\<close>:
  \<open>http_get\<close> is one GET request, \<open>mime_above\<close> says that mimeparse rates a content type
  above 0.9, \<open>loaded_contexts\<close> are the contexts the document loader saw while a value was
  compacted, in the order in which Python lists the set; \<open>open_baked\<close> decodes a base64 text and
  reads the image it is (theory Bakery).
\<close>

section \<open>What the tasks call\<close>

text \<open>A response: its text, the value of \<open>Content-Type\<close> if any, and the base64 text of its body.\<close>

record response =
  resp_text :: "string res"
  resp_content_type :: "string option"
  resp_base64 :: string

record web =
  http_get :: "json \<Rightarrow> response res"
  mime_above :: "string \<Rightarrow> string \<Rightarrow> bool res"
  json_loads :: "json \<Rightarrow> json res"
  json_dumps :: "json \<Rightarrow> string"
  loaded_contexts :: "json \<Rightarrow> json list"
  open_baked :: "string \<Rightarrow> json res"

section \<open>Input (tasks/input.py)\<close>

text \<open>\<open>d[k]\<close> for any value \<open>k\<close>: a list or a dictionary cannot be a key.\<close>

fun dict_index :: "pydict \<Rightarrow> json \<Rightarrow> json res" where
  "dict_index d (JStr k) = dindex d k"
| "dict_index d (JList _) = Inl TypeError"
| "dict_index d (JDict _) = Inl TypeError"
| "dict_index d _ = Inl KeyError"

definition make_string_from_bytes :: "json \<Rightarrow> json res" where
  "make_string_from_bytes input_value =
     (case input_value of
        JBytes b \<Rightarrow> bindR (utf8_decode b) (\<lambda>s. Inr (JStr s))
      | v \<Rightarrow> Inr v)"

text \<open>\<open>ValueError\<close> and \<open>TypeError\<close> mean that the input is not JSON.\<close>

definition input_is_json :: "web \<Rightarrow> json \<Rightarrow> bool res" where
  "input_is_json W user_input =
     (case bindR (make_string_from_bytes user_input) (json_loads W) of
        Inr _ \<Rightarrow> Inr True
      | Inl e \<Rightarrow> if e \<in> {ValueError, TypeError} then Inr False else Inl e)"

text \<open>
  \<open>^[A-z0-9\\-=]+.[A-z0-9\\-=]+.[A-z0-9\\-\_=]+$\<close>: the dots are not escaped, so any character (but
  a line feed) may separate the three parts, which are runs of the characters from \<open>A\<close> to \<open>z\<close>
  and some more.
\<close>

definition jws_char :: "char \<Rightarrow> bool" where
  "jws_char c \<longleftrightarrow> in_range CHR ''A'' CHR ''z'' c \<or> is_digit c \<or> c = CHR ''-'' \<or> c = CHR ''=''"

definition jws_parts :: "string \<Rightarrow> nat \<Rightarrow> nat \<Rightarrow> bool" where
  "jws_parts s i j \<longleftrightarrow>
     0 < i \<and> Suc i < j \<and> Suc j < length s
     \<and> list_all jws_char (take i s) \<and> s ! i \<noteq> CHR 0x0A
     \<and> list_all jws_char (take (j - Suc i) (drop (Suc i) s)) \<and> s ! j \<noteq> CHR 0x0A
     \<and> list_all jws_char (drop (Suc j) s)"

definition jws_shape :: "string \<Rightarrow> bool" where
  "jws_shape s \<longleftrightarrow> (\<exists>i \<in> set [0..<length s]. \<exists>j \<in> set [0..<length s]. jws_parts s i j)"

definition input_is_jws :: "json \<Rightarrow> bool res" where
  "input_is_jws user_input =
     bindR (make_string_from_bytes user_input) (\<lambda>v.
     bindR (expect_str v) (\<lambda>s. Inr (jws_shape s \<or> jws_shape (drop_final_newline s))))"

definition find_id_in_jsonld :: "ext \<Rightarrow> web \<Rightarrow> json \<Rightarrow> json res" where
  "find_id_in_jsonld E W json_string =
     bindR (json_loads W json_string) (\<lambda>input_data.
     bindR (jsonld_compact E input_data) (\<lambda>result.
     bindR (as_dict result) (\<lambda>d. Inr (dget_default d ''id'' (JStr '''')))))"

text \<open>\<open>input\_data['verify']['url']\<close>, or the empty text where a key is missing.\<close>

definition find_1_0_verify_url :: "web \<Rightarrow> json \<Rightarrow> json res" where
  "find_1_0_verify_url W json_string =
     bindR (json_loads W json_string) (\<lambda>input_data.
       catchR (bindR (subscript input_data ''verify'') (\<lambda>v. subscript v ''url''))
         (\<lambda>e. if e = KeyError then Inr (JStr '''') else Inl e))"

text \<open>The first of the two finders that yields a URL.\<close>

definition find_verify_url :: "ext \<Rightarrow> web \<Rightarrow> json \<Rightarrow> json option res" where
  "find_verify_url E W input_value =
     bindR (find_id_in_jsonld E W input_value) (\<lambda>id_url.
       if is_url E id_url then Inr (Some id_url)
       else bindR (find_1_0_verify_url W input_value) (\<lambda>url.
              Inr (if is_url E url then Some url else None)))"

definition detect_input_type :: "ext \<Rightarrow> web \<Rightarrow> (nat \<Rightarrow> string) \<Rightarrow> task_fun" where
  "detect_input_type E W keys state task_meta =
     (let input_value = dget (v_input state) ''value'';
          detected = (\<lambda>kind actions. task_result True (''Input of type '' @ kind @ '' detected.'') actions)
      in
      if is_url E input_value then
        detected ''url''
          [input_type_action ''url'',
           task_action (keys 0) ''FETCH_HTTP_NODE''
             [(''url'', input_value),
              (''is_potential_baked_input'',
               dget_default task_meta ''is_potential_baked_input'' (JBool True))],
           set_validation_subject input_value]
      else
        bindR (input_is_json W input_value) (\<lambda>json.
        if json then
          bindR (find_verify_url E W input_value) (\<lambda>found.
            case found of
              Some id_url \<Rightarrow>
                detected ''url''
                  [store_input id_url, input_type_action ''url'',
                   task_action (keys 0) ''FETCH_HTTP_NODE''
                     [(''url'', id_url), (''is_potential_baked_input'', JBool False)],
                   set_validation_subject id_url]
            | None \<Rightarrow>
                detected ''json''
                  [input_type_action ''json'',
                   message_action
                     ''Could not determine verifiable input from provided JSON. No hosted verification URL found.''
                     ''ERROR'' True])
        else
          bindR (input_is_jws input_value) (\<lambda>jws.
            if jws then
              detected ''jws''
                [input_type_action ''jws'',
                 task_action (keys 0) ''PROCESS_JWS_INPUT'' [(''data'', input_value)]]
            else Inl NotImplementedError)))"

text \<open>
  \<open>data:image/png;base64,...\<close> as bytes: the base64 part.  A text has no \<open>decode\<close>, and what
  does not match has no groups: both are caught as \<open>AttributeError\<close>.
\<close>

definition baked_data :: "string \<Rightarrow> string option" where
  "baked_data s0 =
     (let s = drop_final_newline s0;
          after = (\<lambda>p. if startswith s p \<and> drop (length p) s \<noteq> []
                          \<and> CHR 0x0A \<notin> set (drop (length p) s)
                       then Some (drop (length p) s) else None)
      in case after ''data:image/png;base64,'' of
           Some d \<Rightarrow> Some d
         | None \<Rightarrow> after ''data:image/svg+xml;base64,'')"

definition process_baked_resource :: "web \<Rightarrow> (nat \<Rightarrow> string) \<Rightarrow> task_fun" where
  "process_baked_resource W keys state task_meta =
     bindR
       (catchR
          (bindR (dindex task_meta ''node_id'') (\<lambda>node_id.
           bindR (dindex (v_input state) ''original_json'') (\<lambda>originals.
           bindR (as_dict originals) (\<lambda>d.
           bindR (dict_index d node_id) (\<lambda>resource. Inr (node_id, resource))))))
          (\<lambda>e. if e = KeyError then Inl TaskPrerequisitesError else Inl e))
       (\<lambda>(node_id, resource_b64).
     let undetermined =
           task_result False
             (''Cannot determine image type or content from dataURI '' @ abv resource_b64) []
     in case resource_b64 of
          JBytes b \<Rightarrow>
            bindR (utf8_decode b) (\<lambda>search_string.
              case baked_data search_string of
                None \<Rightarrow> undetermined
              | Some b64_data \<Rightarrow>
                  bindR (open_baked W b64_data) (\<lambda>assertion_data.
                    if truthy assertion_data then
                      task_result True (''Retrieved baked data from image resource '' @ abv node_id)
                        [store_input assertion_data,
                         task_action (keys 0) ''DETECT_INPUT_TYPE''
                           [(''is_potential_baked_input'', JBool False)]]
                    else
                      task_result False
                        (''Resource '' @ abv node_id
                         @ '' was an image of known type but no baked Open Badges data was available'')
                        []))
        | _ \<Rightarrow> undetermined)"

section \<open>Fetching (tasks/graph.py)\<close>

definition image_content_type :: "web \<Rightarrow> string \<Rightarrow> string option res" where
  "image_content_type W content_type =
     bindR (mime_above W content_type ''image/svg+xml'') (\<lambda>svg.
       if svg then Inr (Some ''image/svg+xml'')
       else bindR (mime_above W content_type ''image/png'') (\<lambda>png.
              Inr (if png then Some ''image/png'' else None)))"

definition fetch_http_node :: "web \<Rightarrow> (nat \<Rightarrow> string) \<Rightarrow> task_fun" where
  "fetch_http_node W keys state task_meta =
     bindR (dindex task_meta ''url'') (\<lambda>url.
     bindR (http_get W url) (\<lambda>result.
     bindR (resp_text result) (\<lambda>result_text.
       case json_loads W (JStr result_text) of
         Inr _ \<Rightarrow>
           task_result True (''Successfully fetched JSON data from '' @ py_str url)
             [store_original_resource url (JStr result_text),
              task_action (keys 0) ''INTAKE_JSON''
                [(''data'', JStr result_text), (''node_id'', url),
                 (''expected_class'', dget task_meta ''expected_class''),
                 (''source_node_path'', dget task_meta ''source_node_path'')]]
       | Inl e \<Rightarrow>
           if e \<noteq> ValueError then Inl e
           else
             bindR (image_content_type W
                      (case resp_content_type result of None \<Rightarrow> ''UNKNOWN'' | Some c \<Rightarrow> c)) (\<lambda>parsed_type.
               case parsed_type of
                 None \<Rightarrow>
                   task_result False
                     (''Unknown Content-Type (Not image/png or image/svg+xml). Response could not be interpreted from url ''
                      @ py_str url) []
               | Some t \<Rightarrow>
                   task_result True (''Successfully fetched image from '' @ py_str url)
                     (store_original_resource url
                        (JBytes (''data:'' @ t @ '';base64,'' @ resp_base64 result))
                      # (if truthy (dget_default task_meta ''is_potential_baked_input'' (JBool False))
                         then [task_action (keys 0) ''PROCESS_BAKED_RESOURCE'' [(''node_id'', url)]]
                         else []))))))"

definition detect_openbadges_version :: "pydict \<Rightarrow> string" where
  "detect_openbadges_version data =
     (case dget data ''@context'' of
        JStr context \<Rightarrow>
          if contains_str context ''v1'' then ''1.1'' else ''2.0''
      | JNull \<Rightarrow> if is_str (dget data ''recipient'') then ''0.5'' else ''1.0''
      | _ \<Rightarrow> ''2.0'')"

text \<open>
  The tasks for a loaded text.  The version is always one of the four, so the source's last branch is
  never taken.
\<close>

definition intake_actions :: "(nat \<Rightarrow> string) \<Rightarrow> pydict \<Rightarrow> json \<Rightarrow> string \<Rightarrow> pydict list" where
  "intake_actions keys task_meta input_data openbadges_version =
     (let node_id = dget task_meta ''node_id''; expected_class = dget task_meta ''expected_class'';
          source_node_path = dget task_meta ''source_node_path'';
          compact_action =
            task_action (keys 0) ''JSONLD_COMPACT_DATA''
              [(''node_id'', node_id), (''openbadges_version'', JStr openbadges_version),
               (''expected_class'', expected_class), (''data'', input_data),
               (''source_node_path'', source_node_path)];
          upgrade_action = (\<lambda>name.
            task_action (keys 1) name
              [(''node_id'', node_id), (''expected_class'', expected_class),
               (''data'', input_data), (''source_node_path'', source_node_path)])
      in if openbadges_version = ''2.0'' then [compact_action]
         else if openbadges_version = ''1.1'' then
           [compact_action,
            task_action (keys 1) ''UPGRADE_1_1_NODE''
              [(''node_id'', node_id), (''expected_class'', expected_class),
               (''prerequisites'', JList [dget compact_action ''task_key''])]]
         else if openbadges_version = ''1.0'' then [upgrade_action ''UPGRADE_1_0_NODE'']
         else [upgrade_action ''UPGRADE_0_5_NODE''])"

text \<open>The \<open>type_error_text\<close> is what Python says of the \<open>TypeError\<close>.\<close>

definition intake_json :: "web \<Rightarrow> string \<Rightarrow> (nat \<Rightarrow> string) \<Rightarrow> task_fun" where
  "intake_json W type_error_text keys state task_meta =
     bindR (dindex task_meta ''data'') (\<lambda>input_data.
       case bindR (make_string_from_bytes input_data) (json_loads W) of
         Inl e \<Rightarrow>
           if e = TypeError
           then task_result False (''Could not load JSON from data: '' @ type_error_text) []
           else Inl e
       | Inr v \<Rightarrow>
           bindR (as_dict v) (\<lambda>data.
             let openbadges_version = detect_openbadges_version data in
             task_result True (''Processed node '' @ py_str (dget task_meta ''node_id''))
               (version_action openbadges_version
                # intake_actions keys task_meta input_data openbadges_version)))"

text \<open>
  The extensions in a value: a dictionary whose \<open>type\<close> lists \<open>Extension\<close> is queued for
  validation; the walk goes on below every key but \<open>id\<close> and \<open>type\<close>.  Lists directly within lists
  are not entered.  \<open>i\<close> counts the tasks queued so far (their keys are drawn in this order).
\<close>

fun extension_actions ::
  "web \<Rightarrow> (nat \<Rightarrow> string) \<Rightarrow> json list \<Rightarrow> nat \<Rightarrow> json \<Rightarrow> json list \<Rightarrow> nat \<times> pydict list"
and extension_entries ::
  "web \<Rightarrow> (nat \<Rightarrow> string) \<Rightarrow> json list \<Rightarrow> nat \<Rightarrow> (string \<times> json) list \<Rightarrow> json list \<Rightarrow> nat \<times> pydict list"
and extension_items ::
  "web \<Rightarrow> (nat \<Rightarrow> string) \<Rightarrow> json list \<Rightarrow> nat \<Rightarrow> nat \<Rightarrow> json list \<Rightarrow> json list \<Rightarrow> nat \<times> pydict list"
where
  "extension_actions W keys contexts i (JDict d) path =
     (let types = list_of (dget d ''type'');
          here = (if truthy (dget d ''type'') \<and> JStr ''Extension'' \<in> set types
                  then [task_action (keys i) ''VALIDATE_EXTENSION_NODE''
                          [(''node_path'', JList path), (''node_json'', JStr (json_dumps W (JDict d))),
                           (''context_urls'', JList contexts),
                           (''types_to_test'', JList (filter (\<lambda>t. t \<noteq> JStr ''Extension'') types))]]
                  else []);
          (j, below) = extension_entries W keys contexts (i + length here) d path
      in (j, here @ below))"
| "extension_actions W keys contexts i v path = (i, [])"
| "extension_entries W keys contexts i [] path = (i, [])"
| "extension_entries W keys contexts i ((k, v) # rest) path =
     (if k = ''id'' \<or> k = ''type'' then extension_entries W keys contexts i rest path
      else
        let (j, as) = (case v of
                         JList vs \<Rightarrow> extension_items W keys contexts i 0 vs (path @ [JStr k])
                       | _ \<Rightarrow> extension_actions W keys contexts i v (path @ [JStr k]));
            (l, bs) = extension_entries W keys contexts j rest path
        in (l, as @ bs))"
| "extension_items W keys contexts i n [] path = (i, [])"
| "extension_items W keys contexts i n (v # vs) path =
     (let (j, as) = extension_actions W keys contexts i v (path @ [JInt (int n)]);
          (l, bs) = extension_items W keys contexts j (Suc n) vs path
      in (l, as @ bs))"

text \<open>\<open>task\_meta.get('data')\<close>, decoded when it is not a text, and loaded.\<close>

definition load_task_data :: "web \<Rightarrow> pydict \<Rightarrow> json res" where
  "load_task_data W task_meta =
     bindR
       (case dget task_meta ''data'' of
          JStr s \<Rightarrow> Inr (JStr s)
        | JBytes b \<Rightarrow> if b = [] then Inr (JBytes b)
                      else bindR (utf8_decode b) (\<lambda>s. Inr (JStr s))
        | v \<Rightarrow> if truthy v then Inl AttributeError else Inr v)
       (json_loads W)"

text \<open>
  The blank number drawn for \<open>task\_meta.get('node\_id', get\_next\_blank\_node\_id())\<close> is the one after
  the counter's; it is drawn whether or not it is used, once the data is compacted.
\<close>

definition compact_draws :: "ext \<Rightarrow> web \<Rightarrow> draw_count" where
  "compact_draws E W state task_meta =
     (case bindR (load_task_data W task_meta) (\<lambda>d. bindR (jsonld_compact E d) as_dict) of
        Inl _ \<Rightarrow> 0 | Inr _ \<Rightarrow> 1)"

definition jsonld_compact_data :: "ext \<Rightarrow> web \<Rightarrow> (nat \<Rightarrow> string) \<Rightarrow> task_fun" where
  "jsonld_compact_data E W keys state task_meta =
     (case load_task_data W task_meta of
        Inl e \<Rightarrow> if e = TypeError then task_result False ''Could not load data'' [] else Inl e
      | Inr input_data \<Rightarrow>
          bindR (jsonld_compact E input_data) (\<lambda>compacted.
          bindR (as_dict compacted) (\<lambda>result.
            let expected_class = dget task_meta ''expected_class'';
                new_contexts = loaded_contexts W input_data;
                blank = JStr (blank_node_id (v_blank state + 1));
                node_id = dget_default result ''id'' (dget_default task_meta ''node_id'' blank);
                declared = dget result ''id''; source = dget task_meta ''node_id''
            in
            if truthy declared \<and> truthy source \<and> declared \<noteq> source then
              task_result True
                (''Successfully compacted node '' @ py_str node_id @ '' from source '' @ py_str source
                 @ '' and found ID mismatch'')
                ([message_action
                    (''Node fetched from source '' @ py_str source @ '' declared its id as ''
                     @ py_str node_id) ''WARNING'' False,
                  delete_outdated_node_tasks source,
                  (if truthy expected_class then dset ''expected_class'' expected_class else id)
                    (task_action (keys 0) ''FETCH_HTTP_NODE'' [(''url'', declared)])]
                 @ (if truthy (dget task_meta ''source_node_path'')
                    then [patch_node_reference (dget task_meta ''source_node_path'') node_id] else [])
                 @ (if dget (v_report state) ''validationSubject'' = source
                    then [set_validation_subject declared] else []))
            else
              let (n, exts) = extension_actions W keys new_contexts 0 (JDict result) [node_id] in
              task_result True (''Successfully compacted node '' @ py_str node_id)
                (add_node node_id (JDict result) # exts
                 @ (if truthy expected_class then
                      [task_action (keys n) ''VALIDATE_EXPECTED_NODE_CLASS''
                         [(''node_id'', node_id), (''expected_class'', expected_class)]]
                    else if truthy (dget_default task_meta ''detectAndValidateClass'' (JBool True)) then
                      [task_action (keys n) ''DETECT_AND_VALIDATE_NODE_CLASS'' [(''node_id'', node_id)]]
                    else [])))))"

text \<open>
  Flattening an embedded node.  The message for a missing property has two fields and one argument,
  which raises \<open>IndexError\<close>.  \<open>uuid\<close> is the random name of a new blank node.
\<close>

definition flatten_refetch_embedded_resource ::
  "ext \<Rightarrow> (nat \<Rightarrow> string) \<Rightarrow> string \<Rightarrow> task_fun" where
  "flatten_refetch_embedded_resource E keys uuid state task_meta =
     bindR
       (catchR
          (bindR (dindex task_meta ''node_id'') (\<lambda>node_id.
           bindR (get_node_by_id state node_id) (\<lambda>node.
           bindR (dindex task_meta ''prop_name'') (\<lambda>prop_name.
           bindR (dindex task_meta ''node_class'') (\<lambda>node_class.
             Inr (node_id, node, prop_name, node_class))))))
          (\<lambda>e. if e \<in> {IndexError, KeyError} then Inl TaskPrerequisitesError else Inl e))
       (\<lambda>(node_id, node, prop_name, node_class).
     bindR (expect_str prop_name) (\<lambda>prop.
       let finish = task_result True
             ''Embedded {} node in {} queued for storage and/or refetching as needed'';
           place = JList [node_id, prop_name]
       in
       case dget node prop of
         JNull \<Rightarrow>
           bindR (py_format ''Expected property {} was missing in node {}'' [py_str node_id])
             (\<lambda>message. task_result True message [])
       | JStr _ \<Rightarrow>
           task_result True
             (''Property '' @ prop @ '' referenced from '' @ abv_node node_id JNull
              @ '' is not embedded in need of flattening'') []
       | JDict value \<Rightarrow>
           (case dget value ''id'' of
              JNull \<Rightarrow>
                let new_id = JStr (''_:'' @ uuid);
                    new_node = dset ''@context'' (JStr OPENBADGES_CONTEXT_V2_URI)
                                 (dset ''id'' new_id value)
                in finish
                     [add_node new_id (JDict new_node), patch_node node_id [(prop, new_id)],
                      message_action
                        (''Node id missing at '' @ abbreviate_value 64 place
                         @ ''. A blank node ID has been assigned'') ''WARNING'' True]
            | JStr embedded \<Rightarrow>
                let embedded_node_id = JStr embedded in
                bindR (is_iri E embedded_node_id) (\<lambda>iri.
                  if \<not> iri then
                    task_result False
                      (''Embedded JSON object at '' @ abv place @ '' has no proper assigned id.'') []
                  else if node_class = JStr ''Assertion'' \<and> \<not> is_url E embedded_node_id then
                    finish
                      ((if is_urn_uuid embedded then []
                        else [message_action
                                (''ID format for '' @ embedded @ '' at '' @ abv place
                                 @ '' not in an expected HTTP or URN:UUID scheme'') ''INFO'' True])
                       @ [add_node embedded_node_id (JDict value),
                          patch_node node_id [(prop, embedded_node_id)]])
                  else
                    finish
                      (patch_node node_id [(prop, embedded_node_id)]
                       # (if \<not> node_match_exists state embedded_node_id
                             \<and> filter_tasks state
                                  [(''node_id'', embedded_node_id),
                                   (''task_type'', JStr ''FETCH_HTTP_NODE'')] = []
                          then [task_action (keys 0) ''FETCH_HTTP_NODE'' [(''url'', embedded_node_id)]]
                          else [])))
            | _ \<Rightarrow>
                task_result False
                  (''Embedded JSON object at '' @ abv place @ '' has no proper assigned id.'') [])
       | _ \<Rightarrow>
           task_result False
             (''Property '' @ prop @ '' referenced from '' @ abv_node node_id JNull
              @ '' is not a JSON object or string as expected'') []))"

end
