(* ===== verification/Verifier_Upgrades.thy ===== *)
theory Verifier_Upgrades
  imports Verifier_Intake
begin

text \<open>
  Upgrading nodes of older versions (openbadges/verifier/tasks/object\_upgrades.py).  A dictionary
  the tasks change in place is threaded through.  \<open>upgrade_datetime\<close> tries three readings of a
  date in turn; what each of them computes (floats, aniso8601, \<open>strptime\<close>) is an argument.
\<close>

definition OPENBADGES_CONTEXT_V1_URI :: string where
  "OPENBADGES_CONTEXT_V1_URI = ''https://w3id.org/openbadges/v1''"

record dates =
  from_timestamp :: "json \<Rightarrow> string res"
  iso_with_utc :: "json \<Rightarrow> string res"
  from_day :: "json \<Rightarrow> string res"

definition upgrade_datetime :: "dates \<Rightarrow> json \<Rightarrow> string res" where
  "upgrade_datetime T t =
     catchR (from_timestamp T t) (\<lambda>e.
       if e \<in> {TypeError, ValueError} then
         catchR (iso_with_utc T t) (\<lambda>e'. if e' \<in> {ValueError, TypeError} then from_day T t else Inl e')
       else Inl e)"

section \<open>From 1.1 to 2.0\<close>

text \<open>One field: \<open>None\<close> in the result of the reading stands for the message on a \<open>TypeError\<close>.\<close>

definition upgraded_field :: "dates \<Rightarrow> string \<Rightarrow> json \<Rightarrow> pydict \<Rightarrow> pydict option res" where
  "upgraded_field T k value patch =
     (case upgrade_datetime T value of
        Inr text \<Rightarrow> Inr (Some (dset k (JStr text) patch))
      | Inl e \<Rightarrow> if e = TypeError then Inr None else Inl e)"

definition bad_datetime :: "json \<Rightarrow> outcome res" where
  "bad_datetime v = task_result False (''Could not interpret datetime '' @ py_str v) []"

text \<open>\<open>alignment\_node[new] = alignment\_node.pop(old)\<close> where only the old term has a value.\<close>

definition rename_term :: "string \<times> string \<Rightarrow> bool \<times> pydict \<Rightarrow> bool \<times> pydict" where
  "rename_term p st =
     (let (term, new_term) = p; (changed, node) = st in
      if truthy (dget node term) \<and> \<not> truthy (dget node new_term)
      then (True, dset new_term (dget node term) (ddel term node))
      else (changed, node))"

definition alignment_terms :: "(string \<times> string) list" where
  "alignment_terms =
     [(''url'', ''targetUrl''), (''name'', ''targetName''), (''description'', ''targetDescription'')]"

definition upgrade_alignment :: "pydict \<Rightarrow> bool \<times> pydict" where
  "upgrade_alignment item = fold rename_term alignment_terms (False, item)"

text \<open>
  The flag \<open>alignment\_fixed\<close> is reset for each item, so only the last item decides whether the
  patch is applied.
\<close>

definition upgrade_alignments :: "json list \<Rightarrow> (bool \<times> pydict) list res" where
  "upgrade_alignments items = mapR (\<lambda>item. bindR (as_dict item) (\<lambda>d. Inr (upgrade_alignment d))) items"

definition upgrade_1_1_actions ::
  "ext \<Rightarrow> dates \<Rightarrow> json \<Rightarrow> json \<Rightarrow> pydict \<Rightarrow> (json + pydict list) res" where
  "upgrade_1_1_actions E T node_id expected_class data =
     (if expected_class = JStr ''Assertion'' \<or> dget data ''recipient'' \<noteq> JNull then
        let issued_on = dget data ''issuedOn''; expires = dget data ''expires'' in
        bindR (if \<not> validate_datetime E issued_on \<and> issued_on \<noteq> JNull
               then upgraded_field T ''issuedOn'' issued_on [] else Inr (Some [])) (\<lambda>issued.
          case issued of
            None \<Rightarrow> Inr (Inl issued_on)
          | Some patch \<Rightarrow>
              bindR (if truthy expires \<and> \<not> validate_datetime E expires
                     then upgraded_field T ''expires'' expires patch else Inr (Some patch)) (\<lambda>both.
                case both of
                  None \<Rightarrow> Inr (Inl expires)
                | Some patch' \<Rightarrow> Inr (Inr (if patch' \<noteq> [] then [patch_node node_id patch'] else []))))
      else if (expected_class = JStr ''BadgeClass'' \<or> dget data ''criteria'' \<noteq> JNull)
              \<and> truthy (dget data ''alignment'') then
        bindR (upgrade_alignments (list_of (dget data ''alignment''))) (\<lambda>items.
          Inr (Inr (if fst (last items)
                    then [patch_node node_id [(''alignment'', JList (map (JDict \<circ> snd) items))]]
                    else [])))
      else Inr (Inr []))"

definition upgrade_1_1_node :: "ext \<Rightarrow> dates \<Rightarrow> task_fun" where
  "upgrade_1_1_node E T state task_meta =
     (let node_id = dget task_meta ''node_id'' in
      bindR (catchR (get_node_by_id state node_id)
               (\<lambda>e. if e = IndexError then Inl TaskPrerequisitesError else Inl e)) (\<lambda>data.
      bindR (upgrade_1_1_actions E T node_id (dget task_meta ''expected_class'') data) (\<lambda>r.
        case r of
          Inl v \<Rightarrow> bad_datetime v
        | Inr actions \<Rightarrow>
            task_result True
              (''Node '' @ py_str node_id
               @ (if actions \<noteq> [] then '' upgraded from v1.1 to 2.0''
                  else '' needed no content upgrades from v1.1 to 2.0''))
              actions)))"

section \<open>From 1.0 and 0.5 to 1.1\<close>

text \<open>The two tasks an upgraded text is handed to.\<close>

definition upgrade_follow_up ::
  "web \<Rightarrow> (nat \<Rightarrow> string) \<Rightarrow> pydict \<Rightarrow> json \<Rightarrow> json \<Rightarrow> pydict \<Rightarrow> pydict list" where
  "upgrade_follow_up W keys task_meta node_id expected_class data =
     (let compact_action =
            task_action (keys 0) ''JSONLD_COMPACT_DATA''
              [(''node_id'', node_id), (''expected_class'', expected_class),
               (''data'', JStr (json_dumps W (JDict data))),
               (''source_node_path'', dget task_meta ''source_node_path'')]
      in [compact_action,
          task_action (keys 1) ''UPGRADE_1_1_NODE''
            [(''node_id'', node_id), (''expected_class'', expected_class),
             (''prerequisites'', JList [dget compact_action ''task_key''])]])"

definition load_old_node :: "web \<Rightarrow> pydict \<Rightarrow> json res" where
  "load_old_node W task_meta =
     catchR (bindR (dindex task_meta ''data'') (json_loads W))
       (\<lambda>e. if e \<in> {KeyError, TypeError, ValueError} then Inl TaskPrerequisitesError else Inl e)"

text \<open>The id of an assertion that carries none, from its verification object.\<close>

definition assertion_1_0_id :: "pydict \<Rightarrow> json \<Rightarrow> json res" where
  "assertion_1_0_id data node_id =
     (if dget data ''id'' = JNull \<and> node_id = JNull then
        bindR (as_dict (dget_default data ''verify'' (JDict []))) (\<lambda>verify.
          let verification_type = dget verify ''type'' in
          if verification_type = JStr ''hosted'' then Inr (dget verify ''url'')
          else if verification_type = JStr ''signed'' \<and> dget data ''uid'' \<noteq> JNull
          then Inr (JStr (''uid:'' @ py_str (dget data ''uid'')))
          else Inr node_id)
      else Inr node_id)"

definition missing_1_0_id :: "string \<Rightarrow> outcome res" where
  "missing_1_0_id what =
     task_result False (''Could not determine 'id' for '' @ what @ '' to upgrade to v1.1+'') []"

text \<open>What the other classes do with the id: a node id replaces the one in the data.\<close>

definition with_node_id :: "json \<Rightarrow> string \<Rightarrow> pydict \<Rightarrow> pydict option" where
  "with_node_id node_id class_name data =
     (if dget data ''id'' = JNull \<and> node_id = JNull then None
      else Some (dset ''type'' (JStr class_name)
                   (if node_id \<noteq> JNull then dset ''id'' node_id data else data)))"

definition upgrade_1_0_node :: "web \<Rightarrow> (nat \<Rightarrow> string) \<Rightarrow> task_fun" where
  "upgrade_1_0_node W keys state task_meta =
     bindR (load_old_node W task_meta) (\<lambda>loaded.
     let node_id = dget task_meta ''node_id''; expected_class = dget task_meta ''expected_class'';
         finish = (\<lambda>node_id expected_class data.
           task_result True (''Upgraded node '' @ py_str node_id @ '' to 1.1'')
             (upgrade_follow_up W keys task_meta node_id expected_class
                (dset ''@context'' (JStr OPENBADGES_CONTEXT_V1_URI) data)));
         other = (\<lambda>class_name what data.
           case with_node_id node_id class_name data of
             None \<Rightarrow> missing_1_0_id what
           | Some data' \<Rightarrow> finish node_id (JStr class_name) data')
     in
     bindR (as_dict loaded) (\<lambda>data.
       if expected_class = JStr ''Assertion'' \<or> dget data ''recipient'' \<noteq> JNull then
         bindR (assertion_1_0_id data node_id) (\<lambda>node_id'.
           if truthy node_id'
           then finish node_id' (JStr ''Assertion'')
                  (dset ''type'' (JStr ''Assertion'') (dset ''id'' node_id' data))
           else missing_1_0_id ''Assertion data'')
       else if expected_class = JStr ''BadgeClass'' \<or> dget data ''criteria'' \<noteq> JNull
       then other ''BadgeClass'' ''BadgeClass'' data
       else if expected_class \<in> {JStr ''Issuer'', JStr ''Profile''} \<or> dget data ''url'' \<noteq> JNull
       then other ''Issuer'' ''Issuer'' data
       else finish node_id expected_class data))"

text \<open>The steps of the oldest format, in the order of the source.\<close>

definition rename_issued_on :: "pydict \<Rightarrow> pydict" where
  "rename_issued_on data =
     (if dget data ''issued_on'' \<noteq> JNull \<and> dget data ''issuedOn'' = JNull
      then dset ''issuedOn'' (dget data ''issued_on'') (ddel ''issued_on'' data) else data)"

definition upgrade_recipient :: "pydict \<Rightarrow> pydict" where
  "upgrade_recipient data =
     (case dget data ''recipient'' of
        JStr recipient \<Rightarrow>
          if recipient = [] then data
          else
            let plain = [(''identity'', JStr recipient), (''type'', JStr ''email''),
                         (''hashed'', JBool (CHR ''@'' \<notin> set recipient))];
                salted = truthy (dget data ''salt'');
                recipient_data = (if salted then dset ''salt'' (dget data ''salt'') plain else plain);
                data' = (if salted then ddel ''salt'' data else data)
            in dset ''verify'' (JDict [(''type'', JStr ''HostedBadge'')])
                 (dset ''recipient'' (JDict recipient_data) data')
      | _ \<Rightarrow> data)"

text \<open>\<open>data['badge']['type'] = ...\<close>: only a dictionary takes the assignment.\<close>

definition type_badge :: "json \<Rightarrow> pydict \<Rightarrow> pydict res" where
  "type_badge expected_class data =
     (if expected_class = JStr ''Assertion'' \<or> truthy (dget data ''badge'') then
        bindR (dindex data ''badge'') (\<lambda>badge.
          case badge of
            JDict b \<Rightarrow> Inr (dset ''badge'' (JDict (dset ''type'' (JStr ''BadgeClass'') b)) data)
          | _ \<Rightarrow> Inl TypeError)
      else Inr data)"

definition issuer_terms :: "(string \<times> string) list" where
  "issuer_terms = [(''contact'', ''email''), (''origin'', ''url'')]"

definition name_with_org :: "pydict \<Rightarrow> pydict" where
  "name_with_org issuer =
     (if truthy (dget issuer ''name'') \<and> truthy (dget issuer ''org'')
      then dset ''name'' (JStr (py_str (dget issuer ''name'') @ '': '' @ py_str (dget issuer ''org'')))
             (ddel ''org'' issuer)
      else issuer)"

definition upgrade_issuer :: "pydict \<Rightarrow> pydict res" where
  "upgrade_issuer data =
     bindR (as_dict (dget_default data ''badge'' (JDict []))) (\<lambda>badge.
       if truthy (dget badge ''issuer'') then
         bindR (if is_list (dget badge ''issuer'') then Inl TypeError
                else as_dict (dget badge ''issuer'')) (\<lambda>i.
           let issuer = dset ''type'' (JStr ''Profile'') i;
               renamed = snd (fold rename_term issuer_terms (False, issuer))
           in Inr (dset ''badge'' (JDict (dset ''issuer'' (JDict (name_with_org renamed)) badge)) data))
       else Inr data)"

definition upgrade_0_5_node :: "web \<Rightarrow> (nat \<Rightarrow> string) \<Rightarrow> task_fun" where
  "upgrade_0_5_node W keys state task_meta =
     bindR (load_old_node W task_meta) (\<lambda>loaded.
     let node_id = dget task_meta ''node_id'';
         expected_class = (if dget task_meta ''expected_class'' = JNull then JStr ''Assertion''
                           else dget task_meta ''expected_class'')
     in
     case loaded of
       JDict data0 \<Rightarrow>
         let data1 = dset ''@context'' (JStr OPENBADGES_CONTEXT_V1_URI)
                       (dset ''type'' expected_class data0) in
         if dget data1 ''id'' = JNull \<and> node_id = JNull
         then task_result False ''Could not determine 'id' for data'' []
         else
           let data2 = (if dget data1 ''id'' = JNull then dset ''id'' node_id data1 else data1) in
           bindR (type_badge expected_class (upgrade_recipient (rename_issued_on data2))) (\<lambda>data3.
           bindR (upgrade_issuer data3) (\<lambda>data4.
             task_result True (''Upgraded node '' @ abv_node node_id JNull @ '' from 0.5 to 1.1'')
               (upgrade_follow_up W keys task_meta node_id expected_class data4)))
     | _ \<Rightarrow> Inl TypeError)"

end
