(* ===== verification/Verifier_Resources.thy ===== *)
theory Verifier_Resources
  imports Verifier_Intake
begin

text \<open>
  Images (openbadges/verifier/tasks/images.py) and extensions (tasks/extensions.py).  The record
  \<open>ext_lib\<close> holds the calls of the extension checks: fetching JSON through the document loader's
  session, compacting into another context, expanding the terms of a comparison, and jsonschema
  (\<open>Inr None\<close> for a valid instance, \<open>Inr (Some msg)\<close> for a \<open>ValidationError\<close>).
\<close>

section \<open>Images\<close>

text \<open>
  What a data URI declares between \<open>data:\<close> and the comma, less a final \<open>base64\<close> that the pattern
  takes for the encoding.  The match fails where \<open>.*\<close> meets a line feed or the URI does not begin
  with a lower-case \<open>data:\<close>.
\<close>

definition declared_mimetypes :: "string \<Rightarrow> string option" where
  "declared_mimetypes url =
     (let head = takeWhile (\<lambda>c. c \<noteq> CHR '','') (drop 5 url);
          rest = drop (5 + length head) url in
      if startswith url ''data:'' \<and> rest \<noteq> []
         \<and> CHR 0x0A \<notin> set (drop_final_newline (tl rest))
      then Some (if endswith head ''base64'' then take (length head - 6) head else head)
      else None)"

definition has_image_mimetype :: "string \<Rightarrow> bool" where
  "has_image_mimetype m \<longleftrightarrow> contains_str m ''image/png'' \<or> contains_str m ''image/svg+xml''"

text \<open>\<open>state.get('input', \{\}).get('original\_json', \{\}).get(url)\<close>.\<close>

definition stored_original :: "vstate \<Rightarrow> json \<Rightarrow> json res" where
  "stored_original state url =
     bindR (as_dict (dget_default (v_input state) ''original_json'' (JDict []))) (\<lambda>d.
       case url of
         JStr k \<Rightarrow> Inr (dget d k)
       | JList _ \<Rightarrow> Inl TypeError
       | JDict _ \<Rightarrow> Inl TypeError
       | _ \<Rightarrow> Inr JNull)"

text \<open>
  \<open>image\_node\<close> is the node and its path: an id replaces the path.  The body is written into the
  data URI as Python prints a \<open>bytes\<close> object.  Only a \<open>ConnectionError\<close> of requests and a missing
  content type are reported as a failed fetch.
\<close>

definition image_node :: "vstate \<Rightarrow> pydict \<Rightarrow> (json \<times> pydict) res" where
  "image_node state task_meta =
     (let node_id = dget task_meta ''node_id'' in
      bindR
        (catchR (lookup_node state task_meta)
           (\<lambda>e. if e \<in> {IndexError, TypeError, KeyError} then Inl TaskPrerequisitesError else Inl e))
        (\<lambda>v. bindR (as_dict v) (\<lambda>node.
           Inr (if truthy node_id then JList [node_id] else dget task_meta ''node_path'', node))))"

definition fetch_image :: "web \<Rightarrow> string \<Rightarrow> json \<Rightarrow> outcome res" where
  "fetch_image W place url =
     (let failed = task_result False (''Could not fetch image at '' @ py_str url) [] in
      case http_get W url of
        Inl e \<Rightarrow> if e = OtherError ''ConnectionError'' \<or> e = KeyError then failed else Inl e
      | Inr result \<Rightarrow>
          (case resp_content_type result of
             None \<Rightarrow> failed
           | Some content_type \<Rightarrow>
               task_result True (''Validated image for node '' @ place)
                 [store_original_resource url
                    (JStr (''data:'' @ content_type @ '';base64,''
                           @ py_str (JBytes (resp_base64 result))))]))"

definition validate_image :: "ext \<Rightarrow> web \<Rightarrow> task_fun" where
  "validate_image E W state task_meta =
     bindR (image_node state task_meta) (\<lambda>(node_path, node).
       let place = abv_node (dget task_meta ''node_id'') node_path;
           required = truthy (dget_default task_meta ''required'' (JBool False));
           validated = task_result True (''Validated image for node '' @ place) [] in
       bindR (expect_str (dget_default task_meta ''prop_name'' (JStr ''image''))) (\<lambda>prop_name.
       let image_val = dget node prop_name in
       if image_val = JNull then
         task_result (\<not> required) (''Could not load and validate image in node '' @ place) []
       else if is_list image_val then task_result False ''many images not allowed'' []
       else
         bindR (case image_val of JStr s \<Rightarrow> Inr image_val | JDict d \<Rightarrow> Inr (dget d ''id'')
                | _ \<Rightarrow> Inl TypeError) (\<lambda>url.
           if is_data_uri E url then
             (if dget_default task_meta ''allow_data_uri'' (JBool False) = JBool False then
                task_result False (''Image in node '' @ place @ '' may not be a data URI.'') []
              else
                bindR (expect_str url) (\<lambda>u.
                  case declared_mimetypes u of
                    Some m \<Rightarrow>
                      if has_image_mimetype m then validated
                      else task_result False
                        (''Data URI image does not declare any of the allowed PNG or SVG mime types in ''
                         @ place) []
                  | None \<Rightarrow>
                      task_result False
                        (''Data URI image does not declare any of the allowed PNG or SVG mime types in ''
                         @ place) []))
           else if truthy url then
             bindR (stored_original state url) (\<lambda>existing_file.
               if truthy existing_file then
                 task_result True
                   (''Image resource already stored for url '' @ abbreviate_value 48 url) []
               else fetch_image W place url)
           else validated)))"

section \<open>Extensions\<close>

record ext_lib =
  session_json :: "json \<Rightarrow> json res"
  compact_into :: "json \<Rightarrow> json \<Rightarrow> json res"
  schema_error :: "json \<Rightarrow> json \<Rightarrow> string option res"

text \<open>
  \<open>combine\_contexts\<close>: a dictionary stands for its own \<open>@context\<close> where it has one.  For a value of
  another kind the source returns \<open>None\<close>, and adding that to a list raises \<open>TypeError\<close>.
\<close>

fun context_list :: "json \<Rightarrow> json list res"
and inner_context :: "(string \<times> json) list \<Rightarrow> json list res option" where
  "context_list JNull = Inr []"
| "context_list (JDict d) =
     (case inner_context d of None \<Rightarrow> Inr [JDict d] | Some r \<Rightarrow> r)"
| "context_list (JStr s) = Inr [JStr s]"
| "context_list (JList xs) = Inr xs"
| "context_list v = Inl TypeError"
| "inner_context [] = None"
| "inner_context ((k, v) # d) = (if k = ''@context'' then Some (context_list v) else inner_context d)"

definition combine_contexts :: "json list \<Rightarrow> json list res" where
  "combine_contexts args = bindR (mapR context_list args) (\<lambda>cs. Inr (concat cs))"

definition is_ld_term_in_list :: "ext \<Rightarrow> json \<Rightarrow> json list \<Rightarrow> bool res" where
  "is_ld_term_in_list E term search_list =
     (let first_types = (\<lambda>d k.
            bindR (subscript d k) (\<lambda>v. bindR (sequence_of v) (\<lambda>vs. bindR (list_at vs 0) (\<lambda>n.
            subscript n ''@type'')))) in
      bindR (jsonld_expand E
               (JDict [(''@context'', JStr OPENBADGES_CONTEXT_V2_URI),
                       (''_:term'', JDict [(''@type'', term)]),
                       (''_:list'', JDict [(''@type'', JList search_list)])])) (\<lambda>result.
      bindR (sequence_of result) (\<lambda>results.
      bindR (list_at results 0) (\<lambda>d.
      bindR (first_types d ''_:term'') (\<lambda>terms.
      bindR (sequence_of terms) (\<lambda>ts.
      bindR (list_at ts 0) (\<lambda>t.
      bindR (first_types d ''_:list'') (\<lambda>found. py_in t found))))))))"

definition validate_single_extension :: "web \<Rightarrow> ext_lib \<Rightarrow> task_fun" where
  "validate_single_extension W X state task_meta =
     bindR
       (catchR
          (bindR (dindex task_meta ''extension'') (\<lambda>extension.
           bindR (lookup_node state task_meta) (\<lambda>found.
           bindR (if truthy found then Inr found
                  else bindR (dindex task_meta ''node_json'') (json_loads W)) (\<lambda>node.
             Inr (extension, node)))))
          (\<lambda>e. if e \<in> {IndexError, TypeError, KeyError} then Inl TaskPrerequisitesError else Inl e))
       (\<lambda>(extension, node).
     let node_id_string = abv_node (dget task_meta ''node_id'') (dget task_meta ''node_path'') in
     bindR (subscript extension ''context_json'') (\<lambda>context.
     bindR (subscript extension ''validates_type'') (\<lambda>extension_type.
     bindR (subscript extension ''validation_schema'') (\<lambda>schema.
     bindR (if is_list node then Inl TypeError else as_dict node) (\<lambda>node_data.
     bindR (combine_contexts [JStr OPENBADGES_CONTEXT_V2_URI, context]) (\<lambda>contexts.
     bindR (compact_into X
              (JDict (dset ''@context'' (JStr OPENBADGES_CONTEXT_V2_URI) node_data))
              (JDict [(''@context'', JList contexts)])) (\<lambda>compact_data.
     bindR (schema_error X compact_data schema) (\<lambda>failure.
       case failure of
         Some msg \<Rightarrow>
           task_result False
             (''Extension '' @ py_str extension_type @ '' did not validate on node ''
              @ node_id_string @ '': '' @ msg) []
       | None \<Rightarrow>
           task_result True
             (''Extension '' @ py_str extension_type @ '' validated on node '' @ node_id_string)
             []))))))))"

text \<open>
  The entries of one context that validate one of the node's types; \<open>Inr (Inl msg)\<close> is the early
  return where a schema cannot be loaded.
\<close>

fun matching_validations ::
  "ext \<Rightarrow> ext_lib \<Rightarrow> json \<Rightarrow> json \<Rightarrow> json list \<Rightarrow> json list \<Rightarrow> (string + json list) res" where
  "matching_validations E X context_url context_json node_types [] = Inr (Inr [])"
| "matching_validations E X context_url context_json node_types (entry # entries) =
     bindR (as_dict entry) (\<lambda>val_entry.
     bindR (is_ld_term_in_list E (dget val_entry ''validatesType'') node_types) (\<lambda>matches.
       let others = matching_validations E X context_url context_json node_types entries in
       if \<not> matches then others
       else
         bindR (dindex val_entry ''validationSchema'') (\<lambda>schema_url.
           case session_json X schema_url of
             Inl e \<Rightarrow>
               if e = TypeError then Inr (Inl (''Could not load JSON-schema from URL '' @ abv schema_url))
               else Inl e
           | Inr schema_json \<Rightarrow>
               bindR (dindex val_entry ''validatesType'') (\<lambda>validates_type.
               bindR others (\<lambda>rest.
                 case rest of
                   Inl msg \<Rightarrow> Inr (Inl msg)
                 | Inr tests \<Rightarrow>
                     Inr (Inr (JDict [(''context_url'', context_url), (''context_json'', context_json),
                                      (''validates_type'', validates_type),
                                      (''validation_schema'', schema_json)] # tests)))))))"

fun extensions_to_test ::
  "ext \<Rightarrow> ext_lib \<Rightarrow> json list \<Rightarrow> json list \<Rightarrow> (string + json list) res" where
  "extensions_to_test E X node_types [] = Inr (Inr [])"
| "extensions_to_test E X node_types (context_url # urls) =
     (if context_url = JStr OPENBADGES_CONTEXT_V2_URI then extensions_to_test E X node_types urls
      else
        case session_json X context_url of
          Inl e \<Rightarrow> if e = TypeError then extensions_to_test E X node_types urls else Inl e
        | Inr context_json \<Rightarrow>
            bindR (jsonld_compact E context_json) (\<lambda>compacted.
            bindR (as_dict compacted) (\<lambda>context_compact.
            bindR (matching_validations E X context_url context_json node_types
                     (list_of (dget context_compact ''validation''))) (\<lambda>here.
              case here of
                Inl msg \<Rightarrow> Inr (Inl msg)
              | Inr tests \<Rightarrow>
                  bindR (extensions_to_test E X node_types urls) (\<lambda>rest.
                    case rest of
                      Inl msg \<Rightarrow> Inr (Inl msg)
                    | Inr later \<Rightarrow> Inr (Inr (tests @ later)))))))"

definition single_extension_task :: "string \<Rightarrow> pydict \<Rightarrow> json \<Rightarrow> pydict" where
  "single_extension_task key task_meta extension =
     task_action key ''VALIDATE_EXTENSION_SINGLE''
       [(''node_id'', dget task_meta ''node_id''), (''node_path'', dget task_meta ''node_path''),
        (''node_json'', dget task_meta ''node_json''), (''extension'', extension)]"

fun numbered :: "(nat \<Rightarrow> 'b) \<Rightarrow> nat \<Rightarrow> 'a list \<Rightarrow> ('b \<times> 'a) list" where
  "numbered f i [] = []"
| "numbered f i (x # xs) = (f i, x) # numbered f (Suc i) xs"

definition validate_extension_node ::
  "ext \<Rightarrow> web \<Rightarrow> ext_lib \<Rightarrow> (nat \<Rightarrow> string) \<Rightarrow> task_fun" where
  "validate_extension_node E W X keys state task_meta =
     (let declared = list_of (dget_default task_meta ''types_to_test'' (JList [])) in
      bindR
        (catchR (lookup_node state task_meta)
           (\<lambda>e. if e \<in> {KeyError, ValueError, IndexError, TypeError} then Inl TaskPrerequisitesError
                else Inl e)) (\<lambda>node.
      if \<not> truthy (dget task_meta ''context_urls'') then
        task_result False ''Could not determine extension type to test: no contexts defined'' []
      else
        bindR (if declared \<noteq> [] then Inr declared
               else bindR (subscript node ''type'') (\<lambda>t. bindR (sequence_of t) (\<lambda>ts.
                      Inr (filter (\<lambda>t. t \<noteq> JStr ''Extension'') ts)))) (\<lambda>node_types.
        bindR (sequence_of (dget task_meta ''context_urls'')) (\<lambda>context_urls.
        bindR (extensions_to_test E X node_types context_urls) (\<lambda>found.
          case found of
            Inl msg \<Rightarrow> task_result False msg []
          | Inr [] \<Rightarrow> task_result False ''Could not determine extension type to test'' []
          | Inr [extension] \<Rightarrow>
              validate_single_extension W X state
                (single_extension_task (keys 0) task_meta extension)
          | Inr tests \<Rightarrow>
              bindR (mapR (\<lambda>e. subscript e ''validates_type'') tests) (\<lambda>types.
                task_result True
                  (''Multiple extension types '' @ abv (JList types) @ '' discovered in node ''
                   @ abv_node (dget task_meta ''node_id'') (dget task_meta ''node_path''))
                  (map (\<lambda>(key, e). single_extension_task key task_meta e)
                     (numbered keys 0 tests))))))))"

end
