(* ===== verification/Verifier_Tasks.thy ===== *)
theory Verifier_Tasks
  imports Verifier_Trust Verifier_Upgrades Verifier_Resources
begin

text \<open>
  The table of task functions (openbadges/verifier/tasks/\_\_init\_\_.py), the two entry points
  \<open>verify\<close> and \<open>validate\_extensions\<close> of verifier.py over it, and the proof that every function
  keeps the contract the engine relies on.
\<close>

section \<open>The environment and the table\<close>

text \<open>
  Everything outside the repository a run can meet: the packages, and what changes from step to
  step (\<open>env_keys n\<close> are the random task keys drawn in step \<open>n\<close>, \<open>env_uuid n\<close> a random node name,
  \<open>env_now n\<close> the clock).
\<close>

record env =
  env_packages :: ext
  env_web :: web
  env_dates :: dates
  env_extensions :: ext_lib
  env_digests :: digests
  env_signing :: signing
  env_keys :: "nat \<Rightarrow> nat \<Rightarrow> string"
  env_uuid :: "nat \<Rightarrow> string"
  env_now :: "nat \<Rightarrow> int"
  env_exn_text :: "py_exn \<Rightarrow> string"

definition FUNCTIONS :: "env \<Rightarrow> task_table" where
  "FUNCTIONS V n =
     (let E = env_packages V; W = env_web V; keys = env_keys V n in
      map_of
        [(''ASSERTION_TIMESTAMP_CHECKS'', assertion_timestamp_checks E (env_now V n)),
         (''ASSERTION_VERIFICATION_CHECK'', placeholder_task),
         (''ASSERTION_VERIFICATION_DEPENDENCIES'', assertion_verification_dependencies keys),
         (''DETECT_AND_VALIDATE_NODE_CLASS'', detect_and_validate_node_class keys),
         (''DETECT_INPUT_TYPE'', detect_input_type E W keys),
         (''CRITERIA_PROPERTY_DEPENDENCIES'', criteria_property_dependencies),
         (''FETCH_HTTP_NODE'', fetch_http_node W keys),
         (''FLATTEN_EMBEDDED_RESOURCE'', flatten_refetch_embedded_resource E keys (env_uuid V n)),
         (''HOSTED_ID_IN_VERIFICATION_SCOPE'', hosted_id_in_verification_scope E),
         (''JSONLD_COMPACT_DATA'', jsonld_compact_data E W keys),
         (''IDENTITY_OBJECT_PROPERTY_DEPENDENCIES'', identity_object_property_dependencies),
         (''INTAKE_JSON'', intake_json W (env_exn_text V TypeError) keys),
         (''ISSUER_PROPERTY_DEPENDENCIES'', issuer_property_dependencies),
         (''PROCESS_BAKED_RESOURCE'', process_baked_resource W keys),
         (''PROCESS_JWS_INPUT'', process_jws_input (env_signing V) keys),
         (''UPGRADE_0_5_NODE'', upgrade_0_5_node W keys),
         (''UPGRADE_1_0_NODE'', upgrade_1_0_node W keys),
         (''UPGRADE_1_1_NODE'', upgrade_1_1_node E (env_dates V)),
         (''VALIDATE_EXPECTED_NODE_CLASS'', validate_expected_node_class keys),
         (''VALIDATE_EXTENSION_NODE'', validate_extension_node E W (env_extensions V) keys),
         (''VALIDATE_EXTENSION_SINGLE'', validate_single_extension W (env_extensions V)),
         (''IMAGE_VALIDATION'', validate_image E W),
         (''VALIDATE_RDF_TYPE_PROPERTY'', validate_rdf_type_property E keys),
         (''VALIDATE_PROPERTY'', validate_property E keys),
         (''VALIDATE_REVOCATIONLIST_ENTRIES'', validate_revocationlist_entries E),
         (''VERIFY_JWS'', verify_jws_signature (env_signing V) keys),
         (''VERIFY_KEY_OWNERSHIP'', verify_key_ownership keys),
         (''VERIFY_RECIPIENT_IDENTIFIER'', verify_recipient_against_trusted_profile (env_digests V)),
         (''VERIFY_SIGNED_ASSERTION_NOT_REVOKED'', verify_signed_assertion_not_revoked)])"

text \<open>Only compacting draws a blank node number of its own.\<close>

definition task_draws :: "env \<Rightarrow> draw_count" where
  "task_draws V state task_meta =
     (if dget task_meta ''name'' = JStr ''JSONLD_COMPACT_DATA''
      then compact_draws (env_packages V) (env_web V) state task_meta else 0)"

section \<open>The entry points (verifier.py)\<close>

text \<open>
  \<open>verify\<close>: the report, or the exception that left the loop.  The keys of the first two tasks are
  those of \<open>first_keys\<close>.
\<close>

datatype verdict = Report pydict | Raised py_exn | NoResult

definition verdict_of :: "bool \<Rightarrow> run_result \<Rightarrow> verdict" where
  "verdict_of include_original_json r =
     (case r of
        Finished s \<Rightarrow> Report (generate_report include_original_json s)
      | Crashed e \<Rightarrow> Raised e
      | OutOfFuel \<Rightarrow> NoResult)"

definition verify ::
  "nat \<Rightarrow> env \<Rightarrow> (nat \<Rightarrow> string) \<Rightarrow> bool \<Rightarrow> badge_input \<Rightarrow> pydict \<Rightarrow> verdict" where
  "verify fuel V first_keys include_original_json inp recipient_profile =
     verdict_of include_original_json
       (verification_store fuel (FUNCTIONS V) (task_draws V) (env_exn_text V)
          (json_dumps (env_web V)) first_keys (env_exn_text V ValueError) inp recipient_profile)"

text \<open>The loop of \<open>extension\_validation\_store\<close> has no check for a repeated task.\<close>

fun run_all_tasks ::
  "nat \<Rightarrow> task_table \<Rightarrow> draw_count \<Rightarrow> (py_exn \<Rightarrow> string) \<Rightarrow> nat \<Rightarrow> vstate \<Rightarrow> run_result" where
  "run_all_tasks 0 funcs draws exn_text n s = OutOfFuel"
| "run_all_tasks (Suc fuel) funcs draws exn_text n s =
     (case filter_active_tasks s of
        [] \<Rightarrow> Finished s
      | task_meta # _ \<Rightarrow>
          (case bindR (bindR (dindex task_meta ''name'') (task_named funcs n))
                  (\<lambda>task_func. call_task draws task_func exn_text task_meta s) of
             Inl e \<Rightarrow> Crashed e
           | Inr s' \<Rightarrow> run_all_tasks fuel funcs draws exn_text (Suc n) s'))"

definition no_extensions_text :: string where
  "no_extensions_text =
     ''No extensions were found to test. Check for proper use of context and type to declare an extension.''"

definition note_missing_extensions :: "run_result \<Rightarrow> run_result" where
  "note_missing_extensions r =
     (case r of
        Finished s \<Rightarrow>
          if list_ex (\<lambda>t. dget t ''name'' = JStr ''VALIDATE_EXTENSION_NODE'') (v_tasks s) then r
          else (case dispatch (message_action no_extensions_text ''ERROR'' False) s of
                  Inl e \<Rightarrow> Crashed e | Inr s' \<Rightarrow> Finished s')
      | _ \<Rightarrow> r)"

definition extension_validation_store ::
  "nat \<Rightarrow> env \<Rightarrow> string \<Rightarrow> json \<Rightarrow> run_result" where
  "extension_validation_store fuel V key extension_input =
     (case extension_input of
        JDict d \<Rightarrow>
          let prepared =
                dset ''id'' (dget_default d ''id'' (JStr ''_:extension_validation_input''))
                  (dset ''@context''
                     (dget_default d ''@context'' (JStr OPENBADGES_CONTEXT_V2_URI)) d);
              compact_task =
                task_action key ''JSONLD_COMPACT_DATA''
                  [(''detectAndValidateClass'', JBool False),
                   (''data'', JStr (json_dumps (env_web V) (JDict prepared)))]
          in (case foldR dispatch [store_input (JDict d), compact_task] INITIAL_STATE of
                Inl e \<Rightarrow> Crashed e
              | Inr s \<Rightarrow>
                  note_missing_extensions
                    (run_all_tasks fuel (FUNCTIONS V) (task_draws V) (env_exn_text V) 0 s))
      | _ \<Rightarrow> Crashed ValueError)"

definition validate_extensions :: "nat \<Rightarrow> env \<Rightarrow> string \<Rightarrow> bool \<Rightarrow> json \<Rightarrow> verdict" where
  "validate_extensions fuel V key include_original_json extension_input =
     verdict_of include_original_json (extension_validation_store fuel V key extension_input)"

section \<open>Every function keeps the contract\<close>

named_theorems task_good \<open>the actions of each task function are admissible\<close>

lemma prerequisites_on_Inr: "prerequisites_on X m = Inr x \<longleftrightarrow> m = Inr x"
  by (cases m) (auto simp: prerequisites_on_def)

lemma small_tasks_good [task_good]:
  "good_outcome k (placeholder_task s t)"
  "good_outcome k (issuer_property_dependencies s t)"
  "good_outcome k (criteria_property_dependencies s t)"
  "good_outcome k (identity_object_property_dependencies s t)"
  "good_outcome k (assertion_verification_dependencies keys s t)"
  "good_outcome k (assertion_timestamp_checks E now s t)"
  "good_outcome k (validate_revocationlist_entries E s t)"
  unfolding placeholder_task_def issuer_property_dependencies_def
    criteria_property_dependencies_def identity_object_property_dependencies_def
    assertion_verification_dependencies_def assertion_timestamp_checks_def
    validate_revocationlist_entries_def Let_def
  by (intro good_intros, simp_all add: admissible)+

lemma id_value_actions_good:
  "id_value_actions E key s t p v = Inr as \<Longrightarrow> good_actions k as"
  unfolding id_value_actions_def Let_def
  by (auto simp: admissible bindR_Inr_iff split: if_split_asm)

lemma id_values_actions_good:
  "id_values_actions E keys s t many i vs = Inr as \<Longrightarrow> good_actions k as"
  by (induction vs arbitrary: i as) (auto simp: bindR_Inr_iff intro: id_value_actions_good)

lemma validate_property_good [task_good]: "good_outcome k (validate_property E keys s t)"
proof -
  have acts: "good_actions k as"
    if "(if c then bindR m (\<lambda>_::unit. Inr []) else id_values_actions E keys s t b 0 vs) = Inr as"
    for c m b vs as
    using that by (auto simp: bindR_Inr_iff intro: id_values_actions_good split: if_splits)
  show ?thesis
    unfolding validate_property_def Let_def
    by (intro good_intros) (auto intro: acts good_intros split: py_exn.split)
qed

lemma rdf_type_good [task_good]: "good_outcome k (validate_rdf_type_property E keys s t)"
proof -
  have "good_outcome k (Inr out)" if "validate_property E keys s t = Inr out" for out
    using that validate_property_good [of k E keys s t] by simp
  then show ?thesis
    unfolding validate_rdf_type_property_def Let_def
    by (intro good_intros) (auto simp: admissible)
qed

lemma node_class_good [task_good]:
  "good_outcome k (detect_and_validate_node_class keys s t)"
  "good_outcome k (validate_expected_node_class keys s t)"
proof -
  show "good_outcome k (detect_and_validate_node_class keys s t)"
    unfolding detect_and_validate_node_class_def Let_def
    by (intro good_intros)
      (auto simp: good_actions_def dest: get_validation_actions_admissible)
  have acts: "good_actions k as" if "actions_of_classes keys i nid np cs = Inr as" for i nid np cs as
    unfolding good_actions_def
    using actions_of_classes_in [OF that] validator_action_wf [OF class_validators_clean] by blast
  show "good_outcome k (validate_expected_node_class keys s t)"
    unfolding validate_expected_node_class_def Let_def
    by (intro good_intros)
      (auto simp: bindR_Inr_iff dest!: acts [of _ _ _ _ _] intro: good_actions_filter split: if_splits)
qed

lemma trust_tasks_good [task_good]:
  "good_outcome k (hosted_id_in_verification_scope E s t)"
  "good_outcome k (verify_recipient_against_trusted_profile H s t)"
  "good_outcome k (process_jws_input S keys s t)"
  "good_outcome k (verify_jws_signature S keys s t)"
  "good_outcome k (verify_key_ownership keys s t)"
  "good_outcome k (verify_signed_assertion_not_revoked s t)"
  unfolding hosted_id_in_verification_scope_def verify_recipient_against_trusted_profile_def
    recipient_outcome_def
    process_jws_input_def verify_jws_signature_def verify_key_ownership_def
    verify_signed_assertion_not_revoked_def Let_def
  by (intro good_intros, simp_all add: admissible)+

lemma extension_actions_good:
  "good_actions k (snd (extension_actions W keys cs i v p))"
  "good_actions k (snd (extension_entries W keys cs i d p))"
  "good_actions k (snd (extension_items W keys cs i n vs p))"
  by (induction W keys cs i v p and W keys cs i d p and W keys cs i n vs p
      rule: extension_actions_extension_entries_extension_items.induct)
    (auto simp: Let_def admissible split: prod.splits json.splits)

lemma intake_good [task_good]:
  "good_outcome k (detect_input_type E W keys s t)"
  "good_outcome k (process_baked_resource W keys s t)"
  "good_outcome k (fetch_http_node W keys s t)"
  "good_outcome k (intake_json W txt keys s t)"
  "good_outcome k (flatten_refetch_embedded_resource E keys u s t)"
  unfolding detect_input_type_def process_baked_resource_def fetch_http_node_def intake_json_def
    intake_actions_def flatten_refetch_embedded_resource_def Let_def
  by (intro good_intros, simp_all add: admissible)+

text \<open>Compacting may delete tasks, so it is not for the names of the upgrade tasks.\<close>

lemma extension_actions_good':
  "extension_actions W keys cs i v p = (n, as) \<Longrightarrow> good_actions k as"
  using extension_actions_good(1) [of k W keys cs i v p] by simp

lemma compact_good [task_good]: "good_outcome False (jsonld_compact_data E W keys s t)"
  unfolding jsonld_compact_data_def Let_def
  by (intro good_intros)
    (auto simp: admissible dset_wf_action simp del: extension_actions.simps
      intro: extension_actions_good')

lemma upgrade_1_1_actions_good:
  assumes "upgrade_1_1_actions E T i c d = Inr (Inr as)"
  shows "good_actions k as"
proof -
  define P where "P r \<longleftrightarrow> (\<forall>as. r = Inr (Inr as) \<longrightarrow> good_actions k as)"
    for r :: "(json + pydict list) res"
  have bind_items: "(\<And>x. P (f x)) \<Longrightarrow> P (bindR m f)" for f and m :: "(bool \<times> pydict) list res"
    by (auto simp: P_def bindR_Inr_iff)
  have bind_patch: "(\<And>x. P (f x)) \<Longrightarrow> P (bindR m f)" for f and m :: "pydict option res"
    by (auto simp: P_def bindR_Inr_iff)
  have option: "P r \<Longrightarrow> (\<And>y. P (g y)) \<Longrightarrow> P (case x of None \<Rightarrow> r | Some y \<Rightarrow> g y)"
    for r g and x :: "pydict option"
    by (cases x) auto
  have branch: "P r \<Longrightarrow> P q \<Longrightarrow> P (if b then r else q)" for b r q by simp
  have leaf: "P (Inr (Inl v))" "P (Inr (Inr (if b then [patch_node i e] else [])))" "P (Inr (Inr []))"
    for v b e
    by (simp_all add: P_def admissible)
  have "P (upgrade_1_1_actions E T i c d)"
    unfolding upgrade_1_1_actions_def Let_def
    by (intro bind_items bind_patch option branch leaf)
  with assms show ?thesis by (simp add: P_def)
qed

lemma upgrade_follow_up_good: "good_actions k (upgrade_follow_up W keys t i c d)"
  by (simp add: upgrade_follow_up_def Let_def admissible)

lemma upgrades_good [task_good]:
  "good_outcome k (upgrade_1_1_node E T s t)"
  "good_outcome k (upgrade_1_0_node W keys s t)"
  "good_outcome k (upgrade_0_5_node W keys s t)"
proof -
  show "good_outcome k (upgrade_1_1_node E T s t)"
    unfolding upgrade_1_1_node_def Let_def bad_datetime_def
    by (intro good_intros) (auto intro: upgrade_1_1_actions_good)
  show "good_outcome k (upgrade_1_0_node W keys s t)"
    unfolding upgrade_1_0_node_def Let_def missing_1_0_id_def
    by (intro good_intros upgrade_follow_up_good) simp_all
  show "good_outcome k (upgrade_0_5_node W keys s t)"
    unfolding upgrade_0_5_node_def Let_def
    by (intro good_intros upgrade_follow_up_good) simp_all
qed

lemma single_extension_good [task_good]: "good_outcome k (validate_single_extension W X s t)"
  unfolding validate_single_extension_def Let_def
  by (intro good_intros) simp_all

lemma single_extension_tasks_good:
  "good_actions k (map (\<lambda>(key, e). single_extension_task key t e) (numbered keys i es))"
  by (induction es arbitrary: i) (auto simp: single_extension_task_def admissible)

lemma resources_good [task_good]:
  "good_outcome k (validate_image E W s t)"
  "good_outcome k (validate_extension_node E W X keys s t)"
proof -
  show "good_outcome k (validate_image E W s t)"
    unfolding validate_image_def fetch_image_def Let_def
    by (intro good_intros) (simp_all add: admissible)
  have list: "good_outcome k (case es of [] \<Rightarrow> a | [e] \<Rightarrow> b e | e # e' # r \<Rightarrow> c e e' r)"
    if "good_outcome k a" "\<And>e. good_outcome k (b e)" "\<And>e e' r. good_outcome k (c e e' r)"
    for es :: "json list" and a b c
    using that by (auto split: list.split)
  show "good_outcome k (validate_extension_node E W X keys s t)"
    unfolding validate_extension_node_def Let_def
    by (intro good_intros list single_extension_good single_extension_tasks_good) simp_all
qed

text \<open>The contract of the engine, for the table of the code.\<close>

lemma FUNCTIONS_good: "good_table (FUNCTIONS V)"
proof -
  have "good_outcome (name \<in> set UPGRADE_TASKS) (f s t)" if "FUNCTIONS V n name = Some f"
    for n name f s t
    using that unfolding FUNCTIONS_def Let_def
    by (auto simp: UPGRADE_TASKS_def intro: task_good split: if_split_asm)
  then show ?thesis by (simp add: good_table_def good_task_iff)
qed

end
