(* ===== verification/Run_Properties.thy ===== *)
theory Run_Properties
  imports Verifier_Tasks
begin

text \<open>
  What a whole verification guarantees, for the task table of the code and any environment: how a
  run ends, that no address is fetched twice, what the report says.
\<close>

section \<open>A small run for the witnesses\<close>

text \<open>
  No package of this environment knows anything, except that \<open>\{\}\<close> is an empty JSON object and
  compacts to itself.
\<close>

definition demo_ext :: ext where
  "demo_ext =
     \<lparr>valid_uri = (\<lambda>s. startswith s ''http''), uri_scheme = (\<lambda>s. ''http''),
      uri_authority = (\<lambda>s. JStr (take 11 (drop 7 s))), jsonld_expand = (\<lambda>v. Inl ValueError),
      jsonld_compact = (\<lambda>v. Inr v), language_check = (\<lambda>s. True),
      parse_datetime = (\<lambda>v. case v of JInt i \<Rightarrow> Inr (Aware i) | _ \<Rightarrow> Inl ValueError),
      datetime_str = (\<lambda>d. ''date'')\<rparr>"

definition demo_web :: web where
  "demo_web =
     \<lparr>http_get = (\<lambda>u. Inl (OtherError ''ConnectionError'')), mime_above = (\<lambda>c t. Inr False),
      json_loads = (\<lambda>v. if v = JStr ''{}'' then Inr (JDict []) else Inl ValueError),
      json_dumps = (\<lambda>v. ''{}''), loaded_contexts = (\<lambda>v. []), open_baked = (\<lambda>s. Inr JNull)\<rparr>"

definition demo_env :: env where
  "demo_env =
     \<lparr>env_packages = demo_ext, env_web = demo_web,
      env_dates = \<lparr>from_timestamp = (\<lambda>v. Inl ValueError), iso_with_utc = (\<lambda>v. Inl ValueError),
                   from_day = (\<lambda>v. Inl ValueError)\<rparr>,
      env_extensions = \<lparr>session_json = (\<lambda>u. Inl TypeError), compact_into = (\<lambda>v c. Inr v),
                        schema_error = (\<lambda>v s. Inr None)\<rparr>,
      env_digests = \<lparr>sha256_hex = id, md5_hex = id\<rparr>,
      env_signing = \<lparr>jws_claims = (\<lambda>v. Inl ValueError), jws_verify = (\<lambda>d k. Inr None)\<rparr>,
      env_keys = (\<lambda>n i. [char_of (65 + n), char_of (65 + i)]), env_uuid = (\<lambda>n. ''uuid''),
      env_now = (\<lambda>n. 1000), env_exn_text = (\<lambda>e. ''error'')\<rparr>"

definition demo_result :: "nat \<Rightarrow> string \<Rightarrow> run_result" where
  "demo_result fuel inp =
     verification_store fuel (FUNCTIONS demo_env) (task_draws demo_env) (env_exn_text demo_env)
       (json_dumps (env_web demo_env)) (\<lambda>i. [char_of (97 + i)]) ''error'' (PlainInput (JStr inp))
       []"

definition demo_final :: "string \<Rightarrow> vstate" where
  "demo_final inp = (case demo_result 4 inp of Finished s \<Rightarrow> s | _ \<Rightarrow> INITIAL_STATE)"

lemma demo_finished:
  "demo_result 4 ''{}'' = Finished (demo_final ''{}'')"
  "demo_result 4 ''http://a.example/b'' = Finished (demo_final ''http://a.example/b'')"
  by code_simp+

section \<open>How a run ends\<close>

text \<open>
  C9: A verification that finishes has nothing left to do: no task is open with all its
  prerequisites done, so the loop's early exit (a task handed out twice in a row) never hides a
  ready task.  This holds for the task functions of the code, whatever the network and the
  packages answer.
\<close>

theorem verification_ends_quiet:
  assumes "verification_store fuel (FUNCTIONS V) draws exn_text dumps keys value_error_text inp
             profile = Finished s"
  shows "filter_active_tasks s = []"
  using verification_store_finished [OF FUNCTIONS_good assms] by simp

lemma verification_ends_quiet_witness:
  "filter_active_tasks (demo_final ''{}'') = [] \<and> length (v_tasks (demo_final ''{}'')) = 2"
  using verification_ends_quiet [OF demo_finished(1) [unfolded demo_result_def]]
  by (simp, code_simp)

text \<open>
  C15: No address is fetched twice in a verification: the \<open>FETCH\_HTTP\_NODE\<close> tasks in the final table
  have different addresses, however often nodes refer to each other.
\<close>

theorem urls_fetched_once:
  assumes "verification_store fuel (FUNCTIONS V) draws exn_text dumps keys value_error_text inp
             profile = Finished s"
  shows "distinct (fetch_urls (v_tasks s))"
  using verification_store_finished [OF FUNCTIONS_good assms] by (simp add: store_inv_def)

lemma urls_fetched_once_witness:
  "distinct (fetch_urls (v_tasks (demo_final ''http://a.example/b'')))
   \<and> fetch_urls (v_tasks (demo_final ''http://a.example/b'')) = [JStr ''http://a.example/b'']"
  using urls_fetched_once [OF demo_finished(2) [unfolded demo_result_def]]
  by (simp, code_simp)

text \<open>A store with two open tasks.\<close>

definition quiet_store :: vstate where
  "quiet_store = INITIAL_STATE\<lparr>v_tasks :=
     [[(''task_id'', JInt 1), (''name'', JStr ''ISSUER_PROPERTY_DEPENDENCIES''), (''complete'', JBool False)],
      [(''task_id'', JInt 2), (''name'', JStr ''ASSERTION_VERIFICATION_CHECK''), (''complete'', JBool False)]]\<rparr>"

section \<open>The report\<close>

text \<open>
  A report calls the input valid exactly when the graph has a node and no task that the report
  shows is an error: neither one whose level says so nor a failed one without a level.
\<close>

theorem report_valid_iff:
  "report_valid s \<longleftrightarrow>
     v_graph s \<noteq> []
     \<and> (\<forall>t \<in> set (v_tasks s).
          dget t ''success'' = JBool False \<or> dget t ''messageLevel'' = JStr ''INFO''
          \<or> dget t ''name'' = JStr ''REPORT_MESSAGE'' \<longrightarrow>
          dhas t ''messageLevel'' \<and> dget t ''messageLevel'' \<noteq> JStr ''ERROR'')"
proof -
  have level: "dget (format_message t) ''messageLevel'' = dget_default t ''messageLevel'' (JStr ''ERROR'')"
    for t
    by (simp add: format_message_def Let_def)
  have "dget_default t ''messageLevel'' (JStr ''ERROR'') \<noteq> JStr ''ERROR'' \<longleftrightarrow>
          dhas t ''messageLevel'' \<and> dget t ''messageLevel'' \<noteq> JStr ''ERROR''" for t
    by (cases "dhas t ''messageLevel''") (auto simp: dget_default_has dget_default_not_has)
  with level show ?thesis
    by (auto simp: report_valid_def count_level_def report_messages_def filter_empty_conv
        filter_messages_for_report_def is_reportable_def)
qed

lemma report_valid_iff_witness:
  "\<not> report_valid (quiet_store\<lparr>v_graph := [[(''id'', JStr ''_:b0'')]],
       v_tasks := [[(''name'', JStr ''VALIDATE_PROPERTY''), (''success'', JBool False)]]\<rparr>)
   \<and> report_valid (quiet_store\<lparr>v_graph := [[(''id'', JStr ''_:b0'')]]\<rparr>)"
  unfolding report_valid_iff by (simp add: quiet_store_def)

text \<open>
  A task that is still waiting when the run ends leaves no trace in the report: adding an
  open task that has neither failed nor a level changes neither the messages nor the verdict, though
  the formatter has a text for a task that could not execute.  So an input can be called valid while
  checks it depends on never ran.
\<close>

theorem waiting_tasks_are_not_reported:
  assumes "dget t ''success'' \<noteq> JBool False" and "dget t ''messageLevel'' = JNull"
    and "dget t ''name'' \<noteq> JStr ''REPORT_MESSAGE''"
  shows "report_messages (s\<lparr>v_tasks := ts @ t # us\<rparr>) = report_messages (s\<lparr>v_tasks := ts @ us\<rparr>)
         \<and> report_valid (s\<lparr>v_tasks := ts @ t # us\<rparr>) = report_valid (s\<lparr>v_tasks := ts @ us\<rparr>)"
  using assms
  by (simp add: report_valid_def report_messages_def filter_messages_for_report_def is_reportable_def)

lemma waiting_tasks_are_not_reported_witness:
  "report_valid (INITIAL_STATE\<lparr>v_graph := [[(''id'', JStr ''_:b0'')]],
     v_tasks := [new_task_entry 1 (task_action ''k'' ''VERIFY_JWS'' [(''prerequisites'', JList [JStr ''SIGNING_KEY_FETCHED''])])]\<rparr>)"
proof -
  let ?t = "new_task_entry 1 (task_action ''k'' ''VERIFY_JWS'' [(''prerequisites'', JList [JStr ''SIGNING_KEY_FETCHED''])])"
  have "dget ?t ''success'' \<noteq> JBool False" "dget ?t ''messageLevel'' = JNull"
    "dget ?t ''name'' \<noteq> JStr ''REPORT_MESSAGE''"
    by code_simp+
  then have "report_valid (INITIAL_STATE\<lparr>v_graph := [[(''id'', JStr ''_:b0'')]], v_tasks := [] @ ?t # []\<rparr>)
      = report_valid (INITIAL_STATE\<lparr>v_graph := [[(''id'', JStr ''_:b0'')]], v_tasks := [] @ []\<rparr>)"
    by (rule waiting_tasks_are_not_reported [THEN conjunct2])
  then show ?thesis by (simp add: report_valid_def report_messages_def count_level_def
        filter_messages_for_report_def)
qed

end
