(* ===== verification/Store_Properties.thy ===== *)
theory Store_Properties
  imports Verifier_Invariants
begin

text \<open>
  What the store guarantees: the task table stays numbered in order, the tasks that must not be
  repeated are not, tasks become ready when what they wait for is done, and the graph operations
  touch the node they name and no other.
\<close>

section \<open>The task table\<close>

text \<open>
  Every action a task may return keeps the task table well formed: the numbers stay positive and
  strictly increasing, so no two tasks share one, and no address occurs in two fetching tasks.
\<close>

theorem dispatch_keeps_task_table:
  assumes "dispatch a s = Inr s'" and "wf_action a"
    and "wf_tasks (v_tasks s)" and "distinct (fetch_urls (v_tasks s))"
  shows "wf_tasks (v_tasks s') \<and> distinct (map task_id_of (v_tasks s'))
         \<and> distinct (fetch_urls (v_tasks s'))"
  using dispatch_store_inv [OF _ assms(2,1)] assms(3,4)
  by (simp add: store_inv_def wf_tasks_def increasing_distinct)

definition demo_store :: vstate where
  "demo_store = INITIAL_STATE\<lparr>
     v_graph := [[(''id'', JStr ''http://a.example/1''), (''type'', JStr ''Assertion'')],
                 [(''id'', JStr ''_:b0''), (''name'', JStr ''other'')]],
     v_tasks := [[(''task_id'', JInt 4), (''name'', JStr ''FETCH_HTTP_NODE''), (''complete'', JBool False),
                  (''url'', JStr ''http://a.example/1''), (''task_key'', JStr ''k4'')]]\<rparr>"

lemma demo_store_inv: "wf_tasks (v_tasks demo_store)" "distinct (fetch_urls (v_tasks demo_store))"
  by (auto simp: demo_store_def INITIAL_STATE_def wf_tasks_def wf_task_def increasing_def
      task_id_of_def fetch_urls_def)

definition demo_fetch :: pydict where
  "demo_fetch = task_action ''k'' ''FETCH_HTTP_NODE'' [(''url'', JStr ''http://a.example/2'')]"

lemma demo_fetch_wf: "wf_action demo_fetch"
  by (simp add: demo_fetch_def task_action_def wf_action_def distinct_dset)

lemma dispatch_keeps_task_table_witness:
  "\<exists>s'. dispatch demo_fetch demo_store = Inr s'
        \<and> wf_tasks (v_tasks s') \<and> distinct (map task_id_of (v_tasks s'))
        \<and> distinct (fetch_urls (v_tasks s'))"
proof -
  have "\<not> isl (dispatch demo_fetch demo_store)" by code_simp
  then have "\<exists>s'. dispatch demo_fetch demo_store = Inr s'"
    by (cases "dispatch demo_fetch demo_store") auto
  then show ?thesis
    using dispatch_keeps_task_table [OF _ demo_fetch_wf demo_store_inv] by blast
qed

text \<open>
  Queueing a node check, a property check or a fetch a second time changes nothing: the first
  entry answers for the second, whatever has happened to the rest of the store.
\<close>

theorem queueing_twice_is_once:
  assumes "dispatch a s = Inr s1" and "dispatch a s1 = Inr s2" and "distinct (map fst a)"
    and "dget a ''type'' = JStr ''ADD_TASK''"
    and "dget a ''name'' \<in> JStr ` {''VALIDATE_EXPECTED_NODE_CLASS'', ''VALIDATE_PROPERTY'',
           ''VALIDATE_RDF_TYPE_PROPERTY'', ''FETCH_HTTP_NODE''}"
  shows "v_tasks s2 = v_tasks s1"
proof -
  have "task_to_add_exists (v_tasks s1) a"
  proof -
    obtain n where n: "next_task_id (v_tasks s) = Inr n"
      using dispatch_Inr [OF assms(1)] by (auto simp: task_reducer_def bindR_Inr_iff)
    then have s1: "v_tasks s1 = (if task_to_add_exists (v_tasks s) a then v_tasks s
                                 else v_tasks s @ [new_task_entry n a])"
      using dispatch_Inr [OF assms(1)] task_reducer_add [OF assms(4) n] by simp
    have "task_to_add_exists (ts @ [new_task_entry n a]) a" for ts
      using assms(5)
      by (auto simp: task_to_add_exists_def Let_def same_field_def new_task_entry_get [OF assms(3)])
    with s1 show ?thesis by simp
  qed
  moreover obtain m where "next_task_id (v_tasks s1) = Inr m"
    using dispatch_Inr [OF assms(2)] by (auto simp: task_reducer_def bindR_Inr_iff)
  ultimately show ?thesis
    using dispatch_Inr [OF assms(2)] task_reducer_add [OF assms(4)] by simp
qed

lemma queueing_twice_is_once_witness:
  "\<exists>s1 s2. dispatch demo_fetch demo_store = Inr s1 \<and> dispatch demo_fetch s1 = Inr s2
           \<and> v_tasks s2 = v_tasks s1"
proof -
  have "case dispatch demo_fetch demo_store of Inl e \<Rightarrow> False
        | Inr s1 \<Rightarrow> (case dispatch demo_fetch s1 of Inl e \<Rightarrow> False | Inr s2 \<Rightarrow> True)"
    by code_simp
  then obtain s1 s2 where s: "dispatch demo_fetch demo_store = Inr s1" "dispatch demo_fetch s1 = Inr s2"
    by (auto split: sum.splits)
  have "distinct (map fst demo_fetch)" using demo_fetch_wf by (simp add: wf_action_def)
  moreover have "dget demo_fetch ''type'' = JStr ''ADD_TASK''"
    and "dget demo_fetch ''name'' = JStr ''FETCH_HTTP_NODE''" by code_simp+
  ultimately show ?thesis using queueing_twice_is_once [OF s] s by auto
qed

text \<open>
  Resolving a task settles exactly that task: it is complete with the given outcome, keeps its
  other fields, and every other entry and the order of the table are unchanged.
\<close>

theorem resolve_settles_one_task:
  assumes "wf_tasks (v_tasks s)" and "t \<in> set (v_tasks s)"
    and "dispatch (resolve_task (dget t ''task_id'') ok r) s = Inr s'"
  shows "length (v_tasks s') = length (v_tasks s)
         \<and> (\<forall>i < length (v_tasks s).
              let old = v_tasks s ! i; new = v_tasks s' ! i in
              if old = t then dget new ''complete'' = JBool True \<and> dget new ''success'' = ok
                              \<and> dget new ''result'' = r \<and> dget new ''name'' = dget old ''name''
              else new = old)"
proof -
  have tid: "dget t ''task_id'' = JInt (task_id_of t)"
    using assms(1,2) wf_task_id by (auto simp: wf_tasks_def)
  let ?u = "resolved_entry (resolve_task (JInt (task_id_of t)) ok r) t"
  have s': "v_tasks s' = map (\<lambda>x. if task_id_of x = task_id_of t then ?u else x) (v_tasks s)"
    using dispatch_Inr [OF assms(3)] resolve_tasks [OF assms(1,2)] tid by simp
  have same: "task_id_of x = task_id_of t \<longleftrightarrow> x = t" if "x \<in> set (v_tasks s)" for x
    using wf_tasks_same_id [OF assms(1) that assms(2)] by auto
  show ?thesis
    unfolding s' by (auto simp: same Let_def resolved_entry_get resolve_task_def)
qed

lemma resolve_settles_one_task_witness:
  "\<exists>s'. dispatch (resolve_task (JInt 4) (JBool True) (JStr ''done'')) demo_store = Inr s'
        \<and> dget (hd (v_tasks s')) ''complete'' = JBool True"
proof -
  let ?t = "hd (v_tasks demo_store)"
  have t: "?t \<in> set (v_tasks demo_store)" by (simp add: demo_store_def)
  have i: "dget ?t ''task_id'' = JInt 4" by (simp add: demo_store_def)
  have "\<not> isl (dispatch (resolve_task (dget ?t ''task_id'') (JBool True) (JStr ''done'')) demo_store)"
    by code_simp
  then obtain s' where s':
    "dispatch (resolve_task (dget ?t ''task_id'') (JBool True) (JStr ''done'')) demo_store = Inr s'"
    by (cases "dispatch (resolve_task (dget ?t ''task_id'') (JBool True) (JStr ''done'')) demo_store") auto
  from resolve_settles_one_task [OF demo_store_inv(1) t s']
  have "length (v_tasks s') = 1 \<and> dget (v_tasks s' ! 0) ''complete'' = JBool True"
    by (simp add: demo_store_def Let_def)
  then show ?thesis using s' i by (auto simp: hd_conv_nth simp flip: length_greater_0_conv)
qed

text \<open>
  A task is handed out exactly when it is in the table, open, and everything it waits for is
  done: each prerequisite is the name or the key of at least one task, and all the tasks it names are
  complete.
\<close>

theorem ready_tasks:
  "t \<in> set (filter_active_tasks s) \<longleftrightarrow>
     t \<in> set (v_tasks s) \<and> \<not> truthy (dget t ''complete'')
     \<and> (\<forall>p \<in> set (list_of (dget_default t ''prerequisites'' (JList []))).
          (\<exists>u \<in> set (v_tasks s). dget u ''name'' = p \<or> dget u ''task_key'' = p)
          \<and> (\<forall>u \<in> set (v_tasks s). dget u ''name'' = p \<or> dget u ''task_key'' = p \<longrightarrow>
               truthy (dget u ''complete'')))"
  by (simp add: in_filter_active_tasks names_task_def)

lemma ready_tasks_witness:
  "hd (v_tasks demo_store) \<in> set (filter_active_tasks demo_store)"
  unfolding ready_tasks by (simp add: demo_store_def)

section \<open>The graph\<close>

lemma has_node_id_iff: "has_node_id i n \<longleftrightarrow> dget n ''id'' = i"
  by (simp add: has_node_id_def)

lemma graph_of_patch:
  assumes "dispatch (patch_node i d) s = Inr s'"
  shows "v_graph s' = (case get_node_by_id s i of
           Inl _ \<Rightarrow> v_graph s
         | Inr n \<Rightarrow> remove_first (has_node_id i) (v_graph s) @ [dupdate n d])"
  using dispatch_Inr [OF assms]
  by (auto simp: graph_reducer_def dget_patch_node Let_def find_node_def get_node_by_id_def
      replace_node_def split: sum.splits)

lemma get_node_snoc:
  "first_or_index_error (filter p (xs @ [x])) =
     (case first_or_index_error (filter p xs) of
        Inr y \<Rightarrow> Inr y | Inl e \<Rightarrow> if p x then Inr x else Inl IndexError)"
  by (cases "filter p xs") auto

lemma filter_remove_first_unique:
  "distinct (map f xs) \<Longrightarrow> filter (\<lambda>x. f x = i) (remove_first (\<lambda>x. f x = i) xs) = []"
  by (induction xs) (auto simp: filter_empty_conv image_iff)

text \<open>
  Patching a node merges the data into the node with that id and leaves every other node as it
  is; where no node has the id, nothing changes.  The ids are distinct, and the patch does not
  change the id.
\<close>

theorem patch_merges_one_node:
  assumes "dispatch (patch_node i d) s = Inr s'"
    and "distinct (map (\<lambda>n. dget n ''id'') (v_graph s))" and "\<not> dhas d ''id''"
  shows "get_node_by_id s' i = bindR (get_node_by_id s i) (\<lambda>n. Inr (dupdate n d))
         \<and> (\<forall>j. j \<noteq> i \<longrightarrow> get_node_by_id s' j = get_node_by_id s j)"
proof (cases "get_node_by_id s i")
  case (Inl e)
  then have "v_graph s' = v_graph s" using graph_of_patch [OF assms(1)] by simp
  with Inl show ?thesis by (simp add: get_node_by_id_def)
next
  case (Inr n)
  then have g: "v_graph s' = remove_first (has_node_id i) (v_graph s) @ [dupdate n d]"
    using graph_of_patch [OF assms(1)] by simp
  have id: "dget (dupdate n d) ''id'' = i"
    using get_node_by_id_Inr [OF Inr] assms(3) by (simp add: dget_dupdate_other)
  have "filter (has_node_id i) (remove_first (has_node_id i) (v_graph s)) = []"
    using filter_remove_first_unique [OF assms(2), of i] by (simp add: has_node_id_def [abs_def])
  then have "get_node_by_id s' i = Inr (dupdate n d)"
    using id by (simp add: get_node_by_id_def g get_node_snoc has_node_id_def)
  moreover have "get_node_by_id s' j = get_node_by_id s j" if "j \<noteq> i" for j
  proof -
    have "filter (has_node_id j) (remove_first (has_node_id i) (v_graph s))
            = filter (has_node_id j) (v_graph s)"
      using that by (intro filter_remove_first_other) (auto simp: has_node_id_def)
    then show ?thesis using id that by (simp add: get_node_by_id_def g has_node_id_def)
  qed
  ultimately show ?thesis using Inr by simp
qed

lemma patch_merges_one_node_witness:
  "\<exists>s'. dispatch (patch_node (JStr ''_:b0'') [(''name'', JStr ''new'')]) demo_store = Inr s'
        \<and> get_node_by_id s' (JStr ''_:b0'') = Inr [(''id'', JStr ''_:b0''), (''name'', JStr ''new'')]
        \<and> get_node_by_id s' (JStr ''http://a.example/1'')
            = get_node_by_id demo_store (JStr ''http://a.example/1'')"
proof -
  let ?a = "patch_node (JStr ''_:b0'') [(''name'', JStr ''new'')]"
  have "\<not> isl (dispatch ?a demo_store)" by code_simp
  then obtain s' where s': "dispatch ?a demo_store = Inr s'"
    by (cases "dispatch ?a demo_store") auto
  have "distinct (map (\<lambda>n. dget n ''id'') (v_graph demo_store))" "\<not> dhas [(''name'', JStr ''new'')] ''id''"
    by (simp_all add: demo_store_def)
  note patch_merges_one_node [OF s' this]
  moreover have "bindR (get_node_by_id demo_store (JStr ''_:b0''))
      (\<lambda>n. Inr (dupdate n [(''name'', JStr ''new'')]))
      = Inr [(''id'', JStr ''_:b0''), (''name'', JStr ''new'')]" by code_simp
  ultimately show ?thesis using s' by auto
qed

text \<open>
  A reference of a node to another one can be redirected only where it is a direct property.  A
  path of three or more steps from a node of the graph, as the members of a list have, makes the
  store raise \<open>NotImplementedError\<close>; this happens while a task's actions are dispatched, where the
  engine catches nothing, so the verification ends with that exception.  A path whose node is
  unknown is ignored.
\<close>

theorem patching_inside_a_list_raises:
  assumes "2 < length path" and "wf_tasks (v_tasks s)"
  shows "dispatch (patch_node_reference (JList path) new_id) s
         = (if node_match_exists s (hd path) then Inl NotImplementedError else Inr s)"
proof -
  obtain p rest where path: "path = p # rest" using assms(1) by (cases path) auto
  obtain n where n: "next_task_id (v_tasks s) = Inr n"
    using next_task_id_total [OF assms(2)] by blast
  let ?a = "patch_node_reference (JList path) new_id"
  have input: "input_reducer (v_input s) ?a = Inr (v_input s)"
    by (simp add: input_reducer_def patch_node_reference_def)
  have tasks: "task_reducer (v_tasks s) ?a = Inr (v_tasks s)"
    by (simp add: task_reducer_def n patch_node_reference_def Let_def)
  have report: "verification_report_reducer (v_report s) ?a = Inr (v_report s)"
    by (simp add: verification_report_reducer_def patch_node_reference_def Let_def)
  have graph: "graph_reducer (v_blank s) (v_graph s) ?a
      = (if node_match_exists s p then Inl NotImplementedError else Inr (v_blank s, v_graph s))"
    using assms(1)
    by (auto simp: graph_reducer_def patch_node_reference_def Let_def patch_reference_reducer_def path
        dindex_def find_node_def node_match_exists_def get_node_by_id_def split: sum.splits)
  have "hd path = p" by (simp add: path)
  then show ?thesis by (simp add: dispatch_def input graph tasks report)
qed

lemma patching_inside_a_list_raises_witness:
  "dispatch (patch_node_reference (JList [JStr ''http://a.example/1'', JStr ''endorsement'', JInt 0])
     (JStr ''http://a.example/3'')) demo_store = Inl NotImplementedError"
proof -
  have "2 < length [JStr ''http://a.example/1'', JStr ''endorsement'', JInt 0]" by simp
  from patching_inside_a_list_raises [OF this demo_store_inv(1)] show ?thesis
    by (simp add: node_match_exists_iff demo_store_def)
qed

section \<open>Paths\<close>

text \<open>
  Following a path through the graph yields a dictionary or a list, never a plain value (those
  are looked up as ids), or fails with a lookup error; and a path that names a node alone is the
  node itself.
\<close>

theorem paths_lead_to_containers:
  "(case get_node_by_path s path of
      Inr v \<Rightarrow> is_dict v \<or> is_list v
    | Inl e \<Rightarrow> e \<in> {KeyError, IndexError, TypeError})
   \<and> get_node_by_path s [i] = bindR (get_node_by_id s i) (\<lambda>n. Inr (JDict n))"
proof -
  have "case get_node_by_path s path of
      Inr v \<Rightarrow> is_dict v \<or> is_list v
    | Inl e \<Rightarrow> e \<in> {KeyError, IndexError, TypeError}"
  proof (cases path)
    case (Cons p rest)
    show ?thesis
    proof (cases "get_node_by_id s p")
      case (Inr n)
      with Cons show ?thesis
        by (cases "walk_path s n rest")
          (auto simp: get_node_by_path_def dest: walk_path_container walk_path_errors)
    next
      case (Inl e)
      then have "e = IndexError" by (simp add: get_node_by_id_Inl)
      with Inl Cons show ?thesis by (simp add: get_node_by_path_def)
    qed
  qed (simp add: get_node_by_path_def)
  then show ?thesis by (simp add: get_node_by_path_single)
qed

end
