(* ===== verification/Validation_Properties.thy ===== *)
theory Validation_Properties
  imports Verifier_Validation
begin

text \<open>
  What the validation tasks check and what they do not: which checks a class queues, when a
  property, an identity, the timestamps of an assertion and a revocation list are accepted.
\<close>

section \<open>Lemmas\<close>

definition queued :: "pydict \<Rightarrow> bool" where
  "queued v \<longleftrightarrow>
     dget v ''prop_type'' \<in> JStr ` set PRIMITIVES
     \<or> dget v ''task_type'' \<in> JStr ` set CLASS_VALIDATION_TASKS"

lemma validator_action_None_iff: "validator_action key nid np v = None \<longleftrightarrow> \<not> queued v"
  by (auto simp: validator_action_def queued_def Let_def image_iff split: json.split)

lemma dget_task_action:
  "distinct (map fst kw) \<Longrightarrow> k \<notin> {''type'', ''name'', ''task_key''} \<Longrightarrow>
     dget (task_action key n kw) k = dget kw k"
  by (auto simp: task_action_def dget_dupdate dget_not_has)

lemma validators_distinct:
  assumes "class_validators c = Inr vs"
  shows "list_all (\<lambda>v. distinct (map fst v)) vs"
proof -
  define D where "D = list_all (\<lambda>v :: pydict. distinct (map fst v))"
  have tables: "D validators_Assertion" "D validators_BadgeClass" "D validators_CryptographicKey"
    "D validators_Profile" "D validators_ExpectedRecipientProfile" "D validators_AlignmentObject"
    "D validators_Criteria" "D validators_IdentityObject" "D validators_Evidence"
    "D validators_Image" "D validators_VerificationObjectAssertion"
    "D validators_VerificationObjectIssuer" "D validators_RevocationList"
    "D (validators_Endorsement c)" "D validators_EndorsementClaim" "D (validators_primary c)" "D []"
    unfolding D_def validators_Assertion_def validators_BadgeClass_def
      validators_CryptographicKey_def validators_Profile_def
      validators_ExpectedRecipientProfile_def validators_AlignmentObject_def
      validators_Criteria_def validators_IdentityObject_def validators_Evidence_def
      validators_Image_def validators_VerificationObjectAssertion_def
      validators_VerificationObjectIssuer_def validators_RevocationList_def
      validators_Endorsement_def validators_EndorsementClaim_def validators_primary_def
    by simp_all
  have app: "D xs \<Longrightarrow> D ys \<Longrightarrow> D (xs @ ys)" for xs ys by (simp add: D_def)
  define g where "g = (if c \<in> set PRIMARY_OBJECTS then validators_primary c else [])"
  have "D g" using tables by (simp add: g_def)
  note parts = assms [unfolded class_validators_def Let_def, folded g_def]
  have "D vs"
    using parts tables \<open>D g\<close>
    by (simp only: sum.inject sum.distinct split: if_split_asm) (hypsubst, (rule app, assumption+ | assumption))+
  then show ?thesis by (simp add: D_def)
qed

lemma validator_action_fields:
  assumes "validator_action key nid np v = Some a" and "distinct (map fst v)"
    and "k \<notin> {''type'', ''name'', ''task_key'', ''node_id'', ''node_path''}"
  shows "dget a k = dget v k"
  using assms dget_task_action [OF assms(2), of k]
  by (auto simp: validator_action_def Let_def split: if_split_asm json.split_asm)

lemma validator_actions_fields:
  assumes "list_all (\<lambda>v. distinct (map fst v)) vs"
    and "k \<notin> {''type'', ''name'', ''task_key'', ''node_id'', ''node_path''}"
  shows "map (\<lambda>a. dget a k) (validator_actions keys i nid np vs)
         = map (\<lambda>v. dget v k) (filter queued vs)"
  using assms(1)
proof (induction vs arbitrary: i)
  case Nil
  then show ?case by simp
next
  case (Cons v vs)
  show ?case
  proof (cases "validator_action (keys i) nid np v")
    case None
    then have "\<not> queued v" by (simp add: validator_action_None_iff)
    with None Cons show ?thesis by simp
  next
    case (Some a)
    then have "queued v" using validator_action_None_iff [of "keys i" nid np v] by auto
    with Some Cons validator_action_fields [OF Some _ assms(2)] show ?thesis by simp
  qed
qed

section \<open>Which checks a class queues\<close>

text \<open>
  The tasks a class queues for a node are, in order, exactly those of its validators that have a
  primitive value type or a class task, each with the validator's property, type and requirement, and
  addressed to the node.  So none of them checks a node's type, an e-mail address or a compact
  IRI: these types are not primitive, although the tables require the type of most classes and the
  e-mail address of a profile.
\<close>

theorem queued_validations:
  assumes "class_validators c = Inr vs" and "get_validation_actions keys i c node_id node_path = Inr as"
  shows "map (\<lambda>a. dget a ''prop_name'') as = map (\<lambda>v. dget v ''prop_name'') (filter queued vs)
         \<and> map (\<lambda>a. dget a ''prop_type'') as = map (\<lambda>v. dget v ''prop_type'') (filter queued vs)
         \<and> map (\<lambda>a. dget a ''required'') as = map (\<lambda>v. dget v ''required'') (filter queued vs)
         \<and> (\<forall>a \<in> set as. dget a ''name'' \<noteq> JStr ''VALIDATE_RDF_TYPE_PROPERTY''
              \<and> (if truthy node_id then dget a ''node_id'' = node_id
                 else dget a ''node_path'' = node_path))"
proof -
  have as: "as = validator_actions keys i node_id node_path vs"
    using assms by (simp add: get_validation_actions_def)
  have fields: "map (\<lambda>a. dget a k) as = map (\<lambda>v. dget v k) (filter queued vs)"
    if "k \<in> {''prop_name'', ''prop_type'', ''required''}" for k
    unfolding as using validators_distinct [OF assms(1)] that
    by (intro validator_actions_fields) auto
  have "dget a ''name'' \<noteq> JStr ''VALIDATE_RDF_TYPE_PROPERTY''
        \<and> (if truthy node_id then dget a ''node_id'' = node_id else dget a ''node_path'' = node_path)"
    if a: "a \<in> set as" for a
  proof -
    obtain j v where v: "v \<in> set vs" "validator_action (keys j) node_id node_path v = Some a"
      using a as validator_actions_in by blast
    have "\<not> dhas v ''name''"
      using class_validators_clean [OF assms(1) v(1)] by (simp add: clean_validator_def)
    then have "dget (task_action (keys j) n v) ''name'' = JStr n" for n
      by (rule task_action_name)
    with v(2) show ?thesis
      by (auto simp: validator_action_def Let_def CLASS_VALIDATION_TASKS_def
          split: if_split_asm json.split_asm)
  qed
  then show ?thesis using fields by simp
qed

lemma queued_validations_witness:
  "\<exists>as. get_validation_actions (\<lambda>i. ''k'') 0 ''Profile'' (JStr ''http://a.example'') JNull = Inr as
        \<and> JStr ''email'' \<notin> set (map (\<lambda>a. dget a ''prop_name'') as)
        \<and> JStr ''type'' \<notin> set (map (\<lambda>a. dget a ''prop_name'') as)
        \<and> JStr ''url'' \<in> set (map (\<lambda>a. dget a ''prop_name'') as)"
proof -
  obtain vs where vs: "class_validators ''Profile'' = Inr vs"
    by (simp add: class_validators_def)
  then obtain as where as:
    "get_validation_actions (\<lambda>i. ''k'') 0 ''Profile'' (JStr ''http://a.example'') JNull = Inr as"
    by (simp add: get_validation_actions_def)
  have names: "map (\<lambda>v. dget v ''prop_name'') (filter queued vs)
      = map (\<lambda>v. dget v ''prop_name'') (filter queued (projr (class_validators ''Profile'')))"
    using vs by simp
  have "JStr ''email'' \<notin> set (map (\<lambda>v. dget v ''prop_name'') (filter queued (projr (class_validators ''Profile''))))"
    "JStr ''type'' \<notin> set (map (\<lambda>v. dget v ''prop_name'') (filter queued (projr (class_validators ''Profile''))))"
    "JStr ''url'' \<in> set (map (\<lambda>v. dget v ''prop_name'') (filter queued (projr (class_validators ''Profile''))))"
    by code_simp+
  moreover have "map (\<lambda>a. dget a ''prop_name'') as
      = map (\<lambda>v. dget v ''prop_name'') (filter queued (projr (class_validators ''Profile'')))"
    using queued_validations [OF vs as, THEN conjunct1] names by (rule trans)
  ultimately show ?thesis using as by metis
qed

section \<open>The class of a node\<close>

text \<open>
  Detecting the class of a node works only for a type that is one class name: with any other
  type, a list of class names or no type among them, the task raises \<open>NotImplementedError\<close>, so the
  node is not validated at all.
\<close>

theorem undetected_class_raises:
  assumes "lookup_node s t = Inr (JDict node)"
    and "dget node ''type'' \<notin> JStr ` set ALL_CLASSES"
  shows "detect_and_validate_node_class keys s t = Inl NotImplementedError"
  using assms
  by (auto simp: detect_and_validate_node_class_def Let_def image_iff split: json.split)

definition demo_graph :: "pydict \<Rightarrow> vstate" where
  "demo_graph node = INITIAL_STATE\<lparr>v_graph := [dset ''id'' (JStr ''http://a.example/1'') node]\<rparr>"

definition demo_task :: "(string \<times> json) list \<Rightarrow> pydict" where
  "demo_task kw = (''node_id'', JStr ''http://a.example/1'') # kw"

lemma undetected_class_raises_witness:
  "detect_and_validate_node_class (\<lambda>i. ''k'')
     (demo_graph [(''type'', JList [JStr ''Assertion''])]) (demo_task []) = Inl NotImplementedError"
proof -
  let ?n = "[(''type'', JList [JStr ''Assertion'']), (''id'', JStr ''http://a.example/1'')]"
  have "lookup_node (demo_graph [(''type'', JList [JStr ''Assertion''])]) (demo_task []) = Inr (JDict ?n)"
    by code_simp
  then show ?thesis by (rule undetected_class_raises) auto
qed

section \<open>Properties of a node\<close>

text \<open>What has become of a value of an \<open>ID\<close> property.\<close>

definition queued_as :: "string \<Rightarrow> string \<Rightarrow> json \<Rightarrow> json \<Rightarrow> pydict \<Rightarrow> bool" where
  "queued_as name k v expected a \<longleftrightarrow>
     dget a ''name'' = JStr name \<and> dget a k = v \<and> dget a ''expected_class'' = expected"

definition accounted :: "ext \<Rightarrow> vstate \<Rightarrow> pydict \<Rightarrow> pydict list \<Rightarrow> json \<Rightarrow> bool" where
  "accounted E s t acts v \<longleftrightarrow>
     (let expected = dget t ''expected_class'' in
      if is_dict v
      then (\<exists>path. list_ex (queued_as ''VALIDATE_EXPECTED_NODE_CLASS'' ''node_path'' (JList path) expected) acts)
      else if node_match_exists s v
      then list_ex (queued_as ''VALIDATE_EXPECTED_NODE_CLASS'' ''node_id'' v expected) acts
      else if truthy (dget t ''fetch'')
      then list_ex (queued_as ''FETCH_HTTP_NODE'' ''url'' v expected) acts
      else truthy (dget t ''allow_remote_url'') \<and> is_url E v
           \<or> truthy (dget t ''allow_data_uri'') \<and> is_data_uri E v)"

lemma accounted_mono: "accounted E s t as v \<or> accounted E s t bs v \<Longrightarrow> accounted E s t (as @ bs) v"
  by (auto simp: accounted_def Let_def)

lemma queued_as_task_action:
  "queued_as name ''node_path'' v x (task_action key name [(''node_path'', v), (''expected_class'', x), (''full_validate'', fv)])"
  "queued_as name ''node_id'' v x (task_action key name [(''node_id'', v), (''expected_class'', x)])"
  "queued_as name ''url'' v x (task_action key name
     [(''url'', v), (''expected_class'', x), (''source_node_path'', p)])"
  by (simp_all add: queued_as_def task_action_def)

lemma id_value_accounted:
  assumes "id_value_actions E key s t path v = Inr as"
  shows "accounted E s t as v"
proof (cases "is_dict v")
  case True
  with assms show ?thesis
    by (auto simp: id_value_actions_def accounted_def Let_def
        intro!: exI [of _ path] queued_as_task_action)
next
  case dict: False
  show ?thesis
  proof (cases "node_match_exists s v")
    case True
    with assms dict show ?thesis
      by (simp add: id_value_actions_def accounted_def Let_def bindR_Inr_iff split: if_split_asm)
        (auto simp: queued_as_task_action)
  next
    case known: False
    show ?thesis
    proof (cases "truthy (dget t ''fetch'')")
      case True
      with assms dict known show ?thesis
        by (simp add: id_value_actions_def accounted_def Let_def bindR_Inr_iff split: if_split_asm)
          (auto simp: queued_as_task_action)
    next
      case False
      with assms dict known show ?thesis
        by (auto simp: id_value_actions_def accounted_def Let_def bindR_Inr_iff split: if_split_asm)
    qed
  qed
qed

lemma check_primitives_ok:
  assumes "dget t ''prop_type'' = JStr ty"
  shows "check_primitives E t vals = Inr () \<longleftrightarrow>
           (\<forall>v \<in> set vals. validate_primitive E OPENBADGES_CONTEXT_V2_DICT ty v = Inr True)"
  using assms by (induction vals) (auto simp: bindR_Inr_iff split: if_splits)

lemma check_primitives_cases:
  "check_primitives E t vals = Inr () \<or> (\<exists>e. check_primitives E t vals = Inl e)"
  by (cases "check_primitives E t vals") auto

lemma is_null_list_JList: "is_null_list (JList vs) \<longleftrightarrow> (\<forall>v \<in> set vs. v = JNull)"
  by (simp add: is_null_list_def list_all_iff)

lemma values_of: "(if is_list v then list_of v else [v]) = (case v of JList vs \<Rightarrow> vs | w \<Rightarrow> [w])"
  by (cases v) auto

text \<open>
  A property of a primitive type is accepted exactly when it is missing and optional, or only
  null and optional, or a value that may be a list where lists are allowed (a list of one is always
  allowed) all of whose members pass the check of the type.
\<close>

theorem primitive_property_accepted_iff:
  assumes "property_node s t = Inr (JDict node)" and "dget t ''prop_name'' = JStr p"
    and "dget t ''prop_type'' = JStr ty" and "ty \<noteq> ''ID''"
  shows "(\<exists>m acts. validate_property E keys s t = Inr (True, m, acts)) \<longleftrightarrow>
           (let vals = (case dget node p of JList vs \<Rightarrow> vs | v \<Rightarrow> [v]) in
            if \<not> dhas node p \<or> (\<forall>v \<in> set vals. v = JNull) then \<not> truthy (dget t ''required'')
            else (truthy (dget t ''many'') \<or> length vals \<le> 1)
                 \<and> (\<forall>v \<in> set vals. validate_primitive E OPENBADGES_CONTEXT_V2_DICT ty v = Inr True))"
proof (cases "dhas node p")
  case False
  then have "dindex node p = Inl KeyError" by (simp add: dindex_Inl_iff)
  with assms False show ?thesis
    by (auto simp: validate_property_def index_prop_def Let_def task_result_def)
next
  case True
  define vals where "vals = (case dget node p of JList vs \<Rightarrow> vs | v \<Rightarrow> [v])"
  have idx: "dindex node p = Inr (dget node p)" using True by (simp add: dindex_Inr_iff)
  have vals: "(if is_list (dget node p) then list_of (dget node p) else [dget node p]) = vals"
    by (simp only: values_of vals_def)
  note unf = validate_property_def index_prop_def Let_def task_result_def assms(1-4) idx
    is_null_list_JList
  consider "\<forall>v \<in> set vals. v = JNull"
    | "\<not> (\<forall>v \<in> set vals. v = JNull)" "\<not> truthy (dget t ''many'') \<and> 1 < length vals"
    | "\<not> (\<forall>v \<in> set vals. v = JNull)" "truthy (dget t ''many'') \<or> length vals \<le> 1"
    by linarith
  then show ?thesis
  proof cases
    case 1
    then show ?thesis using True by (simp add: unf vals flip: vals_def)
  next
    case 2
    then show ?thesis using True by (auto simp: unf vals simp flip: vals_def)
  next
    case 3
    note ok = check_primitives_ok [OF assms(3), of E vals]
    show ?thesis
    proof (cases "check_primitives E t vals")
      case (Inl e)
      with 3 True ok show ?thesis
        by (cases e) (auto simp: unf vals simp flip: vals_def)
    next
      case (Inr u)
      with 3 True ok show ?thesis by (auto simp: unf vals simp flip: vals_def)
    qed
  qed
qed

definition demo_pkgs :: ext where
  "demo_pkgs =
     \<lparr>valid_uri = (\<lambda>s. startswith s ''http''), uri_scheme = (\<lambda>s. ''http''),
      uri_authority = (\<lambda>s. JStr (take 9 (drop 7 s))), jsonld_expand = (\<lambda>v. Inl ValueError),
      jsonld_compact = (\<lambda>v. Inr v), language_check = (\<lambda>s. True),
      parse_datetime = (\<lambda>v. case v of JStr s \<Rightarrow> Inr (Aware (int (length s))) | _ \<Rightarrow> Inl ValueError),
      datetime_str = (\<lambda>d. ''date'')\<rparr>"

lemma primitive_property_accepted_iff_witness:
  "\<exists>m acts. validate_property demo_pkgs (\<lambda>i. ''k'')
     (demo_graph [(''tags'', JList [JStr ''a'', JStr ''b''])])
     (demo_task [(''prop_name'', JStr ''tags''), (''prop_type'', JStr ''TEXT''), (''many'', JBool True)])
     = Inr (True, m, acts)"
proof -
  let ?n = "[(''tags'', JList [JStr ''a'', JStr ''b'']), (''id'', JStr ''http://a.example/1'')]"
  let ?t = "demo_task [(''prop_name'', JStr ''tags''), (''prop_type'', JStr ''TEXT''), (''many'', JBool True)]"
  have "property_node (demo_graph [(''tags'', JList [JStr ''a'', JStr ''b''])]) ?t = Inr (JDict ?n)"
    by code_simp
  moreover have "dget ?t ''prop_name'' = JStr ''tags''" "dget ?t ''prop_type'' = JStr ''TEXT''"
    "''TEXT'' \<noteq> ''ID''"
    by code_simp+
  ultimately show ?thesis
    by (rule primitive_property_accepted_iff [THEN iffD2])
      (simp add: validate_primitive_def demo_task_def Let_def)
qed

text \<open>
  When a property of type \<open>ID\<close> is accepted, each of its values is accounted for: an embedded object
  and the id of a known node are queued for validation as the expected class, and an id that
  is not known is fetched or, where the property is not fetched, is a remote URL or a data URI that
  the property allows.
\<close>

theorem accepted_ids_are_accounted_for:
  assumes "id_values_actions E keys s t many i vals = Inr acts" and "v \<in> set vals"
  shows "accounted E s t acts v"
  using assms
proof (induction vals arbitrary: i acts)
  case Nil
  then show ?case by simp
next
  case (Cons w ws)
  from Cons.prems(1) obtain as bs path where
    as: "id_value_actions E (keys i) s t path w = Inr as"
    and bs: "id_values_actions E keys s t many (Suc i) ws = Inr bs" and acts: "acts = as @ bs"
    by (auto simp: bindR_Inr_iff)
  show ?case
  proof (cases "v \<in> set ws")
    case True
    then show ?thesis using Cons.IH [OF bs] acts accounted_mono by simp
  next
    case False
    then show ?thesis
      using Cons.prems(2) id_value_accounted [OF as] acts accounted_mono by simp
  qed
qed

lemma accepted_ids_are_accounted_for_witness:
  "\<exists>acts. id_values_actions demo_pkgs (\<lambda>i. ''k'') (demo_graph [])
     (demo_task [(''prop_name'', JStr ''badge''), (''fetch'', JBool True)]) False 0
     [JStr ''http://b.example''] = Inr acts
   \<and> accounted demo_pkgs (demo_graph [])
       (demo_task [(''prop_name'', JStr ''badge''), (''fetch'', JBool True)]) acts (JStr ''http://b.example'')"
proof -
  let ?t = "demo_task [(''prop_name'', JStr ''badge''), (''fetch'', JBool True)]"
  let ?r = "id_values_actions demo_pkgs (\<lambda>i. ''k'') (demo_graph []) ?t False 0 [JStr ''http://b.example'']"
  have "\<not> isl ?r" by code_simp
  then obtain acts where acts: "?r = Inr acts" by (cases ?r) auto
  show ?thesis using accepted_ids_are_accounted_for [OF acts, of "JStr ''http://b.example''"] acts by simp
qed

section \<open>Whole nodes\<close>

text \<open>
  An identity is accepted exactly when it has the form of a known hash if and only if it is
  declared to be hashed, and, where it is not hashed and of e-mail type, the form of an address.
\<close>

theorem identity_accepted_iff:
  assumes "lookup_node s t = Inr (JDict node)" and "dget node ''identity'' = JStr i"
    and "py_in (JStr ''email'') (dget node ''type'') = Inr email"
  shows "(\<exists>m. identity_object_property_dependencies s t = Inr (True, m, [])) \<longleftrightarrow>
           (is_hashed_identity_hash (JStr i) = Inr (truthy (dget node ''hashed'')))
           \<and> (\<not> truthy (dget node ''hashed'') \<and> email \<longrightarrow> email_shape i)"
proof -
  obtain h where h: "is_hashed_identity_hash (JStr i) = Inr h"
    by (auto simp: is_hashed_identity_hash_def)
  show ?thesis
    using assms
    by (cases h; cases "truthy (dget node ''hashed'')"; cases email; cases "email_shape i")
      (auto simp: identity_object_property_dependencies_def Let_def h task_result_def)
qed

lemma identity_accepted_iff_witness:
  "\<exists>m. identity_object_property_dependencies
     (demo_graph [(''identity'', JStr ''a@b.example''), (''type'', JStr ''email''), (''hashed'', JBool False)])
     (demo_task []) = Inr (True, m, [])"
proof -
  let ?n = "[(''identity'', JStr ''a@b.example''), (''type'', JStr ''email''), (''hashed'', JBool False),
             (''id'', JStr ''http://a.example/1'')]"
  have "lookup_node (demo_graph [(''identity'', JStr ''a@b.example''), (''type'', JStr ''email''),
      (''hashed'', JBool False)]) (demo_task []) = Inr (JDict ?n)" by code_simp
  moreover have "dget ?n ''identity'' = JStr ''a@b.example''" by code_simp
  moreover have "py_in (JStr ''email'') (dget ?n ''type'') = Inr True" by code_simp
  moreover have "is_hashed_identity_hash (JStr ''a@b.example'') = Inr (truthy (dget ?n ''hashed''))"
    "email_shape ''a@b.example''" by code_simp+
  ultimately show ?thesis by (simp only: identity_accepted_iff) simp
qed

text \<open>
  With dates that know their time zone, an assertion passes the timestamp checks exactly when it
  was not issued in the future and, if it expires, does so neither before it was issued nor
  before now.
\<close>

theorem timestamps_accepted_iff:
  assumes "dindex t ''node_id'' = Inr nid" and "get_node_by_id s nid = Inr node"
    and "dindex node ''issuedOn'' = Inr iss" and "parse_datetime E iss = Inr (Aware issued)"
    and "truthy (dget node ''expires'') \<longrightarrow> parse_datetime E (dget node ''expires'') = Inr (Aware expires)"
  shows "(\<exists>m acts. assertion_timestamp_checks E now s t = Inr (True, m, acts)) \<longleftrightarrow>
           issued \<le> now
           \<and> (truthy (dget node ''expires'') \<longrightarrow> issued \<le> expires \<and> now \<le> expires)"
proof (cases "truthy (dget node ''expires'')")
  case True
  with assms show ?thesis
    by (auto simp: assertion_timestamp_checks_def prerequisites_on_def Let_def task_result_def)
next
  case False
  with assms show ?thesis
    by (auto simp: assertion_timestamp_checks_def prerequisites_on_def Let_def task_result_def)
qed

lemma timestamps_accepted_iff_witness:
  "\<exists>m acts. assertion_timestamp_checks demo_pkgs 5
     (demo_graph [(''issuedOn'', JStr ''abcd''), (''expires'', JStr ''abcdef'')]) (demo_task [])
     = Inr (True, m, acts)"
proof -
  let ?n = "[(''issuedOn'', JStr ''abcd''), (''expires'', JStr ''abcdef''),
             (''id'', JStr ''http://a.example/1'')]"
  have "dindex (demo_task []) ''node_id'' = Inr (JStr ''http://a.example/1'')"
    "get_node_by_id (demo_graph [(''issuedOn'', JStr ''abcd''), (''expires'', JStr ''abcdef'')])
       (JStr ''http://a.example/1'') = Inr ?n"
    "dindex ?n ''issuedOn'' = Inr (JStr ''abcd'')"
    "parse_datetime demo_pkgs (JStr ''abcd'') = Inr (Aware 4)"
    by code_simp+
  moreover have "truthy (dget ?n ''expires'') \<longrightarrow> parse_datetime demo_pkgs (dget ?n ''expires'') = Inr (Aware 6)"
    by code_simp
  ultimately show ?thesis by (rule timestamps_accepted_iff [THEN iffD2]) simp
qed

lemma first_problem_None: "first_problem f xs = Inr None \<longleftrightarrow> (\<forall>x \<in> set xs. f x = Inr None)"
  by (induction xs) (auto simp: bindR_Inr_iff split: option.splits)

lemma revocation_entry_ok:
  "revocation_entry_problem E nid entry = Inr None \<longleftrightarrow>
     (case entry of
        JStr u \<Rightarrow> is_iri E (JStr u) = Inr True
      | JDict d \<Rightarrow> if dhas d ''id'' then is_iri E (dget d ''id'') = Inr True else is_str (dget d ''uid'')
      | _ \<Rightarrow> False)"
proof -
  have ok: "bindR r (\<lambda>ok. Inr (if ok then None else Some m)) = Inr None \<longleftrightarrow> r = Inr True"
    for r :: "bool res" and m :: string
    by (cases r) auto
  show ?thesis
  proof (cases entry)
    case (JDict d)
    then show ?thesis
      by (cases "dhas d ''id''")
        (simp_all add: revocation_entry_problem_def Let_def ok dindex_Inr_iff [THEN iffD2]
          dindex_Inl_iff [THEN iffD2])
  qed (simp_all add: revocation_entry_problem_def Let_def ok)
qed

text \<open>
  A revocation list is accepted exactly when it has \<open>revokedAssertions\<close> and each entry is an IRI
  or an object that has an IRI as \<open>id\<close> or, without an id, a text as \<open>uid\<close>.
\<close>

theorem revocation_list_accepted_iff:
  assumes "dindex t ''node_id'' = Inr nid" and "get_node_by_id s nid = Inr node"
  shows "(\<exists>m acts. validate_revocationlist_entries E s t = Inr (True, m, acts)) \<longleftrightarrow>
           dhas node ''revokedAssertions''
           \<and> (\<forall>entry \<in> set (list_of (dget node ''revokedAssertions'')).
                case entry of
                  JStr u \<Rightarrow> is_iri E (JStr u) = Inr True
                | JDict d \<Rightarrow> if dhas d ''id'' then is_iri E (dget d ''id'') = Inr True
                             else is_str (dget d ''uid'')
                | _ \<Rightarrow> False)"
proof (cases "dhas node ''revokedAssertions''")
  case False
  then have "dindex node ''revokedAssertions'' = Inl KeyError" by (simp add: dindex_Inl_iff)
  with assms False show ?thesis
    by (simp add: validate_revocationlist_entries_def prerequisites_on_def task_result_def)
next
  case True
  then have idx: "dindex node ''revokedAssertions'' = Inr (dget node ''revokedAssertions'')"
    by (simp add: dindex_Inr_iff)
  have "(\<exists>m acts. validate_revocationlist_entries E s t = Inr (True, m, acts)) \<longleftrightarrow>
      first_problem (revocation_entry_problem E nid) (list_of (dget node ''revokedAssertions'')) = Inr None"
    using assms idx
    by (auto simp: validate_revocationlist_entries_def prerequisites_on_def task_result_def
        bindR_Inr_iff split: option.splits)
  with True show ?thesis by (simp only: first_problem_None revocation_entry_ok) simp
qed

lemma revocation_list_accepted_iff_witness:
  "\<exists>m acts. validate_revocationlist_entries demo_pkgs
     (demo_graph [(''revokedAssertions'', JList [JStr ''_:b1'', JDict [(''uid'', JStr ''7'')]])])
     (demo_task []) = Inr (True, m, acts)"
proof -
  let ?n = "[(''revokedAssertions'', JList [JStr ''_:b1'', JDict [(''uid'', JStr ''7'')]]),
             (''id'', JStr ''http://a.example/1'')]"
  have "dindex (demo_task []) ''node_id'' = Inr (JStr ''http://a.example/1'')"
    "get_node_by_id (demo_graph [(''revokedAssertions'', JList [JStr ''_:b1'', JDict [(''uid'', JStr ''7'')]])])
       (JStr ''http://a.example/1'') = Inr ?n"
    by code_simp+
  then show ?thesis
    by (rule revocation_list_accepted_iff [THEN iffD2])
      (simp add: is_iri_cases startswith_def)
qed

end
