(* ===== verification/Trust_Properties.thy ===== *)
theory Trust_Properties
  imports Verifier_Trust
begin

text \<open>
  When the verifier trusts: hosted assertions within their issuer's scope, the recipient's
  identity, the signing key and revocation.
\<close>

section \<open>Hosted assertions\<close>

lemma any_prefix_True:
  assumes "any_prefix v ps = Inr True"
  shows "\<exists>a q. v = JStr a \<and> JStr q \<in> set ps \<and> startswith a q"
proof -
  obtain a where a: "v = JStr a"
    using assms by (cases v) (auto simp: any_prefix_def encoded_def split: if_split_asm)
  then obtain qs where qs: "mapR expect_str ps = Inr qs" and ex: "list_ex (startswith a) qs"
    using assms by (auto simp: any_prefix_def encoded_def bindR_Inr_iff split: if_split_asm)
  have "map JStr qs = ps"
    using qs
  proof (induction ps arbitrary: qs)
    case (Cons p ps)
    then show ?case by (cases p) (auto simp: bindR_Inr_iff)
  qed simp
  with ex a show ?thesis by (force simp: list_ex_iff)
qed

text \<open>The assertion's issuer, through its badge class.\<close>

definition issuer_of :: "vstate \<Rightarrow> json \<Rightarrow> pydict res" where
  "issuer_of s assertion_id =
     bindR (get_node_by_id s assertion_id) (\<lambda>assertion.
     bindR (dindex assertion ''badge'') (\<lambda>badge.
     bindR (get_node_by_id s badge) (\<lambda>badgeclass.
     bindR (dindex badgeclass ''issuer'') (get_node_by_id s))))"

text \<open>
  C37: When the hosted check passes without a warning, the assertion's id is a text whose host is
  among the origins its issuer's verification policy allows (the issuer's own host by default),
  and it starts with one of the policy's prefixes if there are any.
\<close>

theorem hosted_scope_sound:
  assumes "hosted_id_in_verification_scope E s t = Inr (True, m, [])"
  shows "\<exists>a issuer policy origins.
     dget t ''node_id'' = JStr a \<and> issuer_of s (JStr a) = Inr issuer
     \<and> verification_policy E s issuer = Inr policy
     \<and> default_allowed_origins E (dget issuer ''id'') = Inr origins
     \<and> uri_authority E a \<in> set (list_of (dget_default policy ''allowedOrigins'' origins))
     \<and> (truthy (dget policy ''startsWith'') \<longrightarrow>
          (\<exists>q. JStr q \<in> set (list_of (dget policy ''startsWith'')) \<and> startswith a q))"
proof -
  let ?i = "dget t ''node_id''"
  have pre: "prerequisites_on X r = Inr x \<longleftrightarrow> r = Inr x" for X and r :: "pydict res" and x
    by (cases r) (auto simp: prerequisites_on_def)
  obtain issuer policy origins where
    issuer: "issuer_of s ?i = Inr issuer"
    and policy: "verification_policy E s issuer = Inr policy"
    and prefix: "(if truthy (dget policy ''startsWith'')
         then any_prefix ?i (list_of (dget policy ''startsWith'')) else Inr True) = Inr True"
    and origins: "default_allowed_origins E (dget issuer ''id'') = Inr origins"
    and host: "bindR (expect_str ?i) (\<lambda>a. Inr (uri_authority E a
                 \<in> set (list_of (dget_default policy ''allowedOrigins'' origins)))) = Inr True"
    using assms
    unfolding hosted_id_in_verification_scope_def Let_def issuer_of_def [symmetric] task_result_def
    by (auto simp: bindR_Inr_iff pre simp del: bindR_simps split: if_split_asm)
  obtain a where a: "?i = JStr a" using host by (cases ?i) auto
  show ?thesis
    using issuer policy prefix origins host a any_prefix_True [of ?i "list_of (dget policy ''startsWith'')"]
    by (auto split: if_split_asm)
qed

definition demo_pkg :: ext where
  "demo_pkg =
     \<lparr>valid_uri = (\<lambda>s. startswith s ''http''), uri_scheme = (\<lambda>s. ''http''),
      uri_authority = (\<lambda>s. JStr (take 9 (drop 7 s))), jsonld_expand = (\<lambda>v. Inl ValueError),
      jsonld_compact = (\<lambda>v. Inr v), language_check = (\<lambda>s. True),
      parse_datetime = (\<lambda>v. Inl ValueError), datetime_str = (\<lambda>d. ''date'')\<rparr>"

text \<open>An assertion, its badge class, its issuer, the signing key and the revocation list.\<close>

definition demo_nodes :: vstate where
  "demo_nodes = INITIAL_STATE\<lparr>v_graph :=
     [[(''id'', JStr ''http://a.example/1''), (''type'', JStr ''Assertion''), (''badge'', JStr ''_:bc''),
       (''recipient'', JDict [(''identity'', JStr ''sha256$ab''), (''type'', JStr ''email''), (''hashed'', JBool True)]),
       (''verification'', JDict [(''creator'', JStr ''_:key'')])],
      [(''id'', JStr ''_:bc''), (''issuer'', JStr ''http://a.example/i'')],
      [(''id'', JStr ''http://a.example/i''), (''publicKey'', JStr ''_:key''), (''revocationList'', JStr ''_:rl'')],
      [(''id'', JStr ''_:key''), (''publicKeyPem'', JStr ''pem'')],
      [(''id'', JStr ''_:rl''), (''revokedAssertions'', JList [JStr ''http://a.example/9''])],
      [(''id'', JStr ''_:p''), (''email'', JList [JStr ''ab''])]]\<rparr>"

definition demo_on :: "string \<Rightarrow> pydict" where
  "demo_on i = [(''node_id'', JStr i), (''data'', JStr ''jws'')]"

definition is_accepted :: "outcome res \<Rightarrow> bool" where
  "is_accepted r = (case r of Inr (ok, m, acts) \<Rightarrow> ok | Inl e \<Rightarrow> False)"

lemma is_acceptedE: "is_accepted r \<Longrightarrow> \<exists>m acts. r = Inr (True, m, acts)"
  by (auto simp: is_accepted_def split: sum.splits)

lemma hosted_scope_sound_witness:
  "\<exists>a policy origins. default_allowed_origins demo_pkg (JStr ''http://a.example/i'') = Inr origins
     \<and> a = ''http://a.example/1''
     \<and> uri_authority demo_pkg a \<in> set (list_of (dget_default policy ''allowedOrigins'' origins))"
proof -
  let ?r = "hosted_id_in_verification_scope demo_pkg demo_nodes (demo_on ''http://a.example/1'')"
  have "case ?r of Inr (ok, m, acts) \<Rightarrow> ok \<and> acts = [] | Inl e \<Rightarrow> False" by code_simp
  then obtain m where "?r = Inr (True, m, [])" by (auto split: sum.splits)
  then obtain a issuer policy origins where
    r: "dget (demo_on ''http://a.example/1'') ''node_id'' = JStr a" "issuer_of demo_nodes (JStr a) = Inr issuer"
    "default_allowed_origins demo_pkg (dget issuer ''id'') = Inr origins"
    "uri_authority demo_pkg a \<in> set (list_of (dget_default policy ''allowedOrigins'' origins))"
    by (blast dest: hosted_scope_sound)
  have "a = ''http://a.example/1''" using r(1) by (simp add: demo_on_def)
  moreover have "issuer_of demo_nodes (JStr ''http://a.example/1'')
      = Inr [(''id'', JStr ''http://a.example/i''), (''publicKey'', JStr ''_:key''), (''revocationList'', JStr ''_:rl'')]"
    by code_simp
  ultimately show ?thesis using r by auto
qed

section \<open>The recipient\<close>

lemma find_hashed_Some:
  "find_hashed H h salt ps = Inr (Some p) \<Longrightarrow> p \<in> set ps \<and> matches_hash H p h salt = Inr True"
  by (induction ps) (auto simp: bindR_Inr_iff split: if_split_asm)

lemma encoded_search:
  assumes "(if ps = [] then Inr None
      else bindR (encoded a) (\<lambda>t. find_hashed H (lower_str t) salt ps)) = Inr (Some p)"
  shows "\<exists>i. a = JStr i \<and> p \<in> set ps \<and> matches_hash H p (lower_str i) salt = Inr True"
  using assms
  by (cases a) (auto simp: encoded_def bindR_Inr_iff split: if_split_asm dest: find_hashed_Some)

text \<open>The digests of an identifier with the salt appended that an identity may be.\<close>

definition salted_digest :: "digests \<Rightarrow> string \<Rightarrow> json \<Rightarrow> json \<Rightarrow> bool" where
  "salted_digest H h identifier salt \<longleftrightarrow>
     (\<exists>q z. identifier = JStr q \<and> salt = JStr z
        \<and> (h = ''md5$'' @ md5_hex H (q @ z) \<or> h = ''sha256$'' @ sha256_hex H (q @ z)))"

lemma encoded_Inr: "encoded v = Inr x \<Longrightarrow> v = JStr x"
  by (cases v) (auto simp: encoded_def)

lemma matches_hash_True:
  assumes "matches_hash H p h salt = Inr True" shows "salted_digest H h p salt"
  using assms
  by (auto simp: matches_hash_def identity_hash_def salted_digest_def bindR_Inr_iff dest!: encoded_Inr
      split: if_split_asm)

definition records_profile :: "json \<Rightarrow> bool" where
  "records_profile a = (case a of JDict d \<Rightarrow> dget d ''type'' = JStr ''SET_VERIFIED_PROFILE'' | _ \<Rightarrow> False)"

lemma recorded_profile:
  "filter records_profile (map JDict ((if b then [] else [message_action x y z]) @ [set_verified_recipient_profile k p]))
    = [JDict (set_verified_recipient_profile k p)]"
  by (simp add: records_profile_def message_action_def set_verified_recipient_profile_def dget_def)

text \<open>What a successful comparison found: an identity of the profile, equal to the recipient's or hashed to it.\<close>

lemma recipient_outcome_success:
  assumes "recipient_outcome H aid (JDict recipient) pid profile = Inr (True, m, acts)"
  shows "\<exists>kind identity hashed p.
     dindex recipient ''identity'' = Inr identity \<and> dindex recipient ''type'' = Inr (JStr kind)
     \<and> dindex recipient ''hashed'' = Inr hashed \<and> p \<in> set (list_of (dget profile kind))
     \<and> filter records_profile acts = [JDict (set_verified_recipient_profile (JStr kind) p)]
     \<and> (if truthy hashed
        then \<exists>i. identity = JStr i
               \<and> salted_digest H (lower_str i) p (dget_default recipient ''salt'' (JStr ''''))
        else p = identity)"
proof -
  obtain a rtype where a: "dindex recipient ''identity'' = Inr a"
    and rtype: "dindex recipient ''type'' = Inr rtype"
    using assms by (auto simp: recipient_outcome_def bindR_Inr_iff)
  define info where "info = (if rtype \<in> JStr ` set recommended_recipient_types then []
      else [message_action (''Recipient identifier type '' @ py_str rtype @ '' in assertion ''
              @ py_str aid @ '' is not one of the recommended types'') ''INFO'' True])"
  note out = assms [unfolded recipient_outcome_def subscript.simps a rtype bindR_simps,
      folded info_def, unfolded Let_def]
  have rec: "filter records_profile (map JDict (info @ [set_verified_recipient_profile k p]))
      = [JDict (set_verified_recipient_profile k p)]" for k p
    unfolding info_def by (rule recorded_profile)
  obtain pv where pv: "index_prop (JDict profile) rtype = Inr pv"
    using out by (cases "index_prop (JDict profile) rtype") (simp_all add: task_result_def)
  then obtain kind where kind: "rtype = JStr kind" "dget profile kind = pv"
    by (auto simp: index_prop_def dindex_Inr_iff split: json.splits)
  obtain hashed where hashed: "dindex recipient ''hashed'' = Inr hashed"
    using out pv by (auto simp: bindR_Inr_iff)
  show ?thesis
  proof (cases "truthy hashed")
    case False
    with out pv hashed have "a \<in> set (list_of pv)"
      by (simp add: task_result_def split: if_split_asm)
    moreover from this False out pv hashed
    have "acts = map JDict (info @ [set_verified_recipient_profile rtype a])"
      by (auto simp: task_result_def)
    ultimately show ?thesis using False a rtype kind hashed rec [of rtype a] by auto
  next
    case True
    with out pv hashed obtain found where
      found: "(if list_of pv = [] then Inr None
              else bindR (encoded a) (\<lambda>a_text. find_hashed H (lower_str a_text)
                     (dget_default recipient ''salt'' (JStr [])) (list_of pv))) = Inr found"
      by (auto simp: bindR_Inr_iff)
    from True out pv hashed found obtain p where p: "found = Some p"
      by (cases found) (simp_all add: task_result_def)
    from True out pv hashed found p
    have "acts = map JDict (info @ [set_verified_recipient_profile rtype p])"
      by (auto simp: task_result_def)
    moreover from encoded_search [OF found [unfolded p]] obtain i where "a = JStr i" "p \<in> set (list_of pv)"
      "salted_digest H (lower_str i) p (dget_default recipient ''salt'' (JStr []))"
      using matches_hash_True by blast
    ultimately show ?thesis using True a rtype kind hashed rec [of rtype p] by auto
  qed
qed

text \<open>
  C36: When the recipient check passes, the recipient of the first node of the graph with the type Assertion
  (found by that node's id) is confirmed: the profile the task names has an identifier of the recipient's
  type that is the recipient's identity, equal to it, or, where the identity is hashed, a text whose md5
  or sha256 digest with the salt (no salt counts as an empty one) is the identity in lower case.  This
  identifier is recorded as verified, and no other one is.
\<close>

theorem recipient_check_sound:
  assumes "verify_recipient_against_trusted_profile H s t = Inr (True, m, acts)"
  shows "\<exists>assertion others recipient profile kind identity p.
     filter (\<lambda>n. dget n ''type'' = JStr ''Assertion'') (v_graph s) = assertion # others
     \<and> get_node_by_path s [dget assertion ''id'', JStr ''recipient''] = Inr (JDict recipient)
     \<and> get_node_by_id s (dget t ''node_id'') = Inr profile
     \<and> dget recipient ''type'' = JStr kind \<and> dget recipient ''identity'' = identity
     \<and> p \<in> set (list_of (dget profile kind))
     \<and> filter records_profile acts = [JDict (set_verified_recipient_profile (JStr kind) p)]
     \<and> (if truthy (dget recipient ''hashed'')
        then \<exists>i q z. identity = JStr i \<and> p = JStr q \<and> dget_default recipient ''salt'' (JStr '''') = JStr z
               \<and> (lower_str i = ''md5$'' @ md5_hex H (q @ z) \<or> lower_str i = ''sha256$'' @ sha256_hex H (q @ z))
        else p = identity)"
proof -
  obtain aid idv pid profile where parts: "recipient_parts s t = Inr (aid, idv, pid, profile)"
    and out: "recipient_outcome H aid idv pid profile = Inr (True, m, acts)"
    using assms
    by (auto simp: verify_recipient_against_trusted_profile_def bindR_Inr_iff prerequisites_on_def
        catchR_def split: sum.split_asm if_split_asm)
  let ?found = "filter (\<lambda>n. dget n ''type'' = JStr ''Assertion'') (v_graph s)"
  from parts obtain assertion where
    asn: "first_or_index_error ?found = Inr assertion" "dget assertion ''id'' = aid"
    and rcp: "get_node_by_path s [aid, JStr ''recipient''] = Inr idv"
    and prof: "get_node_by_id s (dget t ''node_id'') = Inr profile"
    by (auto simp: recipient_parts_def bindR_Inr_iff dindex_Inr_iff)
  from asn(1) obtain others where others: "?found = assertion # others" by (cases ?found) simp_all
  obtain recipient where idv: "idv = JDict recipient"
    using out by (cases idv) (simp_all add: recipient_outcome_def)
  from recipient_outcome_success [OF out [unfolded idv]] obtain kind identity hashed p where
    found: "dindex recipient ''identity'' = Inr identity" "dindex recipient ''type'' = Inr (JStr kind)"
      "dindex recipient ''hashed'' = Inr hashed" "p \<in> set (list_of (dget profile kind))"
      "filter records_profile acts = [JDict (set_verified_recipient_profile (JStr kind) p)]"
      "if truthy hashed
       then \<exists>i. identity = JStr i
              \<and> salted_digest H (lower_str i) p (dget_default recipient ''salt'' (JStr []))
       else p = identity"
    by blast
  show ?thesis
    using asn(2) others rcp prof idv found
    by (intro exI [of _ assertion] exI [of _ others] exI [of _ recipient] exI [of _ profile] exI [of _ kind]
        exI [of _ identity] exI [of _ p]) (auto simp: dindex_Inr_iff salted_digest_def)
qed

lemma recipient_check_sound_witness:
  "\<exists>profile kind p. get_node_by_id demo_nodes (JStr ''_:p'') = Inr profile
     \<and> p \<in> set (list_of (dget profile kind))
     \<and> set_verified_recipient_profile (JStr kind) p
         = set_verified_recipient_profile (JStr ''email'') (JStr ''ab'')"
proof -
  let ?H = "\<lparr>sha256_hex = id, md5_hex = id\<rparr>"
  let ?r = "verify_recipient_against_trusted_profile ?H demo_nodes (demo_on ''_:p'')"
  let ?acts = "[JDict (set_verified_recipient_profile (JStr ''email'') (JStr ''ab''))]"
  have "case ?r of Inr (ok, m, acts) \<Rightarrow> ok \<and> acts = ?acts | Inl e \<Rightarrow> False" by code_simp
  then obtain m where r: "?r = Inr (True, m, ?acts)" by (auto split: sum.splits)
  have "dget (demo_on ''_:p'') ''node_id'' = JStr ''_:p''" by (simp add: demo_on_def)
  with recipient_check_sound [OF r] obtain profile kind p where
    "get_node_by_id demo_nodes (JStr ''_:p'') = Inr profile" "p \<in> set (list_of (dget profile kind))"
    "filter records_profile ?acts = [JDict (set_verified_recipient_profile (JStr kind) p)]"
    by metis
  moreover have "filter records_profile ?acts = ?acts"
    by (simp add: records_profile_def set_verified_recipient_profile_def dget_def)
  ultimately show ?thesis by auto
qed

section \<open>Signatures and revocation\<close>

text \<open>
  The owner of a signing key is accepted exactly when the issuer's profile declares the key, and
  whatever the outcome, an issuer with a revocation list has the assertion looked up in it.
\<close>

theorem key_owner_accepted_iff:
  assumes "dindex t ''node_id'' = Inr nid"
    and "get_node_by_path s [nid, JStr ''badge'', JStr ''issuer''] = Inr (JDict issuer)"
    and "get_node_by_path s [nid, JStr ''verification'', JStr ''creator''] = Inr key_node"
    and "subscript key_node ''id'' = Inr key_id"
  shows "\<exists>m. verify_key_ownership keys s t
           = task_result (key_id \<in> set (list_of (dget issuer ''publicKey''))) m
               (if truthy (dget issuer ''revocationList'')
                then [task_action (keys 0) ''VERIFY_SIGNED_ASSERTION_NOT_REVOKED''
                        [(''node_id'', nid),
                         (''prerequisites'', JList [JStr ''VALIDATE_REVOCATIONLIST_ENTRIES''])]]
                else [])"
  using assms
  by (auto simp: verify_key_ownership_def prerequisites_on_def Let_def)

lemma key_owner_accepted_iff_witness:
  "is_accepted (verify_key_ownership (\<lambda>i. ''k'') demo_nodes (demo_on ''http://a.example/1''))"
proof -
  let ?i = "[(''id'', JStr ''http://a.example/i''), (''publicKey'', JStr ''_:key''), (''revocationList'', JStr ''_:rl'')]"
  let ?k = "JDict [(''id'', JStr ''_:key''), (''publicKeyPem'', JStr ''pem'')]"
  have "dindex (demo_on ''http://a.example/1'') ''node_id'' = Inr (JStr ''http://a.example/1'')"
    "get_node_by_path demo_nodes [JStr ''http://a.example/1'', JStr ''badge'', JStr ''issuer''] = Inr (JDict ?i)"
    "get_node_by_path demo_nodes [JStr ''http://a.example/1'', JStr ''verification'', JStr ''creator''] = Inr ?k"
    "subscript ?k ''id'' = Inr (JStr ''_:key'')"
    by code_simp+
  from key_owner_accepted_iff [OF this, of "\<lambda>i. ''k''"] show ?thesis
    by (auto simp: is_accepted_def task_result_def)
qed

text \<open>
  A signature is accepted only when the JWS library accepts it under the key of the assertion's
  creator; the check of the key's owner is queued with either outcome.
\<close>

theorem signature_accepted_sound:
  assumes "verify_jws_signature S keys s t = Inr (ok, m, acts)"
  shows "\<exists>data nid key pem. dget t ''data'' = data \<and> dget t ''node_id'' = nid
     \<and> get_node_by_path s [nid, JStr ''verification'', JStr ''creator''] = Inr key
     \<and> subscript key ''publicKeyPem'' = Inr pem
     \<and> (ok \<longleftrightarrow> jws_verify S data pem = Inr None)
     \<and> JDict (task_action (keys 0) ''VERIFY_KEY_OWNERSHIP'' [(''node_id'', nid)]) \<in> set acts"
proof -
  obtain data nid key pem where
    "dindex t ''data'' = Inr data" "dindex t ''node_id'' = Inr nid"
    "get_node_by_path s [nid, JStr ''verification'', JStr ''creator''] = Inr key"
    "subscript key ''publicKeyPem'' = Inr pem"
    using assms
    by (auto simp: verify_jws_signature_def bindR_Inr_iff prerequisites_on_def catchR_def
        split: sum.split_asm if_split_asm)
  note parts = this
  have run: "verify_jws_signature S keys s t
      = (let actions =
             [task_action (keys 0) ''VERIFY_KEY_OWNERSHIP'' [(''node_id'', nid)],
              task_action (keys 1) ''VALIDATE_PROPERTY''
                [(''node_path'', JList [nid, JStr ''badge'', JStr ''issuer'']),
                 (''prop_name'', JStr ''revocationList''), (''prop_type'', JStr ''ID''),
                 (''expected_class'', JStr ''RevocationList''), (''fetch'', JBool True),
                 (''required'', JBool False),
                 (''prerequisites'', JList [JStr ''ISSUER_PROPERTY_DEPENDENCIES''])]] in
         bindR (jws_verify S data pem) (\<lambda>failure.
           case failure of
             Some msg \<Rightarrow> task_result False
               (''Signature for node '' @ py_str nid @ '' failed verification'' @ '' :: '' @ msg) actions
           | None \<Rightarrow> task_result True
               (''Signature for node '' @ py_str nid @ '' passed verification'') actions))"
    using parts by (simp add: verify_jws_signature_def prerequisites_on_def Let_def)
  obtain failure where f: "jws_verify S data pem = Inr failure"
    using assms run by (cases "jws_verify S data pem") (simp_all add: Let_def)
  have "(ok \<longleftrightarrow> failure = None)
     \<and> JDict (task_action (keys 0) ''VERIFY_KEY_OWNERSHIP'' [(''node_id'', nid)]) \<in> set acts"
    using assms unfolding run f
    by (cases failure) (auto simp: task_result_def Let_def)
  then show ?thesis using parts f by (auto simp: dindex_Inr_iff)
qed

lemma signature_accepted_sound_witness:
  "\<exists>key pem. get_node_by_path demo_nodes [JStr ''http://a.example/1'', JStr ''verification'', JStr ''creator''] = Inr key
     \<and> subscript key ''publicKeyPem'' = Inr pem"
proof -
  let ?S = "\<lparr>jws_claims = (\<lambda>v. Inl ValueError), jws_verify = (\<lambda>d k. Inr None)\<rparr>"
  let ?r = "verify_jws_signature ?S (\<lambda>i. ''k'') demo_nodes (demo_on ''http://a.example/1'')"
  have "\<not> isl ?r" by code_simp
  then obtain ok m acts where "?r = Inr (ok, m, acts)" by (cases ?r) auto
  from signature_accepted_sound [OF this] show ?thesis by (auto simp: demo_on_def)
qed

lemma filterR_pure: "(\<And>x. x \<in> set xs \<Longrightarrow> p x = Inr (q x)) \<Longrightarrow> filterR p xs = Inr (filter q xs)"
  by (induction xs) auto

definition revokes :: "json \<Rightarrow> json \<Rightarrow> bool" where
  "revokes assertion_id entry =
     (case entry of JDict d \<Rightarrow> dget d ''id'' = assertion_id | _ \<Rightarrow> assertion_id = entry)"

text \<open>
  C40: When the task names an assertion whose issuer is found through its badge class and names a revocation
  list that is in the graph, has an id and holds texts and objects, the assertion is accepted exactly when
  no entry is its id or has it as \<open>id\<close>; either way the only action cuts the list in the graph down to the
  matching entries.
\<close>

theorem not_revoked_iff:
  assumes "dindex t ''node_id'' = Inr nid"
    and "get_node_by_path s [nid, JStr ''badge'', JStr ''issuer''] = Inr (JDict issuer)"
    and "truthy (dget issuer ''revocationList'')"
    and "get_node_by_id s (dget issuer ''revocationList'') = Inr revocation_list"
    and "dindex revocation_list ''revokedAssertions'' = Inr (JList entries)"
    and "\<forall>e \<in> set entries. is_str e \<or> is_dict e" and "dindex revocation_list ''id'' = Inr rl"
  shows "\<exists>m. verify_signed_assertion_not_revoked s t
           = task_result (\<forall>e \<in> set entries. \<not> revokes nid e) m
               [patch_node rl [(''revokedAssertions'', JList (filter (revokes nid) entries))]]"
proof -
  have "revocation_match nid e = Inr (revokes nid e)" if "e \<in> set entries" for e
    using assms(6) that by (cases e) (auto simp: revocation_match_def revokes_def)
  then have "filterR (revocation_match nid) entries = Inr (filter (revokes nid) entries)"
    by (rule filterR_pure)
  then have run: "verify_signed_assertion_not_revoked s t
      = (let actions = [patch_node rl [(''revokedAssertions'', JList (filter (revokes nid) entries))]] in
         if filter (revokes nid) entries \<noteq> [] then
           task_result False
             (''Assertion '' @ py_str nid @ '' has been revoked in RevocationList ''
              @ py_str (dget issuer ''revocationList'')
              @ revocation_reason_text [] (filter (revokes nid) entries)) actions
         else
           task_result True
             (''Assertion '' @ py_str nid @ '' is not marked as revoked in RevocationList ''
              @ py_str (dget issuer ''revocationList'')) actions)"
    using assms by (simp add: verify_signed_assertion_not_revoked_def prerequisites_on_def Let_def)
  have none: "(\<forall>e \<in> set entries. \<not> revokes nid e) = (filter (revokes nid) entries = [])"
    by (simp add: filter_empty_conv)
  have choose: "(if xs \<noteq> [] then task_result False x a else task_result True y a)
      = task_result (xs = []) (if xs \<noteq> [] then x else y) a" for xs :: "json list" and x y a
    by simp
  show ?thesis
    unfolding run none Let_def choose by (rule exI) (rule refl)
qed

lemma not_revoked_iff_witness:
  "is_accepted (verify_signed_assertion_not_revoked demo_nodes (demo_on ''http://a.example/1''))"
proof -
  let ?i = "[(''id'', JStr ''http://a.example/i''), (''publicKey'', JStr ''_:key''), (''revocationList'', JStr ''_:rl'')]"
  let ?l = "[(''id'', JStr ''_:rl''), (''revokedAssertions'', JList [JStr ''http://a.example/9''])]"
  have "dindex (demo_on ''http://a.example/1'') ''node_id'' = Inr (JStr ''http://a.example/1'')"
    "get_node_by_path demo_nodes [JStr ''http://a.example/1'', JStr ''badge'', JStr ''issuer''] = Inr (JDict ?i)"
    "truthy (dget ?i ''revocationList'')"
    "get_node_by_id demo_nodes (dget ?i ''revocationList'') = Inr ?l"
    "dindex ?l ''revokedAssertions'' = Inr (JList [JStr ''http://a.example/9''])"
    "\<forall>e \<in> set [JStr ''http://a.example/9'']. is_str e \<or> is_dict e"
    "dindex ?l ''id'' = Inr (JStr ''_:rl'')"
    by code_simp+
  from not_revoked_iff [OF this] show ?thesis
    by (auto simp: is_accepted_def task_result_def revokes_def)
qed

end
