(* ===== verification/Intake_Properties.thy ===== *)
theory Intake_Properties
  imports Verifier_Upgrades
begin

text \<open>
  How data enters: which tasks a loaded text leads to, what becomes of a node that declares
  another id, where extensions are looked for, and what the upgrades of old versions change.
\<close>

section \<open>Loading and compacting\<close>

text \<open>
  A node that declares another id than the address it came from is never stored: the address it
  declares is fetched instead, with the class that was expected, and the mismatch is reported as a
  warning.  Otherwise the node is stored first, under its id, and then checked.
\<close>

theorem mismatched_nodes_are_refetched:
  assumes "load_task_data W t = Inr data" and "jsonld_compact E data = Inr (JDict node)"
    and "jsonld_compact_data E W keys s t = Inr (ok, m, acts)"
  shows "if truthy (dget node ''id'') \<and> truthy (dget t ''node_id'') \<and> dget node ''id'' \<noteq> dget t ''node_id''
         then (\<forall>d. JDict d \<in> set acts \<longrightarrow> dget d ''type'' \<noteq> JStr ''ADD_NODE'')
              \<and> (\<exists>d. JDict d \<in> set acts \<and> dget d ''name'' = JStr ''FETCH_HTTP_NODE''
                   \<and> dget d ''url'' = dget node ''id''
                   \<and> (truthy (dget t ''expected_class'') \<longrightarrow>
                        dget d ''expected_class'' = dget t ''expected_class''))
              \<and> (\<exists>d. JDict d \<in> set acts \<and> dget d ''messageLevel'' = JStr ''WARNING'')
         else hd acts = JDict (add_node
                (dget_default node ''id'' (dget_default t ''node_id'' (JStr (blank_node_id (v_blank s + 1)))))
                (JDict node))"
proof (cases "truthy (dget node ''id'') \<and> truthy (dget t ''node_id'') \<and> dget node ''id'' \<noteq> dget t ''node_id''")
  case True
  let ?id = "dget_default node ''id'' (dget_default t ''node_id'' (JStr (blank_node_id (v_blank s + 1))))"
  let ?w = "message_action (''Node fetched from source '' @ py_str (dget t ''node_id'')
              @ '' declared its id as '' @ py_str ?id) ''WARNING'' False"
  let ?f = "(if truthy (dget t ''expected_class'') then dset ''expected_class'' (dget t ''expected_class'')
             else id) (task_action (keys 0) ''FETCH_HTTP_NODE'' [(''url'', dget node ''id'')])"
  have acts: "acts = map JDict ([?w, delete_outdated_node_tasks (dget t ''node_id''), ?f]
      @ (if truthy (dget t ''source_node_path'')
         then [patch_node_reference (dget t ''source_node_path'') ?id] else [])
      @ (if dget (v_report s) ''validationSubject'' = dget t ''node_id''
         then [set_validation_subject (dget node ''id'')] else []))"
    using assms True by (simp add: jsonld_compact_data_def Let_def task_result_def)
  have "dget d ''type'' \<noteq> JStr ''ADD_NODE''" if "JDict d \<in> set acts" for d
    using that unfolding acts
    by (auto simp: message_action_def delete_outdated_node_tasks_def task_action_def
        patch_node_reference_def set_validation_subject_def split: if_split_asm)
  moreover have "JDict ?f \<in> set acts" "JDict ?w \<in> set acts" by (simp_all add: acts)
  moreover have "dget ?f ''name'' = JStr ''FETCH_HTTP_NODE'' \<and> dget ?f ''url'' = dget node ''id''
      \<and> (truthy (dget t ''expected_class'') \<longrightarrow> dget ?f ''expected_class'' = dget t ''expected_class'')"
    by (simp add: task_action_def)
  moreover have "dget ?w ''messageLevel'' = JStr ''WARNING''" by (simp add: message_action_def)
  ultimately show ?thesis using True by metis
next
  case False
  then show ?thesis
    using assms
    by (auto simp: jsonld_compact_data_def Let_def task_result_def simp del: extension_actions.simps
        split: prod.split_asm)
qed

definition demo_packages :: ext where
  "demo_packages =
     \<lparr>valid_uri = (\<lambda>s. True), uri_scheme = (\<lambda>s. ''http''), uri_authority = (\<lambda>s. JStr s),
      jsonld_expand = (\<lambda>v. Inl ValueError), jsonld_compact = (\<lambda>v. Inr v),
      language_check = (\<lambda>s. True), parse_datetime = (\<lambda>v. Inl ValueError),
      datetime_str = (\<lambda>d. ''date'')\<rparr>"

definition demo_loader :: web where
  "demo_loader =
     \<lparr>http_get = (\<lambda>u. Inl (OtherError ''ConnectionError'')), mime_above = (\<lambda>c t. Inr False),
      json_loads = (\<lambda>v. if v = JStr ''{..}''
                      then Inr (JDict [(''id'', JStr ''http://b.example''), (''type'', JStr ''Assertion'')])
                      else Inl ValueError),
      json_dumps = (\<lambda>v. ''{..}''), loaded_contexts = (\<lambda>v. []), open_baked = (\<lambda>s. Inr JNull)\<rparr>"

lemma mismatched_nodes_are_refetched_witness:
  "\<exists>acts d. JDict d \<in> set acts \<and> dget d ''name'' = JStr ''FETCH_HTTP_NODE''
     \<and> dget d ''url'' = JStr ''http://b.example''
     \<and> (\<exists>m. jsonld_compact_data demo_packages demo_loader (\<lambda>i. ''k'') INITIAL_STATE
              [(''node_id'', JStr ''http://a.example''), (''data'', JStr ''{..}'')] = Inr (True, m, acts))"
proof -
  let ?t = "[(''node_id'', JStr ''http://a.example''), (''data'', JStr ''{..}'')]"
  let ?n = "[(''id'', JStr ''http://b.example''), (''type'', JStr ''Assertion'')]"
  let ?r = "jsonld_compact_data demo_packages demo_loader (\<lambda>i. ''k'') INITIAL_STATE ?t"
  have l: "load_task_data demo_loader ?t = Inr (JDict ?n)" by code_simp
  have c: "jsonld_compact demo_packages (JDict ?n) = Inr (JDict ?n)" by code_simp
  have "case ?r of Inr (ok, m, acts) \<Rightarrow> ok | Inl e \<Rightarrow> False" by code_simp
  then obtain m acts where r: "?r = Inr (True, m, acts)" by (auto split: sum.splits)
  from mismatched_nodes_are_refetched [OF l c r] r show ?thesis by auto
qed

text \<open>
  A text that loads as an object is handled by its version: it is always recorded, versions 1.1
  and 2.0 are compacted (1.1 is upgraded afterwards, waiting for the compaction), older ones are
  upgraded first; nothing else is queued, and all of it is about the node the text was fetched for.
\<close>

theorem intake_by_version:
  assumes "dindex t ''data'' = Inr data" and "bindR (make_string_from_bytes data) (json_loads W) = Inr (JDict d)"
  shows "let v = detect_openbadges_version d; acts = intake_actions keys t data v in
     (\<exists>m. intake_json W txt keys s t = task_result True m (version_action v # acts))
     \<and> map (\<lambda>a. dget a ''name'') acts
         = (if v = ''2.0'' then [JStr ''JSONLD_COMPACT_DATA'']
            else if v = ''1.1'' then [JStr ''JSONLD_COMPACT_DATA'', JStr ''UPGRADE_1_1_NODE'']
            else if v = ''1.0'' then [JStr ''UPGRADE_1_0_NODE'']
            else [JStr ''UPGRADE_0_5_NODE''])
     \<and> (\<forall>a \<in> set acts. dget a ''node_id'' = dget t ''node_id''
           \<and> dget a ''expected_class'' = dget t ''expected_class'')
     \<and> (v = ''1.1'' \<longrightarrow> dget (acts ! 1) ''prerequisites'' = JList [dget (acts ! 0) ''task_key''])"
proof -
  let ?v = "detect_openbadges_version d"
  have "\<exists>m. intake_json W txt keys s t
      = task_result True m (version_action ?v # intake_actions keys t data ?v)"
    using assms by (simp add: Let_def intake_json_def) blast
  moreover have "map (\<lambda>a. dget a ''name'') (intake_actions keys t data ?v)
         = (if ?v = ''2.0'' then [JStr ''JSONLD_COMPACT_DATA'']
            else if ?v = ''1.1'' then [JStr ''JSONLD_COMPACT_DATA'', JStr ''UPGRADE_1_1_NODE'']
            else if ?v = ''1.0'' then [JStr ''UPGRADE_1_0_NODE'']
            else [JStr ''UPGRADE_0_5_NODE''])"
    by (simp add: intake_actions_def Let_def task_action_def)
  moreover have "\<forall>a \<in> set (intake_actions keys t data ?v). dget a ''node_id'' = dget t ''node_id''
           \<and> dget a ''expected_class'' = dget t ''expected_class''"
    by (simp add: intake_actions_def Let_def task_action_def)
  moreover have "?v = ''1.1'' \<longrightarrow> dget (intake_actions keys t data ?v ! 1) ''prerequisites''
      = JList [dget (intake_actions keys t data ?v ! 0) ''task_key'']"
    by (simp add: intake_actions_def Let_def task_action_def)
  ultimately show ?thesis by (simp only: Let_def simp_thms)
qed

lemma intake_by_version_witness:
  "map (\<lambda>a. dget a ''name'') (intake_actions (\<lambda>i. ''k'') [(''data'', JStr ''{..}'')] (JStr ''{..}'') ''1.0'')
     = [JStr ''UPGRADE_1_0_NODE'']"
proof -
  let ?n = "[(''id'', JStr ''http://b.example''), (''type'', JStr ''Assertion'')]"
  have "dindex [(''data'', JStr ''{..}'')] ''data'' = Inr (JStr ''{..}'')"
    "bindR (make_string_from_bytes (JStr ''{..}'')) (json_loads demo_loader) = Inr (JDict ?n)"
    by code_simp+
  from intake_by_version [OF this, of "\<lambda>i. ''k''" "''error''" INITIAL_STATE] show ?thesis
    by (simp add: detect_openbadges_version_def Let_def)
qed

section \<open>Where extensions are found\<close>

text \<open>
  The dictionaries below a value that a path leads to: through every key but \<open>id\<close> and \<open>type\<close>,
  into dictionaries and into the members of lists.
\<close>

inductive below :: "json \<Rightarrow> json list \<Rightarrow> pydict \<Rightarrow> bool" where
  here: "below (JDict d) [] d"
| entry: "(k, v) \<in> set d \<Longrightarrow> k \<notin> {''id'', ''type''} \<Longrightarrow> \<not> is_list v \<Longrightarrow> below v p e \<Longrightarrow>
    below (JDict d) (JStr k # p) e"
| member: "(k, JList vs) \<in> set d \<Longrightarrow> k \<notin> {''id'', ''type''} \<Longrightarrow> i < length vs \<Longrightarrow>
    below (vs ! i) p e \<Longrightarrow> below (JDict d) (JStr k # JInt (int i) # p) e"

inductive_cases below_DictE: "below (JDict d) p e"
inductive_simps below_other: "below JNull p e" "below (JBool b) p e" "below (JInt i) p e"
  "below (JFloat x) p e" "below (JStr x) p e" "below (JBytes x) p e" "below (JList xs) p e"

definition is_extension :: "pydict \<Rightarrow> bool" where
  "is_extension d \<longleftrightarrow> truthy (dget d ''type'') \<and> JStr ''Extension'' \<in> set (list_of (dget d ''type''))"

definition checks_at :: "json list \<Rightarrow> pydict list \<Rightarrow> bool" where
  "checks_at path as \<longleftrightarrow>
     (\<exists>a \<in> set as. dget a ''name'' = JStr ''VALIDATE_EXTENSION_NODE'' \<and> dget a ''node_path'' = JList path)"

lemma checks_at_simps [simp]:
  "checks_at p (as @ bs) \<longleftrightarrow> checks_at p as \<or> checks_at p bs" "\<not> checks_at p []"
  by (auto simp: checks_at_def)

lemma below_Nil: "below v [] e \<longleftrightarrow> v = JDict e"
  by (auto intro: below.intros elim: below.cases)

lemma below_Cons:
  assumes "r \<noteq> []"
  shows "below (JDict ((k, v) # rest)) r e \<longleftrightarrow>
     below (JDict rest) r e
     \<or> (k \<notin> {''id'', ''type''}
        \<and> (if is_list v
           then \<exists>j p. j < length (list_of v) \<and> r = JStr k # JInt (int j) # p \<and> below (list_of v ! j) p e
           else \<exists>p. r = JStr k # p \<and> below v p e))"
  (is "?lhs \<longleftrightarrow> ?rhs")
proof
  assume ?lhs
  then show ?rhs
    using assms by (cases rule: below.cases) (auto intro: below.intros)
next
  assume ?rhs
  then consider "below (JDict rest) r e"
    | p where "k \<notin> {''id'', ''type''}" "\<not> is_list v" "r = JStr k # p" "below v p e"
    | vs j p where "k \<notin> {''id'', ''type''}" "v = JList vs" "j < length vs"
        "r = JStr k # JInt (int j) # p" "below (vs ! j) p e"
    by (cases v) (auto split: if_split_asm)
  then show ?lhs
  proof cases
    case 1
    then show ?thesis
      using assms by (cases rule: below.cases) (auto intro: below.intros)
  qed (auto intro: below.intros)
qed

lemma checks_at_one:
  "checks_at q [task_action key ''VALIDATE_EXTENSION_NODE''
     [(''node_path'', JList path), (''node_json'', j), (''context_urls'', c), (''types_to_test'', ts)]]
   \<longleftrightarrow> q = path"
  by (auto simp: checks_at_def task_action_def)

lemma extension_actions_checks:
  "checks_at q (snd (extension_actions W keys cs i v p))
     \<longleftrightarrow> (\<exists>r d. q = p @ r \<and> below v r d \<and> is_extension d)"
  "checks_at q (snd (extension_entries W keys cs i kvs p))
     \<longleftrightarrow> (\<exists>r d. q = p @ r \<and> r \<noteq> [] \<and> below (JDict kvs) r d \<and> is_extension d)"
  "checks_at q (snd (extension_items W keys cs i n vs p))
     \<longleftrightarrow> (\<exists>j r d. j < length vs \<and> q = p @ JInt (int (n + j)) # r \<and> below (vs ! j) r d \<and> is_extension d)"
proof (induction W keys cs i v p and W keys cs i kvs p and W keys cs i n vs p
      arbitrary: q and q and q rule: extension_actions_extension_entries_extension_items.induct)
  case (1 W keys contexts i d path)
  let ?here = "if truthy (dget d ''type'') \<and> JStr ''Extension'' \<in> set (list_of (dget d ''type''))
      then [task_action (keys i) ''VALIDATE_EXTENSION_NODE''
              [(''node_path'', JList path), (''node_json'', JStr (json_dumps W (JDict d))),
               (''context_urls'', JList contexts),
               (''types_to_test'', JList (filter (\<lambda>t. t \<noteq> JStr ''Extension'') (list_of (dget d ''type''))))]]
      else []"
  have here: "checks_at q ?here \<longleftrightarrow> q = path \<and> is_extension d"
    by (auto simp: checks_at_one is_extension_def)
  have "snd (extension_actions W keys contexts i (JDict d) path)
      = ?here @ snd (extension_entries W keys contexts (i + length ?here) d path)"
    by (simp add: Let_def split: prod.split)
  moreover have "checks_at q (snd (extension_entries W keys contexts (i + length ?here) d path))
      \<longleftrightarrow> (\<exists>r e. q = path @ r \<and> r \<noteq> [] \<and> below (JDict d) r e \<and> is_extension e)"
    by (rule 1) (rule refl)+
  ultimately show ?case
    using here by (auto simp: below_Nil)
next
  case (4 W keys contexts i k v rest path)
  show ?case
  proof (cases "k = ''id'' \<or> k = ''type''")
    case True
    then show ?thesis using 4(1) [OF True] by (auto simp: below_Cons)
  next
    case False
    define sub where "sub = (case v of JList vs \<Rightarrow> extension_items W keys contexts i 0 vs (path @ [JStr k])
                             | _ \<Rightarrow> extension_actions W keys contexts i v (path @ [JStr k]))"
    have sub: "checks_at q (snd sub) \<longleftrightarrow>
        (\<exists>r e. q = path @ r \<and> (if is_list v
           then \<exists>j p. j < length (list_of v) \<and> r = JStr k # JInt (int j) # p \<and> below (list_of v ! j) p e
           else \<exists>p. r = JStr k # p \<and> below v p e) \<and> is_extension e)" for q
      using 4(2-9) [OF False] unfolding sub_def by (cases v) auto
    have rest: "checks_at q (snd (extension_entries W keys contexts (fst sub) rest path))
        \<longleftrightarrow> (\<exists>r e. q = path @ r \<and> r \<noteq> [] \<and> below (JDict rest) r e \<and> is_extension e)" for q
      by (rule 4(10) [OF False sub_def prod.collapse])
    have "snd (extension_entries W keys contexts i ((k, v) # rest) path)
        = snd sub @ snd (extension_entries W keys contexts (fst sub) rest path)"
      using False by (simp add: sub_def split: prod.split)
    then have parts: "checks_at q (snd (extension_entries W keys contexts i ((k, v) # rest) path))
        \<longleftrightarrow> checks_at q (snd sub)
            \<or> checks_at q (snd (extension_entries W keys contexts (fst sub) rest path))"
      by simp
    define S where "S r e \<longleftrightarrow> (if is_list v
           then \<exists>j p. j < length (list_of v) \<and> r = JStr k # JInt (int j) # p \<and> below (list_of v ! j) p e
           else \<exists>p. r = JStr k # p \<and> below v p e)" for r e
    have "below (JDict ((k, v) # rest)) r e \<longleftrightarrow> below (JDict rest) r e \<or> S r e" if "r \<noteq> []" for r e
      using below_Cons [OF that, of k v rest e] False by (simp add: S_def)
    moreover have "S r e \<Longrightarrow> r \<noteq> []" for r e
      by (auto simp: S_def split: if_split_asm)
    ultimately show ?thesis
      unfolding parts sub [folded S_def] rest by blast
  qed
next
  case (6 W keys contexts i n v vs path)
  define one where "one = extension_actions W keys contexts i v (path @ [JInt (int n)])"
  have one: "checks_at q (snd one) \<longleftrightarrow>
      (\<exists>r d. q = path @ JInt (int n) # r \<and> below v r d \<and> is_extension d)" for q
    using 6(1) by (simp add: one_def)
  have rest: "checks_at q (snd (extension_items W keys contexts (fst one) (Suc n) vs path)) \<longleftrightarrow>
      (\<exists>j r d. j < length vs \<and> q = path @ JInt (int (Suc n + j)) # r \<and> below (vs ! j) r d \<and> is_extension d)"
    for q
    by (rule 6(2) [OF one_def prod.collapse])
  have split: "(\<exists>j r d. j < length (v # vs) \<and> P j r ((v # vs) ! j) d) \<longleftrightarrow>
      (\<exists>r d. P 0 r v d) \<or> (\<exists>j r d. j < length vs \<and> P (Suc j) r (vs ! j) d)"
    for P :: "nat \<Rightarrow> json list \<Rightarrow> json \<Rightarrow> pydict \<Rightarrow> bool"
    by (simp add: less_Suc_eq_0_disj) (metis nth_Cons_0 nth_Cons_Suc)
  have "snd (extension_items W keys contexts i n (v # vs) path)
      = snd one @ snd (extension_items W keys contexts (fst one) (Suc n) vs path)"
    by (simp add: one_def split: prod.split)
  then show ?case
    using one rest
      split [of "\<lambda>j r u d. q = path @ JInt (int (n + j)) # r \<and> below u r d \<and> is_extension d"]
    by simp
qed (auto simp: below_other below_Nil elim: below.cases)

text \<open>
  Compacting a node queues an extension check for a path exactly when the path leads, through
  any nesting of dictionaries and of lists within them, to a dictionary whose \<open>type\<close> lists
  \<open>Extension\<close>.  Nothing below an \<open>id\<close> or \<open>type\<close> key and no list directly within a list counts.
\<close>

theorem extensions_are_found:
  "(\<exists>a \<in> set (snd (extension_actions W keys contexts i v path)).
      dget a ''name'' = JStr ''VALIDATE_EXTENSION_NODE'' \<and> dget a ''node_path'' = JList q)
   \<longleftrightarrow> (\<exists>r d. q = path @ r \<and> below v r d
            \<and> truthy (dget d ''type'') \<and> JStr ''Extension'' \<in> set (list_of (dget d ''type'')))"
  using extension_actions_checks(1) [of q W keys contexts i v path]
  by (simp add: checks_at_def is_extension_def)

section \<open>Upgrades\<close>

definition moves :: "pydict \<Rightarrow> string \<times> string \<Rightarrow> bool" where
  "moves item p \<longleftrightarrow> truthy (dget item (fst p)) \<and> \<not> truthy (dget item (snd p))"

lemma rename_term_parts:
  "fst (rename_term (a, b) st) = (fst st \<or> moves (snd st) (a, b))"
  "a \<noteq> b \<Longrightarrow> dget (snd (rename_term (a, b) st)) k =
     (if moves (snd st) (a, b) \<and> k = b then dget (snd st) a
      else if moves (snd st) (a, b) \<and> k = a then JNull else dget (snd st) k)"
proof -
  obtain c node where st: "st = (c, node)" by (cases st)
  have run: "rename_term (a, b) st
      = (if moves node (a, b) then (True, dset b (dget node a) (ddel a node)) else (c, node))"
    by (simp add: rename_term_def moves_def st)
  show "fst (rename_term (a, b) st) = (fst st \<or> moves (snd st) (a, b))"
    unfolding run by (simp add: st)
  show "a \<noteq> b \<Longrightarrow> dget (snd (rename_term (a, b) st)) k =
     (if moves (snd st) (a, b) \<and> k = b then dget (snd st) a
      else if moves (snd st) (a, b) \<and> k = a then JNull else dget (snd st) k)"
    unfolding run by (simp add: st)
qed

lemma rename_term_idle: "\<not> moves (snd st) p \<Longrightarrow> rename_term p st = st"
  by (cases st; cases p) (auto simp: rename_term_def moves_def)

definition term_names :: "(string \<times> string) list \<Rightarrow> string list" where
  "term_names ps = concat (map (\<lambda>p. [fst p, snd p]) ps)"

lemma moves_cong:
  "dget n (fst p) = dget m (fst p) \<Longrightarrow> dget n (snd p) = dget m (snd p) \<Longrightarrow> moves n p = moves m p"
  by (simp add: moves_def)

text \<open>Renaming terms whose names are all different.\<close>

lemma fold_rename_other:
  "distinct (term_names ps) \<Longrightarrow> k \<notin> set (term_names ps) \<Longrightarrow>
     dget (snd (fold rename_term ps st)) k = dget (snd st) k"
proof (induction ps arbitrary: st)
  case (Cons p ps)
  then show ?case by (cases p) (simp add: term_names_def rename_term_parts)
qed simp

lemma fold_rename_terms:
  assumes "distinct (term_names ps)" and "p \<in> set ps"
  shows "dget (snd (fold rename_term ps st)) (snd p)
           = dget (snd st) (if moves (snd st) p then fst p else snd p)
         \<and> dget (snd (fold rename_term ps st)) (fst p)
           = (if moves (snd st) p then JNull else dget (snd st) (fst p))"
  using assms
proof (induction ps arbitrary: st)
  case (Cons q ps)
  obtain a b where q: "q = (a, b)" by (cases q)
  have names: "a \<noteq> b" "a \<notin> set (term_names ps)" "b \<notin> set (term_names ps)" "distinct (term_names ps)"
    using Cons.prems(1) by (auto simp: term_names_def q)
  show ?case
  proof (cases "p = q")
    case True
    with names q show ?thesis by (simp add: fold_rename_other rename_term_parts)
  next
    case False
    then have p: "p \<in> set ps" using Cons.prems(2) by simp
    then have "fst p \<in> set (term_names ps)" "snd p \<in> set (term_names ps)"
      by (auto simp: term_names_def)
    with names have same: "dget (snd (rename_term q st)) (fst p) = dget (snd st) (fst p)"
      "dget (snd (rename_term q st)) (snd p) = dget (snd st) (snd p)"
      unfolding q by (auto simp: rename_term_parts)
    show ?thesis
      using Cons.IH [OF names(4) p, of "rename_term q st"] same moves_cong [OF same] by simp
  qed
qed simp

lemma fold_rename_changed:
  "distinct (term_names ps) \<Longrightarrow>
     fst (fold rename_term ps st) = (fst st \<or> (\<exists>p \<in> set ps. moves (snd st) p))"
proof (induction ps arbitrary: st)
  case (Cons q ps)
  obtain a b where q: "q = (a, b)" by (cases q)
  have names: "a \<noteq> b" "a \<notin> set (term_names ps)" "b \<notin> set (term_names ps)" "distinct (term_names ps)"
    using Cons.prems by (auto simp: term_names_def q)
  have "moves (snd (rename_term q st)) p = moves (snd st) p" if "p \<in> set ps" for p
  proof (rule moves_cong)
    have "fst p \<in> set (term_names ps)" "snd p \<in> set (term_names ps)"
      using that by (auto simp: term_names_def)
    with names show "dget (snd (rename_term q st)) (fst p) = dget (snd st) (fst p)"
      "dget (snd (rename_term q st)) (snd p) = dget (snd st) (snd p)"
      unfolding q by (auto simp: rename_term_parts)
  qed
  then show ?case
    using Cons.IH [OF names(4), of "rename_term q st"]
    by (auto simp: q rename_term_parts(1))
qed simp

lemma fold_rename_idle:
  "(\<And>p. p \<in> set ps \<Longrightarrow> \<not> moves (snd st) p) \<Longrightarrow> fold rename_term ps st = st"
  by (induction ps) (simp_all add: rename_term_idle)

lemma alignment_terms_distinct: "distinct (term_names alignment_terms)"
  by (simp add: alignment_terms_def term_names_def)

text \<open>
  Upgrading an alignment moves each of the three old terms to its new name unless the new one
  has a value already, touches nothing else, and a second upgrade finds nothing to do.
\<close>

theorem alignment_upgrade_moves_terms:
  "(\<forall>p \<in> set alignment_terms.
      dget (snd (upgrade_alignment item)) (snd p) = dget item (if moves item p then fst p else snd p)
      \<and> dget (snd (upgrade_alignment item)) (fst p) = (if moves item p then JNull else dget item (fst p)))
   \<and> (\<forall>k. k \<notin> fst ` set alignment_terms \<union> snd ` set alignment_terms \<longrightarrow>
          dget (snd (upgrade_alignment item)) k = dget item k)
   \<and> fst (upgrade_alignment item) = (\<exists>p \<in> set alignment_terms. moves item p)
   \<and> upgrade_alignment (snd (upgrade_alignment item)) = (False, snd (upgrade_alignment item))"
proof -
  note D = alignment_terms_distinct
  let ?r = "fold rename_term alignment_terms (False, item)"
  have terms: "dget (snd ?r) (snd p) = dget item (if moves item p then fst p else snd p)
      \<and> dget (snd ?r) (fst p) = (if moves item p then JNull else dget item (fst p))"
    if "p \<in> set alignment_terms" for p
    using fold_rename_terms [OF D that, of "(False, item)"] by simp
  then have "\<not> moves (snd ?r) p" if "p \<in> set alignment_terms" for p
    using that by (auto simp: moves_def split: if_split_asm)
  then have "fold rename_term alignment_terms (False, snd ?r) = (False, snd ?r)"
    by (intro fold_rename_idle) simp
  moreover have "set (term_names alignment_terms) = fst ` set alignment_terms \<union> snd ` set alignment_terms"
    by (auto simp: term_names_def)
  ultimately show ?thesis
    using terms fold_rename_other [OF D, of _ "(False, item)"] fold_rename_changed [OF D, of "(False, item)"]
    by (simp add: upgrade_alignment_def)
qed

lemma alignment_upgrade_moves_terms_witness:
  "dget (snd (upgrade_alignment [(''url'', JStr ''u''), (''name'', JStr ''n''), (''targetName'', JStr ''t'')]))
     ''targetUrl'' = JStr ''u''"
  using alignment_upgrade_moves_terms
    [of "[(''url'', JStr ''u''), (''name'', JStr ''n''), (''targetName'', JStr ''t'')]"]
  by (simp add: alignment_terms_def moves_def)

text \<open>
  A badge class with several alignments is upgraded only if its last alignment needed it: the
  flag is reset for each item, so where the last item is up to date, the changes to the others
  are thrown away and the task reports that no upgrade was needed.
\<close>

theorem only_the_last_alignment_counts:
  assumes "expected \<noteq> JStr ''Assertion''" and "dget data ''recipient'' = JNull"
    and "dget data ''alignment'' = JList (map JDict (items @ [last_item]))"
    and "\<not> fst (upgrade_alignment last_item)"
  shows "upgrade_1_1_actions E T node_id expected data = Inr (Inr [])"
proof -
  have mapped: "upgrade_alignments (map JDict xs) = Inr (map upgrade_alignment xs)" for xs
    by (induction xs) (simp_all add: upgrade_alignments_def)
  show ?thesis
    using assms mapped [of "items @ [last_item]"]
    by (simp add: upgrade_1_1_actions_def Let_def)
qed

lemma only_the_last_alignment_counts_witness:
  "upgrade_1_1_actions demo_packages \<lparr>from_timestamp = (\<lambda>v. Inl ValueError),
       iso_with_utc = (\<lambda>v. Inl ValueError), from_day = (\<lambda>v. Inl ValueError)\<rparr>
     (JStr ''_:b0'') (JStr ''BadgeClass'')
     [(''alignment'', JList [JDict [(''url'', JStr ''old'')], JDict [(''targetUrl'', JStr ''new'')]])]
   = Inr (Inr [])"
  by (rule only_the_last_alignment_counts
      [where items = "[[(''url'', JStr ''old'')]]" and last_item = "[(''targetUrl'', JStr ''new'')]"])
    (simp_all add: upgrade_alignment_def alignment_terms_def rename_term_def)

text \<open>
  A recipient that is a plain text becomes an identity object: the same identity, of e-mail type,
  hashed exactly when it has no at sign, with the salt moved into it; the assertion becomes a hosted
  one.  Any other recipient is left as it is.
\<close>

theorem old_recipients_become_objects:
  "(case dget data ''recipient'' of
      JStr r \<Rightarrow>
        r \<noteq> [] \<longrightarrow>
        (\<exists>obj. dget (upgrade_recipient data) ''recipient'' = JDict obj
           \<and> dget obj ''identity'' = JStr r \<and> dget obj ''type'' = JStr ''email''
           \<and> dget obj ''hashed'' = JBool (CHR ''@'' \<notin> set r)
           \<and> (if truthy (dget data ''salt'')
              then dget obj ''salt'' = dget data ''salt'' \<and> dget (upgrade_recipient data) ''salt'' = JNull
              else \<not> dhas obj ''salt'')
           \<and> dget (upgrade_recipient data) ''verify'' = JDict [(''type'', JStr ''HostedBadge'')])
    | v \<Rightarrow> upgrade_recipient data = data)
   \<and> (\<forall>k. k \<notin> {''recipient'', ''salt'', ''verify''} \<longrightarrow> dget (upgrade_recipient data) k = dget data k)"
  by (cases "dget data ''recipient''") (auto simp: upgrade_recipient_def Let_def)

lemma old_recipients_become_objects_witness:
  "\<exists>obj. dget (upgrade_recipient [(''recipient'', JStr ''a@b'')]) ''recipient'' = JDict obj
         \<and> dget obj ''hashed'' = JBool False"
  using old_recipients_become_objects [of "[(''recipient'', JStr ''a@b'')]"] by auto

end
