(* ===== verification/Bakery_Properties.thy ===== *)
theory Bakery_Properties
  imports Bakery
begin

text \<open>
  What baking and unbaking guarantee: the data comes back from the image it was baked into, an
  image carries the last assertion baked into it and no other, and an unknown file is left alone.
\<close>

section \<open>Lemmas on PNG chunks\<close>

lemma NUL_neq_keywords: "NUL \<notin> set ob_keyword" "NUL \<notin> set obc_keyword"
  by (simp_all add: NUL_def ob_keyword_def obc_keyword_def)

lemma sub_keyword_idle: "NUL \<notin> set s \<Longrightarrow> sub_keyword kw s = s"
proof (induction s)
  case (Cons c cs)
  have "\<not> startswith (c # cs) (kw @ [NUL])"
  proof
    assume "startswith (c # cs) (kw @ [NUL])"
    then obtain r where "c # cs = (kw @ [NUL]) @ r" by (auto simp: startswith_iff)
    then have "NUL \<in> set (c # cs)" by simp
    with Cons.prems show False by contradiction
  qed
  with Cons show ?case by simp
qed simp

lemma sub_keyword_header:
  assumes "kw \<noteq> []" and "NUL \<notin> set s"
  shows "sub_keyword kw (kw @ replicate (Suc n) NUL @ s) = s"
proof -
  obtain k ks where kw: "kw = k # ks" using assms(1) by (cases kw) auto
  have idle: "dropWhile (\<lambda>d. d = NUL) s = s"
    using assms(2) by (cases s) auto
  have "dropWhile (\<lambda>d. d = NUL) (replicate n NUL @ s) = s"
    by (induction n) (simp_all add: idle)
  moreover have "startswith (kw @ replicate (Suc n) NUL @ s) (kw @ [NUL])"
    by (auto simp: startswith_iff)
  ultimately show ?thesis
    using assms(2) by (simp add: kw sub_keyword_idle)
qed

lemma NUL_utf8: "NUL \<in> set (utf8_encode s) \<longleftrightarrow> NUL \<in> set s"
proof -
  have "NUL \<in> set (utf8_char c) \<longleftrightarrow> c = NUL" for c
  proof (cases "byte_of c < 128")
    case False
    have nul: "byte_of NUL = 0" by (simp add: byte_of_def NUL_def)
    have "192 + byte_of c div 64 < 256" "128 + byte_of c mod 64 < 256"
      using byte_of_less [of c] by auto
    then have "byte_of d \<noteq> byte_of NUL" if "d \<in> set (utf8_char c)" for d
      using that False by (auto simp: utf8_char_def Let_def byte_of_char_of nul)
    then have "NUL \<notin> set (utf8_char c)" by blast
    moreover have "c \<noteq> NUL" using False nul by auto
    ultimately show ?thesis by blast
  qed (auto simp: utf8_char_def)
  then show ?thesis by (auto simp: utf8_encode_def)
qed

lemma keyed_badge_chunk: "keyed obc_keyword (snd (badge_chunk_of s))"
  by (auto simp: keyed_def badge_chunk_of_def startswith_iff numeral_eq_Suc)

lemma not_ob_badge_chunk: "\<not> keyed ob_keyword (snd (badge_chunk_of s))"
  by (simp add: keyed_def badge_chunk_of_def startswith_def ob_keyword_def obc_keyword_def NUL_def)

lemma unbake_badge_chunk:
  assumes "NUL \<notin> set s"
  shows "unbake_chunks (badge_chunk_of s # rest) = Inr (JStr s)"
proof -
  have "sub_keyword obc_keyword (snd (badge_chunk_of s)) = utf8_encode s"
    using sub_keyword_header [of obc_keyword "utf8_encode s" 4] assms
    by (simp add: badge_chunk_of_def NUL_utf8 obc_keyword_def numeral_eq_Suc)
  then show ?thesis
    using keyed_badge_chunk [of s] not_ob_badge_chunk [of s]
    by (simp add: badge_chunk_of_def utf8_decode_encode)
qed

lemma unbake_skips:
  "is_not_previous_assertion c \<Longrightarrow> unbake_chunks (c # cs) = unbake_chunks cs"
  by (cases c) (simp add: is_not_previous_assertion_def)

lemma baked_chunks_again:
  assumes "baked_chunks cs b = Inr cs'" and "\<not> is_not_previous_assertion b"
  shows "baked_chunks cs' b' = baked_chunks cs b'"
  using assms by (auto simp: baked_chunks_def split: list.splits)

section \<open>Lemmas on documents\<close>

lemma elements_inserted:
  assumes "tag \<noteq> ''svg''" and "elements_by_tag tag c = [c]"
  shows "elements_by_tag tag d = [] \<Longrightarrow> change_first ''svg'' (insert_first_child u c) d = Some d' \<Longrightarrow>
           elements_by_tag tag d' = [c]"
    and "get_elements tag ds = [] \<Longrightarrow>
           change_first_list ''svg'' (insert_first_child u c) ds = Some ds' \<Longrightarrow>
           get_elements tag ds' = [c]"
proof (induction "''svg''" "insert_first_child u c" d and "''svg''" "insert_first_child u c" ds
       arbitrary: d' and ds' rule: change_first_change_first_list.induct)
  case (1 name attrs children)
  then show ?case using assms
    by (auto simp: insert_first_child_def get_elements_def split: if_splits)
next
  case (5 d ds)
  then show ?case by (auto simp: get_elements_def split: option.splits)
qed (auto simp: get_elements_def)

lemma elements_kept:
  assumes "tag \<noteq> ''svg''" and "elements_by_tag tag c = []"
  shows "elements_by_tag tag d = [] \<Longrightarrow> change_first ''svg'' (insert_first_child u c) d = Some d' \<Longrightarrow>
           elements_by_tag tag d' = []"
    and "get_elements tag ds = [] \<Longrightarrow>
           change_first_list ''svg'' (insert_first_child u c) ds = Some ds' \<Longrightarrow>
           get_elements tag ds' = []"
proof (induction "''svg''" "insert_first_child u c" d and "''svg''" "insert_first_child u c" ds
       arbitrary: d' and ds' rule: change_first_change_first_list.induct)
  case (1 name attrs children)
  then show ?case using assms
    by (auto simp: insert_first_child_def get_elements_def split: if_splits)
next
  case (5 d ds)
  then show ?case by (auto simp: get_elements_def split: option.splits)
qed (auto simp: get_elements_def)

lemma populate_shape:
  assumes "populate_assertion_node L tag text = Inr node"
  shows "\<exists>v. verify_attribute L text = Inr v
           \<and> node = Element tag (case v of JStr url \<Rightarrow> if url = [] then [] else [(''verify'', url)]
                                | _ \<Rightarrow> []) [CData text]"
proof -
  obtain v where v: "verify_attribute L text = Inr v"
    using assms by (auto simp: populate_assertion_node_def bindR_Inr_iff)
  with assms show ?thesis
    by (cases v) (auto simp add: populate_assertion_node_def simp del: truthy.simps split: if_split_asm)
qed

lemma last_cdata_single: "last_cdata [CData s] = JStr s"
  by (simp add: last_cdata_def)

section \<open>A library for the witnesses\<close>

text \<open>A PNG file is the signature, then type, length and content of every chunk.\<close>

definition demo_chunks :: "chunk list" where
  "demo_chunks = [(''IHDR'', ''1x1''), (''tEXt'', ob_keyword @ [NUL] @ ''old''), (''IEND'', '''')]"

definition demo_write :: "chunk list \<Rightarrow> string" where
  "demo_write cs =
     PNG_SIGNATURE @ concat (map (\<lambda>(t, c). t @ char_of (length c) # c) cs)"

fun demo_read :: "nat \<Rightarrow> string \<Rightarrow> chunk list res" where
  "demo_read 0 s = Inl ValueError"
| "demo_read (Suc n) [] = Inr []"
| "demo_read (Suc n) (a # b # c # d # l # s) =
     bindR (demo_read n (drop (of_char l) s)) (\<lambda>cs. Inr (([a, b, c, d], take (of_char l) s) # cs))"
| "demo_read (Suc n) _ = Inl ValueError"

definition demo_doc :: "dom list" where
  "demo_doc = [OtherNode ''<?xml?>'', Element ''svg'' [(''width'', ''1'')] [OtherNode ''art'']]"

definition demo_lib :: image_lib where
  "demo_lib =
     \<lparr>png_chunks = (\<lambda>f. demo_read 99 (drop 8 f)), png_write = demo_write,
      xml_parse = (\<lambda>f. Inr demo_doc), xml_print = (\<lambda>d. ''<svg/>''),
      svg_loads = (\<lambda>s. if s = ''{}'' then
                      Inr (JDict [(''@context'', JStr ''v2''), (''id'', JStr ''http://a.example'')])
                    else Inl ValueError),
      svg_is_url = is_str\<rparr>"

section \<open>Properties\<close>

text \<open>
  C38: What is baked into a PNG image is what unbaking it returns, provided the text holds no NUL
  character and the image does not start with a badge chunk; an assertion baked in before, under
  either keyword, does not come back.  The hypotheses on the PNG package say that it reads
  back the chunks it wrote here, behind the signature.
\<close>

theorem png_bake_unbake:
  assumes "check_image_type img = Some PNG"
    and "png_chunks L img = Inr (first # chunks)" and "is_not_previous_assertion first"
    and "NUL \<notin> set assertion"
    and "baked_chunks (first # chunks) (badge_chunk_of assertion) = Inr out"
    and "png_chunks L (png_write L out) = Inr out"
    and "take 8 (png_write L out) = PNG_SIGNATURE"
  shows "bake L img assertion = Inr (Some (png_write L out))
         \<and> unbake L (png_write L out) = Inr (JStr assertion)"
proof
  show "bake L img assertion = Inr (Some (png_write L out))"
    using assms(1,2,5) by (simp add: bake_def)
  show "unbake L (png_write L out) = Inr (JStr assertion)"
    using assms(3-7)
    by (auto simp: baked_chunks_def unbake_def check_image_type_def unbake_skips
        unbake_badge_chunk)
qed

lemma png_bake_unbake_witness:
  "\<exists>out. bake demo_lib (demo_write demo_chunks) ''new'' = Inr (Some out)
         \<and> unbake demo_lib out = Inr (JStr ''new'')"
proof -
  let ?out = "[(''IHDR'', ''1x1''), badge_chunk_of ''new'', (''IEND'', '''')]"
  have "check_image_type (demo_write demo_chunks) = Some PNG" by code_simp
  moreover have "png_chunks demo_lib (demo_write demo_chunks) = Inr ((''IHDR'', ''1x1'') # tl demo_chunks)"
    by code_simp
  moreover have "is_not_previous_assertion (''IHDR'', ''1x1'')" by code_simp
  moreover have "NUL \<notin> set ''new''" by code_simp
  moreover have "baked_chunks ((''IHDR'', ''1x1'') # tl demo_chunks) (badge_chunk_of ''new'') = Inr ?out"
    by code_simp
  moreover have "png_chunks demo_lib (png_write demo_lib ?out) = Inr ?out" by code_simp
  moreover have "take 8 (png_write demo_lib ?out) = PNG_SIGNATURE" by code_simp
  ultimately show ?thesis using png_bake_unbake by blast
qed

text \<open>
  Baking replaces: whatever was baked into an image before, baking again gives the chunks that
  baking the original would give, so an image never carries two assertions.
\<close>

theorem baking_replaces:
  assumes "baked_chunks chunks (badge_chunk_of old) = Inr baked"
  shows "baked_chunks baked (badge_chunk_of new) = baked_chunks chunks (badge_chunk_of new)
         \<and> filter (\<lambda>c. \<not> is_not_previous_assertion c) (tl baked) = [badge_chunk_of old]"
proof -
  have b: "\<not> is_not_previous_assertion (badge_chunk_of old)"
    by (simp add: is_not_previous_assertion_def keyed_badge_chunk)
  with assms show ?thesis
    using baked_chunks_again [OF assms b]
    by (auto simp: baked_chunks_def filter_empty_conv split: list.splits)
qed

lemma baking_replaces_witness:
  "baked_chunks [hd demo_chunks, badge_chunk_of ''a'', (''IEND'', '''')] (badge_chunk_of ''b'')
     = Inr [hd demo_chunks, badge_chunk_of ''b'', (''IEND'', '''')]"
proof -
  have "baked_chunks demo_chunks (badge_chunk_of ''a'')
          = Inr [hd demo_chunks, badge_chunk_of ''a'', (''IEND'', '''')]"
    by code_simp
  then have "baked_chunks [hd demo_chunks, badge_chunk_of ''a'', (''IEND'', '''')] (badge_chunk_of ''b'')
      = baked_chunks demo_chunks (badge_chunk_of ''b'')"
    by (rule baking_replaces [THEN conjunct1])
  also have "\<dots> = Inr [hd demo_chunks, badge_chunk_of ''b'', (''IEND'', '''')]" by code_simp
  finally show ?thesis .
qed

text \<open>
  C39: A document without badge data that is baked gives the data back: the verification URL
  as bytes where the \<open>verify\<close> attribute is set and not empty, else the baked text itself.  A text
  that is not JSON, such as a signed badge (a JWS), never gets the attribute, though the comment
  in the source announces one.
\<close>

theorem svg_bake_unbake:
  assumes "get_elements ''openbadges:assertion'' doc = []"
    and "get_elements ''openbadges:credential'' doc = []"
    and "svg_bake_doc L doc text = Inr doc'"
  shows "svg_unbake_doc doc'
         = (case verify_attribute L text of
              Inr (JStr url) \<Rightarrow> if url = [] then Inr (JStr text) else Inr (JBytes (utf8_encode url))
            | _ \<Rightarrow> Inr (JStr text))
         \<and> (svg_loads L text = Inl ValueError \<longrightarrow> svg_unbake_doc doc' = Inr (JStr text))"
proof -
  obtain tag u node where tag: "svg_tag L text = Inr (tag, u)"
    and node: "populate_assertion_node L tag text = Inr node"
    and change: "change_first_list ''svg'' (insert_first_child u node) doc = Some doc'"
    using assms(3) by (auto simp: svg_bake_doc_def bindR_Inr_iff split: option.splits if_splits)
  obtain v where v: "verify_attribute L text = Inr v"
    and shape: "node = Element tag (case v of JStr url \<Rightarrow> if url = [] then [] else [(''verify'', url)]
                                    | _ \<Rightarrow> []) [CData text]"
    using populate_shape [OF node] by blast
  have tags: "tag \<in> {''openbadges:assertion'', ''openbadges:credential''}"
    using tag by (auto simp: svg_tag_def Let_def bindR_Inr_iff split: sum.split_asm if_split_asm)
  have self: "elements_by_tag t node = (if t = tag then [node] else [])" for t
    using shape by simp
  have "get_elements tag doc' = [node]"
    using tags assms(1,2) self by (intro elements_inserted(2) [OF _ _ _ change]) auto
  moreover have "get_elements ''openbadges:assertion'' doc' = []"
    if "tag = ''openbadges:credential''"
    using that assms(1) self by (intro elements_kept(2) [OF _ _ _ change]) auto
  ultimately have "svg_unbake_doc doc'
      = (case v of JStr url \<Rightarrow> if url = [] then Inr (JStr text) else Inr (JBytes (utf8_encode url))
         | _ \<Rightarrow> Inr (JStr text))"
    using tags by (auto simp: svg_unbake_doc_def shape last_cdata_single split: json.splits)
  moreover have "v = JNull" if "svg_loads L text = Inl ValueError"
    using v that by (simp add: verify_attribute_def)
  ultimately show ?thesis using v by auto
qed

lemma svg_bake_unbake_witness:
  "\<exists>d. svg_bake_doc demo_lib demo_doc ''{}'' = Inr d
       \<and> svg_unbake_doc d = Inr (JBytes ''http://a.example'')"
proof -
  let ?node = "Element ''openbadges:assertion'' [(''verify'', ''http://a.example'')] [CData ''{}'']"
  let ?d = "[OtherNode ''<?xml?>'', Element ''svg''
      [(''width'', ''1''), (''xmlns:openbadges'', ''http://openbadges.org'')] [?node, OtherNode ''art'']]"
  have bake: "svg_bake_doc demo_lib demo_doc ''{}'' = Inr ?d" by code_simp
  moreover have "svg_unbake_doc ?d
      = (case verify_attribute demo_lib ''{}'' of
           Inr (JStr url) \<Rightarrow> if url = [] then Inr (JStr ''{}'') else Inr (JBytes (utf8_encode url))
         | _ \<Rightarrow> Inr (JStr ''{}''))"
    by (rule svg_bake_unbake [THEN conjunct1, OF _ _ bake]) code_simp+
  moreover have "verify_attribute demo_lib ''{}'' = Inr (JStr ''http://a.example'')" by code_simp
  moreover have "utf8_encode ''http://a.example'' = ''http://a.example''" by code_simp
  ultimately show ?thesis by auto
qed

end
