(* ===== verification/Js_Base.thy ===== *)
theory Js_Base
  imports Prelude Complex_Main
begin

text \<open>
  What the modules of the Swagger UI bundle
  (apps/mainsite/static/swagger-ui/swagger-ui-bundle.js) use of JavaScript.  A string is the list
  of its 16-bit code units, as \<open>charCodeAt\<close> numbers them; a number is NaN, an infinity or a finite
  value; an exception is a value of \<open>js_error\<close>.  \<open>encodeURIComponent\<close> and \<open>decodeURIComponent\<close>
  follow ECMAScript: UTF-16 to UTF-8 and back, with percent escapes, and \<open>URIError\<close> on surrogates
  that do not pair and on bytes that are no UTF-8.
\<close>

section \<open>Strings, numbers, exceptions\<close>

type_synonym js_string = "int list"

definition js :: "string \<Rightarrow> js_string" where
  "js s = map of_char s"

lemma js_simps [simp]: "js [] = []" "js (c # s) = of_char c # js s" "js (s @ t) = js s @ js t"
  by (simp_all add: js_def)

definition js_units :: "js_string \<Rightarrow> bool" where
  "js_units s \<longleftrightarrow> (\<forall>u \<in> set s. 0 \<le> u \<and> u < 65536)"

lemma js_units_simps [simp]:
  "js_units []" "js_units (u # s) \<longleftrightarrow> 0 \<le> u \<and> u < 65536 \<and> js_units s"
  "js_units (s @ t) \<longleftrightarrow> js_units s \<and> js_units t"
  by (auto simp: js_units_def)

datatype js_number = NaN | Infinity | NegInfinity | Finite rat

datatype js_error =
    JsTypeError string | JsRangeError | JsURIError | JsError string

type_synonym 'a js_res = "js_error + 'a"

text \<open>A value: objects are references into a heap, functions are opaque.\<close>

datatype js_value =
    JsUndefined | JsNull | JsBoolean bool | JsNumber js_number | JsString js_string
  | JsFunction nat | JsObject nat

text \<open>A run that may also not return (\<open>None\<close>).\<close>

type_synonym 'a run = "'a js_res option"

definition bindO :: "'a run \<Rightarrow> ('a \<Rightarrow> 'b run) \<Rightarrow> 'b run" where
  "bindO m f = (case m of None \<Rightarrow> None | Some (Inl e) \<Rightarrow> Some (Inl e) | Some (Inr x) \<Rightarrow> f x)"

lemma bindO_simps [simp]:
  "bindO None f = None" "bindO (Some (Inl e)) f = Some (Inl e)" "bindO (Some (Inr x)) f = f x"
  by (simp_all add: bindO_def)

lemma bindO_Inr_iff:
  "bindO m f = Some (Inr y) \<longleftrightarrow> (\<exists>x. m = Some (Inr x) \<and> f x = Some (Inr y))"
  by (auto simp: bindO_def split: option.splits sum.splits)

lemma bindO_Some_None [simp]: "bindO m (\<lambda>x. Some (g x)) = None \<longleftrightarrow> m = None"
  by (auto simp: bindO_def split: option.splits sum.splits)

text \<open>What every object inherits from \<open>Object.prototype\<close>.\<close>

definition object_members :: "js_string list" where
  "object_members =
     map js [''constructor'', ''hasOwnProperty'', ''isPrototypeOf'', ''propertyIsEnumerable'',
             ''toLocaleString'', ''toString'', ''valueOf'', ''__proto__'', ''__defineGetter__'',
             ''__defineSetter__'', ''__lookupGetter__'', ''__lookupSetter__'']"

section \<open>Classes of code units\<close>

definition between :: "int \<Rightarrow> int \<Rightarrow> int \<Rightarrow> bool" where
  "between lo hi u \<longleftrightarrow> lo \<le> u \<and> u \<le> hi"

definition unit_digit :: "int \<Rightarrow> bool" where
  "unit_digit u \<longleftrightarrow> between 48 57 u"

definition unit_upper :: "int \<Rightarrow> bool" where
  "unit_upper u \<longleftrightarrow> between 65 90 u"

definition unit_lower :: "int \<Rightarrow> bool" where
  "unit_lower u \<longleftrightarrow> between 97 122 u"

definition unit_alnum :: "int \<Rightarrow> bool" where
  "unit_alnum u \<longleftrightarrow> unit_digit u \<or> unit_upper u \<or> unit_lower u"

lemmas unit_defs = unit_alnum_def unit_digit_def unit_upper_def unit_lower_def between_def

definition ascii_upper :: "int \<Rightarrow> int" where
  "ascii_upper u = (if unit_lower u then u - 32 else u)"

definition ascii_lower :: "int \<Rightarrow> int" where
  "ascii_lower u = (if unit_upper u then u + 32 else u)"

text \<open>White space and line ends, which \<open>trim\<close> removes.\<close>

definition unit_space :: "int \<Rightarrow> bool" where
  "unit_space u \<longleftrightarrow>
     between 9 13 u \<or> between 8192 8202 u
     \<or> u \<in> {32, 160, 5760, 8232, 8233, 8239, 8287, 12288, 65279}"

definition trim_by :: "('a \<Rightarrow> bool) \<Rightarrow> 'a list \<Rightarrow> 'a list" where
  "trim_by p s = rev (dropWhile p (rev (dropWhile p s)))"

definition js_trim :: "js_string \<Rightarrow> js_string" where
  "js_trim = trim_by unit_space"

lemma trim_by_id:
  assumes "s \<noteq> [] \<longrightarrow> \<not> p (hd s) \<and> \<not> p (last s)"
  shows "trim_by p s = s"
proof (cases "s = []")
  case False
  have "dropWhile p xs = xs" if "xs \<noteq> []" "\<not> p (hd xs)" for xs
    using that by (cases xs) auto
  with assms False show ?thesis by (simp add: trim_by_def hd_rev)
qed (simp add: trim_by_def)

lemma trim_by_cases:
  "trim_by p s = [] \<or> (\<not> p (hd (trim_by p s)) \<and> \<not> p (last (trim_by p s)))"
proof (cases "trim_by p s = []")
  case False
  let ?a = "dropWhile p s"
  have r: "rev (trim_by p s) = dropWhile p (rev ?a)"
    by (simp add: trim_by_def)
  with False have last: "\<not> p (last (trim_by p s))"
    by (metis hd_dropWhile hd_rev rev_is_Nil_conv)
  from r obtain zs where "rev ?a = zs @ rev (trim_by p s)"
    by (metis takeWhile_dropWhile_id)
  then have "?a = trim_by p s @ rev zs"
    by (metis rev_append rev_rev_ident)
  with False have "hd (trim_by p s) = hd ?a" and "?a \<noteq> []"
    by auto
  with last show ?thesis by (simp add: hd_dropWhile)
qed simp

lemma set_trim_by: "set (trim_by p s) \<subseteq> set s"
  by (auto simp: trim_by_def dest!: set_dropWhileD)

section \<open>UTF-16 and UTF-8\<close>

definition high_surrogate :: "int \<Rightarrow> bool" where
  "high_surrogate u \<longleftrightarrow> between 0xD800 0xDBFF u"

definition low_surrogate :: "int \<Rightarrow> bool" where
  "low_surrogate u \<longleftrightarrow> between 0xDC00 0xDFFF u"

definition utf16_units :: "int \<Rightarrow> js_string" where
  "utf16_units cp =
     (if cp < 0x10000 then [cp]
      else [0xD800 + (cp - 0x10000) div 1024, 0xDC00 + (cp - 0x10000) mod 1024])"

definition pair_value :: "int \<Rightarrow> int \<Rightarrow> int" where
  "pair_value h l = (h - 0xD800) * 1024 + (l - 0xDC00) + 0x10000"

lemma pair_value_bounds:
  assumes "high_surrogate h" "low_surrogate l"
  shows "0x10000 \<le> pair_value h l" "pair_value h l \<le> 0x10FFFF"
  using assms by (auto simp: high_surrogate_def low_surrogate_def between_def pair_value_def)

lemma utf16_pair:
  assumes "high_surrogate h" "low_surrogate l"
  shows "utf16_units (pair_value h l) = [h, l]"
proof -
  have bounds: "0 \<le> l - 0xDC00" "l - 0xDC00 < 1024"
    using assms by (auto simp: low_surrogate_def between_def)
  have e: "pair_value h l - 0x10000 = (l - 0xDC00) + (h - 0xD800) * 1024"
    by (simp add: pair_value_def)
  have "(pair_value h l - 0x10000) div 1024 = h - 0xD800"
    and "(pair_value h l - 0x10000) mod 1024 = l - 0xDC00"
    unfolding e using bounds by (simp_all only: div_mult_self1 mod_mult_self1) simp_all
  then show ?thesis
    using pair_value_bounds [OF assms] by (simp add: utf16_units_def)
qed

definition scalar_value :: "int \<Rightarrow> bool" where
  "scalar_value cp \<longleftrightarrow>
     0 \<le> cp \<and> cp \<le> 0x10FFFF \<and> \<not> high_surrogate cp \<and> \<not> low_surrogate cp"

lemma utf16_scalar:
  assumes "scalar_value cp" and "0x10000 \<le> cp"
  shows "\<exists>h l. utf16_units cp = [h, l] \<and> high_surrogate h \<and> low_surrogate l \<and> pair_value h l = cp"
proof -
  let ?n = "cp - 0x10000"
  have n: "?n = 1024 * (?n div 1024) + ?n mod 1024" "0 \<le> ?n mod 1024" "?n mod 1024 < 1024"
    by simp_all
  with assms have "0 \<le> ?n div 1024" "?n div 1024 < 1024"
    by (auto simp: scalar_value_def)
  with n assms show ?thesis
    by (auto simp: utf16_units_def high_surrogate_def low_surrogate_def between_def pair_value_def)
qed

definition utf8_bytes :: "int \<Rightarrow> int list" where
  "utf8_bytes cp =
     (if cp < 0x80 then [cp]
      else if cp < 0x800 then [0xC0 + cp div 64, 0x80 + cp mod 64]
      else if cp < 0x10000 then [0xE0 + cp div 4096, 0x80 + cp div 64 mod 64, 0x80 + cp mod 64]
      else [0xF0 + cp div 262144, 0x80 + cp div 4096 mod 64, 0x80 + cp div 64 mod 64,
            0x80 + cp mod 64])"

section \<open>Codecs\<close>

text \<open>
  What the encoding modules promise each other and their callers: on \<open>valid\<close> data, what the encoder
  yields the decoder undoes.
\<close>

locale codec =
  fixes enc :: "'a \<Rightarrow> 'b js_res" and dec :: "'b \<Rightarrow> 'a js_res" and valid :: "'a \<Rightarrow> bool"
  assumes dec_enc: "valid x \<Longrightarrow> enc x = Inr y \<Longrightarrow> dec y = Inr x"
begin

lemma enc_eq: "valid x \<Longrightarrow> valid y \<Longrightarrow> enc x = Inr e \<Longrightarrow> enc y = Inr e \<Longrightarrow> x = y"
  using dec_enc [of x e] dec_enc [of y e] by simp

lemma dec_all: "mapR enc xs = Inr ys \<Longrightarrow> \<forall>x \<in> set xs. valid x \<Longrightarrow> mapR dec ys = Inr xs"
  by (induction xs arbitrary: ys) (auto simp: bindR_Inr_iff dec_enc)

end

text \<open>Two codecs in a row, where the second can take what the first yields.\<close>

locale codec_chain = first: codec enc1 dec1 valid1 + second: codec enc2 dec2 valid2
  for enc1 :: "'a \<Rightarrow> 'b js_res" and dec1 and valid1
    and enc2 :: "'b \<Rightarrow> 'c js_res" and dec2 and valid2 +
  assumes passes: "valid1 x \<Longrightarrow> enc1 x = Inr y \<Longrightarrow> valid2 y"

sublocale codec_chain \<subseteq> chained: codec "\<lambda>x. bindR (enc1 x) enc2" "\<lambda>z. bindR (dec2 z) dec1" valid1
proof
  fix x z assume "valid1 x" "bindR (enc1 x) enc2 = Inr z"
  then obtain y where y: "enc1 x = Inr y" "enc2 y = Inr z" by (auto simp: bindR_Inr_iff)
  from passes [OF \<open>valid1 x\<close> y(1)] have "dec2 z = Inr y" using y(2) by (rule second.dec_enc)
  with first.dec_enc [OF \<open>valid1 x\<close> y(1)] show "bindR (dec2 z) dec1 = Inr x" by simp
qed

end
