(* ===== verification/Js_Uri.thy ===== *)
theory Js_Uri
  imports Js_Base
begin

text \<open>
  \<open>encodeURIComponent\<close> and \<open>decodeURIComponent\<close>, which the cookie module of the Swagger UI bundle
  uses, as ECMAScript defines them.
\<close>

section \<open>Encoding\<close>

definition uri_unescaped :: "int \<Rightarrow> bool" where
  "uri_unescaped u \<longleftrightarrow> unit_alnum u \<or> u \<in> set (js ''-_.!~*'' ) \<or> u \<in> {39, 40, 41}"

definition hex_digit :: "int \<Rightarrow> int" where
  "hex_digit n = (if n < 10 then 48 + n else 55 + n)"

definition percent :: "int \<Rightarrow> js_string" where
  "percent b = [37, hex_digit (b div 16), hex_digit (b mod 16)]"

definition percent_all :: "int list \<Rightarrow> js_string" where
  "percent_all bs = concat (map percent bs)"

fun encodeURIComponent :: "js_string \<Rightarrow> js_string js_res" where
  "encodeURIComponent [] = Inr []"
| "encodeURIComponent (u # s) =
     (if uri_unescaped u then bindR (encodeURIComponent s) (\<lambda>t. Inr (u # t))
      else if low_surrogate u then Inl JsURIError
      else if high_surrogate u then
        (case s of
           [] \<Rightarrow> Inl JsURIError
         | l # s' \<Rightarrow>
             if low_surrogate l then
               bindR (encodeURIComponent s') (\<lambda>t. Inr (percent_all (utf8_bytes (pair_value u l)) @ t))
             else Inl JsURIError)
      else bindR (encodeURIComponent s) (\<lambda>t. Inr (percent_all (utf8_bytes u) @ t)))"

section \<open>Decoding\<close>

definition hex_value :: "int \<Rightarrow> int option" where
  "hex_value u =
     (if between 48 57 u then Some (u - 48)
      else if between 65 70 u then Some (u - 55)
      else if between 97 102 u then Some (u - 87)
      else None)"

fun percent_byte :: "js_string \<Rightarrow> (int \<times> js_string) option" where
  "percent_byte (p # a # b # rest) =
     (if p = 37 then
        (case hex_value a of
           None \<Rightarrow> None
         | Some x \<Rightarrow> (case hex_value b of None \<Rightarrow> None | Some y \<Rightarrow> Some (16 * x + y, rest)))
      else None)"
| "percent_byte _ = None"

text \<open>How many continuation bytes follow a first byte, and the bits it contributes.\<close>

definition lead_byte :: "int \<Rightarrow> (nat \<times> int) option" where
  "lead_byte b =
     (if b < 0x80 then Some (0, b)
      else if between 0xC0 0xDF b then Some (1, b - 0xC0)
      else if between 0xE0 0xEF b then Some (2, b - 0xE0)
      else if between 0xF0 0xF7 b then Some (3, b - 0xF0)
      else None)"

fun continuation :: "nat \<Rightarrow> int \<Rightarrow> js_string \<Rightarrow> (int \<times> js_string) option" where
  "continuation 0 v s = Some (v, s)"
| "continuation (Suc n) v s =
     (case percent_byte s of
        None \<Rightarrow> None
      | Some (b, rest) \<Rightarrow>
          if between 0x80 0xBF b then continuation n (64 * v + (b - 0x80)) rest else None)"

text \<open>The shortest form only, and no surrogate.\<close>

definition proper_code_point :: "nat \<Rightarrow> int \<Rightarrow> bool" where
  "proper_code_point n v \<longleftrightarrow>
     (if n = 0 then True
      else if n = 1 then 0x80 \<le> v
      else if n = 2 then 0x800 \<le> v \<and> \<not> between 0xD800 0xDFFF v
      else 0x10000 \<le> v \<and> v \<le> 0x10FFFF)"

definition read_escape :: "js_string \<Rightarrow> (int \<times> js_string) option" where
  "read_escape s =
     (case percent_byte s of
        None \<Rightarrow> None
      | Some (b, rest) \<Rightarrow>
          (case lead_byte b of
             None \<Rightarrow> None
           | Some (n, v) \<Rightarrow>
               (case continuation n v rest of
                  None \<Rightarrow> None
                | Some (cp, rest') \<Rightarrow> if proper_code_point n cp then Some (cp, rest') else None)))"

lemma percent_byte_shorter: "percent_byte s = Some (b, r) \<Longrightarrow> length r < length s"
  by (cases s rule: percent_byte.cases) (auto split: if_splits option.splits)

lemma continuation_shorter: "continuation n v s = Some (w, r) \<Longrightarrow> length r \<le> length s"
proof (induction n v s rule: continuation.induct)
  case (2 n v s)
  then show ?case
    by (auto split: option.splits if_splits dest!: percent_byte_shorter) (meson less_imp_le order.trans)+
qed simp

lemma read_escape_shorter: "read_escape s = Some (cp, r) \<Longrightarrow> length r < length s"
  by (auto simp: read_escape_def split: option.splits if_splits
      dest!: percent_byte_shorter continuation_shorter)

function (sequential) decodeURIComponent :: "js_string \<Rightarrow> js_string js_res" where
  "decodeURIComponent [] = Inr []"
| "decodeURIComponent (u # s) =
     (if u \<noteq> 37 then bindR (decodeURIComponent s) (\<lambda>t. Inr (u # t))
      else (case read_escape (u # s) of
              None \<Rightarrow> Inl JsURIError
            | Some (cp, rest) \<Rightarrow> bindR (decodeURIComponent rest) (\<lambda>t. Inr (utf16_units cp @ t))))"
  by pat_completeness auto

termination
  by (relation "measure length") (auto dest: read_escape_shorter)

section \<open>Round trip\<close>

lemma hex_value_digit: "0 \<le> n \<Longrightarrow> n < 16 \<Longrightarrow> hex_value (hex_digit n) = Some n"
  by (auto simp: hex_value_def hex_digit_def between_def)

lemma percent_byte_percent:
  assumes "0 \<le> b" "b < 256"
  shows "percent_byte (percent b @ s) = Some (b, s)"
  using assms by (simp add: percent_def hex_value_digit)

lemma percent_all_simps [simp]:
  "percent_all [] = []" "percent_all (b # bs) = percent b @ percent_all bs"
  by (simp_all add: percent_all_def)

lemma continuation_percent:
  assumes "0x80 \<le> b" "b \<le> 0xBF"
  shows "continuation (Suc n) v (percent b @ s) = continuation n (64 * v + (b - 0x80)) s"
  using assms by (simp add: percent_byte_percent between_def)

lemma read_escape_lead:
  assumes "0 \<le> b" "b < 256" and "lead_byte b = Some (n, v)"
    and "continuation n v s = Some (cp, r)" and "proper_code_point n cp"
  shows "read_escape (percent b @ s) = Some (cp, r)"
  using assms by (simp add: read_escape_def percent_byte_percent)

lemma six_bits: "0x80 \<le> 0x80 + x mod 64 \<and> 0x80 + x mod 64 \<le> (0xBF :: int)"
  using pos_mod_bound [of 64 x] pos_mod_sign [of 64 x] by linarith

lemma read_escape_utf8:
  assumes "scalar_value cp"
  shows "read_escape (percent_all (utf8_bytes cp) @ s) = Some (cp, s)"
proof -
  have r: "0 \<le> cp" "cp \<le> 0x10FFFF" "\<not> (0xD800 \<le> cp \<and> cp \<le> 0xDFFF)"
    using assms by (auto simp: scalar_value_def high_surrogate_def low_surrogate_def between_def)
  have d2: "cp = 64 * (cp div 64) + cp mod 64" by simp
  have d3: "cp div 64 = 64 * (cp div 4096) + cp div 64 mod 64"
    using zdiv_zmult2_eq [of 64 cp 64] by simp
  have d4: "cp div 4096 = 64 * (cp div 262144) + cp div 4096 mod 64"
    using zdiv_zmult2_eq [of 64 cp 4096] by simp
  note c = continuation_percent [OF six_bits [THEN conjunct1] six_bits [THEN conjunct2]]
  consider "cp < 0x80" | "0x80 \<le> cp" "cp < 0x800" | "0x800 \<le> cp" "cp < 0x10000"
    | "0x10000 \<le> cp" by linarith
  then show ?thesis
  proof cases
    case 1
    with r show ?thesis
      by (simp add: utf8_bytes_def read_escape_lead lead_byte_def proper_code_point_def)
  next
    case 2
    have l: "lead_byte (0xC0 + cp div 64) = Some (Suc 0, cp div 64)"
      using 2 by (simp add: lead_byte_def between_def) linarith
    have "read_escape (percent (0xC0 + cp div 64) @ percent (0x80 + cp mod 64) @ s) = Some (cp, s)"
    proof (rule read_escape_lead [OF _ _ l])
      show "0 \<le> 0xC0 + cp div 64" "0xC0 + cp div 64 < 256"
        using 2 by linarith+
      show "continuation (Suc 0) (cp div 64) (percent (0x80 + cp mod 64) @ s) = Some (cp, s)"
        unfolding c using d2 by simp
      show "proper_code_point (Suc 0) cp"
        using 2 by (simp add: proper_code_point_def)
    qed
    with 2 show ?thesis by (simp add: utf8_bytes_def)
  next
    case 3
    have l: "lead_byte (0xE0 + cp div 4096) = Some (Suc (Suc 0), cp div 4096)"
      using 3 by (simp add: lead_byte_def between_def) linarith
    have "read_escape (percent (0xE0 + cp div 4096) @ percent (0x80 + cp div 64 mod 64)
            @ percent (0x80 + cp mod 64) @ s) = Some (cp, s)"
    proof (rule read_escape_lead [OF _ _ l])
      show "0 \<le> 0xE0 + cp div 4096" "0xE0 + cp div 4096 < 256"
        using 3 by linarith+
      show "continuation (Suc (Suc 0)) (cp div 4096)
              (percent (0x80 + cp div 64 mod 64) @ percent (0x80 + cp mod 64) @ s) = Some (cp, s)"
        unfolding c using d2 d3 by simp
      show "proper_code_point (Suc (Suc 0)) cp"
        using 3 r by (simp add: proper_code_point_def between_def)
    qed
    with 3 show ?thesis by (simp add: utf8_bytes_def)
  next
    case 4
    have l: "lead_byte (0xF0 + cp div 262144) = Some (Suc (Suc (Suc 0)), cp div 262144)"
      using 4 r by (simp add: lead_byte_def between_def) linarith
    have "read_escape (percent (0xF0 + cp div 262144) @ percent (0x80 + cp div 4096 mod 64)
            @ percent (0x80 + cp div 64 mod 64) @ percent (0x80 + cp mod 64) @ s) = Some (cp, s)"
    proof (rule read_escape_lead [OF _ _ l])
      show "0 \<le> 0xF0 + cp div 262144" "0xF0 + cp div 262144 < 256"
        using 4 r by linarith+
      show "continuation (Suc (Suc (Suc 0))) (cp div 262144)
              (percent (0x80 + cp div 4096 mod 64) @ percent (0x80 + cp div 64 mod 64)
               @ percent (0x80 + cp mod 64) @ s) = Some (cp, s)"
        unfolding c using d2 d3 d4 by simp
      show "proper_code_point (Suc (Suc (Suc 0))) cp"
        using 4 r by (simp add: proper_code_point_def)
    qed
    with 4 show ?thesis by (simp add: utf8_bytes_def)
  qed
qed

lemma percent_all_not_Nil: "utf8_bytes cp \<noteq> []"
  by (simp add: utf8_bytes_def)

lemma decode_percent:
  assumes "scalar_value cp"
  shows "decodeURIComponent (percent_all (utf8_bytes cp) @ s)
         = bindR (decodeURIComponent s) (\<lambda>t. Inr (utf16_units cp @ t))"
proof -
  obtain b bs where bs: "utf8_bytes cp = b # bs"
    using percent_all_not_Nil by (cases "utf8_bytes cp") auto
  show ?thesis
    using read_escape_utf8 [OF assms, of s] by (simp add: bs percent_def)
qed

lemma percent_not_unescaped: "\<not> uri_unescaped 37"
  by (simp add: uri_unescaped_def unit_defs)

lemma scalar_pair:
  assumes "high_surrogate h" "low_surrogate l"
  shows "scalar_value (pair_value h l)"
  using pair_value_bounds [OF assms]
  by (simp add: scalar_value_def high_surrogate_def low_surrogate_def between_def)

lemma decode_encode:
  "js_units s \<Longrightarrow> encodeURIComponent s = Inr t \<Longrightarrow> decodeURIComponent t = Inr s"
proof (induction s arbitrary: t rule: encodeURIComponent.induct)
  case 1
  then show ?case by simp
next
  case (2 u s)
  consider (plain) "uri_unescaped u"
    | (pair) l s' where "\<not> uri_unescaped u" "high_surrogate u" "s = l # s'" "low_surrogate l"
    | (single) "\<not> uri_unescaped u" "\<not> low_surrogate u" "\<not> high_surrogate u"
    using "2.prems"(2) by (auto split: if_splits list.splits)
  then show ?case
  proof cases
    case plain
    with "2.prems" obtain r where r: "encodeURIComponent s = Inr r" "t = u # r"
      by (auto simp: bindR_Inr_iff)
    moreover have "u \<noteq> 37" using plain percent_not_unescaped by auto
    ultimately show ?thesis using "2.IH"(1) [OF plain _ r(1)] "2.prems"(1) by simp
  next
    case pair
    then have nl: "\<not> low_surrogate u"
      by (auto simp: high_surrogate_def low_surrogate_def between_def)
    with pair "2.prems" obtain r where r: "encodeURIComponent s' = Inr r"
        "t = percent_all (utf8_bytes (pair_value u l)) @ r"
      by (auto simp: bindR_Inr_iff)
    then have "decodeURIComponent r = Inr s'"
      using "2.IH"(2) [OF pair(1) nl pair(2,3,4) _ r(1)] "2.prems"(1) pair(3) by simp
    with pair r show ?thesis
      by (simp add: decode_percent scalar_pair utf16_pair)
  next
    case single
    with "2.prems" obtain r where r: "encodeURIComponent s = Inr r"
        "t = percent_all (utf8_bytes u) @ r"
      by (auto simp: bindR_Inr_iff)
    moreover have "scalar_value u" "utf16_units u = [u]"
      using single "2.prems"(1) by (auto simp: scalar_value_def utf16_units_def)
    ultimately show ?thesis
      using "2.IH"(3) [OF single _ r(1)] "2.prems"(1) by (simp add: decode_percent)
  qed
qed

section \<open>What an encoded text is made of\<close>

definition uri_output :: "int \<Rightarrow> bool" where
  "uri_output u \<longleftrightarrow> u = 37 \<or> uri_unescaped u"

lemma hex_digit_output: "0 \<le> n \<Longrightarrow> n < 16 \<Longrightarrow> uri_output (hex_digit n)"
  by (auto simp: uri_output_def uri_unescaped_def hex_digit_def unit_defs)

lemma utf8_bytes_range:
  assumes "0 \<le> cp" "cp \<le> 0x10FFFF" "b \<in> set (utf8_bytes cp)"
  shows "0 \<le> b \<and> b < 256"
proof -
  have six: "0 \<le> 0x80 + x mod 64" "0x80 + x mod 64 < (256 :: int)" for x
    using six_bits [of x] by linarith+
  have mem: "b \<in> {y} \<union> ((\<lambda>x. 0x80 + x mod 64) ` UNIV) \<Longrightarrow> 0 \<le> y \<Longrightarrow> y < 256 \<Longrightarrow> 0 \<le> b \<and> b < 256" for y
    using six by auto
  have sub: "set (utf8_bytes cp) \<subseteq> {hd (utf8_bytes cp)} \<union> ((\<lambda>x. 0x80 + x mod 64) ` UNIV)"
    by (simp add: utf8_bytes_def)
  have "0 \<le> hd (utf8_bytes cp) \<and> hd (utf8_bytes cp) < 256"
  proof -
    consider "cp < 0x80" | "0x80 \<le> cp" "cp < 0x800" | "0x800 \<le> cp" "cp < 0x10000"
      | "0x10000 \<le> cp" by linarith
    then show ?thesis
      using assms(1,2) by cases (simp add: utf8_bytes_def)+
  qed
  then show ?thesis using mem sub assms(3) by blast
qed

lemma percent_all_output:
  assumes "\<forall>b \<in> set bs. 0 \<le> b \<and> b < 256" and "u \<in> set (percent_all bs)"
  shows "uri_output u"
proof -
  from assms(2) obtain b where b: "b \<in> set bs" "u \<in> set (percent b)"
    by (auto simp: percent_all_def)
  with assms(1) have "0 \<le> b div 16" "b div 16 < 16" "0 \<le> b mod 16" "b mod 16 < 16"
    by auto
  with b(2) show ?thesis
    by (auto simp: percent_def hex_digit_output) (simp add: uri_output_def)
qed

lemma encode_output:
  "js_units s \<Longrightarrow> encodeURIComponent s = Inr t \<Longrightarrow> u \<in> set t \<Longrightarrow> uri_output u"
proof (induction s arbitrary: t rule: encodeURIComponent.induct)
  case 1
  then show ?case by simp
next
  case (2 v s)
  have bytes: "uri_output u" if "u \<in> set (percent_all (utf8_bytes cp))" "0 \<le> cp" "cp \<le> 0x10FFFF"
    for cp
    using percent_all_output [of "utf8_bytes cp" u] utf8_bytes_range [of cp] that by blast
  show ?case
  proof (cases "uri_unescaped v")
    case True
    with 2 show ?thesis by (auto simp: bindR_Inr_iff uri_output_def)
  next
    case esc: False
    show ?thesis
    proof (cases "high_surrogate v")
      case True
      then have nl: "\<not> low_surrogate v"
        by (auto simp: high_surrogate_def low_surrogate_def between_def)
      with True esc "2.prems" obtain l s' r where s: "s = l # s'" "low_surrogate l"
        and r: "encodeURIComponent s' = Inr r" "t = percent_all (utf8_bytes (pair_value v l)) @ r"
        by (auto simp: bindR_Inr_iff split: list.splits if_splits)
      show ?thesis
        using "2.prems" s r "2.IH"(2) [OF esc nl True s(1,2) _ r(1)] pair_value_bounds [OF True s(2)]
          bytes [of "pair_value v l"] by auto
    next
      case False
      with esc "2.prems" obtain r where r: "\<not> low_surrogate v" "encodeURIComponent s = Inr r"
          "t = percent_all (utf8_bytes v) @ r"
        by (auto simp: bindR_Inr_iff split: if_splits)
      show ?thesis
        using "2.prems" r "2.IH"(3) [OF esc r(1) False _ r(2)] bytes [of v] by auto
    qed
  qed
qed

text \<open>Encoding fails exactly on a surrogate without its partner.\<close>

fun well_paired :: "js_string \<Rightarrow> bool" where
  "well_paired [] = True"
| "well_paired (u # s) =
     (if low_surrogate u then False
      else if high_surrogate u then (case s of [] \<Rightarrow> False | l # s' \<Rightarrow> low_surrogate l \<and> well_paired s')
      else well_paired s)"

lemma unescaped_no_surrogate:
  "uri_unescaped u \<Longrightarrow> \<not> low_surrogate u \<and> \<not> high_surrogate u"
  by (auto simp: uri_unescaped_def unit_defs low_surrogate_def high_surrogate_def js_def)

lemma encode_well_paired:
  "(\<exists>t. encodeURIComponent s = Inr t) \<longleftrightarrow> well_paired s"
proof (induction s rule: encodeURIComponent.induct)
  case (2 u s)
  then show ?case
    using unescaped_no_surrogate [of u]
    by (cases "uri_unescaped u") (auto simp: bindR_Inr_iff split: list.splits)
qed simp

end
