(* ===== verification/Js_Text.thy ===== *)
theory Js_Text
  imports Js_Base
begin

text \<open>
  Facts on strings that several modules of the bundle share: \<open>split\<close> and \<open>join\<close> on one code unit
  (\<open>split_on\<close> and \<open>join_str\<close> of the prelude), the order of strings by code units, and decimal numerals.
\<close>

section \<open>split and join\<close>

lemma split_on_word: "c \<notin> set w \<Longrightarrow> split_on c w = [w]"
  by (induction w) auto

lemma split_on_append: "c \<notin> set w \<Longrightarrow> split_on c (w @ c # s) = w # split_on c s"
  by (induction w) auto

lemma split_on_join:
  "ws \<noteq> [] \<Longrightarrow> (\<And>w. w \<in> set ws \<Longrightarrow> c \<notin> set w) \<Longrightarrow> split_on c (join_str [c] ws) = ws"
proof (induction "[c]" ws rule: join_str.induct)
  case (3 w v ws)
  then show ?case by (simp add: split_on_append)
qed (simp_all add: split_on_word)

lemma split_on_snoc: "c \<notin> set w \<Longrightarrow> split_on c (s @ c # w) = split_on c s @ [w]"
proof (induction s)
  case (Cons u s)
  obtain v vs where "split_on c s = v # vs" by (cases "split_on c s") auto
  with Cons show ?case by simp
qed (simp add: split_on_word)

section \<open>The order of strings\<close>

fun js_less :: "js_string \<Rightarrow> js_string \<Rightarrow> bool" where
  "js_less s [] \<longleftrightarrow> False"
| "js_less [] (v # t) \<longleftrightarrow> True"
| "js_less (u # s) (v # t) \<longleftrightarrow> u < v \<or> (u = v \<and> js_less s t)"

section \<open>Decimal numerals\<close>

definition digits :: "js_string \<Rightarrow> bool" where
  "digits s \<longleftrightarrow> list_all unit_digit s"

definition decimal_value :: "js_string \<Rightarrow> int" where
  "decimal_value s = foldl (\<lambda>n u. 10 * n + (u - 48)) 0 s"

lemma foldl_decimal: "foldl (\<lambda>n u. 10 * n + (u - 48)) m s = m * 10 ^ length s + decimal_value s"
proof (induction s arbitrary: m)
  case (Cons u s)
  from Cons [of "10 * m + (u - 48)"] Cons [of "u - 48"] show ?case
    by (simp add: decimal_value_def algebra_simps)
qed (simp add: decimal_value_def)

lemma decimal_simps [simp]:
  "decimal_value [] = 0" "decimal_value (u # s) = (u - 48) * 10 ^ length s + decimal_value s"
  using foldl_decimal [of "u - 48" s] by (simp_all add: decimal_value_def)

lemma decimal_bounds: "digits s \<Longrightarrow> 0 \<le> decimal_value s \<and> decimal_value s < 10 ^ length s"
proof (induction s)
  case (Cons u s)
  then have "0 \<le> decimal_value s" "decimal_value s < 10 ^ length s" "0 \<le> u - 48" "u - 48 \<le> 9"
    by (simp_all add: digits_def unit_defs)
  moreover from this have "(u - 48) * 10 ^ length s \<le> 9 * 10 ^ length s"
    and "0 \<le> (u - 48) * 10 ^ length s"
    by (intro mult_right_mono mult_nonneg_nonneg; simp)+
  moreover have "decimal_value (u # s) = (u - 48) * 10 ^ length s + decimal_value s"
    and "(10::int) ^ length (u # s) = 10 * 10 ^ length s"
    by simp_all
  ultimately show ?case by linarith
qed simp

lemma decimal_zeros [simp]: "decimal_value (replicate n 48 @ s) = decimal_value s"
  by (induction n) simp_all

text \<open>Between numerals of one length, the order of strings is the order of numbers.\<close>

lemma numeral_order:
  assumes "length s = length t" "digits s" "digits t"
  shows "(js_less s t \<longleftrightarrow> decimal_value s < decimal_value t)
     \<and> (s = t \<longleftrightarrow> decimal_value s = decimal_value t)"
  using assms
proof (induction s t rule: list_induct2)
  case (Cons u s v t)
  let ?B = "(10::int) ^ length t"
  have b: "0 \<le> decimal_value s" "decimal_value s < ?B" "0 \<le> decimal_value t" "decimal_value t < ?B"
    using Cons.prems decimal_bounds [of s] decimal_bounds [of t] Cons.hyps by (auto simp: digits_def)
  have lt: "x * ?B + decimal_value p < y * ?B + decimal_value q"
    if "x < y" "decimal_value p < ?B" "0 \<le> decimal_value q" for x y p q
  proof -
    have "(x + 1) * ?B \<le> y * ?B" using that(1) by (intro mult_right_mono) simp_all
    with that show ?thesis by (simp add: distrib_right)
  qed
  consider "u < v" | "u = v" | "v < u" by linarith
  then show ?case
  proof cases
    case 1
    then show ?thesis
      using lt [of "u - 48" "v - 48" s t] b Cons.hyps by simp
  next
    case 2
    then show ?thesis
      using Cons by (auto simp: digits_def)
  next
    case 3
    then show ?thesis
      using lt [of "v - 48" "u - 48" t s] b Cons.hyps by simp
  qed
qed simp_all

end
