(* ===== verification/Swagger_Cookie.thy ===== *)
theory Swagger_Cookie
  imports Js_Uri Js_Text
begin

text \<open>
  The cookie module of the Swagger UI bundle (swagger-ui-bundle.js, lines 53 to 59): \<open>parse\<close> reads a
  Cookie header into an object, \<open>serialize\<close> writes one cookie with its attributes.  The result of
  \<open>parse\<close> is the list of the object's own properties in the order they are set.  The \<open>encode\<close> and
  \<open>decode\<close> options are functions on strings that may throw; the other options are given as
  the values the code reads from them.
\<close>

section \<open>parse\<close>

text \<open>\<open>e.split(/; */)\<close>\<close>

definition cookie_pieces :: "js_string \<Rightarrow> js_string list" where
  "cookie_pieces e =
     (case split_on 59 e of
        [] \<Rightarrow> []
      | p # ps \<Rightarrow> p # map (dropWhile (\<lambda>u. u = 32)) ps)"

text \<open>The name and the value of a piece, with one pair of quotes off; \<open>None\<close> without \<open>=\<close>.\<close>

definition cookie_pair :: "js_string \<Rightarrow> (js_string \<times> js_string) option" where
  "cookie_pair l =
     (if 61 \<notin> set l then None
      else let h = js_trim (takeWhile (\<lambda>u. u \<noteq> 61) l);
               f = js_trim (tl (dropWhile (\<lambda>u. u \<noteq> 61) l))
           in Some (h, if f \<noteq> [] \<and> hd f = 34 then butlast (tl f) else f))"

definition try_decode :: "(js_string \<Rightarrow> js_string js_res) \<Rightarrow> js_string \<Rightarrow> js_string" where
  "try_decode t e = (case t e of Inl _ \<Rightarrow> e | Inr d \<Rightarrow> d)"

text \<open>
  \<open>n[h]\<close> on the fresh object \<open>n\<close> also finds what it inherits from \<open>Object.prototype\<close>.
\<close>

definition add_cookie ::
  "(js_string \<Rightarrow> js_string js_res) \<Rightarrow> js_string \<Rightarrow> (js_string \<times> js_string) list
   \<Rightarrow> (js_string \<times> js_string) list" where
  "add_cookie s l n =
     (case cookie_pair l of
        None \<Rightarrow> n
      | Some (h, f) \<Rightarrow>
          if h \<in> fst ` set n \<or> h \<in> set object_members then n
          else n @ [(h, try_decode s f)])"

definition cookie_parse ::
  "(js_string \<Rightarrow> js_string js_res) option \<Rightarrow> js_value \<Rightarrow> (js_string \<times> js_string) list js_res" where
  "cookie_parse decode e =
     (case e of
        JsString str \<Rightarrow>
          let s = (case decode of None \<Rightarrow> decodeURIComponent | Some d \<Rightarrow> d)
          in Inr (fold (add_cookie s) (cookie_pieces str) [])
      | _ \<Rightarrow> Inl (JsTypeError ''argument str must be a string''))"

section \<open>serialize\<close>

text \<open>\<open>/^[\\u0009\\u0020-\\u007e\\u0080-\\u00ff]+$/\<close>\<close>

definition field_content :: "js_string \<Rightarrow> bool" where
  "field_content s \<longleftrightarrow>
     s \<noteq> [] \<and> list_all (\<lambda>u. u = 9 \<or> between 0x20 0x7E u \<or> between 0x80 0xFF u) s"

datatype encoder = DefaultEncoder | Encoder "js_string \<Rightarrow> js_string js_res" | NoFunction

datatype expiry = NoExpiry | UTCString js_string | NoDate

datatype same_site = NoSameSite | SameSiteTrue | SameSiteText js_string | SameSiteOther

text \<open>
  \<open>max_age\<close> is \<open>r.maxAge - 0\<close> where \<open>maxAge\<close> is neither null nor undefined; \<open>domain\<close> and \<open>path\<close> are
  empty where the option is falsy.
\<close>

record cookie_options =
  co_encode :: encoder
  co_max_age :: "js_number option"
  co_domain :: js_string
  co_path :: js_string
  co_expires :: expiry
  co_http_only :: bool
  co_secure :: bool
  co_same_site :: same_site

definition no_options :: cookie_options where
  "no_options =
     \<lparr>co_encode = DefaultEncoder, co_max_age = None, co_domain = [], co_path = [],
      co_expires = NoExpiry, co_http_only = False, co_secure = False, co_same_site = NoSameSite\<rparr>"

text \<open>
  \<open>Math.floor(u)\<close> as a string; a finite value prints in decimal, as JavaScript does below \<open>10^21\<close>.
\<close>

fun floor_text :: "js_number \<Rightarrow> js_string" where
  "floor_text NaN = js ''NaN''"
| "floor_text Infinity = js ''Infinity''"
| "floor_text NegInfinity = js ''-Infinity''"
| "floor_text (Finite q) = js (int_to_string \<lfloor>q\<rfloor>)"

definition checked_attribute :: "js_string \<Rightarrow> string \<Rightarrow> js_string \<Rightarrow> js_string \<Rightarrow> js_string js_res" where
  "checked_attribute value what prefix a =
     (if value = [] then Inr a
      else if field_content value then Inr (a @ prefix @ value)
      else Inl (JsTypeError what))"

definition max_age_attribute :: "js_number option \<Rightarrow> js_string \<Rightarrow> js_string js_res" where
  "max_age_attribute m a =
     (case m of
        None \<Rightarrow> Inr a
      | Some u \<Rightarrow>
          if u = NaN then Inl (JsError ''maxAge should be a Number'')
          else Inr (a @ js ''; Max-Age='' @ floor_text u))"

definition expires_attribute :: "expiry \<Rightarrow> js_string \<Rightarrow> js_string js_res" where
  "expires_attribute x a =
     (case x of
        NoExpiry \<Rightarrow> Inr a
      | NoDate \<Rightarrow> Inl (JsTypeError ''option expires is invalid'')
      | UTCString d \<Rightarrow> Inr (a @ js ''; Expires='' @ d))"

definition same_site_attribute :: "same_site \<Rightarrow> js_string \<Rightarrow> js_string js_res" where
  "same_site_attribute x a =
     (case x of
        NoSameSite \<Rightarrow> Inr a
      | SameSiteTrue \<Rightarrow> Inr (a @ js ''; SameSite=Strict'')
      | SameSiteText s \<Rightarrow>
          if s = [] then Inr a
          else if map ascii_lower s = js ''lax'' then Inr (a @ js ''; SameSite=Lax'')
          else if map ascii_lower s = js ''strict'' then Inr (a @ js ''; SameSite=Strict'')
          else Inl (JsTypeError ''option sameSite is invalid'')
      | SameSiteOther \<Rightarrow> Inl (JsTypeError ''option sameSite is invalid''))"

definition cookie_attributes :: "cookie_options \<Rightarrow> js_string \<Rightarrow> js_string js_res" where
  "cookie_attributes r a =
     bindR (max_age_attribute (co_max_age r) a) (\<lambda>a.
     bindR (checked_attribute (co_domain r) ''option domain is invalid'' (js ''; Domain='') a) (\<lambda>a.
     bindR (checked_attribute (co_path r) ''option path is invalid'' (js ''; Path='') a) (\<lambda>a.
     bindR (expires_attribute (co_expires r) a) (\<lambda>a.
     let a = (if co_http_only r then a @ js ''; HttpOnly'' else a);
         a = (if co_secure r then a @ js ''; Secure'' else a)
     in same_site_attribute (co_same_site r) a))))"

definition encoder_of :: "encoder \<Rightarrow> (js_string \<Rightarrow> js_string js_res) js_res" where
  "encoder_of x =
     (case x of
        DefaultEncoder \<Rightarrow> Inr encodeURIComponent
      | Encoder f \<Rightarrow> Inr f
      | NoFunction \<Rightarrow> Inl (JsTypeError ''option encode is invalid''))"

definition cookie_serialize :: "js_string \<Rightarrow> js_string \<Rightarrow> cookie_options \<Rightarrow> js_string js_res" where
  "cookie_serialize e t r =
     bindR (encoder_of (co_encode r)) (\<lambda>i.
       if \<not> field_content e then Inl (JsTypeError ''argument name is invalid'')
       else bindR (i t) (\<lambda>o'.
         if o' \<noteq> [] \<and> \<not> field_content o' then Inl (JsTypeError ''argument val is invalid'')
         else cookie_attributes r (e @ js ''='' @ o')))"

section \<open>What serialize writes\<close>

lemma attributes_no_options [simp]: "cookie_attributes no_options a = Inr a"
  by (simp add: cookie_attributes_def no_options_def max_age_attribute_def checked_attribute_def
      expires_attribute_def same_site_attribute_def)

lemma uri_output_field: "uri_output u \<Longrightarrow> between 0x20 0x7E u"
  by (auto simp: uri_output_def uri_unescaped_def unit_defs)

lemma encoded_field_content:
  assumes "js_units t" "encodeURIComponent t = Inr x" "x \<noteq> []"
  shows "field_content x"
  using assms(3) encode_output [OF assms(1,2)] uri_output_field
  by (auto simp: field_content_def list_all_iff)

lemma attributes_encoder [simp]:
  "cookie_attributes (r\<lparr>co_encode := x\<rparr>) a = cookie_attributes r a"
  by (simp add: cookie_attributes_def)

lemma encoder_no_options [simp]: "encoder_of (co_encode no_options) = Inr encodeURIComponent"
  by (simp add: encoder_of_def no_options_def)

lemma serialize_no_options:
  assumes "js_units t"
  shows "cookie_serialize e t no_options
         = (if \<not> field_content e then Inl (JsTypeError ''argument name is invalid'')
            else bindR (encodeURIComponent t) (\<lambda>x. Inr (e @ js ''='' @ x)))"
  using encoded_field_content [OF assms]
  by (cases "encodeURIComponent t") (auto simp: cookie_serialize_def)

text \<open>An attribute is appended, or refused.\<close>

lemma max_age_ok: "(\<exists>b. max_age_attribute m a = Inr b) \<longleftrightarrow> m \<noteq> Some NaN"
  by (auto simp: max_age_attribute_def split: option.splits)

lemma checked_ok:
  "(\<exists>b. checked_attribute v what pre a = Inr b) \<longleftrightarrow> v = [] \<or> field_content v"
  by (simp add: checked_attribute_def)

lemma expires_ok: "(\<exists>b. expires_attribute x a = Inr b) \<longleftrightarrow> x \<noteq> NoDate"
  by (cases x) (simp_all add: expires_attribute_def)

definition same_site_valid :: "same_site \<Rightarrow> bool" where
  "same_site_valid x \<longleftrightarrow>
     (case x of
        NoSameSite \<Rightarrow> True | SameSiteTrue \<Rightarrow> True | SameSiteOther \<Rightarrow> False
      | SameSiteText s \<Rightarrow> s = [] \<or> map ascii_lower s \<in> {js ''lax'', js ''strict''})"

lemma same_site_ok: "(\<exists>b. same_site_attribute x a = Inr b) \<longleftrightarrow> same_site_valid x"
  by (cases x) (simp_all add: same_site_attribute_def same_site_valid_def)

lemmas attributes_ok = max_age_ok checked_ok expires_ok same_site_ok

lemma ex_bindR: "(\<exists>b. bindR m f = Inr b) \<longleftrightarrow> (\<exists>x. m = Inr x \<and> (\<exists>b. f x = Inr b))"
  by (cases m) auto

lemma ok_then_ok:
  "(\<And>x. (\<exists>b. f x = Inr b) \<longleftrightarrow> P) \<Longrightarrow> (\<exists>b. bindR m f = Inr b) \<longleftrightarrow> (\<exists>x. m = Inr x) \<and> P"
  by (auto simp: ex_bindR)

lemma cookie_attributes_ok:
  "(\<exists>b. cookie_attributes r a = Inr b) \<longleftrightarrow>
     co_max_age r \<noteq> Some NaN
     \<and> (co_domain r = [] \<or> field_content (co_domain r))
     \<and> (co_path r = [] \<or> field_content (co_path r))
     \<and> co_expires r \<noteq> NoDate \<and> same_site_valid (co_same_site r)"
  unfolding cookie_attributes_def Let_def
  by (subst ok_then_ok, subst ok_then_ok, subst ok_then_ok, subst ok_then_ok)
    (rule attributes_ok refl | simp add: attributes_ok)+

section \<open>Reading a header back\<close>

lemma split_on_join_sep:
  assumes "xs \<noteq> []" and "\<forall>x \<in> set xs. c \<notin> set x" and "c \<notin> set d"
  shows "split_on c (join_str (c # d) xs) = hd xs # map (\<lambda>x. d @ x) (tl xs)"
  using assms
proof (induction "c # d" xs rule: join_str.induct)
  case (3 x y ys)
  have step: "split_on c (d @ z) = (d @ hd (split_on c z)) # tl (split_on c z)" for z
    using "3.prems"(3) by (induction d) (auto split: list.splits)
  from 3 show ?case by (simp add: split_on_append step)
qed (auto simp: split_on_word)

lemma cookie_pieces_join:
  assumes "xs \<noteq> []" and "\<forall>x \<in> set xs. 59 \<notin> set x \<and> x \<noteq> [] \<and> hd x \<noteq> 32"
  shows "cookie_pieces (join_str (js ''; '') xs) = xs"
proof -
  have "dropWhile (\<lambda>u. u = 32) x = x" if "x \<in> set xs" for x
    using assms(2) that by (cases x) auto
  then have "map (\<lambda>x. dropWhile (\<lambda>u. u = 32) (32 # x)) (tl xs) = tl xs"
    using assms(1) by (intro map_idI) (auto dest: list.set_sel(2))
  with assms show ?thesis
    by (simp add: cookie_pieces_def split_on_join_sep o_def)
qed

definition plain_name :: "js_string \<Rightarrow> bool" where
  "plain_name n \<longleftrightarrow>
     field_content n \<and> 61 \<notin> set n \<and> 59 \<notin> set n \<and> \<not> unit_space (hd n) \<and> \<not> unit_space (last n)"

text \<open>A unit that the syntax of a header gives no meaning.\<close>

definition cookie_safe :: "int \<Rightarrow> bool" where
  "cookie_safe u \<longleftrightarrow> u \<noteq> 61 \<and> u \<noteq> 59 \<and> u \<noteq> 34 \<and> \<not> unit_space u"

lemma uri_output_safe: "uri_output u \<Longrightarrow> cookie_safe u"
  by (auto simp: cookie_safe_def uri_output_def uri_unescaped_def unit_defs unit_space_def)

lemma cookie_pair_written:
  assumes "plain_name n" and "\<forall>u \<in> set x. cookie_safe u"
  shows "cookie_pair (n @ js ''='' @ x) = Some (n, x)"
proof -
  have n: "takeWhile (\<lambda>u. u \<noteq> 61) (n @ 61 # x) = n" "tl (dropWhile (\<lambda>u. u \<noteq> 61) (n @ 61 # x)) = x"
    using assms(1) by (auto simp: plain_name_def takeWhile_append dropWhile_append)
  have "js_trim n = n" "js_trim x = x"
    using assms by (auto simp: js_trim_def plain_name_def cookie_safe_def intro!: trim_by_id)
  moreover have "x \<noteq> [] \<Longrightarrow> hd x \<noteq> 34"
    using assms(2) by (auto simp: cookie_safe_def)
  ultimately show ?thesis using n by (auto simp: cookie_pair_def)
qed

text \<open>The first cookie of each name, less the names every object has.\<close>

fun first_of_each :: "(js_string \<times> js_string) list \<Rightarrow> (js_string \<times> js_string) list" where
  "first_of_each [] = []"
| "first_of_each ((n, v) # cs) = (n, v) # filter (\<lambda>c. fst c \<noteq> n) (first_of_each cs)"

lemma fst_first_of_each: "fst ` set (first_of_each cs) = fst ` set cs"
  by (induction cs rule: first_of_each.induct) (auto simp: image_iff)

lemma filter_first_of_each:
  "filter (\<lambda>c. P (fst c)) (first_of_each cs) = first_of_each (filter (\<lambda>c. P (fst c)) cs)"
proof (induction cs rule: first_of_each.induct)
  case (2 n v cs)
  have "filter (\<lambda>c. P (fst c)) (filter (\<lambda>c. fst c \<noteq> n) xs)
        = (if P n then filter (\<lambda>c. fst c \<noteq> n) (filter (\<lambda>c. P (fst c)) xs)
           else filter (\<lambda>c. P (fst c)) xs)" for xs :: "(js_string \<times> js_string) list"
    by (induction xs) auto
  with 2 show ?case by (simp del: filter_filter)
qed simp

definition written ::
  "(js_string \<Rightarrow> js_string js_res) \<Rightarrow> js_string \<times> js_string \<Rightarrow> js_string \<Rightarrow> bool" where
  "written dec c x \<longleftrightarrow>
     plain_name (fst c) \<and>
     (\<exists>e. x = fst c @ js ''='' @ e \<and> (\<forall>u \<in> set e. cookie_safe u)
          \<and> dec e = Inr (snd c))"

lemma add_written:
  assumes "written dec (n, v) x"
  shows "add_cookie dec x acc
         = (if n \<in> fst ` set acc \<or> n \<in> set object_members then acc else acc @ [(n, v)])"
proof -
  from assms obtain e where e: "x = n @ js ''='' @ e" "dec e = Inr v"
    and "plain_name n" "\<forall>u \<in> set e. cookie_safe u"
    by (auto simp: written_def)
  then have "cookie_pair x = Some (n, e)"
    by (simp only: cookie_pair_written)
  with e show ?thesis by (simp add: add_cookie_def try_decode_def)
qed

lemma fold_add_written:
  assumes "list_all2 (written dec) cs xs"
  shows "fold (add_cookie dec) xs acc
         = acc @ first_of_each (filter (\<lambda>c. fst c \<notin> fst ` set acc \<and> fst c \<notin> set object_members) cs)"
  using assms
proof (induction arbitrary: acc rule: list_all2_induct)
  case (Cons c cs x xs)
  obtain n v where c: "c = (n, v)" by (cases c)
  show ?case
  proof (cases "n \<in> fst ` set acc \<or> n \<in> set object_members")
    case True
    with Cons c show ?thesis by (auto simp: add_written)
  next
    case False
    let ?P = "\<lambda>acc c. fst c \<notin> fst ` set acc \<and> fst c \<notin> set object_members"
    have "filter (\<lambda>d. fst d \<noteq> n) (filter (?P acc) cs) = filter (?P (acc @ [(n, v)])) cs"
      by (induction cs) auto
    then have "filter (\<lambda>d. fst d \<noteq> n) (first_of_each (filter (?P acc) cs))
               = first_of_each (filter (?P (acc @ [(n, v)])) cs)"
      by (simp only: filter_first_of_each [where P = "\<lambda>m. m \<noteq> n"])
    with False Cons c show ?thesis by (simp add: add_written)
  qed
qed simp

lemma mapR_list_all2:
  "mapR f xs = Inr ys \<Longrightarrow> list_all2 (\<lambda>x y. f x = Inr y) xs ys"
  by (induction xs arbitrary: ys) (auto simp: bindR_Inr_iff)

lemma parse_written:
  assumes "list_all2 (written dec) cs xs"
  shows "cookie_parse (Some dec) (JsString (join_str (js ''; '') xs))
         = Inr (first_of_each (filter (\<lambda>c. fst c \<notin> set object_members) cs))"
proof (cases "xs = []")
  case True
  with assms show ?thesis
    by (simp add: cookie_parse_def cookie_pieces_def add_cookie_def cookie_pair_def)
next
  case False
  have "59 \<notin> set x \<and> x \<noteq> [] \<and> hd x \<noteq> 32" if "x \<in> set xs" for x
  proof -
    from assms that obtain c where "written dec c x"
      by (metis in_set_conv_nth list_all2_conv_all_nth)
    then obtain e where x: "x = fst c @ 61 # e" and n: "plain_name (fst c)"
      and e: "\<forall>u \<in> set e. cookie_safe u" by (auto simp: written_def)
    have "59 \<notin> set (fst c)" "fst c \<noteq> []" "\<not> unit_space (hd (fst c))" "\<not> cookie_safe 59"
      using n by (auto simp: plain_name_def field_content_def cookie_safe_def)
    moreover have "unit_space 32" by (simp add: unit_space_def)
    ultimately show ?thesis using x e by auto
  qed
  with False have "cookie_pieces (join_str (js ''; '') xs) = xs"
    by (intro cookie_pieces_join) auto
  with fold_add_written [OF assms, of "[]"] show ?thesis
    by (simp add: cookie_parse_def)
qed

section \<open>Cookies over any encoding\<close>

text \<open>
  What the module relies on in an encoder and its decoder: a codec on the admitted texts whose output
  has no separator, quote or white space.
\<close>

locale cookie_codec = codec enc dec texts
  for enc :: "js_string \<Rightarrow> js_string js_res" and dec :: "js_string \<Rightarrow> js_string js_res"
    and texts :: "js_string \<Rightarrow> bool" +
  assumes enc_safe: "texts s \<Longrightarrow> enc s = Inr t \<Longrightarrow> u \<in> set t \<Longrightarrow> cookie_safe u"
begin

lemma serialized_written:
  assumes "cookie_serialize n v (no_options\<lparr>co_encode := Encoder enc\<rparr>) = Inr x"
    and "plain_name n" and "texts v"
  shows "written dec (n, v) x"
proof -
  from assms obtain e where "enc v = Inr e" "x = n @ js ''='' @ e"
    by (auto simp: cookie_serialize_def encoder_of_def bindR_Inr_iff split: if_splits)
  with assms show ?thesis
    by (auto simp: written_def dec_enc enc_safe)
qed

theorem header_round_trip:
  assumes "mapR (\<lambda>(n, v). cookie_serialize n v (no_options\<lparr>co_encode := Encoder enc\<rparr>)) cs = Inr xs"
    and "\<forall>(n, v) \<in> set cs. plain_name n \<and> texts v"
  shows "cookie_parse (Some dec) (JsString (join_str (js ''; '') xs))
         = Inr (first_of_each (filter (\<lambda>c. fst c \<notin> set object_members) cs))"
proof (rule parse_written)
  have "list_all2 (\<lambda>c x. cookie_serialize (fst c) (snd c) (no_options\<lparr>co_encode := Encoder enc\<rparr>) = Inr x) cs xs"
    using mapR_list_all2 [OF assms(1)] by (simp add: case_prod_beta)
  then show "list_all2 (written dec) cs xs"
  proof (rule list.rel_mono_strong)
    fix c x assume "c \<in> set cs" "cookie_serialize (fst c) (snd c) (no_options\<lparr>co_encode := Encoder enc\<rparr>) = Inr x"
    then show "written dec c x"
      using serialized_written [of "fst c" "snd c" x] assms(2) by auto
  qed
qed

end

interpretation uri: cookie_codec encodeURIComponent decodeURIComponent js_units
  by unfold_locales (auto dest: decode_encode intro: uri_output_safe encode_output)

lemma default_encoder: "cookie_serialize n v (no_options\<lparr>co_encode := Encoder encodeURIComponent\<rparr>)
    = cookie_serialize n v no_options"
  by (simp add: cookie_serialize_def cong: if_cong) (simp add: encoder_of_def cong: if_cong)

lemma default_decoder: "cookie_parse (Some decodeURIComponent) e = cookie_parse None e"
  by (cases e) (simp_all add: cookie_parse_def)

end
