(* ===== verification/Swagger_Strings.thy ===== *)
theory Swagger_Strings
  imports Js_Base
begin

text \<open>
  The text modules of the Swagger UI bundle (swagger-ui-bundle.js): the polyfill of
  \<open>String.prototype.repeat\<close> (line 53), \<open>fromCodePoint\<close> (lines 111 and 118), classnames (line 110) and
  pascalcase (line 117).
\<close>

section \<open>repeat\<close>

fun js_truthy :: "js_value \<Rightarrow> bool" where
  "js_truthy JsUndefined = False"
| "js_truthy JsNull = False"
| "js_truthy (JsBoolean b) = b"
| "js_truthy (JsNumber n) = (n \<noteq> NaN \<and> n \<noteq> Finite 0)"
| "js_truthy (JsString s) = (s \<noteq> [])"
| "js_truthy (JsFunction _) = True"
| "js_truthy (JsObject _) = True"

text \<open>\<open>ToInt32\<close>, which the shift operators apply first, and the remainder by two, which keeps the sign.\<close>

definition truncate_rat :: "rat \<Rightarrow> int" where
  "truncate_rat q = (if 0 \<le> q then \<lfloor>q\<rfloor> else \<lceil>q\<rceil>)"

definition rat_int32 :: "rat \<Rightarrow> int" where
  "rat_int32 q = (let m = truncate_rat q mod 2 ^ 32 in if 2 ^ 31 \<le> m then m - 2 ^ 32 else m)"

definition js_mod2 :: "rat \<Rightarrow> rat" where
  "js_mod2 q = q - 2 * of_int (truncate_rat (q / 2))"

text \<open>The loop ends when \<open>n\<close> is zero; it need not: \<open>None\<close> is a loop that does not end.\<close>

partial_function (option) repeat_loop :: "js_string \<Rightarrow> js_string \<Rightarrow> rat \<Rightarrow> js_string option" where
  "repeat_loop r t n =
     (if n = 0 then Some r
      else repeat_loop (if js_mod2 n = 1 then r @ t else r) (if 1 < n then t @ t else t)
             (of_int (rat_int32 n div 2)))"

text \<open>\<open>str\<close> and \<open>num\<close> are the conversions \<open>String\<close> and \<open>Number\<close> of a value.\<close>

definition js_repeat ::
  "(js_value \<Rightarrow> js_string) \<Rightarrow> (js_value \<Rightarrow> js_number) \<Rightarrow> js_value \<Rightarrow> js_value
   \<Rightarrow> js_string js_res option" where
  "js_repeat str num this e =
     (if this = JsNull \<or> this = JsUndefined then Some (Inl (JsTypeError ''''))
      else let t = str this; n = (if js_truthy e then num e else Finite 0)
           in case n of
                NaN \<Rightarrow> map_option Inr (repeat_loop [] t 0)
              | Infinity \<Rightarrow> Some (Inl JsRangeError)
              | NegInfinity \<Rightarrow> Some (Inl JsRangeError)
              | Finite q \<Rightarrow>
                  if q < 0 then Some (Inl JsRangeError) else map_option Inr (repeat_loop [] t q))"

definition copies :: "nat \<Rightarrow> 'a list \<Rightarrow> 'a list" where
  "copies k s = concat (replicate k s)"

lemma copies_simps [simp]: "copies 0 s = []" "copies (Suc k) s = s @ copies k s"
  by (simp_all add: copies_def)

lemma copies_double: "copies k (s @ s) = copies (2 * k) s"
  by (induction k) simp_all

lemma copies_Suc_right: "copies k s @ s = s @ copies k s"
  by (induction k) simp_all

lemma rat_int32_small: "0 \<le> q \<Longrightarrow> q < 2 ^ 31 \<Longrightarrow> rat_int32 q = \<lfloor>q\<rfloor>"
proof -
  assume q: "0 \<le> q" "q < 2 ^ 31"
  then have "0 \<le> \<lfloor>q\<rfloor>" "\<lfloor>q\<rfloor> < 2 ^ 31" by (simp_all add: floor_less_iff)
  with q show ?thesis by (simp add: rat_int32_def truncate_rat_def Let_def)
qed

lemma js_mod2_nat: "js_mod2 (of_nat n) = of_nat (n mod 2)"
proof -
  have "\<lfloor>of_nat n / (2 :: rat)\<rfloor> = int (n div 2)"
    using floor_divide_of_nat_eq [of n 2, where 'a = rat] by simp
  moreover have "(of_nat n :: rat) = 2 * of_nat (n div 2) + of_nat (n mod 2)"
    by (metis mult_div_mod_eq of_nat_add of_nat_mult of_nat_numeral)
  ultimately show ?thesis by (simp add: js_mod2_def truncate_rat_def)
qed

lemma repeat_loop_nat:
  "n < 2 ^ 31 \<Longrightarrow> repeat_loop r t (of_nat n) = Some (r @ copies n t)"
proof (induction n arbitrary: r t rule: less_induct)
  case (less n)
  show ?case
  proof (cases "n = 0")
    case True
    then show ?thesis by (subst repeat_loop.simps) simp
  next
    case False
    have "(of_nat n :: rat) < 2 ^ 31"
      using less.prems by (metis of_nat_less_iff of_nat_numeral of_nat_power)
    then have "rat_int32 (of_nat n) = int n" by (simp add: rat_int32_small)
    then have next_n: "(of_int (rat_int32 (of_nat n) div 2) :: rat) = of_nat (n div 2)"
      by (metis of_int_of_nat_eq zdiv_int of_nat_numeral)
    have n: "n = 2 * (n div 2) + n mod 2" by simp
    have half: "repeat_loop r' t' (of_nat (n div 2)) = Some (r' @ copies (n div 2) t')" for r' t'
      using less False by simp
    show ?thesis
    proof (cases "n = 1")
      case True
      have "rat_int32 1 = 1" using \<open>rat_int32 (of_nat n) = int n\<close> True by simp
      with True show ?thesis
        using half [of "r @ t" t] js_mod2_nat [of 1] by (subst repeat_loop.simps) simp
    next
      case neq: False
      have odd: "js_mod2 (of_nat n) = 1 \<longleftrightarrow> n mod 2 = 1"
        unfolding js_mod2_nat by (metis of_nat_1 of_nat_eq_iff)
      have "r @ (if n mod 2 = 1 then t else []) @ copies (2 * (n div 2)) t = r @ copies n t"
      proof (cases "n mod 2 = 1")
        case True
        then have "n = Suc (2 * (n div 2))" using n by presburger
        then show ?thesis using True copies_simps(2) by metis
      next
        case False
        then have "2 * (n div 2) = n" using n by presburger
        with False show ?thesis by simp
      qed
      moreover have "1 < n" using False neq by simp
      ultimately show ?thesis
        by (subst repeat_loop.simps)
          (auto simp add: next_n odd half copies_double False split: if_splits)
    qed
  qed
qed

lemma repeat_loop_fraction:
  assumes "0 < q" "q < 2 ^ 31" "q \<notin> \<int>"
  shows "repeat_loop [] t q = Some (copies (2 * nat (\<lfloor>q\<rfloor> div 2)) t)"
proof -
  have m: "js_mod2 q \<noteq> 1"
  proof
    assume "js_mod2 q = 1"
    then have "q = of_int (1 + 2 * truncate_rat (q / 2))" by (simp add: js_mod2_def)
    with assms(3) show False by (metis Ints_of_int)
  qed
  have f: "0 \<le> \<lfloor>q\<rfloor>" "\<lfloor>q\<rfloor> < 2 ^ 31" using assms by (simp_all add: floor_less_iff)
  let ?k = "nat (\<lfloor>q\<rfloor> div 2)"
  have k: "(of_int (rat_int32 q div 2) :: rat) = of_nat ?k"
    using f assms by (simp add: rat_int32_small)
  have "\<lfloor>q\<rfloor> div 2 < 2 ^ 31" using f by linarith
  then have small: "?k < 2 ^ 31" using f by simp
  have "repeat_loop [] t q = repeat_loop [] (if 1 < q then t @ t else t) (of_nat ?k)"
    using assms m k by (subst repeat_loop.simps) simp
  also have "\<dots> = Some (copies ?k (if 1 < q then t @ t else t))"
    using repeat_loop_nat [OF small] by simp
  also have "copies ?k (if 1 < q then t @ t else t) = copies (2 * ?k) t"
  proof (cases "1 < q")
    case False
    with assms have "\<lfloor>q\<rfloor> \<le> 1" by (metis floor_mono floor_one not_less)
    moreover have "q \<noteq> 1" using assms(3) by auto
    ultimately have "\<lfloor>q\<rfloor> = 0" using False f by linarith
    then show ?thesis by simp
  qed (simp add: copies_double)
  finally show ?thesis .
qed

text \<open>A negative \<open>n\<close> stays negative under the arithmetic shift.\<close>

lemma rat_int32_int: "- (2 ^ 31) \<le> i \<Longrightarrow> i < 0 \<Longrightarrow> rat_int32 (of_int i) = i"
proof -
  assume i: "- (2 ^ 31) \<le> i" "i < 0"
  have "i mod 2 ^ 32 = (i + 2 ^ 32) mod 2 ^ 32" by simp
  also have "\<dots> = i + 2 ^ 32" using i by (intro mod_pos_pos_trivial) simp_all
  finally show ?thesis using i by (simp add: rat_int32_def truncate_rat_def)
qed

definition negative_int32 :: "rat \<Rightarrow> bool" where
  "negative_int32 q \<longleftrightarrow> (\<exists>i. - (2 ^ 31) \<le> i \<and> i < 0 \<and> q = of_int i)"

lemma repeat_loop_negative:
  assumes "repeat_loop r t n = Some y"
  shows "\<not> negative_int32 n"
proof (rule repeat_loop.raw_induct [OF _ assms, where P = "\<lambda>_ _ n _. \<not> negative_int32 n"])
  fix rec r t n y
  assume IH: "\<And>r t n y. rec r t n = Some y \<Longrightarrow> \<not> negative_int32 n"
    and eq: "(if n = 0 then Some r
              else rec (if js_mod2 n = 1 then r @ t else r) (if 1 < n then t @ t else t)
                     (of_int (rat_int32 n div 2))) = Some y"
  show "\<not> negative_int32 n"
  proof
    assume "negative_int32 n"
    then obtain i where i: "- (2 ^ 31) \<le> i" "i < 0" "n = of_int i"
      by (auto simp: negative_int32_def)
    with eq obtain r' t' where "rec r' t' (of_int (i div 2)) = Some y"
      by (auto simp: rat_int32_int)
    then have "\<not> negative_int32 (of_int (i div 2))" by (rule IH)
    moreover have "- (2 ^ 31) \<le> i div 2" "i div 2 < 0" using i by linarith+
    ultimately show False unfolding negative_int32_def by blast
  qed
qed

lemma repeat_loop_hangs:
  assumes "2 ^ 31 \<le> q" "q < 2 ^ 32"
  shows "repeat_loop r t q = None"
proof (cases "repeat_loop r t q")
  case (Some y)
  have f: "2 ^ 31 \<le> \<lfloor>q\<rfloor>" "\<lfloor>q\<rfloor> < 2 ^ 32"
    using assms by (simp_all add: le_floor_iff floor_less_iff)
  then have "rat_int32 q = \<lfloor>q\<rfloor> - 2 ^ 32"
    using assms by (simp add: rat_int32_def truncate_rat_def)
  moreover have "- 2147483648 \<le> (\<lfloor>q\<rfloor> - 4294967296) div 2" "(\<lfloor>q\<rfloor> - 4294967296) div 2 < 0"
    using f [simplified] by linarith+
  then have "- (2 ^ 31) \<le> (\<lfloor>q\<rfloor> - 2 ^ 32) div 2" "(\<lfloor>q\<rfloor> - 2 ^ 32) div 2 < 0"
    by simp_all
  ultimately have "negative_int32 (of_int (rat_int32 q div 2))"
    unfolding negative_int32_def by metis
  moreover have "q \<noteq> 0" using assms by auto
  then obtain r' t' where "repeat_loop r' t' (of_int (rat_int32 q div 2)) = Some y"
    using Some by (subst (asm) repeat_loop.simps) auto
  ultimately show ?thesis using repeat_loop_negative by blast
qed

section \<open>fromCodePoint\<close>

text \<open>The value of an argument that is a code point.\<close>

definition code_point_of :: "js_number \<Rightarrow> int option" where
  "code_point_of u =
     (case u of
        Finite q \<Rightarrow>
          if q < 0 \<or> 1114111 < q \<or> of_int \<lfloor>q\<rfloor> \<noteq> q then None else Some \<lfloor>q\<rfloor>
      | _ \<Rightarrow> None)"

definition code_point_units :: "int \<Rightarrow> js_string" where
  "code_point_units u =
     (if u \<le> 65535 then [u]
      else let v = u - 65536 in [55296 + v div 1024, v mod 1024 + 56320])"

text \<open>The units collect in \<open>n\<close>, which is flushed into \<open>s\<close> at the end or when it is long.\<close>

fun from_code_point_loop :: "js_number list \<Rightarrow> js_string \<Rightarrow> js_string \<Rightarrow> js_string" where
  "from_code_point_loop [] n s = s"
| "from_code_point_loop (x # xs) n s =
     (case code_point_of x of
        None \<Rightarrow> [65533]
      | Some u \<Rightarrow>
          let n' = n @ code_point_units u
          in if xs = [] \<or> 16384 < length n' then from_code_point_loop xs [] (s @ n')
             else from_code_point_loop xs n' s)"

definition from_code_point_fallback :: "js_number list \<Rightarrow> js_string" where
  "from_code_point_fallback args = (if args = [] then [] else from_code_point_loop args [] [])"

text \<open>
  Where \<open>String.fromCodePoint\<close> exists, it is called on the first argument and a \<open>RangeError\<close> gives the
  replacement character; the built-in function is that of ECMAScript.
\<close>

definition builtin_from_code_point :: "js_number \<Rightarrow> js_string js_res" where
  "builtin_from_code_point x =
     (case code_point_of x of None \<Rightarrow> Inl JsRangeError | Some u \<Rightarrow> Inr (utf16_units u))"

definition from_code_point_native :: "js_number \<Rightarrow> js_string js_res" where
  "from_code_point_native e =
     (case builtin_from_code_point e of
        Inl err \<Rightarrow> if err = JsRangeError then Inr [65533] else Inl err
      | Inr s \<Rightarrow> Inr s)"

text \<open>
  The module exports one of the two, in both of its copies; a missing argument is \<open>undefined\<close>, which is
  no number.
\<close>

definition fromCodePoint_111 :: "bool \<Rightarrow> js_number list \<Rightarrow> js_string js_res" where
  "fromCodePoint_111 native args =
     (if native then from_code_point_native (case args of [] \<Rightarrow> NaN | x # _ \<Rightarrow> x)
      else Inr (from_code_point_fallback args))"

definition fromCodePoint_118 :: "bool \<Rightarrow> js_number list \<Rightarrow> js_string js_res" where
  "fromCodePoint_118 native args =
     (if native then from_code_point_native (case args of [] \<Rightarrow> NaN | x # _ \<Rightarrow> x)
      else Inr (from_code_point_fallback args))"

lemma code_point_units_utf16: "code_point_units u = utf16_units u"
  by (simp add: code_point_units_def utf16_units_def Let_def add.commute)

lemma code_point_of_range: "code_point_of x = Some u \<Longrightarrow> 0 \<le> u \<and> u \<le> 0x10FFFF"
  by (auto simp: code_point_of_def le_floor_iff floor_le_iff not_less split: js_number.splits if_splits)

lemma from_code_point_loop_spec:
  "xs \<noteq> [] \<Longrightarrow> from_code_point_loop xs n s
     = (if None \<in> set (map code_point_of xs) then [65533]
        else s @ n @ concat (map (\<lambda>x. utf16_units (the (code_point_of x))) xs))"
proof (induction xs n s rule: from_code_point_loop.induct)
  case (2 x xs n s)
  show ?case
  proof (cases "code_point_of x")
    case None
    then show ?thesis by simp
  next
    case (Some u)
    then show ?thesis
      using "2.IH" by (cases "xs = []") (auto simp: code_point_units_utf16 Let_def)
  qed
qed simp

text \<open>The code points of a string, as iterating over it yields them.\<close>

fun code_points :: "js_string \<Rightarrow> int list" where
  "code_points [] = []"
| "code_points (u # s) =
     (if high_surrogate u \<and> s \<noteq> [] \<and> low_surrogate (hd s) then pair_value u (hd s) # code_points (tl s)
      else u # code_points s)"

lemma code_points_utf16:
  assumes "scalar_value cp"
  shows "code_points (utf16_units cp @ s) = cp # code_points s"
proof (cases "cp < 0x10000")
  case True
  with assms show ?thesis by (simp add: utf16_units_def scalar_value_def)
next
  case False
  with utf16_scalar [OF assms] show ?thesis by auto
qed

section \<open>classnames\<close>

text \<open>
  An argument of \<open>classNames\<close>; an object is the list of its own enumerable properties.  \<open>shown\<close> prints
  a number.
\<close>

datatype js_data =
    DUndefined | DNull | DBoolean bool | DNumber js_number | DString js_string | DFunction
  | DArray "js_data list" | DObject "(js_string \<times> js_data) list"

fun data_truthy :: "js_data \<Rightarrow> bool" where
  "data_truthy DUndefined = False"
| "data_truthy DNull = False"
| "data_truthy (DBoolean b) = b"
| "data_truthy (DNumber n) = (n \<noteq> NaN \<and> n \<noteq> Finite 0)"
| "data_truthy (DString s) = (s \<noteq> [])"
| "data_truthy DFunction = True"
| "data_truthy (DArray _) = True"
| "data_truthy (DObject _) = True"

text \<open>What one argument pushes.\<close>

fun class_parts :: "(js_number \<Rightarrow> js_string) \<Rightarrow> js_data \<Rightarrow> js_string list" where
  "class_parts shown r =
     (if \<not> data_truthy r then []
      else (case r of
              DString s \<Rightarrow> [s]
            | DNumber n \<Rightarrow> [shown n]
            | DArray xs \<Rightarrow> [join_str [32] (concat (map (class_parts shown) xs))]
            | DObject kvs \<Rightarrow> map fst (filter (\<lambda>p. data_truthy (snd p)) kvs)
            | _ \<Rightarrow> []))"

declare class_parts.simps [simp del]

lemma class_parts_simps [simp]:
  "class_parts shown DUndefined = []" "class_parts shown DNull = []"
  "class_parts shown (DBoolean b) = []" "class_parts shown DFunction = []"
  "class_parts shown (DNumber n) = (if n = NaN \<or> n = Finite 0 then [] else [shown n])"
  "class_parts shown (DString s) = (if s = [] then [] else [s])"
  "class_parts shown (DArray xs) = [join_str [32] (concat (map (class_parts shown) xs))]"
  "class_parts shown (DObject kvs) = map fst (filter (\<lambda>p. data_truthy (snd p)) kvs)"
  by (subst class_parts.simps, simp)+

definition class_names :: "(js_number \<Rightarrow> js_string) \<Rightarrow> js_data list \<Rightarrow> js_string" where
  "class_names shown args = join_str [32] (concat (map (class_parts shown) args))"

text \<open>The class names in an attribute value, and the ones an argument stands for.\<close>

definition class_words :: "js_string \<Rightarrow> js_string list" where
  "class_words s = filter (\<lambda>w. w \<noteq> []) (split_on 32 s)"

fun class_tokens :: "(js_number \<Rightarrow> js_string) \<Rightarrow> js_data \<Rightarrow> js_string list" where
  "class_tokens shown (DString s) = class_words s"
| "class_tokens shown (DNumber n) = (if n = NaN \<or> n = Finite 0 then [] else class_words (shown n))"
| "class_tokens shown (DArray xs) = concat (map (class_tokens shown) xs)"
| "class_tokens shown (DObject kvs) =
     concat (map (\<lambda>p. class_words (fst p)) (filter (\<lambda>p. data_truthy (snd p)) kvs))"
| "class_tokens shown _ = []"

lemma split_on_sep_append: "split_on c (s @ c # t) = split_on c s @ split_on c t"
  by (induction s) (auto split: list.splits)

lemma class_words_join: "class_words (join_str [32] ps) = concat (map class_words ps)"
  by (induction "[32 :: int]" ps rule: join_str.induct)
    (auto simp: class_words_def split_on_sep_append)

lemma class_words_parts: "concat (map class_words (class_parts shown r)) = class_tokens shown r"
proof (induction shown r rule: class_parts.induct)
  case (1 shown r)
  have concat_eq: "concat (map class_words (concat (map (class_parts shown) xs)))
        = concat (map (class_tokens shown) xs)" if "r = DArray xs" for xs
  proof -
    have "\<forall>x \<in> set xs. concat (map class_words (class_parts shown x)) = class_tokens shown x"
      using "1.IH" that by auto
    then show ?thesis by (induction xs) auto
  qed
  show ?case
  proof (cases r)
    case (DArray xs)
    then show ?thesis
      using concat_eq by (simp add: class_words_join)
  qed (auto simp: class_words_def o_def)
qed

lemma class_words_names:
  "class_words (class_names shown args) = concat (map (class_tokens shown) args)"
proof -
  have "concat (map class_words (concat (map (class_parts shown) args)))
        = concat (map (class_tokens shown) args)"
    by (induction args) (simp_all add: class_words_parts)
  then show ?thesis by (simp add: class_names_def class_words_join)
qed

section \<open>pascalcase\<close>

text \<open>\<open>[\\W\_]\<close>\<close>

definition separator :: "int \<Rightarrow> bool" where
  "separator u \<longleftrightarrow> \<not> unit_alnum u"

text \<open>
  \<open>toLowerCase\<close> on a code unit: two characters outside ASCII have an ASCII letter in their lower case;
  what the others become stays outside ASCII, a separator, and does not matter below.
\<close>

definition lower_unit :: "int \<Rightarrow> js_string" where
  "lower_unit u =
     (if u = 0x212A then [107] else if u = 0x130 then [105, 0x307] else [ascii_lower u])"

text \<open>\<open>replace(/([A-Z])/g, " $1")\<close> and \<open>replace(/[\\W\_]+(\\w|$)/g, ...)\<close>\<close>

definition space_capitals :: "js_string \<Rightarrow> js_string" where
  "space_capitals e = concat (map (\<lambda>u. if unit_upper u then [32, u] else [u]) e)"

fun join_words :: "bool \<Rightarrow> js_string \<Rightarrow> js_string" where
  "join_words after [] = []"
| "join_words after (u # s) =
     (if separator u then join_words True s
      else (if after then ascii_upper u else u) # join_words False s)"

text \<open>
  \<open>up\<close> is \<open>toUpperCase\<close> of a text of one unit outside ASCII, the one place where the case of such a
  character shows.
\<close>

definition upper_text :: "(int \<Rightarrow> js_string) \<Rightarrow> int \<Rightarrow> js_string" where
  "upper_text up u = (if u < 128 then [ascii_upper u] else up u)"

definition pascalcase :: "(int \<Rightarrow> js_string) \<Rightarrow> js_value \<Rightarrow> js_string js_res" where
  "pascalcase up e =
     (case e of
        JsString s \<Rightarrow>
          let e1 = space_capitals s in
          if length e1 = 1 then Inr (upper_text up (hd e1))
          else let e2 = concat (map lower_unit (trim_by separator e1));
                   e3 = (case e2 of [] \<Rightarrow> [] | u # us \<Rightarrow> ascii_upper u # us)
               in Inr (join_words False e3)
      | _ \<Rightarrow> Inl (JsTypeError ''expected a string.''))"

lemma separator_not_alnum: "\<not> unit_alnum u \<Longrightarrow> separator u"
  by (simp add: separator_def)

lemma join_words_alnum:
  "u \<in> set (join_words after s) \<Longrightarrow> unit_alnum u"
  by (induction after s rule: join_words.induct)
    (auto simp: separator_def ascii_upper_def unit_defs split: if_splits)

text \<open>On letters and digits with no capital first, the steps undo each other.\<close>

lemma lower_unit_alnum: "unit_alnum u \<Longrightarrow> lower_unit u = [ascii_lower u]"
  by (auto simp: lower_unit_def unit_defs)

lemma lower_unit_space: "lower_unit 32 = [32]"
  by (simp add: lower_unit_def ascii_lower_def unit_defs)

lemma upper_lower: "unit_upper u \<Longrightarrow> ascii_upper (ascii_lower u) = u"
  by (auto simp: ascii_upper_def ascii_lower_def unit_defs)

lemma lower_alnum: "unit_alnum u \<Longrightarrow> unit_alnum (ascii_lower u)"
  by (auto simp: ascii_lower_def unit_defs)

lemma not_upper_lower: "\<not> unit_upper u \<Longrightarrow> ascii_lower u = u"
  by (simp add: ascii_lower_def)

lemma join_words_undo:
  "\<forall>u \<in> set s. unit_alnum u \<Longrightarrow> join_words False (concat (map lower_unit (space_capitals s))) = s"
proof (induction s)
  case (Cons u s)
  have sp: "\<not> unit_alnum 32" by (simp add: unit_defs)
  from Cons show ?case
    by (auto simp: space_capitals_def lower_unit_alnum lower_unit_space sp separator_def upper_lower
        lower_alnum not_upper_lower)
qed (simp add: space_capitals_def)

definition capitalised :: "js_string \<Rightarrow> bool" where
  "capitalised s \<longleftrightarrow> (\<forall>u \<in> set s. unit_alnum u) \<and> (s \<noteq> [] \<longrightarrow> \<not> unit_lower (hd s))"

lemma space_capitals_simps [simp]:
  "space_capitals [] = []"
  "space_capitals (u # s) = (if unit_upper u then [32, u] else [u]) @ space_capitals s"
  by (simp_all add: space_capitals_def)

lemma space_capitals_Nil_iff [simp]: "space_capitals s = [] \<longleftrightarrow> s = []"
  by (cases s) auto

lemma last_space_capitals: "s \<noteq> [] \<Longrightarrow> last (space_capitals s) = last s"
  by (induction s) auto

lemma trim_capitals:
  assumes "capitalised s" "s \<noteq> []"
  shows "trim_by separator (space_capitals s) = hd s # space_capitals (tl s)"
proof -
  obtain u r where s: "s = u # r" using assms by (cases s) auto
  have u: "\<not> separator u" and l: "\<not> separator (last s)"
    using assms s by (auto simp: capitalised_def separator_def)
  have sp: "separator 32" by (simp add: separator_def unit_defs)
  have "trim_by separator (u # space_capitals r) = u # space_capitals r"
    using u l s last_space_capitals [of r] by (intro trim_by_id) (cases "r = []"; simp)
  then show ?thesis
    using s u sp by (simp add: trim_by_def)
qed

lemma pascalcase_capitalised:
  assumes "capitalised s"
  shows "pascalcase up (JsString s) = Inr s"
proof (cases s)
  case Nil
  then show ?thesis by (simp add: pascalcase_def trim_by_def)
next
  case (Cons u r)
  have u: "unit_alnum u" "\<not> unit_lower u" and r: "\<forall>u \<in> set r. unit_alnum u"
    using assms Cons by (auto simp: capitalised_def)
  show ?thesis
  proof (cases "length (space_capitals s) = 1")
    case True
    with Cons have "s = [u]" "\<not> unit_upper u"
      by (auto split: if_splits)
    with u show ?thesis
      by (auto simp: pascalcase_def upper_text_def ascii_upper_def unit_defs)
  next
    case False
    have "ascii_upper (ascii_lower u) = u"
    proof (cases "unit_upper u")
      case False
      with u show ?thesis by (simp add: not_upper_lower ascii_upper_def)
    qed (rule upper_lower)
    moreover have "\<not> separator u" using u by (simp add: separator_def)
    ultimately show ?thesis
      using False trim_capitals [OF assms] Cons u r
      by (simp add: pascalcase_def lower_unit_alnum join_words_undo)
  qed
qed

lemma pascalcase_result:
  assumes "pascalcase up (JsString s) = Inr r" "length (space_capitals s) \<noteq> 1"
  shows "capitalised r"
proof -
  let ?t = "trim_by separator (space_capitals s)"
  let ?e2 = "concat (map lower_unit ?t)"
  show ?thesis
  proof (cases "?t = []")
    case True
    with assms show ?thesis by (simp add: pascalcase_def capitalised_def)
  next
    case False
    then obtain u us where t: "?t = u # us" by (cases ?t) auto
    have "unit_alnum u"
      using trim_by_cases [of separator "space_capitals s"] t by (simp add: separator_def)
    then have "lower_unit u = [ascii_lower u]" and "unit_alnum (ascii_upper (ascii_lower u))"
      and "\<not> unit_lower (ascii_upper (ascii_lower u))"
      by (auto simp: lower_unit_alnum ascii_upper_def ascii_lower_def unit_defs)
    moreover have "\<forall>v \<in> set r. unit_alnum v"
      using assms by (auto simp: pascalcase_def Let_def dest: join_words_alnum)
    ultimately show ?thesis
      using assms t by (auto simp: pascalcase_def capitalised_def separator_def)
  qed
qed

end
