(* ===== verification/Js_Heap.thy ===== *)
theory Js_Heap
  imports Js_Base "HOL-Library.AList"
begin

text \<open>
  Objects of JavaScript for the modules that change them in place: a heap of objects with a kind, a
  prototype and their own enumerable properties in the order they were added.  Reading follows the
  prototype chain; \<open>__proto__\<close> is the accessor that \<open>Object.prototype\<close> (address 0) provides, unless a
  property of that name is found first (\<open>JSON.parse\<close> can make one).  All properties are writable
  data.  Elements of an array are properties under their index; its length grows with them.
  Addresses 1 to 4 are the prototypes of arrays, dates, regular expressions and buffers; an object
  is an instance of one of these classes when its kind says so.
\<close>

section \<open>Objects\<close>

datatype js_kind =
    PlainObject | ArrayObject nat | BufferObject "int list" | DateObject js_number
  | RegExpObject js_string js_string | WrapperObject js_value

record js_object =
  obj_kind :: js_kind
  obj_proto :: "nat option"
  obj_props :: "(js_string \<times> js_value) list"
  obj_symbols :: "(nat \<times> js_value) list"

type_synonym heap = "js_object list"

definition make_object :: "js_kind \<Rightarrow> nat \<Rightarrow> js_object" where
  "make_object kind p =
     \<lparr>obj_kind = kind, obj_proto = Some p, obj_props = [], obj_symbols = []\<rparr>"

definition new_object :: js_object where
  "new_object = make_object PlainObject 0"

definition new_array :: js_object where
  "new_array = make_object (ArrayObject 0) 1"

definition obj_at :: "heap \<Rightarrow> nat \<Rightarrow> js_object" where
  "obj_at h a =
     (if a < length h then h ! a
      else \<lparr>obj_kind = PlainObject, obj_proto = None, obj_props = [], obj_symbols = []\<rparr>)"

definition proto_key :: js_string where
  "proto_key = js ''__proto__''"

definition index_key :: "nat \<Rightarrow> js_string" where
  "index_key i = js (nat_to_string i)"

text \<open>The index a name stands for: its decimal form without leading zeros, below \<open>2^32 - 1\<close>.\<close>

definition index_of_key :: "js_string \<Rightarrow> nat option" where
  "index_of_key k =
     (if k \<noteq> [] \<and> list_all unit_digit k \<and> (hd k \<noteq> 48 \<or> tl k = []) then
        let i = foldl (\<lambda>n u. 10 * n + (u - 48)) 0 k
        in if i < 2 ^ 32 - 1 then Some (nat i) else None
      else None)"

section \<open>Reading\<close>

definition own :: "heap \<Rightarrow> nat \<Rightarrow> js_string \<Rightarrow> js_value option" where
  "own h a k = map_of (obj_props (obj_at h a)) k"

definition keys :: "heap \<Rightarrow> nat \<Rightarrow> js_string list" where
  "keys h a = map fst (obj_props (obj_at h a))"

fun chain :: "nat \<Rightarrow> heap \<Rightarrow> nat \<Rightarrow> nat list" where
  "chain 0 h a = []"
| "chain (Suc n) h a =
     a # (case obj_proto (obj_at h a) of None \<Rightarrow> [] | Some p \<Rightarrow> chain n h p)"

text \<open>What a name leads to: a data property's value or the accessor.\<close>

datatype found = Data js_value | Accessor

fun find_in :: "heap \<Rightarrow> js_string \<Rightarrow> nat list \<Rightarrow> found option" where
  "find_in h k [] = None"
| "find_in h k (x # xs) =
     (case own h x k of
        Some v \<Rightarrow> Some (Data v)
      | None \<Rightarrow> if x = 0 \<and> k = proto_key then Some Accessor else find_in h k xs)"

definition find_property :: "heap \<Rightarrow> nat \<Rightarrow> js_string \<Rightarrow> found option" where
  "find_property h a k = find_in h k (chain (length h) h a)"

definition get :: "heap \<Rightarrow> nat \<Rightarrow> js_string \<Rightarrow> js_value" where
  "get h a k =
     (case find_property h a k of
        None \<Rightarrow> JsUndefined
      | Some (Data v) \<Rightarrow> v
      | Some Accessor \<Rightarrow> (case obj_proto (obj_at h a) of None \<Rightarrow> JsNull | Some p \<Rightarrow> JsObject p))"

section \<open>Writing\<close>

definition grown_kind :: "js_string \<Rightarrow> js_kind \<Rightarrow> js_kind" where
  "grown_kind k kind =
     (case kind of
        ArrayObject n \<Rightarrow> (case index_of_key k of None \<Rightarrow> kind | Some i \<Rightarrow> ArrayObject (max n (Suc i)))
      | _ \<Rightarrow> kind)"

definition put_own :: "heap \<Rightarrow> nat \<Rightarrow> js_string \<Rightarrow> js_value \<Rightarrow> heap" where
  "put_own h a k v =
     h[a := (obj_at h a)\<lparr>obj_props := AList.update k v (obj_props (obj_at h a)),
                         obj_kind := grown_kind k (obj_kind (obj_at h a))\<rparr>]"

text \<open>
  The setter of \<open>__proto__\<close> ignores what is no object or null; the prototype of \<open>Object.prototype\<close>
  cannot be changed, and a chain cannot be closed.
\<close>

definition set_proto :: "heap \<Rightarrow> nat \<Rightarrow> nat option \<Rightarrow> heap js_res" where
  "set_proto h a p =
     (if obj_proto (obj_at h a) = p then Inr h
      else if a = 0 then Inl (JsTypeError ''Immutable prototype object'')
      else if (case p of None \<Rightarrow> False | Some q \<Rightarrow> a \<in> set (chain (length h) h q))
      then Inl (JsTypeError ''Cyclic __proto__ value'')
      else Inr (h[a := (obj_at h a)\<lparr>obj_proto := p\<rparr>]))"

definition put :: "heap \<Rightarrow> nat \<Rightarrow> js_string \<Rightarrow> js_value \<Rightarrow> heap js_res" where
  "put h a k v =
     (if own h a k = None \<and> find_property h a k = Some Accessor then
        (case v of
           JsObject p \<Rightarrow> set_proto h a (Some p)
         | JsNull \<Rightarrow> set_proto h a None
         | _ \<Rightarrow> Inr h)
      else Inr (put_own h a k v))"

section \<open>Lemmas on objects\<close>

lemma obj_at_append [simp]:
  "a < length h \<Longrightarrow> obj_at (h @ hs) a = obj_at h a"
  "obj_at (h @ [x]) (length h) = x"
  by (simp_all add: obj_at_def nth_append)

lemma length_put_own [simp]: "length (put_own h a k v) = length h"
  by (simp add: put_own_def)

lemma obj_at_put_own:
  "obj_at (put_own h a k v) x =
     (if x = a \<and> a < length h
      then (obj_at h a)\<lparr>obj_props := AList.update k v (obj_props (obj_at h a)),
                        obj_kind := grown_kind k (obj_kind (obj_at h a))\<rparr>
      else obj_at h x)"
  by (auto simp: obj_at_def put_own_def)

lemma obj_proto_put_own [simp]: "obj_proto (obj_at (put_own h a k v) x) = obj_proto (obj_at h x)"
  by (simp add: obj_at_put_own)

lemma own_put_own:
  "a < length h \<Longrightarrow> own (put_own h a k v) x l = (if x = a \<and> l = k then Some v else own h x l)"
  by (auto simp: own_def obj_at_put_own update_conv')

lemma make_object_simps [simp]:
  "obj_kind (make_object kind p) = kind" "obj_proto (make_object kind p) = Some p"
  "obj_props (make_object kind p) = []" "obj_symbols (make_object kind p) = []"
  by (simp_all add: make_object_def)

lemma find_in_not_accessor: "k \<noteq> proto_key \<Longrightarrow> find_in h k xs \<noteq> Some Accessor"
  by (induction xs) (auto split: option.splits)

lemma put_plain: "k \<noteq> proto_key \<Longrightarrow> put h a k v = Inr (put_own h a k v)"
  by (simp add: put_def find_property_def find_in_not_accessor)

lemma find_in_data: "find_in h k xs = Some (Data v) \<Longrightarrow> \<exists>x \<in> set xs. own h x k = Some v"
  by (induction xs) (auto split: option.splits if_splits)

lemma get_data:
  assumes "get h a k = JsObject b" "k \<noteq> proto_key"
  shows "\<exists>x \<in> set (chain (length h) h a). own h x k = Some (JsObject b)"
  using assms find_in_data find_in_not_accessor
  by (force simp: get_def find_property_def split: option.splits found.splits)

lemma get_own: "own h a k = Some v \<Longrightarrow> a < length h \<Longrightarrow> get h a k = v"
  by (cases "length h") (auto simp: get_def find_property_def)

section \<open>Regions\<close>

text \<open>
  The objects an object's properties and its prototypes' properties lead to.  A region is closed
  when this never leaves it.
\<close>

definition links :: "heap \<Rightarrow> nat \<Rightarrow> nat set" where
  "links h a = {b. \<exists>k. own h a k = Some (JsObject b)}"

definition proto_rel :: "heap \<Rightarrow> (nat \<times> nat) set" where
  "proto_rel h = {(a, p). obj_proto (obj_at h a) = Some p}"

definition closed_region :: "heap \<Rightarrow> nat set \<Rightarrow> bool" where
  "closed_region h S \<longleftrightarrow> (\<forall>a \<in> S. \<forall>x. (a, x) \<in> (proto_rel h)\<^sup>* \<longrightarrow> links h x \<subseteq> S)"

text \<open>
  A well-formed heap: no dangling reference, the five standard prototypes inherit from each other
  only and have no objects as properties (their methods are functions).
\<close>

definition wf_heap :: "heap \<Rightarrow> bool" where
  "wf_heap h \<longleftrightarrow>
     5 \<le> length h
     \<and> (\<forall>a < length h. links h a \<subseteq> {..<length h}
          \<and> (\<forall>p. obj_proto (obj_at h a) = Some p \<longrightarrow> p < length h))
     \<and> (\<forall>a < 5. links h a = {} \<and> (\<forall>p. obj_proto (obj_at h a) = Some p \<longrightarrow> p < 5))"

definition no_proto_keys :: "heap \<Rightarrow> bool" where
  "no_proto_keys h \<longleftrightarrow> (\<forall>a. own h a proto_key = None)"

definition own_region :: "nat set \<Rightarrow> heap \<Rightarrow> bool" where
  "own_region S h \<longleftrightarrow>
     wf_heap h \<and> no_proto_keys h \<and> S \<subseteq> {5..<length h} \<and> closed_region h S"

lemma chain_rel: "x \<in> set (chain n h a) \<Longrightarrow> (a, x) \<in> (proto_rel h)\<^sup>*"
proof (induction n h a rule: chain.induct)
  case (2 n h a)
  show ?case
  proof (cases "x = a")
    case False
    with "2.prems" obtain p where "obj_proto (obj_at h a) = Some p" "x \<in> set (chain n h p)"
      by (cases "obj_proto (obj_at h a)") auto
    with "2.IH" show ?thesis
      by (auto simp: proto_rel_def intro: converse_rtrancl_into_rtrancl)
  qed simp
qed simp

lemma get_link:
  assumes "get h a k = JsObject b" "k \<noteq> proto_key"
  shows "\<exists>x. (a, x) \<in> (proto_rel h)\<^sup>* \<and> b \<in> links h x"
  using get_data [OF assms] chain_rel by (force simp: links_def)

lemma get_in_region:
  assumes "closed_region h S" "a \<in> S" "get h a k = JsObject b" "k \<noteq> proto_key"
  shows "b \<in> S"
  using get_link [OF assms(3,4)] assms(1,2) by (auto simp: closed_region_def)

lemma wf_chain:
  assumes "(a, x) \<in> (proto_rel h)\<^sup>*" "wf_heap h" "a < length h"
  shows "x < length h"
  using assms by (induction rule: rtrancl_induct) (auto simp: proto_rel_def wf_heap_def)

lemma wf_get:
  assumes "wf_heap h" "a < length h" "get h a k = JsObject b" "k \<noteq> proto_key"
  shows "b < length h"
proof -
  obtain x where x: "(a, x) \<in> (proto_rel h)\<^sup>*" "b \<in> links h x"
    using get_link [OF assms(3,4)] by auto
  have "x < length h" using wf_chain [OF x(1) assms(1,2)] .
  with x(2) assms(1) show ?thesis unfolding wf_heap_def by blast
qed

lemma proto_rel_put_own [simp]: "proto_rel (put_own h a k v) = proto_rel h"
  by (simp add: proto_rel_def)

lemma links_put_own:
  "a < length h \<Longrightarrow> b \<in> links (put_own h a k v) x
     \<Longrightarrow> b \<in> links h x \<or> (x = a \<and> v = JsObject b)"
  by (auto simp: links_def own_put_own split: if_splits)

text \<open>Writing into a region, and adding an object without properties to it.\<close>

lemma own_region_put:
  assumes "own_region S h" "5 \<le> a" "a < length h" "k \<noteq> proto_key"
    and "\<And>b. v = JsObject b \<Longrightarrow> b \<in> S"
  shows "own_region S (put_own h a k v)"
proof -
  have a: "a < length h" "5 \<le> a" and sub: "S \<subseteq> {5..<length h}" and wf: "wf_heap h"
    using assms(1-3) by (auto simp: own_region_def)
  note new = links_put_own [OF a(1)]
  have "wf_heap (put_own h a k v)"
    unfolding wf_heap_def
  proof (intro conjI allI impI)
    show "5 \<le> length (put_own h a k v)" using wf by (simp add: wf_heap_def)
  next
    fix x assume "x < length (put_own h a k v)"
    then show "links (put_own h a k v) x \<subseteq> {..<length (put_own h a k v)}"
      using new wf assms(5) sub by (fastforce simp: wf_heap_def)
  next
    fix x p assume "x < length (put_own h a k v)" "obj_proto (obj_at (put_own h a k v) x) = Some p"
    then show "p < length (put_own h a k v)" using wf by (auto simp: wf_heap_def)
  next
    fix x :: nat assume "x < 5"
    then show "links (put_own h a k v) x = {}"
      using new [of _ k v x] wf a(2) by (auto simp: wf_heap_def)
  next
    fix x p :: nat assume "x < 5" "obj_proto (obj_at (put_own h a k v) x) = Some p"
    then show "p < 5" using wf by (auto simp: wf_heap_def)
  qed
  moreover have "no_proto_keys (put_own h a k v)"
    using assms(1,4) a by (simp add: own_region_def no_proto_keys_def own_put_own)
  moreover have "closed_region (put_own h a k v) S"
    using assms(1,5) new by (fastforce simp: own_region_def closed_region_def)
  ultimately show ?thesis using sub by (simp add: own_region_def)
qed

lemma own_append: "obj_props x = [] \<Longrightarrow> own (h @ [x]) a k = own h a k"
  by (auto simp: own_def obj_at_def nth_append)

lemma links_append: "obj_props x = [] \<Longrightarrow> links (h @ [x]) a = links h a"
  by (simp add: links_def own_append)

lemma proto_append:
  "a \<noteq> length h \<Longrightarrow> obj_proto (obj_at (h @ [x]) a) = obj_proto (obj_at h a)"
  by (auto simp: obj_at_def nth_append)

lemma own_region_alloc:
  assumes R: "own_region S h" and x: "obj_props x = []" "obj_proto x = Some p" "p < 5"
  shows "own_region (insert (length h) S) (h @ [x])"
proof -
  have wf: "wf_heap h" and np: "no_proto_keys h" and sub: "S \<subseteq> {5..<length h}"
    and cl: "closed_region h S"
    using R by (auto simp: own_region_def)
  have len: "5 \<le> length h" using wf by (simp add: wf_heap_def)
  have no_links: "links h (length h) = {}" by (simp add: links_def own_def obj_at_def)
  have std: "y < 5 \<and> links h y = {}" if "(p, y) \<in> (proto_rel (h @ [x]))\<^sup>*" for y
    using that
  proof (induction rule: rtrancl_induct)
    case base
    then show ?case using x(3) wf by (auto simp: wf_heap_def)
  next
    case (step y z)
    then show ?case
      using wf len proto_append [of y h x] by (auto simp: proto_rel_def wf_heap_def)
  qed
  have old: "(a, y) \<in> (proto_rel h)\<^sup>* \<and> y < length h"
    if "(a, y) \<in> (proto_rel (h @ [x]))\<^sup>*" "a < length h" for a y
    using that
  proof (induction rule: rtrancl_induct)
    case (step y z)
    then have "obj_proto (obj_at h y) = Some z" "y < length h"
      using proto_append [of y h x] by (auto simp: proto_rel_def)
    moreover from this have "z < length h" using wf by (auto simp: wf_heap_def)
    ultimately show ?case using step by (auto simp: proto_rel_def intro: rtrancl_into_rtrancl)
  qed simp
  have wfl: "links h a \<subseteq> {..<length h}" "\<And>q. obj_proto (obj_at h a) = Some q \<Longrightarrow> q < length h"
    if "a < length h" for a
    using wf that unfolding wf_heap_def by blast+
  have "wf_heap (h @ [x])"
    unfolding wf_heap_def
  proof (intro conjI allI impI)
    show "5 \<le> length (h @ [x])" using len by simp
  next
    fix a assume "a < length (h @ [x])"
    then show "links (h @ [x]) a \<subseteq> {..<length (h @ [x])}"
      using wfl(1) [of a] no_links by (cases "a = length h") (auto simp: links_append x)
  next
    fix a q assume "a < length (h @ [x])" "obj_proto (obj_at (h @ [x]) a) = Some q"
    then show "q < length (h @ [x])"
      using wfl(2) [of a q] x len proto_append [of a h x] by (cases "a = length h") auto
  next
    fix a :: nat assume "a < 5"
    then show "links (h @ [x]) a = {}" using wf by (simp add: links_append x wf_heap_def)
  next
    fix a q :: nat assume "a < 5" "obj_proto (obj_at (h @ [x]) a) = Some q"
    then show "q < 5" using wf len proto_append [of a h x] by (auto simp: wf_heap_def)
  qed
  moreover have "no_proto_keys (h @ [x])"
    using np by (simp add: no_proto_keys_def own_append x)
  moreover have "closed_region (h @ [x]) (insert (length h) S)"
    unfolding closed_region_def
  proof (intro ballI allI impI)
    fix a y assume a: "a \<in> insert (length h) S" and y: "(a, y) \<in> (proto_rel (h @ [x]))\<^sup>*"
    show "links (h @ [x]) y \<subseteq> insert (length h) S"
    proof (cases "a = length h")
      case True
      from y have "y = a \<or> (p, y) \<in> (proto_rel (h @ [x]))\<^sup>*"
        using x(2) True by (auto simp: proto_rel_def elim: converse_rtranclE)
      then show ?thesis using std no_links True by (auto simp: links_append x)
    next
      case False
      with a sub have "a \<in> S" "a < length h" by auto
      with old [OF y] cl show ?thesis by (auto simp: links_append x closed_region_def)
    qed
  qed
  ultimately show ?thesis using sub len by (fastforce simp: own_region_def)
qed

text \<open>
  A step of an operation that owns the region \<open>S\<close>: it may change the objects of the region and
  add new ones, which then belong to the region; it changes no other object, and no object's class.
\<close>

definition same_class :: "js_kind \<Rightarrow> js_kind \<Rightarrow> bool" where
  "same_class k k' \<longleftrightarrow> (case k of ArrayObject _ \<Rightarrow> \<exists>n. k' = ArrayObject n | _ \<Rightarrow> k' = k)"

lemma same_class_refl [simp]: "same_class k k"
  by (simp add: same_class_def split: js_kind.splits)

lemma same_class_trans: "same_class k k' \<Longrightarrow> same_class k' k'' \<Longrightarrow> same_class k k''"
  by (auto simp: same_class_def split: js_kind.splits)

lemma same_class_grown: "same_class k (grown_kind key k)"
  by (auto simp: same_class_def grown_kind_def split: js_kind.splits option.splits)

definition region_step :: "nat set \<Rightarrow> heap \<Rightarrow> nat set \<Rightarrow> heap \<Rightarrow> bool" where
  "region_step S h S' h' \<longleftrightarrow>
     own_region S' h' \<and> S \<subseteq> S' \<and> S' \<subseteq> S \<union> {length h..} \<and> length h \<le> length h'
     \<and> (\<forall>x < length h. x \<notin> S \<longrightarrow> obj_at h' x = obj_at h x)
     \<and> (\<forall>x < length h. same_class (obj_kind (obj_at h x)) (obj_kind (obj_at h' x)))"

lemma region_step_refl: "own_region S h \<Longrightarrow> region_step S h S h"
  by (simp add: region_step_def)

lemma region_step_trans:
  assumes "region_step S h S' h'" "region_step S' h' S'' h''"
  shows "region_step S h S'' h''"
  unfolding region_step_def
proof (intro conjI allI impI)
  show "own_region S'' h''" "S \<subseteq> S''" "length h \<le> length h''"
    using assms by (auto simp: region_step_def)
  show "S'' \<subseteq> S \<union> {length h..}" using assms by (fastforce simp: region_step_def)
  fix x assume "x < length h" "x \<notin> S"
  moreover from this have "x \<notin> S'" "x < length h'" using assms(1) by (auto simp: region_step_def)
  ultimately show "obj_at h'' x = obj_at h x" using assms by (simp add: region_step_def)
next
  fix x assume "x < length h"
  moreover from this have "x < length h'" using assms(1) by (auto simp: region_step_def)
  ultimately show "same_class (obj_kind (obj_at h x)) (obj_kind (obj_at h'' x))"
    using assms same_class_trans by (meson region_step_def)
qed

lemma region_step_put:
  assumes "own_region S h" "a \<in> S" "k \<noteq> proto_key" "\<And>b. v = JsObject b \<Longrightarrow> b \<in> S"
  shows "region_step S h S (put_own h a k v)"
proof -
  have "5 \<le> a" "a < length h" using assms(1,2) by (auto simp: own_region_def)
  then show ?thesis
    using own_region_put [OF assms(1) _ _ assms(3,4)] assms(2)
    by (auto simp: region_step_def obj_at_put_own same_class_grown)
qed

lemma region_step_alloc:
  assumes "own_region S h" "obj_props x = []" "obj_proto x = Some p" "p < 5"
  shows "region_step S h (insert (length h) S) (h @ [x])"
  using own_region_alloc [OF assms] by (auto simp: region_step_def)

section \<open>Reaching and checking regions\<close>

text \<open>The objects that can be reached from an object through properties, inherited ones included.\<close>

definition reachable :: "heap \<Rightarrow> nat \<Rightarrow> nat set" where
  "reachable h a = {b. (a, b) \<in> {(x, y). \<exists>z. (x, z) \<in> (proto_rel h)\<^sup>* \<and> y \<in> links h z}\<^sup>*}"

lemma reachable_region:
  assumes "closed_region h S" "a \<in> S"
  shows "reachable h a \<subseteq> S"
proof
  fix b assume "b \<in> reachable h a"
  then have "(a, b) \<in> {(x, y). \<exists>z. (x, z) \<in> (proto_rel h)\<^sup>* \<and> y \<in> links h z}\<^sup>*"
    by (simp add: reachable_def)
  then show "b \<in> S"
    by (induction rule: rtrancl_induct) (use assms in \<open>auto simp: closed_region_def\<close>)
qed

text \<open>Checks on a given heap: a set closed under prototypes whose objects link into the region.\<close>

definition object_values :: "heap \<Rightarrow> nat \<Rightarrow> nat list" where
  "object_values h a =
     concat (map (\<lambda>p. case snd p of JsObject b \<Rightarrow> [b] | _ \<Rightarrow> []) (obj_props (obj_at h a)))"

lemma links_object_values: "links h a \<subseteq> set (object_values h a)"
  by (force simp: links_def own_def object_values_def dest: map_of_SomeD)

lemma chain_closed:
  assumes "(a, y) \<in> (proto_rel h)\<^sup>*" "a \<in> C"
    and "\<And>x p. x \<in> C \<Longrightarrow> obj_proto (obj_at h x) = Some p \<Longrightarrow> p \<in> C"
  shows "y \<in> C"
  using assms by (induction rule: rtrancl_induct) (auto simp: proto_rel_def)

definition protos_within :: "heap \<Rightarrow> nat list \<Rightarrow> bool" where
  "protos_within h C \<longleftrightarrow>
     list_all (\<lambda>x. case obj_proto (obj_at h x) of None \<Rightarrow> True | Some p \<Rightarrow> p \<in> set C) C"

lemma closed_region_check:
  assumes "set S \<subseteq> set C" "protos_within h C" "list_all (\<lambda>x. set (object_values h x) \<subseteq> set S) C"
  shows "closed_region h (set S)"
  unfolding closed_region_def
proof (intro ballI allI impI)
  fix a y assume a: "a \<in> set S" and y: "(a, y) \<in> (proto_rel h)\<^sup>*"
  have step: "p \<in> set C" if "x \<in> set C" "obj_proto (obj_at h x) = Some p" for x p
    using bspec [OF assms(2) [unfolded protos_within_def list_all_iff] that(1)] that(2) by simp
  have "a \<in> set C" using a assms(1) by blast
  then have "y \<in> set C" using chain_closed [OF y] step by blast
  then have "set (object_values h y) \<subseteq> set S" using assms(3) by (simp add: list_all_iff)
  with links_object_values show "links h y \<subseteq> set S" by (rule order.trans)
qed

definition wf_heap_check :: "heap \<Rightarrow> bool" where
  "wf_heap_check h \<longleftrightarrow>
     5 \<le> length h
     \<and> list_all (\<lambda>a. list_all (\<lambda>b. b < length h) (object_values h a)
          \<and> (case obj_proto (obj_at h a) of None \<Rightarrow> True | Some p \<Rightarrow> p < length h)) [0..<length h]
     \<and> list_all (\<lambda>a. object_values h a = []
          \<and> (case obj_proto (obj_at h a) of None \<Rightarrow> True | Some p \<Rightarrow> p < 5)) [0..<5]"

lemma wf_heap_check:
  assumes "wf_heap_check h"
  shows "wf_heap h"
proof -
  note c = assms [unfolded wf_heap_check_def list_all_iff set_upt]
  have in_range: "set (object_values h a) \<subseteq> {..<length h}"
      "\<And>p. obj_proto (obj_at h a) = Some p \<Longrightarrow> p < length h" if "a < length h" for a
    using bspec [OF c [THEN conjunct2, THEN conjunct1], of a] that by auto
  have std: "object_values h a = []" "\<And>p. obj_proto (obj_at h a) = Some p \<Longrightarrow> p < 5" if "a < 5" for a
    using bspec [OF c [THEN conjunct2, THEN conjunct2], of a] that by auto
  show ?thesis
    unfolding wf_heap_def
  proof (intro conjI allI impI)
    show "5 \<le> length h" using assms by (simp add: wf_heap_check_def)
    show "links h a \<subseteq> {..<length h}" if "a < length h" for a
      using links_object_values in_range(1) [OF that] by (rule order.trans)
    show "links h a = {}" if "a < 5" for a
      using links_object_values [of h a] std(1) [OF that] by simp
  qed (use in_range std in blast)+
qed

lemma no_proto_keys_check:
  assumes "list_all (\<lambda>a. proto_key \<notin> set (keys h a)) [0..<length h]"
  shows "no_proto_keys h"
  unfolding no_proto_keys_def
proof
  fix a show "own h a proto_key = None"
  proof (cases "a < length h")
    case True
    with assms have "proto_key \<notin> set (keys h a)" by (simp add: list_all_iff)
    then show ?thesis by (simp add: own_def keys_def map_of_eq_None_iff)
  qed (simp add: own_def obj_at_def)
qed

definition own_region_check :: "nat list \<Rightarrow> nat list \<Rightarrow> heap \<Rightarrow> bool" where
  "own_region_check S C h \<longleftrightarrow>
     wf_heap_check h \<and> list_all (\<lambda>a. proto_key \<notin> set (keys h a)) [0..<length h]
     \<and> list_all (\<lambda>x. 5 \<le> x \<and> x < length h) S \<and> list_all (\<lambda>x. x \<in> set C) S
     \<and> protos_within h C \<and> list_all (\<lambda>x. list_all (\<lambda>b. b \<in> set S) (object_values h x)) C"

lemma own_region_check: "own_region_check S C h \<Longrightarrow> own_region (set S) h"
  unfolding own_region_check_def own_region_def
  by (intro conjI wf_heap_check no_proto_keys_check closed_region_check [where C = C])
    (auto simp: list_all_iff)

end
