(* ===== verification/Swagger_Extend.thy ===== *)
theory Swagger_Extend
  imports Js_Heap
begin

text \<open>
  The two copies of deep-extend (swagger-ui-bundle.js, lines 26 to 52 and 59 to 85) and the
  \<open>Object.assign\<close> polyfill (lines 1 to 6, and again in swagger-ui-standalone-preset.js) over the heap
  of \<open>Js_Heap\<close>.  deep-extend recurses into the source: the fuel is the depth of calls the stack
  allows, \<open>None\<close> an exhausted stack.
\<close>

section \<open>deep-extend\<close>

definition is_array :: "heap \<Rightarrow> nat \<Rightarrow> bool" where
  "is_array h a \<longleftrightarrow> (case obj_kind (obj_at h a) of ArrayObject _ \<Rightarrow> True | _ \<Rightarrow> False)"

definition array_length :: "heap \<Rightarrow> nat \<Rightarrow> nat" where
  "array_length h a = (case obj_kind (obj_at h a) of ArrayObject n \<Rightarrow> n | _ \<Rightarrow> 0)"

text \<open>\<open>e instanceof Buffer || e instanceof Date || e instanceof RegExp\<close> and the copy of such a value.\<close>

definition is_specific_value :: "heap \<Rightarrow> nat \<Rightarrow> bool" where
  "is_specific_value h a \<longleftrightarrow>
     (case obj_kind (obj_at h a) of
        BufferObject _ \<Rightarrow> True | DateObject _ \<Rightarrow> True | RegExpObject _ _ \<Rightarrow> True | _ \<Rightarrow> False)"

definition clone_specific_value :: "heap \<Rightarrow> nat \<Rightarrow> js_object js_res" where
  "clone_specific_value h a =
     (case obj_kind (obj_at h a) of
        BufferObject bytes \<Rightarrow> Inr (make_object (BufferObject bytes) 4)
      | DateObject t \<Rightarrow> Inr (make_object (DateObject t) 2)
      | RegExpObject src flags \<Rightarrow> Inr (make_object (RegExpObject src flags) 3)
      | _ \<Rightarrow> Inl (JsError ''Unexpected situation''))"

definition object_ref :: "js_value \<Rightarrow> nat option" where
  "object_ref e = (case e of JsObject b \<Rightarrow> Some b | _ \<Rightarrow> None)"

lemma object_ref_eq [simp]:
  "object_ref (JsObject b) = Some b" "object_ref e = Some b \<longleftrightarrow> e = JsObject b"
  by (auto simp: object_ref_def split: js_value.splits)

lemma object_ref_None [simp]: "object_ref e = None \<longleftrightarrow> (\<forall>b. e \<noteq> JsObject b)"
  by (auto simp: object_ref_def split: js_value.splits)

text \<open>The object under the key that is extended in place, if there is one.\<close>

definition merge_target :: "heap \<Rightarrow> nat \<Rightarrow> js_value \<Rightarrow> nat option" where
  "merge_target h b t =
     (if is_array h b \<or> is_specific_value h b then None
      else (case object_ref t of None \<Rightarrow> None | Some c \<Rightarrow> if is_array h c then None else Some c))"

text \<open>
  \<open>clone_object\<close> is the copy of an object value (an array, a specific value or \<open>o({}, e)\<close>),
  \<open>clone_elems\<close> the loop of \<open>deepCloneArray\<close> over the elements present, \<open>assign_keys\<close> the loop over
  \<open>Object.keys(s)\<close>.
\<close>

function (sequential) assign_keys :: "nat \<Rightarrow> heap \<Rightarrow> nat \<Rightarrow> nat \<Rightarrow> js_string list \<Rightarrow> heap run"
  and clone_elems :: "nat \<Rightarrow> heap \<Rightarrow> nat \<Rightarrow> nat \<Rightarrow> nat list \<Rightarrow> heap run"
  and clone_object :: "nat \<Rightarrow> heap \<Rightarrow> nat \<Rightarrow> (heap \<times> nat) run" where
  "assign_keys n h a s [] = Some (Inr h)"
| "assign_keys n h a s (u # us) =
     (let t = get h a u; e = get h s u in
      case object_ref e of
        None \<Rightarrow> bindO (Some (put h a u e)) (\<lambda>h. assign_keys n h a s us)
      | Some b \<Rightarrow>
          if b = a then assign_keys n h a s us
          else (case merge_target h b t of
                  None \<Rightarrow>
                    bindO (clone_object n h b) (\<lambda>(h, r).
                    bindO (Some (put h a u (JsObject r))) (\<lambda>h. assign_keys n h a s us))
                | Some c \<Rightarrow>
                    (case n of
                       0 \<Rightarrow> None
                     | Suc m \<Rightarrow>
                         bindO (assign_keys m h c b (keys h b)) (\<lambda>h.
                         bindO (Some (put h a u (JsObject c))) (\<lambda>h. assign_keys n h a s us)))))"
| "clone_elems n h b r [] = Some (Inr h)"
| "clone_elems n h b r (i # is) =
     (if find_property h b (index_key i) = None then clone_elems n h b r is
      else let e = get h b (index_key i) in
           (case object_ref e of
              None \<Rightarrow> bindO (Some (put h r (index_key i) e)) (\<lambda>h. clone_elems n h b r is)
            | Some c \<Rightarrow>
                bindO (clone_object n h c) (\<lambda>(h, x).
                bindO (Some (put h r (index_key i) (JsObject x))) (\<lambda>h. clone_elems n h b r is))))"
| "clone_object 0 h b = None"
| "clone_object (Suc n) h b =
     (if is_array h b then
        bindO (clone_elems n (h @ [new_array]) b (length h) [0..<array_length h b])
          (\<lambda>h'. Some (Inr (h', length h)))
      else if is_specific_value h b then
        bindO (Some (clone_specific_value h b)) (\<lambda>x. Some (Inr (h @ [x], length h)))
      else bindO (assign_keys n (h @ [new_object]) (length h) b (keys h b))
             (\<lambda>h'. Some (Inr (h', length h))))"
  by pat_completeness auto

termination
  by (relation "measures
        [\<lambda>x. case x of Inl (n, _) \<Rightarrow> n | Inr (Inl (n, _)) \<Rightarrow> n | Inr (Inr (n, _)) \<Rightarrow> n,
         \<lambda>x. case x of Inl (_, _, _, _, us) \<Rightarrow> length us | Inr (Inl (_, _, _, _, is)) \<Rightarrow> length is
             | Inr (Inr _) \<Rightarrow> 0]") auto

text \<open>
  One call \<open>o(t, s, ...)\<close>: \<open>guard\<close> tells the second copy, which skips a \<open>null\<close> source, from the first, where
  \<open>Object.keys(null)\<close> throws.  A target \<open>null\<close> passes the test on its type.
\<close>

definition typeof_object :: "js_value \<Rightarrow> bool" where
  "typeof_object v \<longleftrightarrow> (case v of JsNull \<Rightarrow> True | JsObject _ \<Rightarrow> True | _ \<Rightarrow> False)"

definition extend_from :: "bool \<Rightarrow> nat \<Rightarrow> js_value \<Rightarrow> js_value \<Rightarrow> heap \<Rightarrow> heap run" where
  "extend_from guard n a s h =
     (case s of
        JsNull \<Rightarrow>
          if guard then Some (Inr h)
          else Some (Inl (JsTypeError ''Cannot convert undefined or null to object''))
      | JsObject b \<Rightarrow>
          if is_array h b then Some (Inr h)
          else (case a of
                  JsObject t \<Rightarrow> assign_keys n h t b (keys h b)
                | _ \<Rightarrow> if keys h b = [] then Some (Inr h)
                       else Some (Inl (JsTypeError ''Cannot read property of null'')))
      | _ \<Rightarrow> Some (Inr h))"

fun extend_all :: "bool \<Rightarrow> nat \<Rightarrow> js_value \<Rightarrow> js_value list \<Rightarrow> heap \<Rightarrow> heap run" where
  "extend_all guard n a [] h = Some (Inr h)"
| "extend_all guard n a (s # ss) h = bindO (extend_from guard n a s h) (extend_all guard n a ss)"

definition deep_extend :: "bool \<Rightarrow> nat \<Rightarrow> heap \<Rightarrow> js_value list \<Rightarrow> (heap \<times> js_value) run" where
  "deep_extend guard n h args =
     (case args of
        [] \<Rightarrow> Some (Inr (h, JsBoolean False))
      | a # sources \<Rightarrow>
          if \<not> typeof_object a then Some (Inr (h, JsBoolean False))
          else if sources = [] then Some (Inr (h, a))
          else bindO (extend_all guard n a sources h) (\<lambda>h'. Some (Inr (h', a))))"

definition deepExtend_26 :: "nat \<Rightarrow> heap \<Rightarrow> js_value list \<Rightarrow> (heap \<times> js_value) run" where
  "deepExtend_26 = deep_extend False"

definition deepExtend_59 :: "nat \<Rightarrow> heap \<Rightarrow> js_value list \<Rightarrow> (heap \<times> js_value) run" where
  "deepExtend_59 = deep_extend True"

section \<open>What an extension changes\<close>

text \<open>
  A run that stays within the region it owns: it raises nothing and what it returns is a step of the
  region, for \<open>clone_object\<close> with the new object in it.
\<close>

definition stays :: "nat set \<Rightarrow> heap \<Rightarrow> heap run \<Rightarrow> bool" where
  "stays S h m \<longleftrightarrow>
     (case m of
        None \<Rightarrow> True | Some (Inl _) \<Rightarrow> False
      | Some (Inr h') \<Rightarrow> \<exists>S'. region_step S h S' h')"

definition stays_with :: "nat set \<Rightarrow> heap \<Rightarrow> (heap \<times> nat) run \<Rightarrow> bool" where
  "stays_with S h m \<longleftrightarrow>
     (case m of
        None \<Rightarrow> True | Some (Inl _) \<Rightarrow> False
      | Some (Inr (h', r)) \<Rightarrow> \<exists>S'. region_step S h S' h' \<and> r \<in> S')"

lemma stays_trans:
  assumes "region_step S h S' h'" "stays S' h' m"
  shows "stays S h m"
proof (cases m)
  case (Some x)
  with assms(2) obtain h'' S'' where "x = Inr h''" "region_step S' h' S'' h''"
    by (cases x) (auto simp: stays_def)
  with region_step_trans [OF assms(1)] Some show ?thesis by (auto simp: stays_def)
qed (simp add: stays_def)

lemma stays_bind:
  assumes "stays S h m" and "\<And>h' S'. region_step S h S' h' \<Longrightarrow> stays S' h' (f h')"
  shows "stays S h (bindO m f)"
proof (cases m)
  case (Some x)
  with assms(1) obtain h' S' where "x = Inr h'" "region_step S h S' h'"
    by (cases x) (auto simp: stays_def)
  with stays_trans assms(2) Some show ?thesis by auto
qed (simp add: stays_def)

lemma stays_with_bind:
  assumes "stays_with S h m"
    and "\<And>h' S' r. region_step S h S' h' \<Longrightarrow> r \<in> S' \<Longrightarrow> stays S' h' (f (h', r))"
  shows "stays S h (bindO m f)"
proof (cases m)
  case (Some x)
  with assms(1) obtain h' r S' where "x = Inr (h', r)" "region_step S h S' h'" "r \<in> S'"
    by (cases x) (auto simp: stays_with_def)
  with stays_trans assms(2) Some show ?thesis by auto
qed (simp add: stays_def)

lemma stays_put:
  assumes "own_region S h" "a \<in> S" "k \<noteq> proto_key" "\<And>b. v = JsObject b \<Longrightarrow> b \<in> S"
    and "\<And>h'. own_region S h' \<Longrightarrow> length h' = length h \<Longrightarrow> stays S h' (f h')"
  shows "stays S h (bindO (Some (put h a k v)) f)"
proof -
  have step: "region_step S h S (put_own h a k v)" by (rule region_step_put [OF assms(1-4)])
  then have "stays S (put_own h a k v) (f (put_own h a k v))"
    by (intro assms(5)) (auto simp: region_step_def)
  then show ?thesis
    using stays_trans [OF step] assms(3) by (simp add: put_plain)
qed

lemma stays_fresh:
  assumes "own_region S h" "obj_props x = []" "obj_proto x = Some p" "p < 5"
    and "own_region (insert (length h) S) (h @ [x]) \<Longrightarrow> stays (insert (length h) S) (h @ [x]) m"
  shows "stays_with S h (bindO m (\<lambda>h'. Some (Inr (h', length h))))"
proof -
  let ?T = "insert (length h) S"
  have step: "region_step S h ?T (h @ [x])"
    by (rule region_step_alloc [OF assms(1-4)])
  then have run: "stays ?T (h @ [x]) m"
    by (intro assms(5)) (simp add: region_step_def)
  show ?thesis
  proof (cases m)
    case (Some y)
    with run obtain h' S' where y: "y = Inr h'" "region_step ?T (h @ [x]) S' h'"
      by (cases y) (auto simp: stays_def)
    have "region_step S h S' h'" by (rule region_step_trans [OF step y(2)])
    moreover have "length h \<in> S'" using y(2) by (auto simp: region_step_def)
    ultimately show ?thesis using Some y(1) by (auto simp: stays_with_def)
  qed (simp add: stays_with_def)
qed

lemma index_key_not_proto: "index_key i \<noteq> proto_key"
proof -
  have "list_all (\<lambda>c. c \<noteq> CHR ''_'') (nat_to_string i)"
  proof (induction i rule: nat_to_string.induct)
    case (1 n)
    have "digit_char d \<noteq> CHR ''_''" if "d < 10" for d
    proof
      assume "digit_char d = CHR ''_''"
      then have "(of_char (char_of (48 + d) :: char) :: nat) = 95" by (simp add: digit_char_def)
      with that show False by simp
    qed
    with 1 show ?case by (subst nat_to_string.simps) auto
  qed
  moreover have "nat_to_string i \<noteq> []" by (subst nat_to_string.simps) simp
  ultimately have "hd (nat_to_string i) \<noteq> CHR ''_''" and ne: "nat_to_string i \<noteq> []"
    by (auto simp: list_all_iff)
  then obtain c cs where "nat_to_string i = c # cs" "c \<noteq> CHR ''_''"
    by (cases "nat_to_string i") auto
  moreover have "(of_char c :: int) = of_char CHR ''_'' \<longleftrightarrow> c = CHR ''_''" for c :: char
    by (rule of_char_eq_iff)
  ultimately show ?thesis by (simp add: index_key_def proto_key_def del: of_char_Char)
qed

lemma keys_not_proto: "no_proto_keys h \<Longrightarrow> proto_key \<notin> set (keys h a)"
  by (auto simp: no_proto_keys_def own_def keys_def map_of_eq_None_iff)

lemma region_step_owns: "region_step S h S' h' \<Longrightarrow> own_region S' h'"
  by (simp add: region_step_def)

lemma own_region_wf: "own_region S h \<Longrightarrow> wf_heap h"
  by (simp add: own_region_def)

lemma stays_refl: "own_region S h \<Longrightarrow> stays S h (Some (Inr h))"
  by (auto simp: stays_def intro: region_step_refl)

lemma extend_stays:
  shows "own_region S h \<Longrightarrow> a \<in> S \<Longrightarrow> s < length h \<Longrightarrow> proto_key \<notin> set us
           \<Longrightarrow> stays S h (assign_keys n h a s us)"
    and "own_region S h \<Longrightarrow> r \<in> S \<Longrightarrow> b < length h \<Longrightarrow> stays S h (clone_elems n h b r is)"
    and "own_region S h \<Longrightarrow> b < length h \<Longrightarrow> stays_with S h (clone_object n h b)"
proof (induction n h a s us and n h b r "is" and n h b arbitrary: S and S and S
    rule: assign_keys_clone_elems_clone_object.induct)
  case (1 n h a s)
  then show ?case by (simp add: stays_refl)
next
  case (2 n h a s u us)
  have wf: "wf_heap h" and cl: "closed_region h S" using "2.prems"(1) by (auto simp: own_region_def)
  have u: "u \<noteq> proto_key" "proto_key \<notin> set us" using "2.prems"(4) by auto
  show ?case
  proof (cases "object_ref (get h s u)")
    case None
    then have "stays S h (bindO (Some (put h a u (get h s u))) (\<lambda>h. assign_keys n h a s us))"
      using "2.prems" u by (intro stays_put "2.IH"(1) [OF refl refl None]) auto
    with None show ?thesis by (simp add: Let_def del: object_ref_None)
  next
    case (Some b)
    then have JsObject: "get h s u = JsObject b" by simp
    have b: "b < length h" using wf_get [OF wf "2.prems"(3) JsObject u(1)] .
    show ?thesis
    proof (cases "b = a")
      case True
      with JsObject "2.IH"(2) "2.prems" show ?thesis by simp
    next
      case neq: False
      show ?thesis
      proof (cases "merge_target h b (get h a u)")
        case None
        have "stays S h (bindO (clone_object n h b) (\<lambda>(h, r).
                bindO (Some (put h a u (JsObject r))) (\<lambda>h. assign_keys n h a s us)))"
        proof (rule stays_with_bind)
          show "stays_with S h (clone_object n h b)"
            using "2.IH"(3) JsObject neq None "2.prems"(1) b by simp
        next
          fix h1 S1 r assume st: "region_step S h S1 h1" and r: "r \<in> S1"
          have "a \<in> S1" "s < length h1" using st "2.prems" by (auto simp: region_step_def)
          with st r u show "stays S1 h1 (case (h1, r) of (h, r) \<Rightarrow>
              bindO (Some (put h a u (JsObject r))) (\<lambda>h. assign_keys n h a s us))"
            using "2.IH"(4) JsObject neq None
            by (auto intro!: stays_put region_step_owns)
        qed
        with JsObject neq None show ?thesis by simp
      next
        case (Some c)
        then have "get h a u = JsObject c"
          by (auto simp: merge_target_def split: if_splits option.splits)
        then have c: "c \<in> S" using get_in_region [OF cl "2.prems"(2) _ u(1)] by simp
        show ?thesis
        proof (cases n)
          case 0
          with JsObject neq Some show ?thesis by (simp add: stays_def)
        next
          case (Suc m)
          have np: "proto_key \<notin> set (keys h b)"
            using keys_not_proto "2.prems"(1) by (auto simp: own_region_def)
          have "stays S h (bindO (assign_keys m h c b (keys h b)) (\<lambda>h.
                  bindO (Some (put h a u (JsObject c))) (\<lambda>h. assign_keys n h a s us)))"
          proof (rule stays_bind)
            show "stays S h (assign_keys m h c b (keys h b))"
              using "2.IH"(5) JsObject neq Some Suc "2.prems"(1) c b np by simp
          next
            fix h1 S1 assume st: "region_step S h S1 h1"
            have "a \<in> S1" "s < length h1" "c \<in> S1" using st "2.prems" c by (auto simp: region_step_def)
            with st u show "stays S1 h1 (bindO (Some (put h1 a u (JsObject c)))
                (\<lambda>h. assign_keys n h a s us))"
              using "2.IH"(6) JsObject neq Some Suc
              by (auto intro!: stays_put region_step_owns)
          qed
          with JsObject neq Some Suc show ?thesis by simp
        qed
      qed
    qed
  qed
next
  case (3 n h b r)
  then show ?case by (simp add: stays_refl)
next
  case (4 n h b r i "is")
  show ?case
  proof (cases "find_property h b (index_key i) = None")
    case True
    with 4 show ?thesis by simp
  next
    case present: False
    have wf: "wf_heap h" using "4.prems"(1) by (auto simp: own_region_def)
    show ?thesis
    proof (cases "object_ref (get h b (index_key i))")
      case None
      then have "stays S h (bindO (Some (put h r (index_key i) (get h b (index_key i))))
                   (\<lambda>h. clone_elems n h b r is))"
        using "4.prems" index_key_not_proto
        by (intro stays_put "4.IH"(2) [OF present refl None]) auto
      with None present show ?thesis by (auto simp: Let_def simp del: object_ref_None)
    next
      case (Some c)
      then have JsObject: "get h b (index_key i) = JsObject c" by simp
      have c: "c < length h" using wf_get [OF wf "4.prems"(3) JsObject index_key_not_proto] .
      have "stays S h (bindO (clone_object n h c) (\<lambda>(h, x).
              bindO (Some (put h r (index_key i) (JsObject x))) (\<lambda>h. clone_elems n h b r is)))"
      proof (rule stays_with_bind)
        show "stays_with S h (clone_object n h c)"
          using "4.IH"(3) JsObject present "4.prems"(1) c by simp
      next
        fix h1 S1 x assume st: "region_step S h S1 h1" and x: "x \<in> S1"
        have "r \<in> S1" "b < length h1" using st "4.prems" by (auto simp: region_step_def)
        with st x show "stays S1 h1 (case (h1, x) of (h, x) \<Rightarrow>
            bindO (Some (put h r (index_key i) (JsObject x))) (\<lambda>h. clone_elems n h b r is))"
          using "4.IH"(4) JsObject present index_key_not_proto
          by (auto intro!: stays_put region_step_owns)
      qed
      with JsObject present show ?thesis by auto
    qed
  qed
next
  case (5 h b)
  then show ?case by (simp add: stays_with_def)
next
  case (6 n h b)
  have b: "b < length h" and np: "proto_key \<notin> set (keys h b)"
    using "6.prems" keys_not_proto by (auto simp: own_region_def)
  consider (arr) "is_array h b" | (spec) "\<not> is_array h b" "is_specific_value h b"
    | (plain) "\<not> is_array h b" "\<not> is_specific_value h b" by blast
  then show ?case
  proof cases
    case arr
    then show ?thesis
      using "6.IH"(1) b "6.prems"(1)
      by (auto simp: new_array_def intro!: stays_fresh)
  next
    case spec
    then obtain x where x: "clone_specific_value h b = Inr x" "obj_props x = []"
        "\<exists>p. obj_proto x = Some p \<and> p < 5"
      by (auto simp: is_specific_value_def clone_specific_value_def split: js_kind.splits)
    then have "\<exists>S'. region_step S h S' (h @ [x]) \<and> length h \<in> S'"
      using region_step_alloc [OF "6.prems"(1) x(2)] by blast
    with spec x(1) show ?thesis by (simp add: stays_with_def)
  next
    case plain
    then show ?thesis
      using "6.IH"(2) b np "6.prems"(1)
      by (auto simp: new_object_def intro!: stays_fresh)
  qed
qed

lemma extend_all_stays:
  assumes "own_region S h" "a \<in> S" "\<And>b. JsObject b \<in> set ss \<Longrightarrow> b < length h"
    and "guard \<or> JsNull \<notin> set ss"
  shows "stays S h (extend_all guard n (JsObject a) ss h)"
  using assms
proof (induction ss arbitrary: S h)
  case Nil
  then show ?case by (simp add: stays_refl)
next
  case (Cons s ss)
  have "stays S h (extend_from guard n (JsObject a) s h)"
  proof (cases s)
    case (JsObject b)
    then have "b < length h" "proto_key \<notin> set (keys h b)"
      using Cons.prems keys_not_proto by (auto simp: own_region_def)
    then show ?thesis
      using JsObject Cons.prems extend_stays(1) by (auto simp: extend_from_def stays_refl)
  qed (use Cons.prems in \<open>auto simp: extend_from_def stays_refl\<close>)
  moreover have "stays S' h' (extend_all guard n (JsObject a) ss h')" if "region_step S h S' h'" for S' h'
  proof (rule Cons.IH)
    show "own_region S' h'" "a \<in> S'" using that Cons.prems by (auto simp: region_step_def)
    show "b < length h'" if "JsObject b \<in> set ss" for b
      using that Cons.prems(3) [of b] \<open>region_step S h S' h'\<close> by (auto simp: region_step_def)
    show "guard \<or> JsNull \<notin> set ss" using Cons.prems(4) by auto
  qed
  ultimately show ?case by (simp add: stays_bind)
qed

section \<open>Enough stack for sources without cycles\<close>

text \<open>
  The objects of \<open>R\<close> have no cycle: what the properties of one lead to has a smaller rank; and none of
  them, nor of their prototypes, is in the region that changes.
\<close>

definition ranked :: "nat set \<Rightarrow> nat set \<Rightarrow> (nat \<Rightarrow> nat) \<Rightarrow> heap \<Rightarrow> bool" where
  "ranked S R rank h \<longleftrightarrow>
     (\<forall>x \<in> R. x < length h
        \<and> (\<forall>y. (x, y) \<in> (proto_rel h)\<^sup>* \<longrightarrow> y \<notin> S \<and> (\<forall>b \<in> links h y. b \<in> R \<and> rank b < rank x)))"

lemma ranked_get:
  assumes "ranked S R rank h" "x \<in> R" "get h x k = JsObject b" "k \<noteq> proto_key"
  shows "b \<in> R" "rank b < rank x"
  using get_link [OF assms(3,4)] assms(1,2) by (auto simp: ranked_def)

lemma ranked_step:
  assumes R: "ranked S R rank h" and st: "region_step S h S' h'" and wf: "wf_heap h"
  shows "ranked S' R rank h'"
  unfolding ranked_def
proof (intro ballI conjI allI impI)
  fix x assume x: "x \<in> R"
  then show "x < length h'" using R st by (auto simp: ranked_def region_step_def)
  fix y assume y: "(x, y) \<in> (proto_rel h')\<^sup>*"
  have xl: "x < length h" using R x by (auto simp: ranked_def)
  have same: "obj_at h' z = obj_at h z" if "(x, z) \<in> (proto_rel h)\<^sup>*" for z
    using that st R x wf_chain [OF that wf xl] by (auto simp: region_step_def ranked_def)
  have old: "(x, y) \<in> (proto_rel h)\<^sup>*"
    using y
  proof (induction rule: rtrancl_induct)
    case (step y z)
    then have "(y, z) \<in> proto_rel h" using same [OF step.IH] by (simp add: proto_rel_def)
    with step.IH show ?case by (rule rtrancl_into_rtrancl)
  qed simp
  have yl: "y < length h" by (rule wf_chain [OF old wf xl])
  have "y \<notin> S" using R x old by (auto simp: ranked_def)
  with yl st show "y \<notin> S'" by (auto simp: region_step_def)
  fix b assume "b \<in> links h' y"
  then have "b \<in> links h y" using same [OF old] by (simp add: links_def own_def)
  with R x old show "b \<in> R" "rank b < rank x" by (auto simp: ranked_def)
qed

definition bounded :: "nat set \<Rightarrow> nat set \<Rightarrow> (nat \<Rightarrow> nat) \<Rightarrow> heap \<Rightarrow> bool" where
  "bounded S R rank h \<longleftrightarrow> own_region S h \<and> ranked S R rank h"

lemma bounded_step: "bounded S R rank h \<Longrightarrow> region_step S h S' h' \<Longrightarrow> bounded S' R rank h'"
  using ranked_step [of S R rank h S' h'] own_region_wf [of S h]
  by (simp add: bounded_def region_step_owns)

lemma bounded_facts:
  assumes "bounded S R rank h" "x \<in> R"
  shows "own_region S h" "x < length h" "proto_key \<notin> set (keys h x)"
  using assms keys_not_proto by (auto simp: bounded_def ranked_def own_region_def)

lemma ends_bind:
  assumes "m \<noteq> None" "stays S h m"
    and "\<And>h' S'. region_step S h S' h' \<Longrightarrow> f h' \<noteq> None"
  shows "bindO m f \<noteq> None"
  using assms by (auto simp: stays_def bindO_def split: sum.splits)

lemma ends_with_bind:
  assumes "m \<noteq> None" "stays_with S h m"
    and "\<And>h' S' r. region_step S h S' h' \<Longrightarrow> r \<in> S' \<Longrightarrow> f (h', r) \<noteq> None"
  shows "bindO m f \<noteq> None"
  using assms by (auto simp: stays_with_def bindO_def split: sum.splits)

lemma ends_put:
  assumes "bounded S R rank h" "a \<in> S" "k \<noteq> proto_key" "\<And>b. v = JsObject b \<Longrightarrow> b \<in> S"
    and "\<And>h'. bounded S R rank h' \<Longrightarrow> f h' \<noteq> None"
  shows "bindO (Some (put h a k v)) f \<noteq> None"
proof -
  have "region_step S h S (put_own h a k v)"
    using assms(1) by (intro region_step_put assms(2-4)) (simp_all add: bounded_def)
  then show ?thesis
    using assms(5) bounded_step [OF assms(1)] assms(3) by (simp add: put_plain)
qed

lemma extend_ends:
  shows "bounded S R rank h \<Longrightarrow> a \<in> S \<Longrightarrow> s \<in> R \<Longrightarrow> rank s \<le> n \<Longrightarrow> proto_key \<notin> set us
           \<Longrightarrow> assign_keys n h a s us \<noteq> None"
    and "bounded S R rank h \<Longrightarrow> r \<in> S \<Longrightarrow> b \<in> R \<Longrightarrow> rank b \<le> n \<Longrightarrow> clone_elems n h b r is \<noteq> None"
    and "bounded S R rank h \<Longrightarrow> b \<in> R \<Longrightarrow> rank b < n \<Longrightarrow> clone_object n h b \<noteq> None"
proof (induction n h a s us and n h b r "is" and n h b arbitrary: S and S and S
    rule: assign_keys_clone_elems_clone_object.induct)
  case (2 n h a s u us)
  have u: "u \<noteq> proto_key" "proto_key \<notin> set us" using "2.prems"(5) by auto
  have R: "ranked S R rank h" and cl: "closed_region h S"
    using "2.prems"(1) by (auto simp: bounded_def own_region_def)
  show ?case
  proof (cases "object_ref (get h s u)")
    case None
    then have "bindO (Some (put h a u (get h s u))) (\<lambda>h. assign_keys n h a s us) \<noteq> None"
      using "2.prems" u by (intro ends_put "2.IH"(1) [OF refl refl None]) auto
    with None show ?thesis by (simp add: Let_def del: object_ref_None)
  next
    case e: (Some b)
    then have g: "get h s u = JsObject b" by simp
    have b: "b \<in> R" "rank b < n" using ranked_get [OF R "2.prems"(3) g u(1)] "2.prems"(4) by auto
    note bf = bounded_facts [OF "2.prems"(1) b(1)]
    show ?thesis
    proof (cases "b = a")
      case True
      with g "2.IH"(2) [OF refl refl e True] "2.prems" u show ?thesis by simp
    next
      case neq: False
      show ?thesis
      proof (cases "merge_target h b (get h a u)")
        case None
        have "bindO (clone_object n h b) (\<lambda>(h, r).
                bindO (Some (put h a u (JsObject r))) (\<lambda>h. assign_keys n h a s us)) \<noteq> None"
        proof (rule ends_with_bind)
          show "clone_object n h b \<noteq> None"
            using "2.IH"(3) [OF refl refl e neq None] "2.prems"(1) b by simp
          show "stays_with S h (clone_object n h b)" using extend_stays(3) bf by simp
          fix h1 S1 r assume st: "region_step S h S1 h1" and r: "r \<in> S1"
          have "bounded S1 R rank h1" "a \<in> S1"
            using st bounded_step [OF "2.prems"(1)] "2.prems"(2) by (auto simp: region_step_def)
          then show "(case (h1, r) of (h, r) \<Rightarrow>
              bindO (Some (put h a u (JsObject r))) (\<lambda>h. assign_keys n h a s us)) \<noteq> None"
            unfolding prod.case using u r "2.prems"(3,4)
            by (intro ends_put "2.IH"(4) [OF refl refl e neq None]) auto
        qed
        with g neq None show ?thesis by simp
      next
        case (Some c)
        then have "get h a u = JsObject c"
          by (auto simp: merge_target_def split: if_splits option.splits)
        then have c: "c \<in> S" using get_in_region [OF cl "2.prems"(2) _ u(1)] by simp
        obtain m where m: "n = Suc m" using b(2) by (cases n) auto
        have "bindO (assign_keys m h c b (keys h b)) (\<lambda>h.
                bindO (Some (put h a u (JsObject c))) (\<lambda>h. assign_keys n h a s us)) \<noteq> None"
        proof (rule ends_bind)
          show "assign_keys m h c b (keys h b) \<noteq> None"
            using "2.IH"(5) [OF refl refl e neq Some m] "2.prems"(1) b c bf m by simp
          show "stays S h (assign_keys m h c b (keys h b))" using extend_stays(1) bf c by simp
          fix h1 S1 assume st: "region_step S h S1 h1"
          have "bounded S1 R rank h1" "a \<in> S1" "c \<in> S1"
            using st bounded_step [OF "2.prems"(1)] "2.prems"(2) c by (auto simp: region_step_def)
          then show "bindO (Some (put h1 a u (JsObject c))) (\<lambda>h. assign_keys n h a s us) \<noteq> None"
            using u "2.prems"(3,4)
            by (intro ends_put "2.IH"(6) [OF refl refl e neq Some m]) auto
        qed
        with g neq Some m show ?thesis by simp
      qed
    qed
  qed
next
  case (4 n h b r i "is")
  have R: "ranked S R rank h" using "4.prems"(1) by (simp add: bounded_def)
  show ?case
  proof (cases "find_property h b (index_key i) = None")
    case True
    with 4 show ?thesis by simp
  next
    case present: False
    show ?thesis
    proof (cases "object_ref (get h b (index_key i))")
      case None
      then have "bindO (Some (put h r (index_key i) (get h b (index_key i))))
                   (\<lambda>h. clone_elems n h b r is) \<noteq> None"
        using "4.prems" index_key_not_proto
        by (intro ends_put "4.IH"(2) [OF present refl None]) auto
      with None present show ?thesis by (auto simp: Let_def simp del: object_ref_None)
    next
      case e: (Some c)
      then have g: "get h b (index_key i) = JsObject c" by simp
      have c: "c \<in> R" "rank c < n"
        using ranked_get [OF R "4.prems"(3) g index_key_not_proto] "4.prems"(4) by auto
      have "bindO (clone_object n h c) (\<lambda>(h, x).
              bindO (Some (put h r (index_key i) (JsObject x))) (\<lambda>h. clone_elems n h b r is)) \<noteq> None"
      proof (rule ends_with_bind)
        show "clone_object n h c \<noteq> None"
          using "4.IH"(3) [OF present refl e] "4.prems"(1) c by simp
        show "stays_with S h (clone_object n h c)"
          using extend_stays(3) bounded_facts [OF "4.prems"(1) c(1)] by simp
        fix h1 S1 x assume st: "region_step S h S1 h1" and x: "x \<in> S1"
        have "bounded S1 R rank h1" "r \<in> S1"
          using st bounded_step [OF "4.prems"(1)] "4.prems"(2) by (auto simp: region_step_def)
        then show "(case (h1, x) of (h, x) \<Rightarrow>
            bindO (Some (put h r (index_key i) (JsObject x))) (\<lambda>h. clone_elems n h b r is)) \<noteq> None"
          unfolding prod.case using x "4.prems"(3,4) index_key_not_proto
          by (intro ends_put "4.IH"(4) [OF present refl e]) auto
      qed
      with g present show ?thesis by auto
    qed
  qed
next
  case (6 n h b)
  note bf = bounded_facts [OF "6.prems"(1,2)]
  have fresh: "bounded (insert (length h) S) R rank (h @ [x])"
    if "obj_props x = []" "obj_proto x = Some p" "p < 5" for x p
    using bounded_step [OF "6.prems"(1) region_step_alloc [OF bf(1) that]] .
  have "clone_elems n (h @ [new_array]) b (length h) [0..<array_length h b] \<noteq> None" if "is_array h b"
    using "6.IH"(1) [OF that fresh [of new_array 1]] "6.prems" by (simp add: new_array_def)
  moreover have "assign_keys n (h @ [new_object]) (length h) b (keys h b) \<noteq> None"
    if "\<not> is_array h b" "\<not> is_specific_value h b"
    using "6.IH"(2) [OF that fresh [of new_object 0]] "6.prems" bf by (simp add: new_object_def)
  ultimately show ?case by (auto simp del: not_None_eq)
qed simp_all

lemma extend_all_ends:
  assumes "bounded S R rank h" "a \<in> S"
    and "\<And>b. JsObject b \<in> set ss \<Longrightarrow> b \<in> R \<and> rank b \<le> n" and "guard \<or> JsNull \<notin> set ss"
  shows "extend_all guard n (JsObject a) ss h \<noteq> None"
  using assms
proof (induction ss arbitrary: S h)
  case (Cons s ss)
  have rest: "extend_all guard n (JsObject a) ss h' \<noteq> None" if "region_step S h S' h'" for S' h'
    using that Cons.prems bounded_step [OF Cons.prems(1) that]
    by (intro Cons.IH [of S']) (auto simp: region_step_def)
  show ?case
  proof (cases "\<exists>b. s = JsObject b \<and> \<not> is_array h b")
    case True
    then obtain b where b: "s = JsObject b" "\<not> is_array h b" by blast
    then have R: "b \<in> R" "rank b \<le> n" using Cons.prems(3) [of b] by auto
    note bf = bounded_facts [OF Cons.prems(1) R(1)]
    have "bindO (assign_keys n h a b (keys h b)) (extend_all guard n (JsObject a) ss) \<noteq> None"
      using extend_ends(1) [OF Cons.prems(1,2) R bf(3)]
        extend_stays(1) [OF bf(1) Cons.prems(2) bf(2,3), of n] rest by (rule ends_bind)
    with b show ?thesis by (simp add: extend_from_def)
  next
    case False
    have "extend_all guard n (JsObject a) ss h \<noteq> None"
      using rest [of S h] Cons.prems(1) by (simp add: bounded_def region_step_refl)
    moreover have "extend_from guard n (JsObject a) s h = Some (Inr h)"
      using False Cons.prems(4) by (cases s) (auto simp: extend_from_def)
    ultimately show ?thesis by simp
  qed
qed simp

section \<open>What each key holds afterwards\<close>

text \<open>
  A target that inherits from \<open>Object.prototype\<close> and lies outside the region its properties lead to;
  the source lies outside both.
\<close>

definition plain_target :: "nat set \<Rightarrow> heap \<Rightarrow> nat \<Rightarrow> nat \<Rightarrow> bool" where
  "plain_target T h a s \<longleftrightarrow>
     own_region T h \<and> 5 \<le> a \<and> a < length h \<and> a \<notin> T \<and> links h a \<subseteq> T
     \<and> obj_proto (obj_at h a) = Some 0 \<and> obj_proto (obj_at h 0) = None
     \<and> s < length h \<and> s \<notin> T \<and> s \<noteq> a"

text \<open>
  The value of a key after the source's value \<open>e\<close> was merged into it: \<open>e\<close> itself where it is no object,
  what was there where \<open>e\<close> is the target, the object that was there where both are mergeable, and
  otherwise a new object.
\<close>

definition extended_value :: "heap \<Rightarrow> nat \<Rightarrow> js_string \<Rightarrow> js_value \<Rightarrow> js_value option \<Rightarrow> bool" where
  "extended_value h a u e new \<longleftrightarrow>
     (case object_ref e of
        None \<Rightarrow> new = Some e
      | Some b \<Rightarrow>
          if b = a then new = own h a u
          else (case merge_target h b (get h a u) of
                  None \<Rightarrow> \<exists>r \<ge> length h. new = Some (JsObject r)
                | Some c \<Rightarrow> new = Some (JsObject c)))"

lemma get_plain:
  assumes "plain_target T h a s" "k \<noteq> proto_key"
  shows "get h a k = (case own h a k of Some v \<Rightarrow> v | None \<Rightarrow>
           (case own h 0 k of Some v \<Rightarrow> v | None \<Rightarrow> JsUndefined))"
proof -
  have "5 \<le> length h" using assms(1) by (auto simp: plain_target_def own_region_def wf_heap_def)
  then obtain m where "length h = Suc (Suc m)" by (cases "length h"; cases "length h - 1") auto
  with assms have "chain (length h) h a = [a, 0]" by (simp add: plain_target_def)
  with assms(2) show ?thesis by (simp add: get_def find_property_def split: option.split)
qed

lemma clone_object_address: "clone_object n h b = Some (Inr (h', r)) \<Longrightarrow> r = length h"
  by (cases n) (auto simp: bindO_Inr_iff split: if_splits)

lemma class_tests:
  assumes "same_class (obj_kind (obj_at h x)) (obj_kind (obj_at h' x))"
  shows "is_array h' x = is_array h x" "is_specific_value h' x = is_specific_value h x"
  using assms by (auto simp: same_class_def is_array_def is_specific_value_def split: js_kind.splits)

lemma merge_target_same:
  assumes "\<forall>x < length h. same_class (obj_kind (obj_at h x)) (obj_kind (obj_at h' x))"
    and "b < length h" "\<And>c. t = JsObject c \<Longrightarrow> c < length h"
  shows "merge_target h' b t = merge_target h b t"
  using assms class_tests by (auto simp: merge_target_def split: option.splits)

lemma plain_target_step:
  assumes P: "plain_target T h a s" and st: "region_step T h T1 h1"
    and u: "u \<noteq> proto_key" "\<And>b. v = JsObject b \<Longrightarrow> b \<in> T1"
  shows "plain_target T1 (put_own h1 a u v) a s"
    and "own (put_own h1 a u v) s = own h s"
    and "own (put_own h1 a u v) a k = (if k = u then Some v else own h a k)"
    and "own (put_own h1 a u v) 0 = own h 0"
    and "length h \<le> length (put_own h1 a u v)"
    and "\<forall>x < length h. same_class (obj_kind (obj_at h x)) (obj_kind (obj_at (put_own h1 a u v) x))"
proof -
  have p: "own_region T h" "5 \<le> a" "a < length h" "a \<notin> T" "links h a \<subseteq> T" "s < length h" "s \<notin> T"
      "s \<noteq> a" "obj_proto (obj_at h a) = Some 0" "obj_proto (obj_at h 0) = None"
    using P by (auto simp: plain_target_def)
  have zero: "0 \<notin> T" "0 < length h" using p(1) by (auto simp: own_region_def wf_heap_def)
  have same: "obj_at h1 x = obj_at h x" if "x \<in> {a, s, 0}" for x
    using that st p zero by (auto simp: region_step_def)
  have len: "length h \<le> length h1" and a1: "a \<notin> T1" "s \<notin> T1" and sub: "T \<subseteq> T1"
    using st p by (auto simp: region_step_def)
  have own1: "own h1 x = own h x" if "x \<in> {a, s, 0}" for x
    using same [OF that] by (simp add: own_def fun_eq_iff)
  have al: "a < length h1" using len p by simp
  show "own (put_own h1 a u v) s = own h s" "own (put_own h1 a u v) 0 = own h 0"
    using own1 p al by (auto simp: own_put_own fun_eq_iff)
  show own_a: "own (put_own h1 a u v) a k = (if k = u then Some v else own h a k)" for k
    using own1 al by (simp add: own_put_own)
  show "length h \<le> length (put_own h1 a u v)" using len by simp
  show "\<forall>x < length h. same_class (obj_kind (obj_at h x)) (obj_kind (obj_at (put_own h1 a u v) x))"
    using st same_class_trans same_class_grown
    by (fastforce simp: region_step_def obj_at_put_own)
  have "own_region T1 (put_own h1 a u v)"
    using own_region_put [OF region_step_owns [OF st] p(2) al u] by simp
  moreover have "links (put_own h1 a u v) a \<subseteq> T1"
    using own_a p(5) sub u(2) by (auto simp: links_def split: if_splits)
  ultimately show "plain_target T1 (put_own h1 a u v) a s"
    using p same al len a1 by (simp add: plain_target_def)
qed

lemma extended_value_later:
  assumes "plain_target T h a s" "plain_target T2 h2 a s" "k \<noteq> proto_key"
    and "own h2 a k = own h a k" "own h2 0 = own h 0" "length h \<le> length h2"
    and "\<forall>x < length h. same_class (obj_kind (obj_at h x)) (obj_kind (obj_at h2 x))"
    and "own h s k = Some e" "extended_value h2 a k e new"
  shows "extended_value h a k e new"
proof (cases "object_ref e")
  case None
  with assms(9) show ?thesis by (simp add: extended_value_def del: object_ref_None)
next
  case (Some b)
  have wf: "wf_heap h" "s < length h" "a < length h"
    using assms(1) by (auto simp: plain_target_def own_region_def)
  have "b \<in> links h s" using Some assms(8) by (auto simp: links_def)
  then have b: "b < length h" using wf unfolding wf_heap_def by blast
  have g: "get h2 a k = get h a k"
    using get_plain [OF assms(1,3)] get_plain [OF assms(2,3)] assms(4)
      fun_cong [OF assms(5), of k] by (simp split: option.split)
  have "merge_target h2 b (get h a k) = merge_target h b (get h a k)"
    using merge_target_same [OF assms(7) b] wf_get [OF wf(1,3) _ assms(3)] by blast
  with Some g assms show ?thesis
    by (auto simp: extended_value_def split: if_splits option.splits)
qed

lemma extended_keys:
  assumes "plain_target T h a s" "distinct us" "proto_key \<notin> set us"
    and "\<And>u. u \<in> set us \<Longrightarrow> own h s u = Some (e u)"
    and "assign_keys n h a s us = Some (Inr h')"
  shows "(\<forall>u \<in> set us. extended_value h a u (e u) (own h' a u))
         \<and> (\<forall>k. k \<notin> set us \<longrightarrow> own h' a k = own h a k)"
  using assms
proof (induction us arbitrary: T h)
  case Nil
  then show ?case by simp
next
  case (Cons u us)
  have u: "u \<noteq> proto_key" "u \<notin> set us" using Cons.prems by auto
  have p: "own_region T h" "s < length h" "closed_region h T" "5 \<le> a" "a < length h" "links h a \<subseteq> T"
    using Cons.prems(1) by (auto simp: plain_target_def own_region_def)
  have g: "get h s u = e u" using Cons.prems(4) p(2) by (simp add: get_own)
  have later: ?case
    if st: "region_step T h T1 h1" and v: "\<And>b. v = JsObject b \<Longrightarrow> b \<in> T1"
      and run: "assign_keys n (put_own h1 a u v) a s us = Some (Inr h')"
      and ev: "extended_value h a u (e u) (Some v)" for T1 h1 v
  proof -
    note step = plain_target_step [OF Cons.prems(1) st u(1) v]
    have IH: "(\<forall>k \<in> set us. extended_value (put_own h1 a u v) a k (e k) (own h' a k))
              \<and> (\<forall>k. k \<notin> set us \<longrightarrow> own h' a k = own (put_own h1 a u v) a k)"
      using Cons.prems(2-4) by (intro Cons.IH [OF step(1) _ _ _ run]) (auto simp: step(2))
    have "extended_value h a k (e k) (own h' a k)" if "k \<in> set us" for k
      using that u Cons.prems(3,4) IH
      by (intro extended_value_later [OF Cons.prems(1) step(1) _ _ step(4-6)]) (auto simp: step(3))
    with IH ev u step(3) show ?thesis by auto
  qed
  show ?case
  proof (cases "object_ref (e u)")
    case None
    have "extended_value h a u (e u) (Some (e u))"
      using None by (simp add: extended_value_def del: object_ref_None)
    moreover have "assign_keys n (put_own h a u (e u)) a s us = Some (Inr h')"
      using Cons.prems(5) None u g by (simp add: put_plain Let_def del: object_ref_None)
    ultimately show ?thesis
      using None by (intro later [OF region_step_refl [OF p(1)]]) auto
  next
    case (Some b)
    then have eb: "e u = JsObject b" by simp
    then have gb: "get h s u = JsObject b" using g by simp
    have b: "b < length h" using wf_get [OF own_region_wf [OF p(1)] p(2) gb u(1)] .
    show ?thesis
    proof (cases "b = a")
      case True
      have run: "assign_keys n h a s us = Some (Inr h')" using Cons.prems(5) gb True by simp
      have "(\<forall>k \<in> set us. extended_value h a k (e k) (own h' a k))
            \<and> (\<forall>k. k \<notin> set us \<longrightarrow> own h' a k = own h a k)"
        using Cons.prems by (intro Cons.IH [OF Cons.prems(1) _ _ _ run]) auto
      with u True eb show ?thesis by (simp add: extended_value_def)
    next
      case neq: False
      show ?thesis
      proof (cases "merge_target h b (get h a u)")
        case None
        with Cons.prems(5) gb neq obtain h1 r where c: "clone_object n h b = Some (Inr (h1, r))"
          and run: "assign_keys n (put_own h1 a u (JsObject r)) a s us = Some (Inr h')"
          using u by (auto simp: bindO_Inr_iff put_plain)
        obtain T1 where "region_step T h T1 h1" "r \<in> T1"
          using extend_stays(3) [OF p(1) b, of n] c by (auto simp: stays_with_def)
        moreover have "extended_value h a u (e u) (Some (JsObject r))"
          using None neq eb clone_object_address [OF c] by (simp add: extended_value_def)
        ultimately show ?thesis using run by (intro later) auto
      next
        case (Some c)
        then have gc: "get h a u = JsObject c"
          by (auto simp: merge_target_def split: if_splits option.splits)
        have "own h 0 u \<noteq> Some (JsObject c)"
          using own_region_wf [OF p(1)] by (auto simp: wf_heap_def links_def)
        then have "c \<in> links h a"
          using gc get_plain [OF Cons.prems(1) u(1)] by (auto simp: links_def split: option.splits)
        then have c: "c \<in> T" using p(6) by auto
        obtain m h1 where "n = Suc m" and r: "assign_keys m h c b (keys h b) = Some (Inr h1)"
          and run: "assign_keys n (put_own h1 a u (JsObject c)) a s us = Some (Inr h')"
          using Cons.prems(5) gb neq Some u by (cases n) (auto simp: bindO_Inr_iff put_plain)
        have "stays T h (assign_keys m h c b (keys h b))"
          using p(1) by (intro extend_stays(1) c b) (auto simp: own_region_def keys_not_proto)
        with r obtain T1 where st: "region_step T h T1 h1" by (auto simp: stays_def)
        moreover have "c \<in> T1" using st c by (auto simp: region_step_def)
        moreover have "extended_value h a u (e u) (Some (JsObject c))"
          using Some neq eb by (simp add: extended_value_def)
        ultimately show ?thesis using run by (intro later) auto
      qed
    qed
  qed
qed

section \<open>Object.assign\<close>

text \<open>
  The own enumerable names of \<open>Object(v)\<close> and their values; the characters of a string are its
  properties.  Functions carry no properties here.
\<close>

definition source_keys :: "heap \<Rightarrow> js_value \<Rightarrow> js_string list" where
  "source_keys h v =
     (case v of
        JsObject b \<Rightarrow> keys h b
      | JsString s \<Rightarrow> map index_key [0..<length s]
      | _ \<Rightarrow> [])"

definition source_value :: "heap \<Rightarrow> js_value \<Rightarrow> js_string \<Rightarrow> js_value" where
  "source_value h v k =
     (case v of
        JsObject b \<Rightarrow> get h b k
      | JsString s \<Rightarrow> (case index_of_key k of
                         Some i \<Rightarrow> if i < length s then JsString [s ! i] else JsUndefined
                       | None \<Rightarrow> JsUndefined)
      | _ \<Rightarrow> JsUndefined)"

fun assign_names :: "heap \<Rightarrow> nat \<Rightarrow> js_value \<Rightarrow> js_string list \<Rightarrow> heap js_res" where
  "assign_names h u n [] = Inr h"
| "assign_names h u n (l # ls) =
     bindR (put h u l (source_value h n l)) (\<lambda>h. assign_names h u n ls)"

definition source_symbols :: "heap \<Rightarrow> js_value \<Rightarrow> (nat \<times> js_value) list" where
  "source_symbols h v = (case v of JsObject b \<Rightarrow> obj_symbols (obj_at h b) | _ \<Rightarrow> [])"

definition put_symbol :: "nat \<Rightarrow> (nat \<times> js_value) \<Rightarrow> heap \<Rightarrow> heap" where
  "put_symbol u p h =
     h[u := (obj_at h u)\<lparr>obj_symbols := AList.update (fst p) (snd p) (obj_symbols (obj_at h u))\<rparr>]"

text \<open>
  One round of the loop over the arguments; \<open>symbols\<close> tells whether \<open>getOwnPropertySymbols\<close> exists.
\<close>

definition assign_source :: "bool \<Rightarrow> nat \<Rightarrow> js_value \<Rightarrow> heap \<Rightarrow> heap js_res" where
  "assign_source symbols u n h =
     bindR (assign_names h u n (source_keys h n)) (\<lambda>h.
       Inr (if symbols then fold (put_symbol u) (source_symbols h n) h else h))"

definition object_assign ::
  "bool \<Rightarrow> (js_value \<Rightarrow> nat) \<Rightarrow> heap \<Rightarrow> js_value list \<Rightarrow> (heap \<times> js_value) js_res" where
  "object_assign symbols wrapper_proto h args =
     (case args of
        [] \<Rightarrow> Inl (JsTypeError ''Object.assign cannot be called with null or undefined'')
      | e # sources \<Rightarrow>
          (case e of
             JsUndefined \<Rightarrow> Inl (JsTypeError ''Object.assign cannot be called with null or undefined'')
           | JsNull \<Rightarrow> Inl (JsTypeError ''Object.assign cannot be called with null or undefined'')
           | JsFunction f \<Rightarrow> Inr (h, JsFunction f)
           | JsObject u \<Rightarrow>
               bindR (foldR (assign_source symbols u) sources h) (\<lambda>h. Inr (h, JsObject u))
           | prim \<Rightarrow>
               bindR (foldR (assign_source symbols (length h)) sources
                        (h @ [make_object (WrapperObject prim) (wrapper_proto prim)]))
                 (\<lambda>h'. Inr (h', JsObject (length h)))))"

definition source_own :: "heap \<Rightarrow> js_value \<Rightarrow> js_string \<Rightarrow> js_value option" where
  "source_own h v k = (if k \<in> set (source_keys h v) then Some (source_value h v k) else None)"

lemma source_value_other:
  assumes "n \<noteq> JsObject a" "\<And>b. n = JsObject b \<Longrightarrow> b < length h"
    and "a < length h" "l \<in> set (source_keys h n)"
  shows "source_value (put_own h a k v) n l = source_value h n l"
proof (cases n)
  case (JsObject b)
  then have "b < length h" "b \<noteq> a" "own h b l \<noteq> None"
    using assms by (auto simp: source_keys_def keys_def own_def map_of_eq_None_iff)
  moreover from this have "own (put_own h a k v) b l = own h b l"
    using assms(3) by (simp add: own_put_own)
  ultimately show ?thesis
    using JsObject by (auto simp: source_value_def get_own)
qed (simp_all add: source_value_def)

lemma source_keys_other: "n \<noteq> JsObject a \<Longrightarrow> source_keys (put_own h a k v) n = source_keys h n"
  by (auto simp: source_keys_def keys_def obj_at_put_own split: js_value.splits)

lemma assign_names_law:
  assumes "n \<noteq> JsObject a" "\<And>b. n = JsObject b \<Longrightarrow> b < length h" "a < length h"
    and "proto_key \<notin> set ls" "set ls \<subseteq> set (source_keys h n)"
  shows "\<exists>h'. assign_names h a n ls = Inr h' \<and> length h' = length h
           \<and> (\<forall>x. x \<noteq> a \<longrightarrow> obj_at h' x = obj_at h x)
           \<and> (\<forall>k. own h' a k = (if k \<in> set ls then Some (source_value h n k) else own h a k))"
  using assms
proof (induction ls arbitrary: h)
  case (Cons l ls)
  let ?h = "put_own h a l (source_value h n l)"
  obtain h' where h': "assign_names ?h a n ls = Inr h'" "length h' = length ?h"
      "\<And>x. x \<noteq> a \<Longrightarrow> obj_at h' x = obj_at ?h x"
      "\<And>k. own h' a k = (if k \<in> set ls then Some (source_value ?h n k) else own ?h a k)"
    using Cons.IH [of ?h] Cons.prems by (auto simp: source_keys_other)
  have "source_value ?h n k = source_value h n k" if "k \<in> set ls" for k
    using that Cons.prems by (intro source_value_other) auto
  then show ?case
    using h' Cons.prems by (auto simp: put_plain obj_at_put_own own_put_own)
qed simp

lemma put_symbols:
  "length (fold (put_symbol a) ps h) = length h
   \<and> (\<forall>x k. own (fold (put_symbol a) ps h) x k = own h x k)
   \<and> (\<forall>x. x \<noteq> a \<longrightarrow> obj_at (fold (put_symbol a) ps h) x = obj_at h x)"
proof (induction ps arbitrary: h)
  case (Cons p ps)
  have "length (put_symbol a p h) = length h" "own (put_symbol a p h) x k = own h x k"
    "x \<noteq> a \<Longrightarrow> obj_at (put_symbol a p h) x = obj_at h x" for x k
    by (auto simp: put_symbol_def own_def obj_at_def nth_list_update)
  with Cons show ?case by simp
qed simp

lemma source_keys_no_proto: "no_proto_keys h \<Longrightarrow> proto_key \<notin> set (source_keys h n)"
  by (auto simp: source_keys_def keys_not_proto index_key_not_proto [symmetric] split: js_value.splits)

lemma assign_source_law:
  assumes "n \<noteq> JsObject a" "\<And>b. n = JsObject b \<Longrightarrow> b < length h" "a < length h" "no_proto_keys h"
  shows "\<exists>h'. assign_source symbols a n h = Inr h' \<and> length h' = length h
           \<and> (\<forall>x. x \<noteq> a \<longrightarrow> obj_at h' x = obj_at h x)
           \<and> (\<forall>k. own h' a k = (case source_own h n k of Some v \<Rightarrow> Some v | None \<Rightarrow> own h a k))"
proof -
  obtain h1 where h1: "assign_names h a n (source_keys h n) = Inr h1" "length h1 = length h"
      "\<And>x. x \<noteq> a \<Longrightarrow> obj_at h1 x = obj_at h x"
      "\<And>k. own h1 a k = (if k \<in> set (source_keys h n) then Some (source_value h n k) else own h a k)"
    using assign_names_law [OF assms(1-3) source_keys_no_proto [OF assms(4)] order.refl] by blast
  then show ?thesis
    using put_symbols [of a "source_symbols h1 n" h1]
    by (simp add: assign_source_def source_own_def)
qed

lemma source_own_other:
  assumes "n \<noteq> JsObject a" "\<And>b. n = JsObject b \<Longrightarrow> b < length h"
    and "length h' = length h" "\<And>x. x \<noteq> a \<Longrightarrow> obj_at h' x = obj_at h x"
  shows "source_own h' n k = source_own h n k"
proof (cases n)
  case (JsObject b)
  then have "own h' b = own h b" "b < length h" "b < length h'" and "keys h' b = keys h b"
    using assms by (auto simp: own_def keys_def fun_eq_iff)
  moreover have "k \<in> set (keys h b) \<Longrightarrow> own h b k \<noteq> None"
    by (auto simp: own_def keys_def map_of_eq_None_iff)
  ultimately show ?thesis
    using JsObject by (auto simp: source_own_def source_keys_def source_value_def get_own)
qed (simp_all add: source_own_def source_keys_def source_value_def)

lemma object_assign_law:
  assumes "a < length h" "no_proto_keys h"
    and "\<And>n. n \<in> set sources \<Longrightarrow> n \<noteq> JsObject a"
    and "\<And>b. JsObject b \<in> set sources \<Longrightarrow> b < length h"
  shows "\<exists>h'. foldR (assign_source symbols a) sources h = Inr h' \<and> length h' = length h
           \<and> (\<forall>x. x \<noteq> a \<longrightarrow> obj_at h' x = obj_at h x)
           \<and> (\<forall>k. own h' a k
                = fold (\<lambda>n old. case source_own h n k of Some v \<Rightarrow> Some v | None \<Rightarrow> old) sources
                    (own h a k))"
  using assms
proof (induction sources arbitrary: h)
  case (Cons n ns)
  obtain h1 where h1: "assign_source symbols a n h = Inr h1" "length h1 = length h"
      "\<And>x. x \<noteq> a \<Longrightarrow> obj_at h1 x = obj_at h x"
      "\<And>k. own h1 a k = (case source_own h n k of Some v \<Rightarrow> Some v | None \<Rightarrow> own h a k)"
    using assign_source_law [of n a h] Cons.prems by fastforce
  have "source_own h n proto_key = None"
    using source_keys_no_proto [OF Cons.prems(2)] by (simp add: source_own_def)
  then have "own h1 x proto_key = None" for x
    using h1(3,4) Cons.prems(2) by (cases "x = a") (auto simp: no_proto_keys_def own_def)
  then have np: "no_proto_keys h1" by (simp add: no_proto_keys_def)
  obtain h' where h': "foldR (assign_source symbols a) ns h1 = Inr h'" "length h' = length h1"
      "\<And>x. x \<noteq> a \<Longrightarrow> obj_at h' x = obj_at h1 x"
      "\<And>k. own h' a k = fold (\<lambda>n old. case source_own h1 n k of Some v \<Rightarrow> Some v | None \<Rightarrow> old) ns
              (own h1 a k)"
    using Cons.IH [of h1] Cons.prems h1(2) np by auto
  have "source_own h1 m k = source_own h m k" if "m \<in> set ns" for m k
    using that Cons.prems h1 by (intro source_own_other) auto
  then have "fold (\<lambda>n old. case source_own h1 n k of Some v \<Rightarrow> Some v | None \<Rightarrow> old) ns y
           = fold (\<lambda>n old. case source_own h n k of Some v \<Rightarrow> Some v | None \<Rightarrow> old) ns y" for k y
    by (intro fold_cong) auto
  with h1 h' show ?case by auto
qed simp

section \<open>Sources with a property named __proto__\<close>

text \<open>
  \<open>JSON.parse\<close> makes such properties.  Reading the name on the target gives \<open>Object.prototype\<close>, an object,
  so the copy extends it in place.
\<close>

lemma proto_key_pollutes:
  assumes len: "5 \<le> length h" and a: "5 \<le> a" "a < length h" and s: "s < length h" "b < length h"
    and t: "obj_props (obj_at h a) = []" "obj_proto (obj_at h a) = Some 0"
    and root: "obj_kind (obj_at h 0) = PlainObject" "obj_proto (obj_at h 0) = None" "own h 0 proto_key = None"
    and src: "obj_props (obj_at h s) = [(proto_key, JsObject b)]" "obj_kind (obj_at h s) = PlainObject"
    and evil: "obj_props (obj_at h b) = [(k, v)]" "obj_kind (obj_at h b) = PlainObject"
    and kv: "k \<noteq> proto_key" "object_ref v = None" and b: "b \<noteq> a" "b \<noteq> 0"
  shows "deep_extend guard (Suc n) h [JsObject a, JsObject s]
         = Some (Inr (put_own h 0 k v, JsObject a))"
proof -
  let ?h = "put_own h 0 k v"
  have c: "chain (length h) g a = [a, 0]" if "obj_proto (obj_at g a) = Some 0" "obj_proto (obj_at g 0) = None"
    for g using len that by (cases "length h"; cases "length h - 1") auto
  have own_a: "own h a x = None" for x by (simp add: own_def t)
  have acc: "find_property h a proto_key = Some Accessor"
    using c [of h] t root own_a by (simp add: find_property_def)
  have "get h a proto_key = JsObject 0" using acc t by (simp add: get_def)
  moreover have "get h s proto_key = JsObject b" using s by (intro get_own) (simp_all add: own_def src)
  moreover have "merge_target h b (JsObject 0) = Some 0"
    using root evil by (simp add: merge_target_def is_array_def is_specific_value_def)
  moreover have "assign_keys n h 0 b (keys h b) = Some (Inr ?h)"
  proof -
    have "get h b k = v" using s by (intro get_own) (simp_all add: own_def evil)
    then show ?thesis using kv by (simp add: keys_def evil put_plain Let_def del: object_ref_None)
  qed
  moreover have "put ?h a proto_key (JsObject 0) = Inr ?h"
  proof -
    have "own ?h a proto_key = None" "own ?h 0 proto_key = None"
      using own_a root kv own_put_own [of 0 h k v] len by (cases h; simp)+
    moreover have "find_property ?h a proto_key = Some Accessor"
      using c [of ?h] t root calculation by (simp add: find_property_def)
    ultimately show ?thesis using t by (simp add: put_def set_proto_def)
  qed
  moreover have "keys h s = [proto_key]" "\<not> is_array h s"
    by (simp_all add: keys_def src is_array_def)
  ultimately show ?thesis
    using b by (simp add: deep_extend_def typeof_object_def extend_from_def)
qed

section \<open>Checking ranks\<close>

definition ranked_check :: "nat list \<Rightarrow> nat list \<Rightarrow> (nat \<Rightarrow> nat) \<Rightarrow> heap \<Rightarrow> bool" where
  "ranked_check S R rank h \<longleftrightarrow>
     list_all (\<lambda>x. x < length h \<and> x \<notin> set S \<and> obj_proto (obj_at h x) \<in> {None, Some 0, Some 1}
       \<and> list_all (\<lambda>b. b \<in> set R \<and> rank b < rank x) (object_values h x)) R"

lemma ranked_check:
  assumes "ranked_check S R rank h" "own_region (set S) h"
  shows "ranked (set S) (set R) rank h"
  unfolding ranked_def
proof (intro ballI conjI allI impI)
  fix x assume x: "x \<in> set R"
  have wf: "wf_heap h" using assms(2) by (rule own_region_wf)
  note c = assms(1) [unfolded ranked_check_def list_all_iff, rule_format, OF x]
  show "x < length h" using c by blast
  fix y assume y: "(x, y) \<in> (proto_rel h)\<^sup>*"
  have y5: "y = x \<or> y < 5"
  proof (rule ccontr)
    assume n: "\<not> (y = x \<or> y < 5)"
    with y obtain p where p: "obj_proto (obj_at h x) = Some p" "(p, y) \<in> (proto_rel h)\<^sup>*"
      by (auto simp: proto_rel_def elim: converse_rtranclE)
    have "q \<in> {..<5}" if "x \<in> {..<5}" "obj_proto (obj_at h x) = Some q" for x q
      using wf that unfolding wf_heap_def by blast
    moreover have "p \<in> {..<5}" using p(1) c by auto
    ultimately have "y \<in> {..<5}" using chain_closed [OF p(2)] by blast
    with n show False by simp
  qed
  show "y \<notin> set S" using y5 c assms(2) by (auto simp: own_region_def)
  fix b assume b: "b \<in> links h y"
  then have "y = x" using y5 wf by (auto simp: wf_heap_def)
  with b have "b \<in> set (object_values h x)" using links_object_values by auto
  with c show "b \<in> set R" "rank b < rank x" by (auto simp: list_all_iff)
qed

end
