(* ===== verification/Swagger_Properties.thy ===== *)
theory Swagger_Properties
  imports Swagger_Cookie Swagger_Strings Swagger_Extend
begin

text \<open>
  What the modelled modules of the Swagger UI bundle promise: cookies that are written can be read,
  deep-extend copies and never shares, the polyfills and text functions compute what they say, and
  where they do not.
\<close>

section \<open>Cookies\<close>

text \<open>
  C3: A header made of serialized cookies is parsed back: each name gets the value of its first cookie,
  whatever text the value is.  The names must be free of separators and outer white space, and a
  cookie named like a property of every object (such as \<open>constructor\<close>) is lost.
\<close>

theorem cookie_round_trip:
  assumes "mapR (\<lambda>(n, v). cookie_serialize n v no_options) cs = Inr xs"
    and "\<forall>(n, v) \<in> set cs. plain_name n \<and> js_units v"
  shows "cookie_parse None (JsString (join_str (js ''; '') xs))
         = Inr (first_of_each (filter (\<lambda>c. fst c \<notin> set object_members) cs))"
  using uri.header_round_trip [OF assms(1) [folded default_encoder] assms(2)]
  by (simp add: default_decoder)

definition demo_cookies :: "(js_string \<times> js_string) list" where
  "demo_cookies =
     [(js ''a'', js ''x; y=1''), (js ''b'', [0x20AC, 0xD83D, 0xDE00]), (js ''a'', js ''2''),
      (js ''constructor'', js ''3'')]"

lemma cookie_round_trip_witness:
  "cookie_parse None (JsString (js ''a=x%3B%20y%3D1; b=%E2%82%AC%F0%9F%98%80; a=2; constructor=3''))
   = Inr [(js ''a'', js ''x; y=1''), (js ''b'', [0x20AC, 0xD83D, 0xDE00])]"
proof -
  have 1: "mapR (\<lambda>(n, v). cookie_serialize n v no_options) demo_cookies
        = Inr [js ''a=x%3B%20y%3D1'', js ''b=%E2%82%AC%F0%9F%98%80'', js ''a=2'', js ''constructor=3'']"
    by code_simp
  have 2: "\<forall>(n, v) \<in> set demo_cookies. plain_name n \<and> js_units v" by code_simp
  have 3: "first_of_each (filter (\<lambda>c. fst c \<notin> set object_members) demo_cookies)
        = [(js ''a'', js ''x; y=1''), (js ''b'', [0x20AC, 0xD83D, 0xDE00])]" by code_simp
  show ?thesis
    using cookie_round_trip [OF 1 2] unfolding 3 by simp
qed

text \<open>
  C35: Serializing with the default encoder succeeds exactly when the name is field content, the value
  has no surrogate without its partner and every option that is checked is valid; otherwise it throws.
\<close>

theorem cookie_serialize_accepts_iff:
  assumes "co_encode r = DefaultEncoder" and "js_units t"
  shows "(\<exists>c. cookie_serialize e t r = Inr c) \<longleftrightarrow>
           field_content e \<and> well_paired t \<and> co_max_age r \<noteq> Some NaN
           \<and> (co_domain r = [] \<or> field_content (co_domain r))
           \<and> (co_path r = [] \<or> field_content (co_path r))
           \<and> co_expires r \<noteq> NoDate \<and> same_site_valid (co_same_site r)"
proof -
  have val: "x = [] \<or> field_content x" if "encodeURIComponent t = Inr x" for x
    using encoded_field_content [OF assms(2) that] by blast
  have "(\<exists>c. cookie_serialize e t r = Inr c) \<longleftrightarrow>
        field_content e \<and> (\<exists>x. encodeURIComponent t = Inr x
          \<and> (\<exists>c. cookie_attributes r (e @ js ''='' @ x) = Inr c))"
    using val by (cases "encodeURIComponent t") (auto simp: cookie_serialize_def encoder_of_def assms(1))
  then show ?thesis
    unfolding cookie_attributes_ok using encode_well_paired [of t] by blast
qed

lemma cookie_serialize_accepts_iff_witness:
  "\<exists>c. cookie_serialize (js ''sid'') (js ''1 2'')
         (no_options\<lparr>co_max_age := Some (Finite 60), co_path := js ''/'',
                     co_same_site := SameSiteText (js ''Lax'')\<rparr>) = Inr c"
proof -
  let ?r = "no_options\<lparr>co_max_age := Some (Finite 60), co_path := js ''/'',
              co_same_site := SameSiteText (js ''Lax'')\<rparr>"
  have 1: "co_encode ?r = DefaultEncoder" "js_units (js ''1 2'')"
    by (simp_all add: no_options_def)
  have 2: "field_content (js ''sid'')" "well_paired (js ''1 2'')" "field_content (js ''/'')"
    "same_site_valid (SameSiteText (js ''Lax''))" by code_simp+
  show ?thesis
    by (rule cookie_serialize_accepts_iff [OF 1, THEN iffD2]) (use 2 in \<open>simp add: no_options_def\<close>)
qed

text \<open>
  C34: The check of the name admits the separators of the header: a name that contains a whole pair
  and a semicolon is accepted, and the header then holds two cookies.
\<close>

theorem cookie_names_can_inject:
  assumes "plain_name a" "plain_name c" and "field_content b" "\<forall>u \<in> set b. uri_unescaped u"
    and "encodeURIComponent v = Inr x" "js_units v"
    and "a \<notin> set object_members" "c \<notin> set object_members" "a \<noteq> c"
  shows "\<exists>header. cookie_serialize (a @ js ''='' @ b @ js ''; '' @ c) v no_options = Inr header
           \<and> cookie_parse None (JsString header) = Inr [(a, b), (c, v)]"
proof -
  let ?e = "a @ js ''='' @ b @ js ''; '' @ c"
  have "field_content ?e"
    using assms(1-3) by (auto simp: plain_name_def field_content_def between_def)
  then have s: "cookie_serialize ?e v no_options
                = Inr (join_str (js ''; '') [a @ js ''='' @ b, c @ js ''='' @ x])"
    using assms(5,6) by (simp add: serialize_no_options)
  have "decodeURIComponent b = Inr b"
    using assms(4) percent_not_unescaped by (induction b) auto
  then have "list_all2 (written decodeURIComponent) [(a, b), (c, v)] [a @ js ''='' @ b, c @ js ''='' @ x]"
    using assms decode_encode [of v x] encode_output [of v x] uri_output_safe
    by (auto simp: written_def uri_output_def)
  then have "cookie_parse None (JsString (join_str (js ''; '') [a @ js ''='' @ b, c @ js ''='' @ x]))
             = Inr [(a, b), (c, v)]"
    using assms(7-9) by (subst default_decoder [symmetric], subst parse_written) auto
  with s show ?thesis by blast
qed

lemma cookie_names_can_inject_witness:
  "\<exists>header. cookie_serialize (js ''a=1; admin'') (js ''yes'') no_options = Inr header
     \<and> cookie_parse None (JsString header) = Inr [(js ''a'', js ''1''), (js ''admin'', js ''yes'')]"
proof -
  have 1: "plain_name (js ''a'')" "plain_name (js ''admin'')" "field_content (js ''1'')"
    "\<forall>u \<in> set (js ''1''). uri_unescaped u"
    "encodeURIComponent (js ''yes'') = Inr (js ''yes'')" "js_units (js ''yes'')"
    "js ''a'' \<notin> set object_members" "js ''admin'' \<notin> set object_members" "js ''a'' \<noteq> js ''admin''"
    by code_simp+
  show ?thesis using cookie_names_can_inject [OF 1] by simp
qed

section \<open>deep-extend\<close>

text \<open>
  A heap for the examples: five standard prototypes, the target 5 with the object 6 in it, the source 7
  with an object, an array that holds an object, and a number.
\<close>

definition demo_object :: "(string \<times> js_value) list \<Rightarrow> js_object" where
  "demo_object ps = new_object\<lparr>obj_props := map (\<lambda>p. (js (fst p), snd p)) ps\<rparr>"

definition demo_heap :: heap where
  "demo_heap =
     [(demo_object [(''toString'', JsFunction 0)])\<lparr>obj_proto := None\<rparr>,
      make_object (ArrayObject 0) 0, new_object, new_object, new_object,
      demo_object [(''n'', JsNumber (Finite 1)), (''o'', JsObject 6)],
      demo_object [(''x'', JsBoolean True)],
      demo_object [(''o'', JsObject 8), (''list'', JsObject 9), (''n'', JsNull)],
      demo_object [(''y'', JsString (js ''z''))],
      (make_object (ArrayObject 1) 1)\<lparr>obj_props := [(js ''0'', JsObject 10)]\<rparr>,
      demo_object []]"

definition demo_extended :: heap where
  "demo_extended =
     demo_heap[5 := demo_object [(''n'', JsNull), (''o'', JsObject 6), (''list'', JsObject 11)],
               6 := demo_object [(''x'', JsBoolean True), (''y'', JsString (js ''z''))]]
     @ [(make_object (ArrayObject 1) 1)\<lparr>obj_props := [(js ''0'', JsObject 12)]\<rparr>, demo_object []]"

lemma demo_run:
  "deep_extend True 2 demo_heap [JsObject 5, JsObject 7] = Some (Inr (demo_extended, JsObject 5))"
  by code_simp

text \<open>
  C1: deep-extend copies and never shares: it returns its first argument, changes no object outside what
  the target leads to, and afterwards the target leads to nothing but its own former objects and
  new ones, so no later change to it shows in a source.  (No property is named \<open>__proto__\<close>.)
\<close>

theorem deep_extend_never_shares:
  assumes "own_region S h" "a \<in> S" "\<And>b. JsObject b \<in> set sources \<Longrightarrow> b < length h"
    and "guard \<or> JsNull \<notin> set sources"
    and "deep_extend guard n h (JsObject a # sources) = Some (Inr (h', v))"
  shows "v = JsObject a \<and> (\<forall>x < length h. x \<notin> S \<longrightarrow> obj_at h' x = obj_at h x)
         \<and> reachable h' a \<subseteq> S \<union> {length h..}"
proof -
  have run: "extend_all guard n (JsObject a) sources h = Some (Inr h')" and v: "v = JsObject a"
    using assms(5)
    by (cases "sources = []"; auto simp: deep_extend_def typeof_object_def bindO_Inr_iff)+
  have "stays S h (extend_all guard n (JsObject a) sources h)"
    by (rule extend_all_stays [OF assms(1-4)])
  with run obtain S' where "region_step S h S' h'" by (auto simp: stays_def)
  moreover from this have "reachable h' a \<subseteq> S'"
    using assms(2) by (intro reachable_region) (auto simp: region_step_def own_region_def)
  ultimately show ?thesis using v by (auto simp: region_step_def)
qed

lemma demo_region: "own_region {5, 6} demo_heap"
proof -
  have "own_region_check [5, 6] [5, 6, 0] demo_heap" by code_simp
  then show ?thesis using own_region_check by fastforce
qed

lemma deep_extend_never_shares_witness:
  "obj_at demo_extended 7 = obj_at demo_heap 7 \<and> reachable demo_extended 5 \<subseteq> {5, 6} \<union> {11..}"
proof -
  have len: "length demo_heap = 11" by code_simp
  have "\<forall>x < length demo_heap. x \<notin> {5, 6} \<longrightarrow> obj_at demo_extended x = obj_at demo_heap x"
    and "reachable demo_extended 5 \<subseteq> {5, 6} \<union> {length demo_heap..}"
    using deep_extend_never_shares [OF demo_region _ _ _ demo_run] by (auto simp: len)
  then show ?thesis by (simp add: len)
qed

text \<open>
  C22: Where the sources have no cycles, deep-extend returns its target without throwing, and a call depth of the
  sources' nesting is enough.  The heap is well formed and none of its objects has an own property named
  \<open>__proto__\<close> (with one, merging can throw); \<open>S\<close> is a region with the target that holds every object its
  members lead to; the sources lie in a set \<open>R\<close> whose members and their prototypes are outside \<open>S\<close> and lead only
  to members of \<open>R\<close> of a lower rank; and the first copy, which has no guard, gets no \<open>null\<close> source.
\<close>

theorem deep_extend_returns:
  assumes "own_region S h" "ranked S R rank h" "a \<in> S"
    and "\<And>b. JsObject b \<in> set sources \<Longrightarrow> b \<in> R \<and> rank b \<le> n"
    and "guard \<or> JsNull \<notin> set sources"
  shows "\<exists>h'. deep_extend guard n h (JsObject a # sources) = Some (Inr (h', JsObject a))"
proof -
  have b: "bounded S R rank h" using assms(1,2) by (simp add: bounded_def)
  obtain y where y: "extend_all guard n (JsObject a) sources h = Some y"
    using extend_all_ends [OF b assms(3-5)] by blast
  have "stays S h (extend_all guard n (JsObject a) sources h)"
    using assms bounded_facts(2) [OF b] by (intro extend_all_stays) auto
  with y obtain h' where "y = Inr h'"
    by (cases y) (auto simp: stays_def)
  with y have "extend_all guard n (JsObject a) sources h = Some (Inr h')" by simp
  then show ?thesis by (auto simp: deep_extend_def typeof_object_def)
qed

definition demo_rank :: "nat \<Rightarrow> nat" where
  "demo_rank x = (if x = 7 then 2 else if x = 9 then 1 else 0)"

lemma deep_extend_returns_witness:
  "\<exists>h'. deep_extend True 2 demo_heap [JsObject 5, JsObject 7] = Some (Inr (h', JsObject 5))"
proof (rule deep_extend_returns [OF demo_region])
  have "ranked_check [5, 6] [7, 8, 9, 10] demo_rank demo_heap" by code_simp
  then show "ranked {5, 6} (set [7, 8, 9, 10]) demo_rank demo_heap"
    using ranked_check [of "[5, 6]"] demo_region by fastforce
qed (auto simp: demo_rank_def)

text \<open>
  C18: After extending a plain target with one source that is an object, each key of the source holds the source's
  value where that is no object, the target's own object where both are mergeable, and a new object
  otherwise (a reference to the target itself is skipped); every other key is as it was.  A source that is an array
  changes nothing.  No object of the heap has an own property named \<open>__proto__\<close>; the target's prototype
  is \<open>Object.prototype\<close>; the objects the target leads to form a region without the target and the source; and the
  source's keys are different.
\<close>

theorem deep_extend_keys:
  assumes "plain_target T h a s" "distinct (keys h s)"
    and "deep_extend guard n h [JsObject a, JsObject s] = Some (Inr (h', v))"
  shows "if is_array h s then h' = h
    else case own h s k of
           None \<Rightarrow> own h' a k = own h a k
         | Some e \<Rightarrow> extended_value h a k e (own h' a k)"
proof (cases "is_array h s")
  case True
  with assms(3) show ?thesis
    by (auto simp: deep_extend_def typeof_object_def bindO_Inr_iff extend_from_def)
next
  case object: False
  have run: "assign_keys n h a s (keys h s) = Some (Inr h')"
    using object assms(3)
    by (auto simp: deep_extend_def typeof_object_def bindO_Inr_iff extend_from_def)
  have np: "proto_key \<notin> set (keys h s)"
    using assms(1) keys_not_proto by (auto simp: plain_target_def own_region_def)
  have e: "own h s u = Some (the (own h s u))" if "u \<in> set (keys h s)" for u
    using that by (cases "own h s u") (auto simp: own_def keys_def map_of_eq_None_iff)
  have law: "(\<forall>u \<in> set (keys h s). extended_value h a u (the (own h s u)) (own h' a u))
             \<and> (\<forall>k. k \<notin> set (keys h s) \<longrightarrow> own h' a k = own h a k)"
    by (rule extended_keys [OF assms(1,2) np e run])
  show ?thesis
  proof (cases "own h s k")
    case None
    then have "k \<notin> set (keys h s)" using e by fastforce
    with law None object show ?thesis by simp
  next
    case (Some x)
    then have "k \<in> set (keys h s)" by (force simp: own_def keys_def dest: map_of_SomeD)
    with law Some object show ?thesis by auto
  qed
qed

lemma deep_extend_keys_witness:
  "extended_value demo_heap 5 (js ''list'') (JsObject 9) (own demo_extended 5 (js ''list''))
   \<and> own demo_extended 5 (js ''o'') = Some (JsObject 6) \<and> own demo_extended 5 (js ''n'') = Some JsNull"
proof -
  have "own_region_check [6] [6, 0] demo_heap" by code_simp
  then have R: "own_region {6} demo_heap" using own_region_check by fastforce
  have o: "object_values demo_heap 5 = [6]" "length demo_heap = 11" by code_simp+
  have "obj_proto (obj_at demo_heap 5) = Some 0" "obj_proto (obj_at demo_heap 0) = None" by code_simp+
  then have P: "plain_target {6} demo_heap 5 7"
    using R o links_object_values [of demo_heap 5] by (auto simp: plain_target_def)
  have d: "distinct (keys demo_heap 7)" "\<not> is_array demo_heap 7" by code_simp+
  note law = deep_extend_keys [OF P d(1) demo_run, unfolded if_not_P [OF d(2)]]
  have v: "own demo_heap 7 (js ''list'') = Some (JsObject 9)"
    "own demo_heap 7 (js ''o'') = Some (JsObject 8)" "own demo_heap 7 (js ''n'') = Some JsNull"
    "merge_target demo_heap 8 (get demo_heap 5 (js ''o'')) = Some 6" by code_simp+
  show ?thesis
    using law [of "js ''list''"] law [of "js ''o''"] law [of "js ''n''"]
    unfolding v by (simp add: extended_value_def object_ref_def v del: js_simps)
qed




section \<open>Object.assign\<close>

text \<open>
  C32: Where no object has an own property named \<open>__proto__\<close> (such a property of a source would set the prototype),
  assigning onto an object from sources other than itself returns it, changes no other object, and leaves
  each name with the value of the last source that has it as its own (a string source has its characters), else
  as it was; null and undefined sources are skipped, as a target they are refused.
\<close>

theorem object_assign_last_source_wins:
  assumes "a < length h" "no_proto_keys h"
    and "\<And>n. n \<in> set sources \<Longrightarrow> n \<noteq> JsObject a"
    and "\<And>b. JsObject b \<in> set sources \<Longrightarrow> b < length h"
  shows "(\<exists>h'. object_assign symbols wp h (JsObject a # sources) = Inr (h', JsObject a)
             \<and> (\<forall>x. x \<noteq> a \<longrightarrow> obj_at h' x = obj_at h x)
             \<and> (\<forall>k. own h' a k
                  = fold (\<lambda>n old. case source_own h n k of Some v \<Rightarrow> Some v | None \<Rightarrow> old) sources
                      (own h a k)))
         \<and> (\<forall>e \<in> {JsNull, JsUndefined}.
               \<exists>what. object_assign symbols wp h (e # sources) = Inl (JsTypeError what))"
  using object_assign_law [where sources = sources and symbols = symbols, OF assms] by (auto simp: object_assign_def)

lemma object_assign_last_source_wins_witness:
  "\<exists>h'. object_assign True (\<lambda>_. 0) demo_heap [JsObject 6, JsNull, JsObject 5, JsString (js ''ab''), JsObject 7]
          = Inr (h', JsObject 6)
        \<and> own h' 6 (js ''n'') = Some JsNull \<and> own h' 6 (js ''1'') = Some (JsString (js ''b''))
        \<and> own h' 6 (js ''x'') = Some (JsBoolean True)"
proof -
  let ?ss = "[JsNull, JsObject 5, JsString (js ''ab''), JsObject 7]"
  have 1: "length demo_heap = 11" by code_simp
  have 2: "no_proto_keys demo_heap" using demo_region by (simp add: own_region_def)
  let ?law = "\<lambda>k. fold (\<lambda>n old. case source_own demo_heap n k of Some v \<Rightarrow> Some v | None \<Rightarrow> old) ?ss
                   (own demo_heap 6 k)"
  have v: "?law (js ''n'') = Some JsNull" "?law (js ''1'') = Some (JsString (js ''b''))"
    "?law (js ''x'') = Some (JsBoolean True)" by code_simp+
  have "6 < length demo_heap" "\<And>n. n \<in> set ?ss \<Longrightarrow> n \<noteq> JsObject 6"
    "\<And>b. JsObject b \<in> set ?ss \<Longrightarrow> b < length demo_heap" by (auto simp: 1)
  from object_assign_last_source_wins [OF this(1) 2 this(2,3), where symbols = True and wp = "\<lambda>_. 0"]
  obtain h' where "object_assign True (\<lambda>_. 0) demo_heap (JsObject 6 # ?ss) = Inr (h', JsObject 6)"
    and "\<And>k. own h' 6 k = ?law k" by blast
  then show ?thesis using v by metis
qed

section \<open>Text\<close>

text \<open>
  C19: The \<open>repeat\<close> polyfill gives n copies of the text for an integer n below 2^31.  For a fractional
  count it gives the copies of twice the half of its integer part, one short where that part is
  odd, and between 2^31 and 2^32, where the built-in function gives copies or refuses, its loop
  never ends.
\<close>

theorem repeat_polyfill_result:
  assumes "this \<noteq> JsNull" "this \<noteq> JsUndefined" "js_truthy e" "num e = Finite q" "0 < q" "q < 2 ^ 32"
  shows "js_repeat str num this e
         = (if q < 2 ^ 31
            then Some (Inr (copies (if q \<in> \<int> then nat \<lfloor>q\<rfloor> else 2 * nat (\<lfloor>q\<rfloor> div 2)) (str this)))
            else None)"
proof -
  have "js_repeat str num this e = map_option Inr (repeat_loop [] (str this) q)"
    using assms by (simp add: js_repeat_def)
  moreover have "repeat_loop [] (str this) q = Some (copies (nat \<lfloor>q\<rfloor>) (str this))"
    if "q < 2 ^ 31" "q \<in> \<int>"
  proof -
    from that(2) obtain i where i: "q = of_int i" by (auto elim: Ints_cases)
    with assms(5) that(1) have "0 \<le> i" "i < 2 ^ 31" by simp_all
    with i repeat_loop_nat [of "nat i" "[]" "str this"] show ?thesis by (simp add: nat_less_iff)
  qed
  ultimately show ?thesis
    using repeat_loop_fraction [OF assms(5)] repeat_loop_hangs [of q] assms(6) by simp
qed

lemma repeat_polyfill_result_witness:
  "js_repeat (\<lambda>_. js ''ab'') (\<lambda>_. Finite (3 / 2)) (JsString (js ''ab'')) (JsNumber (Finite (3 / 2)))
     = Some (Inr [])
   \<and> js_repeat (\<lambda>_. js ''ab'') (\<lambda>_. Finite 3) (JsString (js ''ab'')) (JsNumber (Finite 3))
     = Some (Inr (js ''ababab''))"
proof -
  have "(3 / 2 :: rat) \<notin> \<int>"
  proof
    assume "(3 / 2 :: rat) \<in> \<int>"
    then obtain i where "(3 / 2 :: rat) = of_int i" by (auto elim: Ints_cases)
    then have "of_int (2 * i) = (of_int 3 :: rat)" by simp
    then have "2 * i = 3" by (simp only: of_int_eq_iff)
    then show False by presburger
  qed
  moreover have "(3 :: rat) \<in> \<int>" by simp
  ultimately show ?thesis
    using repeat_polyfill_result [of "JsString (js ''ab'')" "JsNumber (Finite (3 / 2))"
        "\<lambda>_. Finite (3 / 2)" "3 / 2" "\<lambda>_. js ''ab''"]
      repeat_polyfill_result [of "JsString (js ''ab'')" "JsNumber (Finite 3)" "\<lambda>_. Finite 3" 3
        "\<lambda>_. js ''ab''"]
    by (simp add: numeral_3_eq_3 eval_nat_numeral)
qed

text \<open>
  C21: The \<open>fromCodePoint\<close> fallback returns a text whose code points are the arguments when all of them are
  code points other than surrogates, and the replacement character as soon as one argument is no
  code point; on one argument both exports of the module, in both of its copies, give the same.
\<close>

theorem from_code_point_correct:
  assumes "xs \<noteq> []"
  shows "from_code_point_fallback xs
           = (if None \<in> set (map code_point_of xs) then [65533]
              else concat (map (\<lambda>x. utf16_units (the (code_point_of x))) xs))
         \<and> ((\<forall>x \<in> set xs. \<exists>u. code_point_of x = Some u \<and> scalar_value u) \<longrightarrow>
              code_points (from_code_point_fallback xs) = map (the \<circ> code_point_of) xs)
         \<and> fromCodePoint_111 True [x] = fromCodePoint_111 False [x]
         \<and> fromCodePoint_118 True [x] = fromCodePoint_118 False [x]"
proof -
  have spec: "from_code_point_fallback xs
           = (if None \<in> set (map code_point_of xs) then [65533]
              else concat (map (\<lambda>x. utf16_units (the (code_point_of x))) xs))"
    using assms from_code_point_loop_spec [of xs "[]" "[]"] by (simp add: from_code_point_fallback_def)
  have points: "code_points (concat (map (\<lambda>x. utf16_units (the (code_point_of x))) ys))
        = map (the \<circ> code_point_of) ys"
    if "\<forall>x \<in> set ys. \<exists>u. code_point_of x = Some u \<and> scalar_value u" for ys
    using that by (induction ys) (auto simp: code_points_utf16)
  have "code_points (from_code_point_fallback xs) = map (the \<circ> code_point_of) xs"
    if all: "\<forall>x \<in> set xs. \<exists>u. code_point_of x = Some u \<and> scalar_value u"
  proof -
    have "None \<notin> set (map code_point_of xs)" using all by force
    then show ?thesis using spec points [OF all] by simp
  qed
  moreover have "from_code_point_native x = Inr (from_code_point_fallback [x])"
    for x
    by (cases "code_point_of x")
      (simp_all add: from_code_point_native_def builtin_from_code_point_def
        from_code_point_fallback_def code_point_units_utf16 Let_def)
  ultimately show ?thesis using spec by (simp add: fromCodePoint_111_def fromCodePoint_118_def)
qed

lemma from_code_point_correct_witness:
  "from_code_point_fallback [Finite 97, Finite 0x1F600] = [97, 0xD83D, 0xDE00]
   \<and> fromCodePoint_118 True [Finite 0x110000] = Inr [65533]"
proof -
  have 1: "code_point_of (Finite 97) = Some 97" "code_point_of (Finite 0x1F600) = Some 0x1F600"
    "code_point_of (Finite 0x110000) = None" by code_simp+
  have 2: "utf16_units 97 = [97]" "utf16_units 0x1F600 = [0xD83D, 0xDE00]" by code_simp+
  have a: "from_code_point_fallback [Finite 97, Finite 0x1F600] = [97, 0xD83D, 0xDE00]"
    using from_code_point_correct [of "[Finite 97, Finite 0x1F600]" "Finite 0x110000"] by (simp add: 1 2)
  have b: "from_code_point_fallback [Finite 0x110000] = [65533]"
    using from_code_point_correct [of "[Finite 0x110000]" "Finite 0x110000"] by (simp add: 1)
  have "fromCodePoint_118 True [Finite 0x110000] = fromCodePoint_118 False [Finite 0x110000]"
    using from_code_point_correct [of "[Finite 0x110000]" "Finite 0x110000"] by blast
  then show ?thesis using a b by (simp add: fromCodePoint_118_def)
qed

text \<open>With several arguments the two exports differ: the guarded one reads the first only.\<close>

lemma from_code_point_exports_differ:
  "fromCodePoint_111 True [Finite 97, Finite 98] = Inr [97]"
  "fromCodePoint_111 False [Finite 97, Finite 98] = Inr [97, 98]"
  "fromCodePoint_111 True [] = Inr [65533]" "fromCodePoint_111 False [] = Inr []"
  by code_simp+

text \<open>
  C33: The class names in the result of \<open>classNames\<close> are exactly those of its truthy strings and numbers and
  of the keys with truthy values, in order; nesting in arrays makes no difference to them.
\<close>

theorem class_names_flattens:
  "class_words (class_names shown args) = concat (map (class_tokens shown) args)
   \<and> class_names shown [DArray args] = class_names shown args"
  using class_words_names [of shown args] by (simp add: class_names_def)

text \<open>
  What pascalcase makes of a text (of more than one character once capitals are set off) consists of
  letters and digits, does not begin with a small letter, and is left alone by a second run.
\<close>

theorem pascalcase_idempotent:
  assumes "pascalcase up (JsString s) = Inr r" "length (space_capitals s) \<noteq> 1"
  shows "(\<forall>u \<in> set r. unit_alnum u) \<and> (r \<noteq> [] \<longrightarrow> \<not> unit_lower (hd r))
         \<and> pascalcase up (JsString r) = Inr r"
  using pascalcase_result [OF assms] pascalcase_capitalised [of r up]
  by (simp add: capitalised_def)

lemma pascalcase_idempotent_witness:
  "pascalcase (\<lambda>u. [u]) (JsString (js ''FooBar42'')) = Inr (js ''FooBar42'')"
proof -
  have 1: "pascalcase (\<lambda>u. [u]) (JsString (js ''--foo bar_42'')) = Inr (js ''FooBar42'')"
    "length (space_capitals (js ''--foo bar_42'')) \<noteq> 1" by code_simp+
  show ?thesis using pascalcase_idempotent [OF 1] by blast
qed

end
