(* ===== verification/Js_Bits.thy ===== *)
theory Js_Bits
  imports Js_Base
begin

text \<open>
  The bitwise operators of JavaScript, which convert their operands to 32-bit signed integers, and
  the elements of a \<open>Uint8Array\<close>.  Numbers are mathematical integers; the shift counts of the
  modelled code are constants below 32.
\<close>

unbundle bit_operations_syntax

definition to_int32 :: "int \<Rightarrow> int" where
  "to_int32 x = signed_take_bit 31 x"

definition js_shl :: "int \<Rightarrow> nat \<Rightarrow> int" where
  "js_shl x n = to_int32 (push_bit n (to_int32 x))"

definition js_shr :: "int \<Rightarrow> nat \<Rightarrow> int" where
  "js_shr x n = drop_bit n (to_int32 x)"

definition js_ushr :: "int \<Rightarrow> nat \<Rightarrow> int" where
  "js_ushr x n = drop_bit n (take_bit 32 x)"

definition js_and :: "int \<Rightarrow> int \<Rightarrow> int" where
  "js_and x y = to_int32 x AND to_int32 y"

definition js_or :: "int \<Rightarrow> int \<Rightarrow> int" where
  "js_or x y = to_int32 x OR to_int32 y"

lemma to_int32_small: "0 \<le> x \<Longrightarrow> x < 2147483648 \<Longrightarrow> to_int32 x = x"
  by (simp add: to_int32_def signed_take_bit_int_eq_self)

text \<open>On the numbers that stay in range the operators are arithmetic.\<close>

lemma js_shl_small: "0 \<le> x \<Longrightarrow> x * 2 ^ n < 2147483648 \<Longrightarrow> js_shl x n = x * 2 ^ n"
proof -
  assume x: "0 \<le> x" "x * 2 ^ n < 2147483648"
  have "x * 1 \<le> x * 2 ^ n" using x(1) by (intro mult_left_mono) simp_all
  with x have "to_int32 x = x" by (intro to_int32_small) linarith+
  with x show ?thesis by (simp add: js_shl_def push_bit_eq_mult to_int32_small)
qed

lemma js_shr_small: "0 \<le> x \<Longrightarrow> x < 2147483648 \<Longrightarrow> js_shr x n = x div 2 ^ n"
  by (simp add: js_shr_def to_int32_small drop_bit_eq_div)

lemma js_and_mask:
  assumes "0 \<le> x" "x < 2147483648" "n < 31"
  shows "js_and x (2 ^ n - 1) = x mod 2 ^ n" "js_and (2 ^ n - 1) x = x mod 2 ^ n"
proof -
  have "(2::int) ^ n \<le> 2 ^ 30" using assms(3) by (intro power_increasing) simp_all
  then have "to_int32 (2 ^ n - 1) = 2 ^ n - 1" by (intro to_int32_small) simp_all
  then show "js_and x (2 ^ n - 1) = x mod 2 ^ n"
    using assms by (simp add: js_and_def to_int32_small flip: mask_eq_exp_minus_1 take_bit_eq_mask take_bit_eq_mod)
  then show "js_and (2 ^ n - 1) x = x mod 2 ^ n"
    by (simp add: js_and_def and.commute)
qed

lemma js_and_255: "0 \<le> x \<Longrightarrow> x < 2147483648 \<Longrightarrow> js_and x 255 = x mod 256"
  and js_and_255': "0 \<le> x \<Longrightarrow> x < 2147483648 \<Longrightarrow> js_and 255 x = x mod 256"
  and js_and_63: "0 \<le> x \<Longrightarrow> x < 2147483648 \<Longrightarrow> js_and x 63 = x mod 64"
  and js_and_63': "0 \<le> x \<Longrightarrow> x < 2147483648 \<Longrightarrow> js_and 63 x = x mod 64"
  using js_and_mask [of x 8] js_and_mask [of x 6] by simp_all

lemma js_and_div:
  assumes "0 \<le> x" "x < 2147483648" "0 < k"
  shows "js_and (x div k) 255 = x div k mod 256" "js_and (x div k) 63 = x div k mod 64"
proof -
  have "0 \<le> x div k" "x div k < 2147483648"
    using assms zdiv_mono2 [of x 1 k] by (auto simp: pos_imp_zdiv_nonneg_iff)
  then show "js_and (x div k) 255 = x div k mod 256" "js_and (x div k) 63 = x div k mod 64"
    by (simp_all only: js_and_255 js_and_63)
qed

lemma or_plus:
  assumes "0 \<le> (b::int)" "b < 2 ^ n"
  shows "a * 2 ^ n OR b = a * 2 ^ n + b"
proof -
  have b: "take_bit n b = b" using assms by (simp add: take_bit_int_eq_self)
  have "push_bit n a AND b = 0"
    by (subst b [symmetric]) (rule bit_eqI, auto simp: bit_and_iff bit_push_bit_iff bit_take_bit_iff)
  then show ?thesis by (simp add: disjunctive_add_eq_or push_bit_eq_mult)
qed

lemma js_or_plus:
  assumes "0 \<le> a" "0 \<le> b" "b < 2 ^ n" "a * 2 ^ n + b < 2147483648"
  shows "js_or (a * 2 ^ n) b = a * 2 ^ n + b"
proof -
  have "0 \<le> a * 2 ^ n" using assms(1) by simp
  with assms have "a * 2 ^ n < 2147483648" "b < 2147483648" by linarith+
  with assms \<open>0 \<le> a * 2 ^ n\<close> have "to_int32 (a * 2 ^ n) = a * 2 ^ n" "to_int32 b = b"
    by (simp_all only: to_int32_small)
  with assms show ?thesis by (simp add: js_or_def or_plus)
qed

definition js_bytes :: "int list \<Rightarrow> bool" where
  "js_bytes bs \<longleftrightarrow> (\<forall>b \<in> set bs. 0 \<le> b \<and> b < 256)"

lemma js_bytes_simps [simp]:
  "js_bytes []" "js_bytes (b # bs) \<longleftrightarrow> 0 \<le> b \<and> b < 256 \<and> js_bytes bs"
  "js_bytes (as @ bs) \<longleftrightarrow> js_bytes as \<and> js_bytes bs"
  by (auto simp: js_bytes_def)

text \<open>
  A \<open>Uint8Array\<close> of a given length written from its start: what is not written is 0, what does not
  fit is dropped.
\<close>

definition filled_array :: "nat \<Rightarrow> int list \<Rightarrow> int list" where
  "filled_array n bs = take n (bs @ replicate n 0)"

lemma filled_array_exact [simp]: "n = length bs \<Longrightarrow> filled_array n bs = bs"
  by (simp add: filled_array_def)

section \<open>Bit strings\<close>

text \<open>The \<open>n\<close> low bits of a number, the most significant first, and the number of a bit string.\<close>

definition bits_of :: "nat \<Rightarrow> int \<Rightarrow> bool list" where
  "bits_of n x = map (bit x) (rev [0..<n])"

definition of_bits :: "bool list \<Rightarrow> int" where
  "of_bits bs = horner_sum of_bool 2 (rev bs)"

lemma length_bits_of [simp]: "length (bits_of n x) = n"
  by (simp add: bits_of_def)

lemma of_bits_bits_of: "of_bits (bits_of n x) = x mod 2 ^ n"
  by (simp add: of_bits_def bits_of_def rev_map horner_sum_bit_eq_take_bit take_bit_eq_mod)

lemma bits_of_split: "bits_of (m + n) x = bits_of m (x div 2 ^ n) @ bits_of n x"
proof -
  have "[0..<m + n] = [0..<n] @ map ((+) n) [0..<m]"
    by (rule nth_equalityI) (auto simp: nth_append)
  then have "bits_of (m + n) x = map (bit x \<circ> (+) n) (rev [0..<m]) @ bits_of n x"
    by (simp add: bits_of_def rev_map)
  then show ?thesis
    by (simp only: bits_of_def flip: bit_drop_bit_eq drop_bit_eq_div)
qed

lemma bits_of_mod: "bits_of n (x mod 2 ^ n) = bits_of n x"
  by (auto simp: bits_of_def bit_take_bit_iff simp flip: take_bit_eq_mod)

end
