(* ===== verification/Swagger_Base64.thy ===== *)
theory Swagger_Base64
  imports Js_Bits
begin

text \<open>
  base64-js, the module at the end of line 100 of swagger-ui-bundle.js, which \<open>Buffer\<close> uses:
  \<open>byteLength\<close>, \<open>toByteArray\<close> and \<open>fromByteArray\<close> with the helpers they call.  Byte arrays are lists
  of numbers below 256, a string is read by \<open>charCodeAt\<close>.  The specification is RFC 4648 on bit
  strings.
\<close>

section \<open>The tables\<close>

definition base64_alphabet :: js_string where
  "base64_alphabet = js ''ABCDEFGHIJKLMNOPQRSTUVWXYZabcdefghijklmnopqrstuvwxyz0123456789+/''"

definition lookup64 :: "int \<Rightarrow> int" where
  "lookup64 d = base64_alphabet ! nat d"

text \<open>\<open>-\<close> and \<open>_\<close> are entered after the alphabet; a code unit with no entry is \<open>undefined\<close>.\<close>

definition rev_lookup :: "int \<Rightarrow> int option" where
  "rev_lookup u =
     (if u = 95 then Some 63 else if u = 45 then Some 62
      else map_of (zip base64_alphabet [0..63]) u)"

text \<open>\<open>undefined\<close> is 0 for the shift operators.\<close>

definition digit_of :: "int \<Rightarrow> int" where
  "digit_of u = (case rev_lookup u of None \<Rightarrow> 0 | Some d \<Rightarrow> d)"

section \<open>Decoding\<close>

definition place_holders_count :: "js_string \<Rightarrow> nat js_res" where
  "place_holders_count b64 =
     (let len = length b64 in
      if len mod 4 > 0 then Inl (JsError ''Invalid string. Length must be a multiple of 4'')
      else if 2 \<le> len \<and> b64 ! (len - 2) = 61 then Inr 2
      else if 1 \<le> len \<and> b64 ! (len - 1) = 61 then Inr 1
      else Inr 0)"

definition byte_length :: "js_string \<Rightarrow> int js_res" where
  "byte_length b64 =
     bindR (place_holders_count b64) (\<lambda>p. Inr (3 * int (length b64) div 4 - int p))"

definition quad_value :: "int \<Rightarrow> int \<Rightarrow> int \<Rightarrow> int \<Rightarrow> int" where
  "quad_value a b c d =
     js_or (js_or (js_or (js_shl (digit_of a) 18) (js_shl (digit_of b) 12)) (js_shl (digit_of c) 6))
       (digit_of d)"

fun decode_quads :: "js_string \<Rightarrow> int list" where
  "decode_quads (a # b # c # d # s) =
     (let i = quad_value a b c d
      in js_and (js_shr i 16) 255 # js_and (js_shr i 8) 255 # js_and 255 i # decode_quads s)"
| "decode_quads _ = []"

definition decode_tail :: "nat \<Rightarrow> js_string \<Rightarrow> int list" where
  "decode_tail p t =
     (if p = 2 then
        [js_and 255 (js_or (js_shl (digit_of (t ! 0)) 2) (js_shr (digit_of (t ! 1)) 4))]
      else if p = 1 then
        (let i = js_or (js_or (js_shl (digit_of (t ! 0)) 10) (js_shl (digit_of (t ! 1)) 4))
                   (js_shr (digit_of (t ! 2)) 2)
         in [js_and (js_shr i 8) 255, js_and 255 i])
      else [])"

definition to_byte_array :: "js_string \<Rightarrow> int list js_res" where
  "to_byte_array b64 =
     bindR (place_holders_count b64) (\<lambda>p.
       let s = length b64; n = (if 0 < p then s - 4 else s)
       in Inr (filled_array (3 * s div 4 - p)
                (decode_quads (take n b64) @ decode_tail p (drop n b64))))"

section \<open>Encoding\<close>

definition triplet_to_base64 :: "int \<Rightarrow> js_string" where
  "triplet_to_base64 e =
     [lookup64 (js_and (js_shr e 18) 63), lookup64 (js_and (js_shr e 12) 63),
      lookup64 (js_and (js_shr e 6) 63), lookup64 (js_and 63 e)]"

function encode_chunk :: "int list \<Rightarrow> nat \<Rightarrow> nat \<Rightarrow> js_string" where
  "encode_chunk e i n =
     (if i < n then
        triplet_to_base64 (js_shl (e ! i) 16 + js_shl (e ! (i + 1)) 8 + e ! (i + 2))
          @ encode_chunk e (i + 3) n
      else [])"
  by auto
termination by (relation "measure (\<lambda>(e, i, n). n - i)") auto

declare encode_chunk.simps [simp del]

text \<open>Chunks of 16383 bytes, a multiple of three.\<close>

function encode_chunks :: "int list \<Rightarrow> nat \<Rightarrow> nat \<Rightarrow> js_string" where
  "encode_chunks e a u =
     (if a < u then encode_chunk e a (if a + 16383 > u then u else a + 16383)
                      @ encode_chunks e (a + 16383) u
      else [])"
  by auto
termination by (relation "measure (\<lambda>(e, a, u). u - a)") auto

declare encode_chunks.simps [simp del]

definition encode_tail :: "int list \<Rightarrow> nat \<Rightarrow> js_string" where
  "encode_tail e r =
     (let n = length e in
      if r = 1 then
        (let t = e ! (n - 1)
         in [lookup64 (js_shr t 2), lookup64 (js_and (js_shl t 4) 63)] @ js ''=='')
      else if r = 2 then
        (let t = js_shl (e ! (n - 2)) 8 + e ! (n - 1)
         in [lookup64 (js_shr t 10), lookup64 (js_and (js_shr t 4) 63),
             lookup64 (js_and (js_shl t 2) 63)] @ js ''='')
      else [])"

definition from_byte_array :: "int list \<Rightarrow> js_string" where
  "from_byte_array e =
     (let n = length e; r = n mod 3; u = n - r in encode_chunks e 0 u @ encode_tail e r)"

section \<open>The specification\<close>

text \<open>RFC 4648, section 4: groups of six bits, the last one filled with zeros, padded to fours.\<close>

function sextets :: "bool list \<Rightarrow> int list" where
  "sextets bs =
     (if bs = [] then [] else of_bits (take 6 (bs @ replicate 5 False)) # sextets (drop 6 bs))"
  by auto
termination by (relation "measure length") auto

declare sextets.simps [simp del]

definition base64_spec :: "int list \<Rightarrow> js_string" where
  "base64_spec bs =
     (let ds = map lookup64 (sextets (concat (map (bits_of 8) bs)))
      in ds @ replicate ((4 - length ds mod 4) mod 4) 61)"

section \<open>The digits\<close>

lemma lookup64_facts:
  assumes "0 \<le> d" "d < 64"
  shows "digit_of (lookup64 d) = d" "lookup64 d \<noteq> 61" "0 \<le> lookup64 d" "lookup64 d < 128"
proof -
  have "list_all (\<lambda>n. digit_of (lookup64 n) = n \<and> lookup64 n \<noteq> 61 \<and> 0 \<le> lookup64 n \<and> lookup64 n < 128)
          [0..63]"
    by code_simp
  moreover have "d \<in> set [0..63]" using assms by simp
  ultimately have "digit_of (lookup64 d) = d \<and> lookup64 d \<noteq> 61 \<and> 0 \<le> lookup64 d \<and> lookup64 d < 128"
    unfolding list_all_iff by (rule bspec)
  then show "digit_of (lookup64 d) = d" "lookup64 d \<noteq> 61" "0 \<le> lookup64 d" "lookup64 d < 128"
    by blast+
qed

lemma digit_of_range: "0 \<le> digit_of u \<and> digit_of u < 64"
proof (cases "map_of (zip base64_alphabet [0..63]) u")
  case (Some d)
  then have "d \<in> set [0..63]" by (meson in_set_zipE map_of_SomeD)
  then have "0 \<le> d" "d < 64" by simp_all
  with Some show ?thesis by (auto simp: digit_of_def rev_lookup_def)
qed (auto simp: digit_of_def rev_lookup_def)

text \<open>The four digits of a number of 24 bits, and the number of four digits.\<close>

lemma triplet_digits:
  assumes "0 \<le> r" "r < 16777216"
  shows "triplet_to_base64 r =
           map lookup64 [r div 262144, r div 4096 mod 64, r div 64 mod 64, r mod 64]"
  using assms by (simp add: triplet_to_base64_def js_shr_small js_and_63 js_and_63')

lemma quad_value_digits:
  "quad_value a b c d =
     digit_of a * 262144 + digit_of b * 4096 + digit_of c * 64 + digit_of d"
proof -
  have r: "0 \<le> digit_of x" "digit_of x < 64" for x using digit_of_range by blast+
  note [simp] = r(1)
  have b: "digit_of x * 262144 \<le> 16515072" "digit_of x * 4096 \<le> 258048" "digit_of x * 64 \<le> 4032"
    for x using r(2) [of x] by linarith+
  have "js_or (js_shl (digit_of a) 18) (js_shl (digit_of b) 12) = (digit_of a * 64 + digit_of b) * 2 ^ 12"
    using js_or_plus [of "digit_of a" "digit_of b * 4096" 18] r b [of a] b [of b]
    by (simp add: js_shl_small algebra_simps)
  moreover have "js_or ((digit_of a * 64 + digit_of b) * 2 ^ 12) (js_shl (digit_of c) 6) =
      ((digit_of a * 64 + digit_of b) * 64 + digit_of c) * 2 ^ 6"
    using js_or_plus [of "digit_of a * 64 + digit_of b" "digit_of c * 64" 12] r b [of a] b [of b] b [of c]
    by (simp add: js_shl_small algebra_simps)
  moreover have "js_or (((digit_of a * 64 + digit_of b) * 64 + digit_of c) * 2 ^ 6) (digit_of d) =
      ((digit_of a * 64 + digit_of b) * 64 + digit_of c) * 2 ^ 6 + digit_of d"
    using r [of d] b [of a] b [of b] b [of c]
    by (intro js_or_plus) (simp_all add: algebra_simps)
  ultimately show ?thesis by (simp add: quad_value_def)
qed

section \<open>Encoding by triples\<close>

fun encode_triples :: "int list \<Rightarrow> js_string" where
  "encode_triples (a # b # c # bs) =
     triplet_to_base64 (a * 65536 + b * 256 + c) @ encode_triples bs"
| "encode_triples _ = []"

lemma three_dvd_Suc: "3 dvd Suc (Suc (Suc n)) \<longleftrightarrow> 3 dvd n"
  by presburger

lemma encode_triples_append:
  "3 dvd length as \<Longrightarrow> encode_triples (as @ bs) = encode_triples as @ encode_triples bs"
proof (induction as rule: encode_triples.induct)
qed (auto simp: three_dvd_Suc dest: dvd_imp_le)

lemma encode_chunk_triples:
  assumes "js_bytes e" "i \<le> n" "3 dvd n - i" "n \<le> length e"
  shows "encode_chunk e i n = encode_triples (drop i (take n e))"
  using assms
proof (induction e i n rule: encode_chunk.induct)
  case (1 e i n)
  show ?case
  proof (cases "i < n")
    case True
    with "1.prems" have "i + 3 \<le> n" "3 dvd n - (i + 3)" by presburger+
    then have drop: "drop i (take n e) = e ! i # e ! (i + 1) # e ! (i + 2) # drop (i + 3) (take n e)"
      using "1.prems"(4) by (simp add: Cons_nth_drop_Suc [symmetric] numeral_3_eq_3)
    have bytes: "0 \<le> e ! j" "e ! j < 256" if "j < n" for j
      using that "1.prems"(1,4) by (auto simp: js_bytes_def)
    show ?thesis
      using True \<open>i + 3 \<le> n\<close> \<open>3 dvd n - (i + 3)\<close> "1.IH" "1.prems"
        bytes [of i] bytes [of "i + 1"]
      by (subst encode_chunk.simps) (simp add: drop js_shl_small del: drop_take)
  next
    case False
    with "1.prems" show ?thesis by (simp add: encode_chunk.simps)
  qed
qed

lemma encode_chunks_triples:
  assumes "js_bytes e" "3 dvd u - a" "u \<le> length e"
  shows "encode_chunks e a u = encode_triples (drop a (take u e))"
  using assms
proof (induction e a u rule: encode_chunks.induct)
  case (1 e a u)
  consider "u \<le> a" | "a < u" "u < a + 16383" | "a + 16383 \<le> u" by linarith
  then show ?case
  proof cases
    case 1
    then show ?thesis by (simp add: encode_chunks.simps)
  next
    case 2
    then have "encode_chunks e (a + 16383) u = []" by (simp add: encode_chunks.simps)
    with 2 "1.prems" show ?thesis
      by (subst encode_chunks.simps) (simp add: encode_chunk_triples del: drop_take)
  next
    case 3
    let ?m = "a + 16383"
    have d: "3 dvd u - ?m" using "1.prems"(2) 3 by presburger
    have split: "drop a (take u e) = drop a (take ?m e) @ drop ?m (take u e)"
      using 3 "1.prems"(3) by (intro nth_equalityI) (auto simp: nth_append)
    have len: "length (drop a (take ?m e)) = 16383" using 3 "1.prems"(3) by simp
    have "encode_chunk e a ?m = encode_triples (drop a (take ?m e))"
      using 3 "1.prems" by (intro encode_chunk_triples) simp_all
    moreover have "encode_chunks e ?m u = encode_triples (drop ?m (take u e))"
      using "1.IH" "1.prems" 3 d by auto
    ultimately have "encode_chunks e a u =
        encode_triples (drop a (take ?m e)) @ encode_triples (drop ?m (take u e))"
      using 3 by (subst encode_chunks.simps) (simp del: drop_take)
    also have "\<dots> = encode_triples (drop a (take u e))"
      unfolding split by (rule encode_triples_append [symmetric]) (simp only: len, simp)
    finally show ?thesis .
  qed
qed

fun encode_all :: "int list \<Rightarrow> js_string" where
  "encode_all [] = []"
| "encode_all [a] = map lookup64 [a div 4, a * 16 mod 64] @ [61, 61]"
| "encode_all [a, b] =
     map lookup64 [(a * 256 + b) div 1024, (a * 256 + b) div 16 mod 64, (a * 256 + b) * 4 mod 64] @ [61]"
| "encode_all (a # b # c # bs) =
     (let r = a * 65536 + b * 256 + c
      in map lookup64 [r div 262144, r div 4096 mod 64, r div 64 mod 64, r mod 64]) @ encode_all bs"

lemma encode_tail_Cons:
  assumes "length bs mod 3 = r"
  shows "encode_tail (a # b # c # bs) r = encode_tail bs r"
proof (cases bs rule: rev_cases)
  case (snoc cs y)
  then show ?thesis
    using assms by (cases cs rule: rev_cases) (auto simp: encode_tail_def nth_append)
qed (use assms in \<open>simp add: encode_tail_def\<close>)

lemma from_byte_array_triples:
  "js_bytes e \<Longrightarrow> from_byte_array e =
     encode_triples (take (length e - length e mod 3) e) @ encode_tail e (length e mod 3)"
  by (simp add: from_byte_array_def Let_def encode_chunks_triples dvd_minus_mod)

lemma from_byte_array_all: "js_bytes e \<Longrightarrow> from_byte_array e = encode_all e"
proof (induction e rule: encode_all.induct)
  case (2 a)
  then show ?case
    by (simp add: from_byte_array_triples encode_tail_def js_shr_small js_shl_small js_and_63)
next
  case (3 a b)
  then have "0 \<le> (a * 256 + b) div 16" "(a * 256 + b) div 16 < 2147483648" by auto
  with 3 show ?case
    by (simp add: from_byte_array_triples encode_tail_def Let_def js_shr_small js_shl_small js_and_63)
next
  case (4 a b c bs)
  have m: "length (a # b # c # bs) mod 3 = length bs mod 3" by simp
  have "length (a # b # c # bs) - length bs mod 3 = Suc (Suc (Suc (length bs - length bs mod 3)))"
    by (simp add: Suc_diff_le)
  then have "from_byte_array (a # b # c # bs) =
      triplet_to_base64 (a * 65536 + b * 256 + c) @ from_byte_array bs"
    using 4 by (simp only: from_byte_array_triples m encode_tail_Cons take_Suc_Cons
        encode_triples.simps append_assoc js_bytes_simps)
  with 4 show ?case by (simp add: triplet_digits Let_def)
qed (simp add: from_byte_array_triples encode_tail_def)

section \<open>Decoding by groups\<close>

lemma length_encode_all:
  "length (encode_all e) = 4 * ((length e + 2) div 3)"
proof (induction e rule: encode_all.induct)
  case (4 a b c bs)
  have "(length (a # b # c # bs) + 2) div 3 = Suc ((length bs + 2) div 3)" by simp
  with 4 show ?case by (simp only: encode_all.simps Let_def) simp
qed simp_all

lemma place_holders_encode_all:
  "js_bytes e \<Longrightarrow> place_holders_count (encode_all e) = Inr ((3 - length e mod 3) mod 3)"
proof (induction e rule: encode_all.induct)
  case (4 a b c bs)
  let ?r = "a * 65536 + b * 256 + c"
  show ?case
  proof (cases "bs = []")
    case True
    with 4 show ?thesis
      by (simp add: place_holders_count_def Let_def lookup64_facts)
  next
    case False
    then obtain n where n: "length (encode_all bs) = Suc (Suc n)"
      using length_encode_all [of bs] by (cases bs) (auto simp: div_if)
    have "place_holders_count (encode_all (a # b # c # bs)) = place_holders_count (encode_all bs)"
      using n by (simp add: place_holders_count_def Let_def nth_append) presburger
    with 4 show ?thesis by simp
  qed
qed (simp_all add: place_holders_count_def Let_def lookup64_facts)


text \<open>What the digits of a group decode to.\<close>

lemma quad_of_digits:
  assumes "0 \<le> r" "r < 16777216"
  shows "quad_value (lookup64 (r div 262144)) (lookup64 (r div 4096 mod 64))
           (lookup64 (r div 64 mod 64)) (lookup64 (r mod 64)) = r"
proof -
  have "r div 262144 < 64" "0 \<le> r div 262144" using assms by auto
  then have "quad_value (lookup64 (r div 262144)) (lookup64 (r div 4096 mod 64))
      (lookup64 (r div 64 mod 64)) (lookup64 (r mod 64)) =
      r div 262144 * 262144 + r div 4096 mod 64 * 4096 + r div 64 mod 64 * 64 + r mod 64"
    by (simp add: quad_value_digits lookup64_facts)
  also have "\<dots> = r"
  proof -
    have q: "r div 64 div 64 = r div 4096" "r div 4096 div 64 = r div 262144"
      by (simp_all flip: zdiv_zmult2_eq)
    have "64 * (r div 64) + r mod 64 = r" by (rule mult_div_mod_eq)
    moreover have "64 * (r div 4096) + r div 64 mod 64 = r div 64"
      using mult_div_mod_eq [of 64 "r div 64"] by (simp only: q)
    moreover have "64 * (r div 262144) + r div 4096 mod 64 = r div 4096"
      using mult_div_mod_eq [of 64 "r div 4096"] by (simp only: q)
    ultimately show ?thesis by linarith
  qed
  finally show ?thesis .
qed

lemma triple_bytes:
  fixes a b c :: int
  assumes "js_bytes [a, b, c]"
  defines "r \<equiv> a * 65536 + b * 256 + c"
  shows "0 \<le> r" "r < 16777216" "r div 65536 = a" "r div 256 mod 256 = b" "r mod 256 = c"
proof -
  have range: "0 \<le> a" "a < 256" "0 \<le> b" "b < 256" "0 \<le> c" "c < 256" using assms(1) by auto
  then show "0 \<le> r" "r < 16777216" by (simp_all add: r_def)
  have e: "r = c + (a * 256 + b) * 256" by (simp add: r_def)
  show "r mod 256 = c" unfolding e mod_mult_self1 using range by simp
  have d: "r div 256 = b + a * 256" unfolding e using range by (subst div_mult_self1) simp_all
  show "r div 256 mod 256 = b" unfolding d mod_mult_self1 using range by simp
  have "r div 65536 = r div 256 div 256" by (simp flip: zdiv_zmult2_eq)
  then show "r div 65536 = a" unfolding d using range by (subst (asm) div_mult_self1) simp_all
qed

lemma decode_quads_triple:
  assumes "js_bytes [a, b, c]"
  obtains w x y z where "encode_all (a # b # c # bs) = w # x # y # z # encode_all bs"
    and "\<And>s. decode_quads (w # x # y # z # s) = a # b # c # decode_quads s"
proof (rule that)
  show "encode_all (a # b # c # bs) =
      lookup64 ((a * 65536 + b * 256 + c) div 262144) # lookup64 ((a * 65536 + b * 256 + c) div 4096 mod 64)
      # lookup64 ((a * 65536 + b * 256 + c) div 64 mod 64) # lookup64 ((a * 65536 + b * 256 + c) mod 64)
      # encode_all bs"
    by (simp add: Let_def)
next
  fix s
  define r where "r = a * 65536 + b * 256 + c"
  note r = triple_bytes [OF assms, folded r_def]
  have "js_and (js_shr r 16) 255 = a" "js_and (js_shr r 8) 255 = b" "js_and 255 r = c"
    using r assms by (simp_all add: js_shr_small js_and_div js_and_255 js_and_255')
  then show "decode_quads (lookup64 ((a * 65536 + b * 256 + c) div 262144)
      # lookup64 ((a * 65536 + b * 256 + c) div 4096 mod 64)
      # lookup64 ((a * 65536 + b * 256 + c) div 64 mod 64)
      # lookup64 ((a * 65536 + b * 256 + c) mod 64) # s) = a # b # c # decode_quads s"
    using r(1,2) by (simp only: decode_quads.simps Let_def quad_of_digits flip: r_def)
qed

text \<open>The last group: one or two bytes.\<close>

lemma decode_tail_two:
  assumes "0 \<le> a" "a < 256"
  shows "decode_tail 2 (encode_all [a]) = [a]"
proof -
  have quarter: "0 \<le> a div 4" "a div 4 < 64" using assms by auto
  have "digit_of (lookup64 (a div 4)) = a div 4" "digit_of (lookup64 (a * 16 mod 64)) = a * 16 mod 64"
    using assms by (simp_all add: lookup64_facts)
  moreover have "a * 16 mod 64 div 16 = a mod 4"
    using mod_mult_mult2 [of a 16 4] by simp
  moreover have "js_or (a div 4 * 2 ^ 2) (a mod 4) = a div 4 * 2 ^ 2 + a mod 4"
    using assms by (intro js_or_plus) simp_all
  moreover have "js_shl (a div 4) 2 = a div 4 * 2 ^ 2" "js_shr (a * 16 mod 64) 4 = a * 16 mod 64 div 16"
    using assms quarter by (simp_all add: js_shr_small js_shl_small)
  ultimately show ?thesis
    using assms by (simp add: decode_tail_def js_and_255')
qed

lemma decode_tail_one:
  assumes "js_bytes [a, b]"
  shows "decode_tail 1 (encode_all [a, b]) = [a, b]"
proof -
  define t where "t = a * 256 + b"
  have t: "0 \<le> t" "t < 65536" "t div 256 = a" "t mod 256 = b"
    using assms div_mult_self1 [of 256 b a] mod_mult_self1 [of b a 256] by (auto simp: t_def add.commute)
  have hd: "0 \<le> t div 1024" "t div 1024 < 64" using t by auto
  have mid: "0 \<le> t div 16 mod 64" "t div 16 mod 64 < 64" by simp_all
  from hd have d: "digit_of (lookup64 (t div 1024)) = t div 1024"
      "digit_of (lookup64 (t div 16 mod 64)) = t div 16 mod 64"
      "digit_of (lookup64 (t * 4 mod 64)) = t * 4 mod 64"
    by (simp_all add: lookup64_facts)
  have low: "t * 4 mod 64 div 4 = t mod 16" using mod_mult_mult2 [of t 4 16] by simp
  have hi: "js_or (t div 1024 * 2 ^ 10) (t div 16 mod 64 * 16) = t div 1024 * 2 ^ 10 + t div 16 mod 64 * 16"
    using t by (intro js_or_plus) (auto simp: algebra_simps)
  have q: "t div 16 div 64 = t div 1024" by (simp flip: zdiv_zmult2_eq)
  have "16 * (t div 16) + t mod 16 = t" by (rule mult_div_mod_eq)
  moreover have "64 * (t div 1024) + t div 16 mod 64 = t div 16"
    using mult_div_mod_eq [of 64 "t div 16"] by (simp only: q)
  ultimately have sum: "t div 1024 * 1024 + t div 16 mod 64 * 16 = t div 16 * 16"
      "t div 16 * 16 + t mod 16 = t"
    by linarith+
  have "js_or (t div 16 * 2 ^ 4) (t mod 16) = t div 16 * 2 ^ 4 + t mod 16"
    using t by (intro js_or_plus) (auto simp: sum(2))
  moreover have shifts: "js_shl (t div 1024) 10 = t div 1024 * 2 ^ 10"
      "js_shl (t div 16 mod 64) 4 = t div 16 mod 64 * 16" "js_shr (t * 4 mod 64) 2 = t * 4 mod 64 div 4"
    using js_shl_small [OF hd(1), of 10] js_shl_small [OF mid(1), of 4] hd(2) mid(2)
    by (simp_all add: js_shr_small)
  ultimately have "js_or (js_or (js_shl (t div 1024) 10) (js_shl (t div 16 mod 64) 4)) (js_shr (t * 4 mod 64) 2) = t"
    using shifts hi sum low by simp
  then have "decode_tail 1 (encode_all [a, b]) = [js_and (js_shr t 8) 255, js_and 255 t]"
    by (simp only: decode_tail_def encode_all.simps list.map append.simps nth_Cons_0 nth_Cons_Suc
        numeral_2_eq_2 One_nat_def Let_def d if_False if_True flip: t_def) simp
  also have "\<dots> = [a, b]"
    using t by (simp only: js_shr_small js_and_255' t(4)) (simp add: js_and_255)
  finally show ?thesis .
qed

text \<open>All bytes of an encoding: its groups of four, then its last group.\<close>

lemma decode_encode_all:
  assumes "js_bytes e"
  shows "let p = (3 - length e mod 3) mod 3; s = encode_all e;
             n = (if 0 < p then length s - 4 else length s)
         in decode_quads (take n s) @ decode_tail p (drop n s) = e"
  using assms
proof (induction e rule: encode_all.induct)
  case 1
  then show ?case by (simp add: decode_tail_def)
next
  case (2 a)
  then show ?case using decode_tail_two by (simp add: Let_def)
next
  case (3 a b)
  then show ?case using decode_tail_one [of a b] by (simp add: Let_def)
next
  case (4 a b c bs)
  define p where "p = (3 - length bs mod 3) mod 3"
  define n where "n = (if 0 < p then length (encode_all bs) - 4 else length (encode_all bs))"
  have "js_bytes [a, b, c]" "js_bytes bs" using "4.prems" by auto
  then obtain w x y z where q: "encode_all (a # b # c # bs) = w # x # y # z # encode_all bs"
    and d: "\<And>s. decode_quads (w # x # y # z # s) = a # b # c # decode_quads s"
    using decode_quads_triple by metis
  have "0 < p \<longrightarrow> 4 \<le> length (encode_all bs)"
    using length_encode_all [of bs] by (cases bs) (auto simp: p_def)
  then have n': "(if 0 < p then length (encode_all (a # b # c # bs)) - 4
      else length (encode_all (a # b # c # bs))) = Suc (Suc (Suc (Suc n)))"
    unfolding q n_def list.size by arith
  have m: "(3 - length (a # b # c # bs) mod 3) mod 3 = p" by (simp add: p_def)
  have "decode_quads (take n (encode_all bs)) @ decode_tail p (drop n (encode_all bs)) = bs"
    using "4.IH" \<open>js_bytes bs\<close> by (simp add: p_def n_def Let_def)
  then show ?case
    unfolding Let_def m n' unfolding q take_Suc_Cons drop_Suc_Cons d by simp
qed

lemma to_from_byte_array:
  assumes "js_bytes e"
  shows "to_byte_array (from_byte_array e) = Inr e"
proof -
  have "length e mod 3 < 3" by simp
  then consider "length e mod 3 = 0" | "length e mod 3 = 1" | "length e mod 3 = 2" by linarith
  then have "3 * ((length e + 2) div 3) - (3 - length e mod 3) mod 3 = length e"
    by cases (simp_all, presburger+)
  moreover have "3 * (4 * k) div 4 = 3 * k" for k :: nat by simp
  ultimately have "3 * length (encode_all e) div 4 - (3 - length e mod 3) mod 3 = length e"
    by (simp only: length_encode_all)
  then show ?thesis
    using decode_encode_all [OF assms]
    by (simp add: to_byte_array_def from_byte_array_all [OF assms] place_holders_encode_all [OF assms]
        Let_def)
qed


section \<open>Refinement of the bit-string specification\<close>

lemma sextets_group:
  assumes "length g = 6"
  shows "sextets (g @ bs) = of_bits g # sextets bs"
proof -
  have "take 6 ((g @ bs) @ replicate 5 False) = g" "drop 6 (g @ bs) = bs" "g @ bs \<noteq> []"
    using assms by auto
  then show ?thesis by (subst sextets.simps) (simp only: if_False)
qed

lemma sextets_last:
  assumes "g \<noteq> []" "length g + n = 6"
  shows "sextets g = [of_bits (g @ replicate n False)]"
proof -
  have "length g \<noteq> 0" using assms(1) by simp
  then have "min n 5 = n" using assms(2) by linarith
  then have "take 6 (g @ replicate 5 False) = g @ replicate n False" "drop 6 g = []"
    using assms(2) by (simp_all flip: assms(2))
  moreover have "sextets [] = []" by (simp add: sextets.simps)
  ultimately show ?thesis using assms(1) by (subst sextets.simps) (simp only: if_False)
qed

lemma sextets_number:
  "sextets (bits_of (n + 6) x @ bs) = x div 2 ^ n mod 64 # sextets (bits_of n x @ bs)"
  using bits_of_split [of 6 n x] sextets_group [of "bits_of 6 (x div 2 ^ n)"]
  by (simp add: of_bits_bits_of add.commute)

text \<open>Eight-bit groups put together are the bits of the number the code computes.\<close>

lemma bits_of_join:
  assumes "0 \<le> b" "b < 2 ^ n"
  shows "bits_of m a @ bits_of n b = bits_of (m + n) (a * 2 ^ n + b)"
proof -
  have e: "a * 2 ^ n + b = b + a * 2 ^ n" by simp
  have "(a * 2 ^ n + b) div 2 ^ n = a"
    unfolding e using assms by (subst div_mult_self1) simp_all
  moreover have "bits_of n (a * 2 ^ n + b) = bits_of n b"
    using bits_of_mod [of n "a * 2 ^ n + b"] bits_of_mod [of n b] by simp
  ultimately show ?thesis by (simp add: bits_of_split)
qed

lemma bits_pad: "bits_of m a @ replicate n False = bits_of (m + n) (a * 2 ^ n)"
proof -
  have "bits_of n 0 = replicate n False" by (intro replicate_eqI) (auto simp: bits_of_def)
  then show ?thesis using bits_of_join [of 0 n m a] by simp
qed

lemma sextets_triple:
  assumes "js_bytes [a, b, c]"
  defines "r \<equiv> a * 65536 + b * 256 + c"
  shows "sextets (bits_of 8 a @ bits_of 8 b @ bits_of 8 c @ bs) =
           [r div 262144, r div 4096 mod 64, r div 64 mod 64, r mod 64] @ sextets bs"
proof -
  have "bits_of 8 a @ bits_of 8 b = bits_of 16 (a * 256 + b)"
    using assms(1) bits_of_join [of b 8 8 a] by simp
  moreover have "bits_of 16 (a * 256 + b) @ bits_of 8 c = bits_of 24 r"
    using assms(1) bits_of_join [of c 8 16 "a * 256 + b"] by (simp add: r_def algebra_simps)
  ultimately have join: "bits_of 8 a @ bits_of 8 b @ bits_of 8 c @ bs = bits_of 24 r @ bs"
    by (metis append_assoc)
  have "bits_of 0 r = []" by (simp add: bits_of_def)
  moreover have "r div 262144 mod 64 = r div 262144"
    using triple_bytes [OF assms(1)] unfolding r_def by (intro mod_pos_pos_trivial) auto
  ultimately show ?thesis
    using sextets_number [of 18 r bs] sextets_number [of 12 r bs] sextets_number [of 6 r bs]
      sextets_number [of 0 r bs]
    unfolding join by simp
qed

lemma base64_spec_triple:
  assumes "js_bytes [a, b, c]"
  shows "base64_spec (a # b # c # bs) =
     (let r = a * 65536 + b * 256 + c
      in map lookup64 [r div 262144, r div 4096 mod 64, r div 64 mod 64, r mod 64]) @ base64_spec bs"
  using sextets_triple [OF assms] by (simp add: base64_spec_def Let_def)

lemma encode_all_spec: "js_bytes e \<Longrightarrow> encode_all e = base64_spec e"
proof (induction e rule: encode_all.induct)
  case 1
  then show ?case by (simp add: base64_spec_def sextets.simps)
next
  case (2 a)
  have "sextets (bits_of 8 a) = [a div 4, a * 16 mod 64]"
    using 2 sextets_number [of 2 a "[]"] sextets_last [of "bits_of 2 a" 4] bits_pad [of 2 a 4]
    by (auto simp: of_bits_bits_of intro!: mod_pos_pos_trivial) (simp add: bits_of_def)
  then show ?case by (simp add: base64_spec_def numeral_2_eq_2)
next
  case (3 a b)
  define t where "t = a * 256 + b"
  have t: "0 \<le> t" "t < 65536" using 3 by (auto simp: t_def)
  have "bits_of 8 a @ bits_of 8 b = bits_of 16 t"
    using 3 bits_of_join [of b 8 8 a] by (simp add: t_def)
  moreover have "t div 1024 mod 64 = t div 1024" using t by (intro mod_pos_pos_trivial) auto
  moreover have "bits_of 4 t \<noteq> []" by (simp add: bits_of_def)
  ultimately have "sextets (bits_of 8 a @ bits_of 8 b) = [t div 1024, t div 16 mod 64, t * 4 mod 64]"
    using sextets_number [of 10 t "[]"] sextets_number [of 4 t "[]"]
      sextets_last [of "bits_of 4 t" 2] bits_pad [of 4 t 2]
    by (simp add: of_bits_bits_of)
  then show ?case by (simp add: base64_spec_def t_def)
next
  case (4 a b c bs)
  then show ?case using base64_spec_triple [of a b c bs] by simp
qed


section \<open>What any input decodes to\<close>

lemma quad_value_range: "0 \<le> quad_value a b c d" "quad_value a b c d < 16777216"
proof -
  have "0 \<le> digit_of x" "digit_of x < 64" for x using digit_of_range by blast+
  from this(1) [of a] this(1) [of b] this(1) [of c] this(1) [of d]
       this(2) [of a] this(2) [of b] this(2) [of c] this(2) [of d]
  show "0 \<le> quad_value a b c d" "quad_value a b c d < 16777216"
    unfolding quad_value_digits by linarith+
qed

lemma js_and_255_byte: "0 \<le> js_and x 255 \<and> js_and x 255 < 256" "0 \<le> js_and 255 x \<and> js_and 255 x < 256"
proof -
  have "js_and x 255 = take_bit 8 (to_int32 x)"
    by (simp add: js_and_def to_int32_small take_bit_eq_mask mask_numeral)
  moreover have "0 \<le> take_bit 8 (to_int32 x)" "take_bit 8 (to_int32 x) < 2 ^ 8"
    by (rule take_bit_nonnegative, rule take_bit_int_less_exp)
  ultimately show "0 \<le> js_and x 255 \<and> js_and x 255 < 256" by simp
  then show "0 \<le> js_and 255 x \<and> js_and 255 x < 256" by (simp add: js_and_def and.commute)
qed

lemma decode_quads_bytes: "js_bytes (decode_quads s)"
  by (induction s rule: decode_quads.induct) (simp_all add: Let_def js_and_255_byte)

lemma decode_tail_bytes: "js_bytes (decode_tail p t)"
  by (simp add: decode_tail_def Let_def js_and_255_byte)

lemma length_decode_quads: "length (decode_quads s) = 3 * (length s div 4)"
  by (induction s rule: decode_quads.induct) (simp_all add: Let_def)

lemma to_byte_array_cases:
  "if length s mod 4 = 0
   then \<exists>p bs. place_holders_count s = Inr p \<and> to_byte_array s = Inr bs \<and> js_bytes bs
          \<and> p \<in> {0, 1, 2} \<and> length bs = 3 * length s div 4 - p
   else to_byte_array s = Inl (JsError ''Invalid string. Length must be a multiple of 4'')"
proof (cases "length s mod 4 = 0")
  case True
  then obtain k where k: "length s = 4 * k" by auto
  have "\<exists>p \<in> {0, 1, 2}. place_holders_count s = Inr p \<and> (0 < p \<longrightarrow> 0 < k)"
    by (cases "k = 0") (simp_all add: place_holders_count_def Let_def k)
  then obtain p where p: "p \<in> {0, 1, 2}" "place_holders_count s = Inr p \<and> (0 < p \<longrightarrow> 0 < k)" by (rule bexE)
  let ?n = "if 0 < p then length s - 4 else length s"
  have n: "length (decode_quads (take ?n s)) = (if 0 < p then 3 * (k - 1) else 3 * k)"
  proof -
    have "4 * k - 4 = 4 * (k - 1)" by simp
    then show ?thesis by (simp add: length_decode_quads k)
  qed
  have "length (decode_tail p (drop ?n s)) = (if 0 < p then 3 - p else 0)"
    using p(1) by (auto simp: decode_tail_def Let_def)
  with n have "length (decode_quads (take ?n s) @ decode_tail p (drop ?n s)) = 3 * length s div 4 - p"
    using p unfolding length_append k by (auto simp: diff_mult_distrib2)
  then show ?thesis
    using True p decode_quads_bytes decode_tail_bytes
    by (auto simp: to_byte_array_def Let_def simp del: length_append)
next
  case False
  then show ?thesis by (simp add: to_byte_array_def place_holders_count_def)
qed

text \<open>\<open>byteLength\<close> tells how many bytes decoding gives.\<close>

lemma byte_length_agrees:
  assumes "to_byte_array s = Inr bs"
  shows "byte_length s = Inr (int (length bs))"
proof -
  have four: "length s mod 4 = 0" using to_byte_array_cases [of s] assms by (auto split: if_splits)
  then obtain p where p: "place_holders_count s = Inr p" "p \<in> {0, 1, 2}"
      "length bs = 3 * length s div 4 - p"
    using to_byte_array_cases [of s] assms by auto
  from four obtain k where k: "length s = 4 * k" by auto
  have "k \<noteq> 0 \<or> p = 0" using p(1) k by (auto simp: place_holders_count_def Let_def split: if_splits)
  then have "p \<le> 3 * k" using p(2) by auto
  then show ?thesis using p k by (auto simp: byte_length_def of_nat_diff)
qed

end
