(* ===== verification/Swagger_Buffer.thy ===== *)
theory Swagger_Buffer
  imports Swagger_Base64 Js_Uri Js_Text
begin

text \<open>
  Text in the buffer module (swagger-ui-bundle.js, lines 6 to 12, and again in
  swagger-ui-standalone-preset.js): \<open>Buffer.from(string, encoding)\<close> and \<open>toString(encoding)\<close> with the
  codecs they call, where typed arrays exist.  A buffer is the list of its bytes.
\<close>

section \<open>UTF-8\<close>

text \<open>
  \<open>utf8ToBytes(string, units)\<close>: \<open>t\<close> is the budget of bytes (\<open>None\<close> is \<open>Infinity\<close>), which may fall below
  zero, \<open>lead\<close> the surrogate that waits for its partner.  Code points are below \<open>0x110000\<close> by
  construction, so the branch that raises is dead.
\<close>

definition spend :: "int option \<Rightarrow> int \<Rightarrow> int option" where
  "spend t k = map_option (\<lambda>n. n - k) t"

definition overspent :: "int option \<Rightarrow> bool" where
  "overspent t \<longleftrightarrow> (case t of None \<Rightarrow> False | Some n \<Rightarrow> n < 0)"

definition replacement :: "int option \<Rightarrow> int list" where
  "replacement t = (if overspent (spend t 3) then [] else [239, 191, 189])"

definition code_point_bytes :: "int \<Rightarrow> int list" where
  "code_point_bytes n =
     (if n < 128 then [n]
      else if n < 2048 then [js_or (js_shr n 6) 192, js_or (js_and 63 n) 128]
      else if n < 65536 then
        [js_or (js_shr n 12) 224, js_or (js_and (js_shr n 6) 63) 128, js_or (js_and 63 n) 128]
      else
        [js_or (js_shr n 18) 240, js_or (js_and (js_shr n 12) 63) 128,
         js_or (js_and (js_shr n 6) 63) 128, js_or (js_and 63 n) 128])"

fun utf8_loop :: "int option \<Rightarrow> int option \<Rightarrow> js_string \<Rightarrow> int list" where
  "utf8_loop t lead [] = []"
| "utf8_loop t lead (n # s) =
     (let emit = (\<lambda>t n. let bs = code_point_bytes n; t' = spend t (int (length bs))
                        in if overspent t' then [] else bs @ utf8_loop t' None s)
      in if 55295 < n \<and> n < 57344 then
           (case lead of
              None \<Rightarrow>
                if 56319 < n then replacement t @ utf8_loop (spend t 3) None s
                else if s = [] then replacement t @ utf8_loop (spend t 3) None s
                else utf8_loop t (Some n) s
            | Some i \<Rightarrow>
                if n < 56320 then replacement t @ utf8_loop (spend t 3) (Some n) s
                else emit t (65536 + js_or (js_shl (i - 55296) 10) (n - 56320)))
         else
           (case lead of
              None \<Rightarrow> emit t n
            | Some i \<Rightarrow> replacement t @ emit (spend t 3) n))"

definition utf8_to_bytes :: "js_string \<Rightarrow> nat option \<Rightarrow> int list" where
  "utf8_to_bytes s units =
     utf8_loop (case units of None \<Rightarrow> None | Some 0 \<Rightarrow> None | Some n \<Rightarrow> Some (int n)) None s"

text \<open>\<open>utf8Slice\<close>: how long the sequence is that a byte announces, and its code point if it is sound.\<close>

definition sequence_length :: "int \<Rightarrow> nat" where
  "sequence_length b = (if b > 239 then 4 else if b > 223 then 3 else if b > 191 then 2 else 1)"

definition continues :: "int \<Rightarrow> bool" where
  "continues b \<longleftrightarrow> js_and 192 b = 128"

fun sequence_value :: "nat \<Rightarrow> int list \<Rightarrow> int option" where
  "sequence_value (Suc 0) (b # bs) = (if b < 128 then Some b else None)"
| "sequence_value (Suc (Suc 0)) (b # u # bs) =
     (let p = js_or (js_shl (js_and 31 b) 6) (js_and 63 u)
      in if continues u \<and> 127 < p then Some p else None)"
| "sequence_value (Suc (Suc (Suc 0))) (b # u # c # bs) =
     (let p = js_or (js_or (js_shl (js_and 15 b) 12) (js_shl (js_and 63 u) 6)) (js_and 63 c)
      in if continues u \<and> continues c \<and> 2047 < p \<and> (p < 55296 \<or> 57343 < p) then Some p else None)"
| "sequence_value (Suc (Suc (Suc (Suc 0)))) (b # u # c # l # bs) =
     (let p = js_or (js_or (js_or (js_shl (js_and 15 b) 18) (js_shl (js_and 63 u) 12))
                (js_shl (js_and 63 c) 6)) (js_and 63 l)
      in if continues u \<and> continues c \<and> continues l \<and> 65535 < p \<and> p < 1114112 then Some p else None)"
| "sequence_value _ _ = None"

definition unit_pair :: "int \<Rightarrow> js_string" where
  "unit_pair a =
     (if a > 65535 then
        (let a = a - 65536 in [js_or (js_and (js_shr a 10) 1023) 55296, js_or 56320 (js_and 1023 a)])
      else [a])"

function utf8_slice :: "int list \<Rightarrow> js_string" where
  "utf8_slice bs =
     (case bs of
        [] \<Rightarrow> []
      | b # rest \<Rightarrow>
          (case sequence_value (sequence_length b) bs of
             None \<Rightarrow> 65533 # utf8_slice rest
           | Some a \<Rightarrow> unit_pair a @ utf8_slice (drop (sequence_length b) bs)))"
  by auto
termination
  by (relation "measure length") (auto simp: sequence_length_def)

declare utf8_slice.simps [simp del]

section \<open>The other encodings\<close>

datatype encoding = Utf8 | Ascii | Latin1 | Ucs2 | Hex | Base64

definition encoding_of :: "js_string \<Rightarrow> encoding option" where
  "encoding_of name =
     map_of [(js ''hex'', Hex), (js ''utf8'', Utf8), (js ''utf-8'', Utf8), (js ''ascii'', Ascii),
             (js ''latin1'', Latin1), (js ''binary'', Latin1), (js ''base64'', Base64),
             (js ''ucs2'', Ucs2), (js ''ucs-2'', Ucs2), (js ''utf16le'', Ucs2), (js ''utf-16le'', Ucs2)]
       (map ascii_lower name)"

definition ascii_to_bytes :: "js_string \<Rightarrow> int list" where
  "ascii_to_bytes s = map (js_and 255) s"

fun utf16le_to_bytes :: "js_string \<Rightarrow> int \<Rightarrow> int list" where
  "utf16le_to_bytes [] units = []"
| "utf16le_to_bytes (n # s) units =
     (if units - 2 < 0 then []
      else n mod 256 # js_shr n 8 # utf16le_to_bytes s (units - 2))"

fun utf16le_slice :: "int list \<Rightarrow> js_string" where
  "utf16le_slice [] = []"
| "utf16le_slice [a] = [0]"
| "utf16le_slice (a # b # bs) = (a + 256 * b) # utf16le_slice bs"

definition base64_char :: "int \<Rightarrow> bool" where
  "base64_char u \<longleftrightarrow> unit_alnum u \<or> u \<in> {43, 47, 45, 95}"

definition base64_clean :: "js_string \<Rightarrow> js_string" where
  "base64_clean s =
     (let e = filter base64_char (js_trim s)
      in if length e < 2 then [] else e @ replicate ((4 - length e mod 4) mod 4) 61)"

definition base64_to_bytes :: "js_string \<Rightarrow> int list js_res" where
  "base64_to_bytes s = to_byte_array (base64_clean s)"

definition hex_unit :: "int \<Rightarrow> int" where
  "hex_unit n = (if n < 10 then 48 + n else 87 + n)"

definition to_hex :: "int \<Rightarrow> js_string" where
  "to_hex n = (if n < 16 then [48, hex_unit n] else [hex_unit (n div 16), hex_unit (n mod 16)])"

text \<open>\<open>parseInt(s, 16)\<close>\<close>

fun hex_prefix :: "int option \<Rightarrow> js_string \<Rightarrow> int option" where
  "hex_prefix v [] = v"
| "hex_prefix v (u # s) =
     (case hex_value u of
        None \<Rightarrow> v
      | Some d \<Rightarrow> hex_prefix (Some (case v of None \<Rightarrow> d | Some n \<Rightarrow> 16 * n + d)) s)"

definition parse_hex :: "js_string \<Rightarrow> int option" where
  "parse_hex s =
     (let s = dropWhile unit_space s;
          neg = (s \<noteq> [] \<and> hd s = 45);
          s = (if s \<noteq> [] \<and> hd s \<in> {43, 45} then tl s else s);
          s = (if 2 \<le> length s \<and> s ! 0 = 48 \<and> s ! 1 \<in> {120, 88} then drop 2 s else s)
      in map_option (\<lambda>n. if neg then - n else n) (hex_prefix None s))"

text \<open>The loop of \<open>hexWrite\<close>: it ends at the first pair that is no number; bytes are stored modulo 256.\<close>

fun hex_pairs :: "nat \<Rightarrow> js_string \<Rightarrow> int list" where
  "hex_pairs 0 s = []"
| "hex_pairs (Suc n) s =
     (case parse_hex (take 2 s) of None \<Rightarrow> [] | Some b \<Rightarrow> b mod 256 # hex_pairs n (drop 2 s))"

definition hex_write :: "nat \<Rightarrow> js_string \<Rightarrow> int list js_res" where
  "hex_write len s =
     (if length s mod 2 \<noteq> 0 then Inl (JsTypeError ''Invalid hex string'')
      else Inr (hex_pairs (min len (length s div 2)) s))"

section \<open>Buffer.from and toString\<close>

definition text_byte_length :: "js_string \<Rightarrow> encoding \<Rightarrow> nat js_res" where
  "text_byte_length s enc =
     (case enc of
        Utf8 \<Rightarrow> Inr (length (utf8_to_bytes s None))
      | Ascii \<Rightarrow> Inr (length s)
      | Latin1 \<Rightarrow> Inr (length s)
      | Ucs2 \<Rightarrow> Inr (2 * length s)
      | Hex \<Rightarrow> Inr (length s div 2)
      | Base64 \<Rightarrow> bindR (base64_to_bytes s) (\<lambda>bs. Inr (length bs)))"

text \<open>\<open>write(string, encoding)\<close> on a new buffer of \<open>n\<close> bytes: the bytes written.\<close>

definition written_bytes :: "nat \<Rightarrow> js_string \<Rightarrow> encoding \<Rightarrow> int list js_res" where
  "written_bytes n s enc =
     (case enc of
        Utf8 \<Rightarrow> Inr (take n (utf8_to_bytes s (Some n)))
      | Ascii \<Rightarrow> Inr (take n (ascii_to_bytes s))
      | Latin1 \<Rightarrow> Inr (take n (ascii_to_bytes s))
      | Ucs2 \<Rightarrow> Inr (take n (utf16le_to_bytes s (int n)))
      | Hex \<Rightarrow> hex_write n s
      | Base64 \<Rightarrow> bindR (base64_to_bytes s) (\<lambda>bs. Inr (take n bs)))"

text \<open>What is not written of the allocated buffer is cut off.\<close>

definition buffer_from :: "js_string \<Rightarrow> js_string \<Rightarrow> int list js_res" where
  "buffer_from s name =
     (case encoding_of (if name = [] then js ''utf8'' else name) of
        None \<Rightarrow> Inl (JsTypeError ''\"encoding\" must be a valid string encoding'')
      | Some enc \<Rightarrow> bindR (text_byte_length s enc) (\<lambda>n. written_bytes n s enc))"

definition buffer_to_string :: "int list \<Rightarrow> js_string \<Rightarrow> js_string js_res" where
  "buffer_to_string b name =
     (if b = [] then Inr []
      else case encoding_of (if name = [] then js ''utf8'' else name) of
             None \<Rightarrow> Inl (JsTypeError ''Unknown encoding'')
           | Some Utf8 \<Rightarrow> Inr (utf8_slice b)
           | Some Ascii \<Rightarrow> Inr (map (js_and 127) b)
           | Some Latin1 \<Rightarrow> Inr b
           | Some Ucs2 \<Rightarrow> Inr (utf16le_slice b)
           | Some Hex \<Rightarrow> Inr (concat (map to_hex b))
           | Some Base64 \<Rightarrow> Inr (from_byte_array b))"


section \<open>UTF-8 implements the encoding of code points\<close>

lemma js_or_high:
  "0 \<le> x \<Longrightarrow> x < 2 ^ n \<Longrightarrow> 0 \<le> a \<Longrightarrow> a * 2 ^ n + x < 2147483648 \<Longrightarrow> js_or x (a * 2 ^ n) = a * 2 ^ n + x"
  using js_or_plus [of a x n] by (simp add: js_or_def or.commute)

lemma code_point_bytes_utf8:
  assumes "0 \<le> n" "n < 1114112"
  shows "code_point_bytes n = utf8_bytes n"
proof -
  have low: "js_or (x mod 64) 128 = 128 + x mod 64" for x
    using js_or_high [of "x mod 64" 6 2] by simp
  have two: "js_or (n div 64) 192 = 192 + n div 64" if "n < 2048"
    using js_or_high [of "n div 64" 5 6] assms(1) that by auto
  have three: "js_or (n div 4096) 224 = 224 + n div 4096" if "n < 65536"
    using js_or_high [of "n div 4096" 4 14] assms(1) that by auto
  have four: "js_or (n div 262144) 240 = 240 + n div 262144"
    using js_or_high [of "n div 262144" 3 30] assms by auto
  show ?thesis
    using assms two three four
    by (simp add: code_point_bytes_def utf8_bytes_def js_shr_small js_and_63' js_and_div low)
qed

lemma pair_code_point:
  assumes "high_surrogate i" "low_surrogate n"
  shows "65536 + js_or (js_shl (i - 55296) 10) (n - 56320) = pair_value i n"
proof -
  have r: "0 \<le> i - 55296" "i - 55296 < 1024" "0 \<le> n - 56320" "n - 56320 < 1024"
    using assms by (auto simp: high_surrogate_def low_surrogate_def between_def)
  then have "js_shl (i - 55296) 10 = (i - 55296) * 2 ^ 10" by (intro js_shl_small) simp_all
  moreover have "js_or ((i - 55296) * 2 ^ 10) (n - 56320) = (i - 55296) * 2 ^ 10 + (n - 56320)"
    using r by (intro js_or_plus) simp_all
  ultimately show ?thesis by (simp add: pair_value_def)
qed

text \<open>The code points of a string, a surrogate without partner read as \<open>U+FFFD\<close>.\<close>

fun text_code_points :: "js_string \<Rightarrow> int list" where
  "text_code_points [] = []"
| "text_code_points (u # s) =
     (if high_surrogate u then
        (case s of
           l # s' \<Rightarrow> if low_surrogate l then pair_value u l # text_code_points s'
                     else 65533 # text_code_points s
         | [] \<Rightarrow> [65533])
      else if low_surrogate u then 65533 # text_code_points s
      else u # text_code_points s)"

definition ends_in_leads :: "js_string \<Rightarrow> bool" where
  "ends_in_leads s \<longleftrightarrow> (case rev s of b # a # _ \<Rightarrow> high_surrogate a \<and> high_surrogate b | _ \<Rightarrow> False)"

lemma ends_in_leads_Cons: "ends_in_leads s \<Longrightarrow> ends_in_leads (u # s)"
  by (auto simp: ends_in_leads_def split: list.splits)

lemma ends_in_leads_two [simp]: "ends_in_leads [a, b] \<longleftrightarrow> high_surrogate a \<and> high_surrogate b"
  by (simp add: ends_in_leads_def)

definition all_utf8 :: "int list \<Rightarrow> int list" where
  "all_utf8 cps = concat (map utf8_bytes cps)"

lemma all_utf8_simps [simp]:
  "all_utf8 [] = []" "all_utf8 (c # cps) = utf8_bytes c @ all_utf8 cps"
  by (simp_all add: all_utf8_def)

lemma surrogate_ranges:
  "55295 < n \<and> n < 57344 \<longleftrightarrow> high_surrogate n \<or> low_surrogate n"
  "high_surrogate n \<Longrightarrow> n < 56320 \<and> \<not> 56319 < n \<and> \<not> low_surrogate n"
  "low_surrogate n \<Longrightarrow> \<not> n < 56320 \<and> 56319 < n \<and> \<not> high_surrogate n"
  by (auto simp: high_surrogate_def low_surrogate_def between_def)

lemma unlimited [simp]: "spend None k = None" "overspent None \<longleftrightarrow> False" "replacement None = utf8_bytes 65533"
  by (simp_all add: spend_def overspent_def replacement_def utf8_bytes_def)

text \<open>
  A lead that ends the string after another lead is never reached by the loop's flush: it is lost.
\<close>

definition seen_part :: "js_string \<Rightarrow> js_string" where
  "seen_part s = (if ends_in_leads s then butlast s else s)"

lemma ends_in_leads_rest: "2 \<le> length s \<Longrightarrow> ends_in_leads (u # s) = ends_in_leads s"
proof -
  assume "2 \<le> length s"
  then have "2 \<le> length (rev s)" by simp
  then obtain b a t where "rev s = b # a # t" by (cases "rev s") (auto simp: Suc_le_length_iff)
  then show ?thesis by (simp add: ends_in_leads_def)
qed

lemma seen_part_Cons:
  "s \<noteq> [] \<Longrightarrow> \<not> high_surrogate u \<or> 2 \<le> length s \<or> \<not> high_surrogate (hd s) \<Longrightarrow> seen_part (u # s) = u # seen_part s"
proof (cases "2 \<le> length s")
  case True
  then show ?thesis by (auto simp: seen_part_def ends_in_leads_rest)
next
  case False
  moreover assume "s \<noteq> []" "\<not> high_surrogate u \<or> 2 \<le> length s \<or> \<not> high_surrogate (hd s)"
  ultimately show ?thesis by (cases s) (auto simp: seen_part_def ends_in_leads_def Suc_le_eq)
qed

lemma seen_part_small [simp]: "seen_part [] = []" "seen_part [u] = [u]"
  by (simp_all add: seen_part_def ends_in_leads_def)

lemma utf8_loop_code_points:
  "js_units s \<Longrightarrow> utf8_loop None None s = all_utf8 (text_code_points (seen_part s))"
  "js_units s \<Longrightarrow> s \<noteq> [] \<Longrightarrow> high_surrogate i \<Longrightarrow>
     utf8_loop None (Some i) s = all_utf8 (text_code_points (seen_part (i # s)))"
proof (induction s arbitrary: i)
  case Nil
  { case 1 then show ?case by simp }
  { case 2 then show ?case by simp }
next
  case (Cons n s)
  have units: "js_units s" "code_point_bytes n = utf8_bytes n" if "js_units (n # s)"
    using that by (auto intro!: code_point_bytes_utf8)
  have step: "seen_part (n # s) = n # seen_part s" if "\<not> high_surrogate n"
    using that seen_part_Cons [of s n] by (cases s) simp_all
  {
    case 1
    note u = units [OF 1(1)]
    consider (hi) "high_surrogate n" | (lo) "low_surrogate n"
      | (plain) "\<not> high_surrogate n" "\<not> low_surrogate n" by blast
    then show ?case
    proof cases
      case hi
      show ?thesis
      proof (cases "s = []")
        case True
        with hi show ?thesis by (simp add: surrogate_ranges Let_def)
      next
        case False
        with Cons.IH(2) [OF u(1) False hi] hi show ?thesis
          by (simp add: surrogate_ranges Let_def del: text_code_points.simps)
      qed
    next
      case lo
      with Cons.IH(1) [OF u(1)] step show ?thesis by (simp add: surrogate_ranges Let_def)
    next
      case plain
      with Cons.IH(1) [OF u(1)] u(2) step show ?thesis by (simp add: surrogate_ranges Let_def)
    qed
  next
    case 2
    note u = units [OF 2(1)]
    consider (hi) "high_surrogate n" | (lo) "low_surrogate n"
      | (plain) "\<not> high_surrogate n" "\<not> low_surrogate n" by blast
    then show ?case
    proof cases
      case hi
      show ?thesis
      proof (cases "s = []")
        case True
        have "seen_part [i, n] = [i]" using hi 2(3) by (simp add: seen_part_def)
        with True hi 2(3) show ?thesis by (simp add: surrogate_ranges Let_def)
      next
        case False
        then have "seen_part (i # n # s) = i # seen_part (n # s)"
          by (intro seen_part_Cons) (auto simp: Suc_le_eq)
        moreover obtain w where "seen_part (n # s) = n # w"
          using False by (cases "ends_in_leads (n # s)") (auto simp: seen_part_def)
        ultimately show ?thesis
          using Cons.IH(2) [OF u(1) False hi] hi 2(3) by (simp add: surrogate_ranges Let_def)
      qed
    next
      case lo
      have b: "0 \<le> pair_value i n" "pair_value i n < 1114112"
        using pair_value_bounds [OF 2(3) lo] by simp_all
      have "seen_part (i # n # s) = i # n # seen_part s"
        using lo step surrogate_ranges(3) [OF lo] by (subst seen_part_Cons) auto
      with lo Cons.IH(1) [OF u(1)] 2(3) code_point_bytes_utf8 [OF b] show ?thesis
        by (simp add: surrogate_ranges Let_def pair_code_point)
    next
      case plain
      have "seen_part (i # n # s) = i # n # seen_part s"
        using plain step by (subst seen_part_Cons) auto
      with plain Cons.IH(1) [OF u(1)] u(2) 2(3) show ?thesis
        by (simp add: surrogate_ranges Let_def)
    qed
  }
qed

lemma utf8_to_bytes_seen:
  "js_units s \<Longrightarrow> utf8_to_bytes s None = all_utf8 (text_code_points (seen_part s))"
  by (simp add: utf8_to_bytes_def utf8_loop_code_points)

lemma utf8_to_bytes_code_points:
  "js_units s \<Longrightarrow> \<not> ends_in_leads s \<Longrightarrow> utf8_to_bytes s None = all_utf8 (text_code_points s)"
  by (simp add: utf8_to_bytes_seen seen_part_def)

text \<open>A budget that suffices changes nothing.\<close>

lemma limited [simp]:
  "spend (Some t) k = Some (t - k)" "overspent (Some t) \<longleftrightarrow> t < 0"
  "replacement (Some t) = (if t < 3 then [] else utf8_bytes 65533)"
  by (simp_all add: spend_def overspent_def replacement_def utf8_bytes_def)

lemma length_replacement [simp]: "length (utf8_bytes 65533) = 3"
  by (simp add: utf8_bytes_def)

lemma utf8_loop_budget:
  "int (length (utf8_loop None lead s)) \<le> t \<Longrightarrow> utf8_loop (Some t) lead s = utf8_loop None lead s"
proof (induction s arbitrary: t lead)
  case (Cons n s)
  show ?case
    using Cons.prems Cons.IH by (cases lead) (auto simp: Let_def split: if_splits)
qed simp


section \<open>Decoding what was encoded\<close>

lemma js_and_low:
  assumes "0 \<le> b" "b < 256"
  shows "js_and 31 b = b mod 32" "js_and 15 b = b mod 16" "js_and 63 b = b mod 64"
  using js_and_mask(2) [of b 5] js_and_mask(2) [of b 4] js_and_mask(2) [of b 6] assms by simp_all

lemma continues_iff:
  assumes "0 \<le> x" "x < 64"
  shows "continues (128 + x)"
proof -
  have "list_all (\<lambda>n. js_and 192 (128 + n) = 128) [0..63]" by code_simp
  moreover have "x \<in> set [0..63]" using assms by simp
  ultimately show ?thesis unfolding list_all_iff continues_def by (rule bspec)
qed

lemma six_bit_join:
  assumes "0 \<le> a" "a < 33554432" "0 \<le> b" "b < 64"
  shows "js_or (a * 64) b = a * 64 + b"
  using js_or_plus [of a b 6] assms by simp

lemma js_shl_digit: "0 \<le> x \<Longrightarrow> x < 64 \<Longrightarrow> n \<le> 18 \<Longrightarrow> js_shl x n = x * 2 ^ n"
proof -
  assume x: "0 \<le> x" "x < 64" "n \<le> 18"
  have "x * 2 ^ n \<le> 63 * 2 ^ 18" using x by (intro mult_mono power_increasing) simp_all
  with x(1) show ?thesis by (intro js_shl_small) simp_all
qed

text \<open>The joined bits of a sequence.\<close>

lemma join_two:
  "0 \<le> a \<Longrightarrow> a < 64 \<Longrightarrow> 0 \<le> b \<Longrightarrow> b < 64 \<Longrightarrow> js_or (js_shl a 6) b = a * 64 + b"
  by (simp add: js_shl_digit six_bit_join)

lemma join_three:
  assumes "0 \<le> a" "a < 64" "0 \<le> b" "b < 64" "0 \<le> c" "c < 64"
  shows "js_or (js_or (js_shl a 12) (js_shl b 6)) c = a * 4096 + b * 64 + c"
proof -
  have "js_or (a * 2 ^ 12) (b * 64) = a * 2 ^ 12 + b * 64"
    using assms by (intro js_or_plus) simp_all
  moreover have "js_or ((a * 64 + b) * 64) c = (a * 64 + b) * 64 + c"
    using assms by (intro six_bit_join) simp_all
  ultimately show ?thesis using assms by (simp add: js_shl_digit algebra_simps)
qed

lemma join_four:
  assumes "0 \<le> a" "a < 64" "0 \<le> b" "b < 64" "0 \<le> c" "c < 64" "0 \<le> d" "d < 64"
  shows "js_or (js_or (js_or (js_shl a 18) (js_shl b 12)) (js_shl c 6)) d
           = a * 262144 + b * 4096 + c * 64 + d"
proof -
  have "js_or (a * 2 ^ 18) (b * 4096) = a * 2 ^ 18 + b * 4096"
    using assms by (intro js_or_plus) simp_all
  moreover have "js_or ((a * 64 + b) * 2 ^ 12) (c * 64) = (a * 64 + b) * 2 ^ 12 + c * 64"
    using assms by (intro js_or_plus) simp_all
  moreover have "js_or (((a * 64 + b) * 64 + c) * 64) d = ((a * 64 + b) * 64 + c) * 64 + d"
    using assms by (intro six_bit_join) simp_all
  ultimately show ?thesis using assms by (simp add: js_shl_digit algebra_simps)
qed

lemma digits_64:
  fixes cp :: int
  shows "cp = cp div 64 * 64 + cp mod 64"
    "cp = cp div 4096 * 4096 + cp div 64 mod 64 * 64 + cp mod 64"
    "cp = cp div 262144 * 262144 + cp div 4096 mod 64 * 4096 + cp div 64 mod 64 * 64 + cp mod 64"
proof -
  have q: "cp div 64 div 64 = cp div 4096" "cp div 4096 div 64 = cp div 262144"
    by (simp_all flip: zdiv_zmult2_eq)
  show one: "cp = cp div 64 * 64 + cp mod 64" by simp
  have two: "cp div 64 = cp div 4096 * 64 + cp div 64 mod 64"
    using div_mult_mod_eq [of "cp div 64" 64] q by simp
  have three: "cp div 4096 = cp div 262144 * 64 + cp div 4096 mod 64"
    using div_mult_mod_eq [of "cp div 4096" 64] q by simp
  show "cp = cp div 4096 * 4096 + cp div 64 mod 64 * 64 + cp mod 64"
    using one two by linarith
  show "cp = cp div 262144 * 262144 + cp div 4096 mod 64 * 4096 + cp div 64 mod 64 * 64 + cp mod 64"
    using one two three by linarith
qed

lemma sequence_value_numeral:
  "sequence_value 2 (b # u # bs) =
     (let p = js_or (js_shl (js_and 31 b) 6) (js_and 63 u)
      in if continues u \<and> 127 < p then Some p else None)"
  "sequence_value 3 (b # u # c # bs) =
     (let p = js_or (js_or (js_shl (js_and 15 b) 12) (js_shl (js_and 63 u) 6)) (js_and 63 c)
      in if continues u \<and> continues c \<and> 2047 < p \<and> (p < 55296 \<or> 57343 < p) then Some p else None)"
  "sequence_value 4 (b # u # c # l # bs) =
     (let p = js_or (js_or (js_or (js_shl (js_and 15 b) 18) (js_shl (js_and 63 u) 12))
                (js_shl (js_and 63 c) 6)) (js_and 63 l)
      in if continues u \<and> continues c \<and> continues l \<and> 65535 < p \<and> p < 1114112 then Some p else None)"
proof -
  have n: "(2::nat) = Suc (Suc 0)" "(3::nat) = Suc (Suc (Suc 0))" "(4::nat) = Suc (Suc (Suc (Suc 0)))"
    by simp_all
  show "sequence_value 2 (b # u # bs) =
     (let p = js_or (js_shl (js_and 31 b) 6) (js_and 63 u)
      in if continues u \<and> 127 < p then Some p else None)"
    unfolding n(1) by (rule sequence_value.simps)
  show "sequence_value 3 (b # u # c # bs) =
     (let p = js_or (js_or (js_shl (js_and 15 b) 12) (js_shl (js_and 63 u) 6)) (js_and 63 c)
      in if continues u \<and> continues c \<and> 2047 < p \<and> (p < 55296 \<or> 57343 < p) then Some p else None)"
    unfolding n(2) by (rule sequence_value.simps)
  show "sequence_value 4 (b # u # c # l # bs) =
     (let p = js_or (js_or (js_or (js_shl (js_and 15 b) 18) (js_shl (js_and 63 u) 12))
                (js_shl (js_and 63 c) 6)) (js_and 63 l)
      in if continues u \<and> continues c \<and> continues l \<and> 65535 < p \<and> p < 1114112 then Some p else None)"
    unfolding n(3) by (rule sequence_value.simps)
qed

lemma sequence_of_scalar:
  assumes "scalar_value cp"
  shows "\<exists>b bs. utf8_bytes cp = b # bs \<and> sequence_length b = length (utf8_bytes cp)
    \<and> sequence_value (sequence_length b) (utf8_bytes cp @ rest) = Some cp"
proof -
  have cp: "0 \<le> cp" "cp < 1114112" "cp < 55296 \<or> 57343 < cp"
    using assms by (auto simp: scalar_value_def high_surrogate_def low_surrogate_def between_def)
  have cont: "continues (128 + x mod 64)" "js_and 63 (128 + x mod 64) = x mod 64" for x
    using continues_iff [of "x mod 64"] js_and_low(3) [of "128 + x mod 64"]
    by (simp_all add: mod_add_left_eq [symmetric])
  consider "cp < 128" | "128 \<le> cp" "cp < 2048" | "2048 \<le> cp" "cp < 65536" | "65536 \<le> cp" by linarith
  then show ?thesis
  proof cases
    case 1
    then show ?thesis by (simp add: utf8_bytes_def sequence_length_def)
  next
    case 2
    have d: "0 \<le> cp div 64" "cp div 64 < 32" using 2 by auto
    then have "js_and 31 (192 + cp div 64) = cp div 64"
      by (simp add: js_and_low mod_add_left_eq [symmetric])
    with 2 d show ?thesis
      using digits_64(1) [of cp]
      by (simp add: utf8_bytes_def sequence_length_def Let_def cont join_two sequence_value_numeral)
  next
    case 3
    have d: "0 \<le> cp div 4096" "cp div 4096 < 16" using 3 by auto
    then have "js_and 15 (224 + cp div 4096) = cp div 4096"
      by (simp add: js_and_low mod_add_left_eq [symmetric])
    with 3 d cp(3) show ?thesis
      using digits_64(2) [of cp]
      by (simp add: utf8_bytes_def sequence_length_def Let_def cont join_three sequence_value_numeral)
  next
    case 4
    have d: "0 \<le> cp div 262144" "cp div 262144 < 8" using 4 cp by auto
    then have "js_and 15 (240 + cp div 262144) = cp div 262144"
      by (simp add: js_and_low mod_add_left_eq [symmetric])
    with 4 d cp(2) show ?thesis
      using digits_64(3) [of cp]
      by (simp add: utf8_bytes_def sequence_length_def Let_def cont join_four sequence_value_numeral)
  qed
qed

lemma unit_pair_utf16:
  assumes "scalar_value cp"
  shows "unit_pair cp = utf16_units cp"
proof (cases "65536 \<le> cp")
  case True
  let ?n = "cp - 65536"
  have n: "0 \<le> ?n" "?n < 1048576" using True assms by (auto simp: scalar_value_def)
  have hi: "0 \<le> ?n div 1024" "?n div 1024 < 1024" using n by auto
  have m: "js_and x 1023 = x mod 1024" "js_and 1023 x = x mod 1024" if "0 \<le> x" "x < 2147483648" for x
    using js_and_mask [of x 10] that by simp_all
  have "js_and (js_shr ?n 10) 1023 = ?n div 1024" using n hi by (simp add: js_shr_small m)
  moreover have "js_or (?n div 1024) 55296 = 55296 + ?n div 1024"
    using hi js_or_high [of "?n div 1024" 10 54] by simp
  moreover have "js_or 56320 (?n mod 1024) = 56320 + ?n mod 1024"
    using js_or_plus [of 55 "?n mod 1024" 10] by simp
  ultimately show ?thesis using True n by (simp add: unit_pair_def Let_def m utf16_units_def)
qed (simp add: unit_pair_def utf16_units_def)

lemma utf8_slice_scalars:
  "list_all scalar_value cps \<Longrightarrow> utf8_slice (all_utf8 cps) = concat (map utf16_units cps)"
proof (induction cps)
  case (Cons cp cps)
  then have cp: "scalar_value cp" by simp
  obtain b bs where b: "utf8_bytes cp = b # bs" "sequence_length b = length (utf8_bytes cp)"
    "sequence_value (sequence_length b) (utf8_bytes cp @ all_utf8 cps) = Some cp"
    using sequence_of_scalar [OF cp] by blast
  have "utf8_slice (utf8_bytes cp @ all_utf8 cps) =
      unit_pair cp @ utf8_slice (drop (sequence_length b) (utf8_bytes cp @ all_utf8 cps))"
    using b(3) unfolding b(1) by (subst utf8_slice.simps) simp
  then show ?case
    using Cons by (simp add: b(2) unit_pair_utf16)
qed (simp add: utf8_slice.simps)

lemma well_paired_code_points:
  "well_paired s \<Longrightarrow> js_units s \<Longrightarrow>
     list_all scalar_value (text_code_points s) \<and> concat (map utf16_units (text_code_points s)) = s
     \<and> \<not> ends_in_leads s"
proof (induction s rule: text_code_points.induct)
  case (2 u s)
  show ?case
  proof (cases "high_surrogate u")
    case True
    with "2.prems"(1) obtain l s' where s: "s = l # s'" "low_surrogate l" "well_paired s'"
      by (auto simp: surrogate_ranges split: list.splits)
    then have IH: "list_all scalar_value (text_code_points s')"
      "concat (map utf16_units (text_code_points s')) = s'" "\<not> ends_in_leads s'"
      using "2.IH"(1) [OF True s(1,2) s(3)] "2.prems"(2) by auto
    have "scalar_value (pair_value u l)"
      using pair_value_bounds [OF True s(2)]
      by (auto simp: scalar_value_def high_surrogate_def low_surrogate_def between_def)
    moreover have "\<not> ends_in_leads (u # l # s')"
      using IH(3) s(2) surrogate_ranges(3) [OF s(2)]
      by (auto simp: ends_in_leads_def split: list.splits)
    ultimately show ?thesis using True s IH utf16_pair [OF True s(2)] by simp
  next
    case False
    with "2.prems"(1) have lo: "\<not> low_surrogate u" and wp: "well_paired s" by (auto split: if_splits)
    then have IH: "list_all scalar_value (text_code_points s)"
      "concat (map utf16_units (text_code_points s)) = s" "\<not> ends_in_leads s"
      using "2.IH"(4) [OF False lo wp] "2.prems"(2) by auto
    moreover have "scalar_value u" "utf16_units u = [u]"
      using False lo "2.prems"(2) by (auto simp: scalar_value_def utf16_units_def)
    moreover have "\<not> ends_in_leads (u # s)"
      using IH(3) False by (auto simp: ends_in_leads_def split: list.splits)
    ultimately show ?thesis using False lo by simp
  qed
qed (simp add: ends_in_leads_def)

lemma utf8_round_trip:
  "well_paired s \<Longrightarrow> js_units s \<Longrightarrow> utf8_slice (utf8_to_bytes s None) = s"
  using well_paired_code_points [of s] by (simp add: utf8_to_bytes_code_points utf8_slice_scalars)


section \<open>Round trips through a buffer\<close>

text \<open>Texts an encoding can hold.\<close>

fun fits :: "encoding \<Rightarrow> js_string \<Rightarrow> bool" where
  "fits Utf8 s \<longleftrightarrow> js_units s \<and> well_paired s"
| "fits Ascii s \<longleftrightarrow> list_all (\<lambda>u. 0 \<le> u \<and> u < 128) s"
| "fits Latin1 s \<longleftrightarrow> js_bytes s"
| "fits Ucs2 s \<longleftrightarrow> js_units s"
| "fits _ s \<longleftrightarrow> False"

definition resolved :: "js_string \<Rightarrow> encoding option" where
  "resolved name = encoding_of (if name = [] then js ''utf8'' else name)"

lemma ascii_bytes: "js_bytes s \<Longrightarrow> ascii_to_bytes s = s"
  by (induction s) (simp_all add: ascii_to_bytes_def js_and_255')

lemma ascii_slice: "list_all (\<lambda>u. 0 \<le> u \<and> u < 128) s \<Longrightarrow> js_bytes s \<and> map (js_and 127) s = s"
proof (induction s)
  case (Cons u s)
  then have "js_and 127 u = u mod 128" using js_and_mask(2) [of u 7] by simp
  with Cons show ?case by simp
qed simp

lemma utf16le_bytes:
  "js_units s \<Longrightarrow> js_bytes (utf16le_to_bytes s (2 * int (length s)))
     \<and> utf16le_slice (utf16le_to_bytes s (2 * int (length s))) = s
     \<and> length (utf16le_to_bytes s (2 * int (length s))) = 2 * length s"
  by (induction s) (auto simp: js_shr_small)

lemma utf8_bytes_are_bytes: "scalar_value cp \<Longrightarrow> js_bytes (utf8_bytes cp)"
  using utf8_bytes_range [of cp] by (auto simp: js_bytes_def between_def scalar_value_def)

lemma all_utf8_bytes: "list_all scalar_value cps \<Longrightarrow> js_bytes (all_utf8 cps)"
  by (induction cps) (simp_all add: utf8_bytes_are_bytes)

lemma utf8_written:
  "take (length (utf8_to_bytes s None)) (utf8_to_bytes s (Some (length (utf8_to_bytes s None)))) =
     utf8_to_bytes s None"
  using utf8_loop_budget [of None s "int (length (utf8_to_bytes s None))"]
  by (cases "length (utf8_to_bytes s None)") (simp_all add: utf8_to_bytes_def)

lemma text_round_trip:
  assumes "resolved name = Some enc" "fits enc s"
  shows "\<exists>b. buffer_from s name = Inr b \<and> js_bytes b \<and> buffer_to_string b name = Inr s"
proof (cases enc)
  case Utf8
  let ?b = "utf8_to_bytes s None"
  have "buffer_from s name = Inr ?b"
    using assms(1) Utf8
    by (simp add: buffer_from_def resolved_def text_byte_length_def written_bytes_def utf8_written)
  moreover have "js_bytes ?b" "utf8_slice ?b = s"
    using assms(2) Utf8 well_paired_code_points [of s]
    by (simp_all add: utf8_slice_scalars utf8_to_bytes_code_points all_utf8_bytes)
  moreover from this(2) have "buffer_to_string ?b name = Inr s"
    using assms(1) Utf8 by (auto simp: buffer_to_string_def resolved_def utf8_slice.simps [of "[]"])
  ultimately show ?thesis by blast
next
  case Ucs2
  let ?b = "utf16le_to_bytes s (2 * int (length s))"
  have b: "js_bytes ?b" "utf16le_slice ?b = s" "length ?b = 2 * length s"
    using assms(2) Ucs2 utf16le_bytes [of s] by auto
  then have "buffer_from s name = Inr ?b"
    using assms(1) Ucs2
    by (simp add: buffer_from_def resolved_def text_byte_length_def written_bytes_def)
  moreover have "buffer_to_string ?b name = Inr s"
    using assms(1) Ucs2 b by (auto simp: buffer_to_string_def resolved_def)
  ultimately show ?thesis using b(1) by blast
next
  case Ascii
  with assms show ?thesis
    using ascii_slice [of s] ascii_bytes [of s]
    by (simp add: buffer_from_def buffer_to_string_def resolved_def text_byte_length_def
        written_bytes_def ascii_to_bytes_def)
next
  case Latin1
  with assms show ?thesis
    using ascii_bytes [of s]
    by (simp add: buffer_from_def buffer_to_string_def resolved_def text_byte_length_def
        written_bytes_def ascii_to_bytes_def)
qed (use assms(2) in simp_all)

text \<open>Hexadecimal digits.\<close>

lemma parse_to_hex:
  assumes "0 \<le> b" "b < 256"
  shows "parse_hex (to_hex b) = Some b" "length (to_hex b) = 2"
proof -
  have "list_all (\<lambda>n. parse_hex (to_hex n) = Some n \<and> length (to_hex n) = 2) [0..255]"
    by code_simp
  moreover have "b \<in> set [0..255]" using assms by simp
  ultimately have "parse_hex (to_hex b) = Some b \<and> length (to_hex b) = 2"
    unfolding list_all_iff by (rule bspec)
  then show "parse_hex (to_hex b) = Some b" "length (to_hex b) = 2" by blast+
qed

lemma hex_pairs_slice:
  "js_bytes b \<Longrightarrow> hex_pairs (length b) (concat (map to_hex b)) = b
     \<and> length (concat (map to_hex b)) = 2 * length b"
proof (induction b)
  case (Cons x b)
  then have x: "0 \<le> x" "x < 256" by simp_all
  have "take 2 (to_hex x @ s) = to_hex x" "drop 2 (to_hex x @ s) = s" for s
    using parse_to_hex(2) [OF x] by simp_all
  with Cons x parse_to_hex [OF x] show ?case by simp
qed simp

text \<open>base64 text is its own clean form.\<close>

lemma lookup64_char: "0 \<le> d \<Longrightarrow> d < 64 \<Longrightarrow> base64_char (lookup64 d) \<and> \<not> unit_space (lookup64 d)"
proof -
  assume d: "0 \<le> d" "d < 64"
  have "list_all (\<lambda>n. base64_char (lookup64 n) \<and> \<not> unit_space (lookup64 n)) [0..63]" by code_simp
  moreover have "d \<in> set [0..63]" using d by simp
  ultimately show ?thesis unfolding list_all_iff by (rule bspec)
qed

lemma encode_all_form:
  "js_bytes e \<Longrightarrow> \<exists>ds p. encode_all e = ds @ replicate p 61
     \<and> (\<forall>u \<in> set ds. base64_char u \<and> \<not> unit_space u) \<and> p = (4 - length ds mod 4) mod 4
     \<and> (e = [] \<or> 2 \<le> length ds)"
proof (induction e rule: encode_all.induct)
  case 1
  then show ?case by (intro exI [of _ "[]"]) simp
next
  case (2 a)
  then show ?case
    by (intro exI [of _ "map lookup64 [a div 4, a * 16 mod 64]"])
      (auto simp: lookup64_char numeral_2_eq_2)
next
  case (3 a b)
  define t where "t = a * 256 + b"
  have "0 \<le> t div 1024" "t div 1024 < 64" using 3 by (auto simp: t_def)
  then show ?case
    by (intro exI [of _ "map lookup64 [t div 1024, t div 16 mod 64, t * 4 mod 64]"])
      (auto simp: lookup64_char t_def)
next
  case (4 a b c bs)
  define r where "r = a * 65536 + b * 256 + c"
  have r: "0 \<le> r div 262144" "r div 262144 < 64" using 4 by (auto simp: r_def)
  obtain ds p where ds: "encode_all bs = ds @ replicate p 61"
    "\<forall>u \<in> set ds. base64_char u \<and> \<not> unit_space u" "p = (4 - length ds mod 4) mod 4"
    using 4 by auto
  let ?ds = "map lookup64 [r div 262144, r div 4096 mod 64, r div 64 mod 64, r mod 64] @ ds"
  have "encode_all (a # b # c # bs) = ?ds @ replicate p 61"
    by (simp add: Let_def r_def ds(1))
  moreover have "\<forall>u \<in> set ?ds. base64_char u \<and> \<not> unit_space u"
    using r ds(2) by (simp add: lookup64_char)
  moreover have "p = (4 - length ?ds mod 4) mod 4" using ds(3) by simp
  moreover have "2 \<le> length ?ds" by simp
  ultimately show ?case by blast
qed

lemma base64_clean_encoded:
  assumes "js_bytes e"
  shows "base64_clean (encode_all e) = encode_all e"
proof -
  obtain ds p where ds: "encode_all e = ds @ replicate p 61"
    "\<forall>u \<in> set ds. base64_char u \<and> \<not> unit_space u" "p = (4 - length ds mod 4) mod 4"
    "e = [] \<or> 2 \<le> length ds"
    using encode_all_form [OF assms] by blast
  have pad: "\<not> unit_space 61" "\<not> base64_char 61"
    by (simp_all add: unit_space_def base64_char_def unit_defs)
  have "\<forall>u \<in> set (encode_all e). \<not> unit_space u" using ds(1,2) pad by auto
  then have "js_trim (encode_all e) = encode_all e"
    unfolding js_trim_def by (intro trim_by_id) auto
  moreover have "filter base64_char (encode_all e) = ds"
    using ds(2) pad unfolding ds(1) by (auto simp: filter_id_conv)
  moreover have "ds = []" if "e = []"
    using that ds(1) by simp
  ultimately show ?thesis
    using ds by (auto simp: base64_clean_def Let_def)
qed

lemma bytes_round_trip:
  assumes "resolved name = Some enc" "enc \<in> {Hex, Base64}" "js_bytes b"
  shows "\<exists>s. buffer_to_string b name = Inr s \<and> buffer_from s name = Inr b"
proof (cases "b = []")
  case True
  have "base64_clean [] = []" by (simp add: base64_clean_def js_trim_def trim_by_def)
  moreover have "to_byte_array [] = Inr []"
    using to_from_byte_array [of "[]"] by (simp add: from_byte_array_all)
  ultimately show ?thesis
    using True assms(1,2)
    by (auto simp: buffer_to_string_def buffer_from_def resolved_def text_byte_length_def
        written_bytes_def hex_write_def base64_to_bytes_def)
next
  case False
  consider "enc = Hex" | "enc = Base64" using assms(2) by blast
  then show ?thesis
  proof cases
    case 1
    with assms(1) False hex_pairs_slice [OF assms(3)] show ?thesis
      by (simp add: buffer_to_string_def buffer_from_def resolved_def text_byte_length_def
          written_bytes_def hex_write_def)
  next
    case 2
    have "base64_to_bytes (from_byte_array b) = Inr b"
      using to_from_byte_array [OF assms(3)] base64_clean_encoded [OF assms(3)]
      by (simp add: base64_to_bytes_def from_byte_array_all [OF assms(3)])
    with 2 assms(1) False show ?thesis
      by (simp add: buffer_to_string_def buffer_from_def resolved_def text_byte_length_def
          written_bytes_def)
  qed
qed

section \<open>Text through base64\<close>

text \<open>
  \<open>Buffer.from(s, "utf8").toString("base64")\<close> and back: the two encodings in a row.
\<close>

lemma resolved_names: "resolved (js ''utf8'') = Some Utf8" "resolved (js ''base64'') = Some Base64"
  "resolved (js ''hex'') = Some Hex"
  by code_simp+

interpretation utf8_text: codec
  "\<lambda>s. buffer_from s (js ''utf8'')" "\<lambda>b. buffer_to_string b (js ''utf8'')" "fits Utf8"
  by unfold_locales (use text_round_trip [OF resolved_names(1)] in fastforce)

interpretation hex_bytes: codec
  "\<lambda>b. buffer_to_string b (js ''hex'')" "\<lambda>s. buffer_from s (js ''hex'')" js_bytes
  by unfold_locales (use bytes_round_trip [OF resolved_names(3)] in fastforce)

interpretation base64_text: codec_chain
  "\<lambda>s. buffer_from s (js ''utf8'')" "\<lambda>b. buffer_to_string b (js ''utf8'')" "fits Utf8"
  "\<lambda>b. buffer_to_string b (js ''base64'')" "\<lambda>s. buffer_from s (js ''base64'')" js_bytes
proof
  fix x y assume "fits Utf8 x" "buffer_from x (js ''utf8'') = Inr y"
  then show "js_bytes y" using text_round_trip [OF resolved_names(1)] by fastforce
qed (use bytes_round_trip [OF resolved_names(2)] in fastforce)

end
