(* ===== verification/Swagger_Buffer_Numbers.thy ===== *)
theory Swagger_Buffer_Numbers
  imports Js_Bits
begin

text \<open>
  Integers in the buffer module (swagger-ui-bundle.js, line 12 with the checks of line 6): reading and
  writing with a byte length given as argument, and at the fixed widths, in both byte orders, with
  the checks on (\<open>noAssert\<close> absent) and where typed arrays exist.  The value is an integer, the offset any
  number (an absent one counts as NaN), the byte length 1 to 6, which keeps all numbers below \<open>2^53\<close>.
\<close>

section \<open>Offsets, stores and checks\<close>

text \<open>\<open>x | 0\<close>\<close>

definition to_int32_number :: "js_number \<Rightarrow> int" where
  "to_int32_number x =
     (case x of Finite q \<Rightarrow> to_int32 (if q < 0 then - \<lfloor>- q\<rfloor> else \<lfloor>q\<rfloor>) | _ \<Rightarrow> 0)"

text \<open>
  An element of a \<open>Uint8Array\<close> takes a number modulo 256; a store out of range is dropped, also one at a
  negative index.
\<close>

definition store :: "int list \<Rightarrow> nat \<Rightarrow> int \<Rightarrow> int list" where
  "store buf i v = buf[i := v mod 256]"

definition put_at :: "int list \<Rightarrow> int \<Rightarrow> int \<Rightarrow> int list" where
  "put_at buf i v = (if i < 0 then buf else store buf (nat i) v)"

text \<open>An element, which out of range is \<open>undefined\<close>; as an operand of a bit operator that is 0.\<close>

definition array_element :: "int list \<Rightarrow> int \<Rightarrow> int option" where
  "array_element buf i = (if 0 \<le> i \<and> i < int (length buf) then Some (buf ! nat i) else None)"

definition at_index :: "int list \<Rightarrow> int \<Rightarrow> int" where
  "at_index buf i = (case array_element buf i of Some b \<Rightarrow> b | None \<Rightarrow> 0)"

text \<open>\<open>v / i\<close> where an operator takes its integer part.\<close>

definition js_quot :: "int \<Rightarrow> int \<Rightarrow> int" where
  "js_quot v i = (if v < 0 then - (- v div i) else v div i)"

text \<open>The offset of a read must be a natural number, that of a write only not too large.\<close>

definition check_offset :: "int list \<Rightarrow> js_number \<Rightarrow> nat \<Rightarrow> unit js_res" where
  "check_offset buf x n =
     (case x of
        Finite q \<Rightarrow>
          if q \<noteq> of_int \<lfloor>q\<rfloor> \<or> q < 0 then Inl JsRangeError
          else if of_nat (length buf) < q + of_nat n then Inl JsRangeError else Inr ()
      | _ \<Rightarrow> Inl JsRangeError)"

definition check_int :: "int list \<Rightarrow> int \<Rightarrow> int \<Rightarrow> nat \<Rightarrow> int \<Rightarrow> int \<Rightarrow> unit js_res" where
  "check_int buf v t n hi lo =
     (if hi < v \<or> v < lo then Inl JsRangeError
      else if int (length buf) < t + int n then Inl JsRangeError else Inr ())"

text \<open>The index that a checked offset is.\<close>

definition number_index :: "js_number \<Rightarrow> int" where
  "number_index x = (case x of Finite q \<Rightarrow> \<lfloor>q\<rfloor> | _ \<Rightarrow> 0)"

section \<open>A byte length given as argument\<close>

fun read_loop :: "int list \<Rightarrow> int \<Rightarrow> int \<Rightarrow> int \<Rightarrow> nat list \<Rightarrow> int" where
  "read_loop buf e i r [] = r"
| "read_loop buf e i r (k # ks) =
     read_loop buf e (i * 256) (r + at_index buf (e + int k) * (i * 256)) ks"

definition readUIntLE :: "int list \<Rightarrow> js_number \<Rightarrow> nat \<Rightarrow> int js_res" where
  "readUIntLE buf x n =
     (let e = to_int32_number x in
      bindR (check_offset buf (Finite (of_int e)) n) (\<lambda>_. Inr (read_loop buf e 1 (at_index buf e) [1..<n])))"

definition readUIntBE :: "int list \<Rightarrow> js_number \<Rightarrow> nat \<Rightarrow> int js_res" where
  "readUIntBE buf x n =
     (let e = to_int32_number x in
      bindR (check_offset buf (Finite (of_int e)) n) (\<lambda>_.
        Inr (read_loop buf e 1 (at_index buf (e + (int n - 1))) (rev [0..<n - 1]))))"

text \<open>The sign: \<open>r >= 128 * 256^(n-1)\<close>.\<close>

definition signed_value :: "nat \<Rightarrow> int \<Rightarrow> int" where
  "signed_value n r = (if r \<ge> 128 * 256 ^ (n - 1) then r - 2 ^ (8 * n) else r)"

definition readIntLE :: "int list \<Rightarrow> js_number \<Rightarrow> nat \<Rightarrow> int js_res" where
  "readIntLE buf x n =
     (let e = to_int32_number x in
      bindR (check_offset buf (Finite (of_int e)) n) (\<lambda>_.
        Inr (signed_value n (read_loop buf e 1 (at_index buf e) [1..<n]))))"

definition readIntBE :: "int list \<Rightarrow> js_number \<Rightarrow> nat \<Rightarrow> int js_res" where
  "readIntBE buf x n =
     (let e = to_int32_number x in
      bindR (check_offset buf (Finite (of_int e)) n) (\<lambda>_.
        Inr (signed_value n (read_loop buf e 1 (at_index buf (e + (int n - 1))) (rev [0..<n - 1])))))"

fun write_uint_loop :: "int list \<Rightarrow> int \<Rightarrow> int \<Rightarrow> int \<Rightarrow> nat list \<Rightarrow> int list" where
  "write_uint_loop buf v t i [] = buf"
| "write_uint_loop buf v t i (k # ks) =
     write_uint_loop (put_at buf (t + int k) (js_and (js_quot v (i * 256)) 255)) v t (i * 256) ks"

definition writeUIntLE :: "int list \<Rightarrow> int \<Rightarrow> js_number \<Rightarrow> nat \<Rightarrow> (int list \<times> int) js_res" where
  "writeUIntLE buf v x n =
     (let t = to_int32_number x in
      bindR (check_int buf v t n (2 ^ (8 * n) - 1) 0) (\<lambda>_.
        Inr (write_uint_loop (put_at buf t (js_and 255 v)) v t 1 [1..<n], t + int n)))"

definition writeUIntBE :: "int list \<Rightarrow> int \<Rightarrow> js_number \<Rightarrow> nat \<Rightarrow> (int list \<times> int) js_res" where
  "writeUIntBE buf v x n =
     (let t = to_int32_number x in
      bindR (check_int buf v t n (2 ^ (8 * n) - 1) 0) (\<lambda>_.
        Inr (write_uint_loop (put_at buf (t + (int n - 1)) (js_and 255 v)) v t 1 (rev [0..<n - 1]), t + int n)))"

text \<open>
  The signed loop divides towards zero and subtracts one as soon as a byte that is not zero was
  written; \<open>prev\<close> is the index of the byte written before, which is read back.
\<close>

fun write_int_loop :: "int list \<Rightarrow> int \<Rightarrow> int \<Rightarrow> int \<Rightarrow> int \<Rightarrow> nat \<Rightarrow> nat list \<Rightarrow> int list" where
  "write_int_loop buf v t a s prev [] = buf"
| "write_int_loop buf v t a s prev (k # ks) =
     (let s' = (if v < 0 \<and> s = 0 \<and> array_element buf (t + int prev) \<noteq> Some 0 then 1 else s)
      in write_int_loop (put_at buf (t + int k) (js_and (js_shr (js_quot v (a * 256)) 0 - s') 255))
           v t (a * 256) s' k ks)"

definition writeIntLE :: "int list \<Rightarrow> int \<Rightarrow> js_number \<Rightarrow> nat \<Rightarrow> (int list \<times> int) js_res" where
  "writeIntLE buf v x n =
     (let t = to_int32_number x in
      bindR (check_int buf v t n (2 ^ (8 * n - 1) - 1) (- (2 ^ (8 * n - 1)))) (\<lambda>_.
        Inr (write_int_loop (put_at buf t (js_and 255 v)) v t 1 0 0 [1..<n], t + int n)))"

definition writeIntBE :: "int list \<Rightarrow> int \<Rightarrow> js_number \<Rightarrow> nat \<Rightarrow> (int list \<times> int) js_res" where
  "writeIntBE buf v x n =
     (let t = to_int32_number x in
      bindR (check_int buf v t n (2 ^ (8 * n - 1) - 1) (- (2 ^ (8 * n - 1)))) (\<lambda>_.
        Inr (write_int_loop (put_at buf (t + (int n - 1)) (js_and 255 v)) v t 1 0 (n - 1) (rev [0..<n - 1]),
             t + int n)))"

section \<open>Fixed widths\<close>

definition readUInt8 :: "int list \<Rightarrow> js_number \<Rightarrow> int js_res" where
  "readUInt8 buf x =
     (let e = number_index x in
      bindR (check_offset buf x 1) (\<lambda>_. Inr (at_index buf e)))"

definition readUInt16LE :: "int list \<Rightarrow> js_number \<Rightarrow> int js_res" where
  "readUInt16LE buf x =
     (let e = number_index x in
      bindR (check_offset buf x 2) (\<lambda>_. Inr (js_or (at_index buf e) (js_shl (at_index buf (e + 1)) 8))))"

definition readUInt16BE :: "int list \<Rightarrow> js_number \<Rightarrow> int js_res" where
  "readUInt16BE buf x =
     (let e = number_index x in
      bindR (check_offset buf x 2) (\<lambda>_. Inr (js_or (js_shl (at_index buf e) 8) (at_index buf (e + 1)))))"

definition readUInt32LE :: "int list \<Rightarrow> js_number \<Rightarrow> int js_res" where
  "readUInt32LE buf x =
     (let e = number_index x in
      bindR (check_offset buf x 4) (\<lambda>_.
       Inr (js_or (js_or (at_index buf e) (js_shl (at_index buf (e + 1)) 8)) (js_shl (at_index buf (e + 2)) 16)
            + 16777216 * at_index buf (e + 3))))"

definition readUInt32BE :: "int list \<Rightarrow> js_number \<Rightarrow> int js_res" where
  "readUInt32BE buf x =
     (let e = number_index x in
      bindR (check_offset buf x 4) (\<lambda>_.
       Inr (16777216 * at_index buf e
            + js_or (js_or (js_shl (at_index buf (e + 1)) 16) (js_shl (at_index buf (e + 2)) 8)) (at_index buf (e + 3)))))"

definition readInt8 :: "int list \<Rightarrow> js_number \<Rightarrow> int js_res" where
  "readInt8 buf x =
     (let e = number_index x in
      bindR (check_offset buf x 1) (\<lambda>_.
       Inr (if js_and 128 (at_index buf e) \<noteq> 0 then -1 * (255 - at_index buf e + 1) else at_index buf e)))"

definition readInt16LE :: "int list \<Rightarrow> js_number \<Rightarrow> int js_res" where
  "readInt16LE buf x =
     (let e = number_index x in
      bindR (check_offset buf x 2) (\<lambda>_.
       let n = js_or (at_index buf e) (js_shl (at_index buf (e + 1)) 8)
       in Inr (if js_and 32768 n \<noteq> 0 then js_or 4294901760 n else n)))"

definition readInt16BE :: "int list \<Rightarrow> js_number \<Rightarrow> int js_res" where
  "readInt16BE buf x =
     (let e = number_index x in
      bindR (check_offset buf x 2) (\<lambda>_.
       let n = js_or (at_index buf (e + 1)) (js_shl (at_index buf e) 8)
       in Inr (if js_and 32768 n \<noteq> 0 then js_or 4294901760 n else n)))"

definition readInt32LE :: "int list \<Rightarrow> js_number \<Rightarrow> int js_res" where
  "readInt32LE buf x =
     (let e = number_index x in
      bindR (check_offset buf x 4) (\<lambda>_.
       Inr (js_or (js_or (js_or (at_index buf e) (js_shl (at_index buf (e + 1)) 8)) (js_shl (at_index buf (e + 2)) 16))
              (js_shl (at_index buf (e + 3)) 24))))"

definition readInt32BE :: "int list \<Rightarrow> js_number \<Rightarrow> int js_res" where
  "readInt32BE buf x =
     (let e = number_index x in
      bindR (check_offset buf x 4) (\<lambda>_.
       Inr (js_or (js_or (js_or (js_shl (at_index buf e) 24) (js_shl (at_index buf (e + 1)) 16))
              (js_shl (at_index buf (e + 2)) 8)) (at_index buf (e + 3)))))"

definition writeUInt8 :: "int list \<Rightarrow> int \<Rightarrow> js_number \<Rightarrow> (int list \<times> int) js_res" where
  "writeUInt8 buf v x =
     (let t = to_int32_number x in
      bindR (check_int buf v t 1 255 0) (\<lambda>_. Inr (put_at buf t (js_and 255 v), t + 1)))"

definition writeUInt16LE :: "int list \<Rightarrow> int \<Rightarrow> js_number \<Rightarrow> (int list \<times> int) js_res" where
  "writeUInt16LE buf v x =
     (let t = to_int32_number x in
      bindR (check_int buf v t 2 65535 0) (\<lambda>_.
       Inr (put_at (put_at buf t (js_and 255 v)) (t + 1) (js_ushr v 8), t + 2)))"

definition writeUInt16BE :: "int list \<Rightarrow> int \<Rightarrow> js_number \<Rightarrow> (int list \<times> int) js_res" where
  "writeUInt16BE buf v x =
     (let t = to_int32_number x in
      bindR (check_int buf v t 2 65535 0) (\<lambda>_.
       Inr (put_at (put_at buf t (js_ushr v 8)) (t + 1) (js_and 255 v), t + 2)))"

definition writeUInt32LE :: "int list \<Rightarrow> int \<Rightarrow> js_number \<Rightarrow> (int list \<times> int) js_res" where
  "writeUInt32LE buf v x =
     (let t = to_int32_number x in
      bindR (check_int buf v t 4 4294967295 0) (\<lambda>_.
       Inr (put_at (put_at (put_at (put_at buf (t + 3) (js_ushr v 24)) (t + 2) (js_ushr v 16))
              (t + 1) (js_ushr v 8)) t (js_and 255 v), t + 4)))"

definition writeUInt32BE :: "int list \<Rightarrow> int \<Rightarrow> js_number \<Rightarrow> (int list \<times> int) js_res" where
  "writeUInt32BE buf v x =
     (let t = to_int32_number x in
      bindR (check_int buf v t 4 4294967295 0) (\<lambda>_.
       Inr (put_at (put_at (put_at (put_at buf t (js_ushr v 24)) (t + 1) (js_ushr v 16))
              (t + 2) (js_ushr v 8)) (t + 3) (js_and 255 v), t + 4)))"

definition writeInt8 :: "int list \<Rightarrow> int \<Rightarrow> js_number \<Rightarrow> (int list \<times> int) js_res" where
  "writeInt8 buf v x =
     (let t = to_int32_number x in
      bindR (check_int buf v t 1 127 (- 128)) (\<lambda>_.
       let v = (if v < 0 then 255 + v + 1 else v) in Inr (put_at buf t (js_and 255 v), t + 1)))"

definition writeInt16LE :: "int list \<Rightarrow> int \<Rightarrow> js_number \<Rightarrow> (int list \<times> int) js_res" where
  "writeInt16LE buf v x =
     (let t = to_int32_number x in
      bindR (check_int buf v t 2 32767 (- 32768)) (\<lambda>_.
       Inr (put_at (put_at buf t (js_and 255 v)) (t + 1) (js_ushr v 8), t + 2)))"

definition writeInt16BE :: "int list \<Rightarrow> int \<Rightarrow> js_number \<Rightarrow> (int list \<times> int) js_res" where
  "writeInt16BE buf v x =
     (let t = to_int32_number x in
      bindR (check_int buf v t 2 32767 (- 32768)) (\<lambda>_.
       Inr (put_at (put_at buf t (js_ushr v 8)) (t + 1) (js_and 255 v), t + 2)))"

definition writeInt32LE :: "int list \<Rightarrow> int \<Rightarrow> js_number \<Rightarrow> (int list \<times> int) js_res" where
  "writeInt32LE buf v x =
     (let t = to_int32_number x in
      bindR (check_int buf v t 4 2147483647 (- 2147483648)) (\<lambda>_.
       Inr (put_at (put_at (put_at (put_at buf t (js_and 255 v)) (t + 1) (js_ushr v 8))
              (t + 2) (js_ushr v 16)) (t + 3) (js_ushr v 24), t + 4)))"

definition writeInt32BE :: "int list \<Rightarrow> int \<Rightarrow> js_number \<Rightarrow> (int list \<times> int) js_res" where
  "writeInt32BE buf v x =
     (let t = to_int32_number x in
      bindR (check_int buf v t 4 2147483647 (- 2147483648)) (\<lambda>_.
       let v = (if v < 0 then 4294967295 + v + 1 else v)
       in Inr (put_at (put_at (put_at (put_at buf t (js_ushr v 24)) (t + 1) (js_ushr v 16))
              (t + 2) (js_ushr v 8)) (t + 3) (js_and 255 v), t + 4)))"

section \<open>The specification\<close>

text \<open>The two's complement of a number in \<open>n\<close> bytes, the lowest byte first, and the number of bytes.\<close>

definition byte_of :: "int \<Rightarrow> nat \<Rightarrow> int" where
  "byte_of v k = v div 256 ^ k mod 256"

definition int_bytes :: "nat \<Rightarrow> int \<Rightarrow> int list" where
  "int_bytes n v = map (byte_of v) [0..<n]"

definition bytes_value :: "int list \<Rightarrow> int" where
  "bytes_value bs = foldr (\<lambda>b r. b + 256 * r) bs 0"

definition overwrite :: "int list \<Rightarrow> nat \<Rightarrow> int list \<Rightarrow> int list" where
  "overwrite buf off bs = take off buf @ bs @ drop (off + length bs) buf"

text \<open>The same at an index that may be negative: what would stand before the buffer is lost.\<close>

definition clipped :: "int list \<Rightarrow> int \<Rightarrow> int list \<Rightarrow> int list" where
  "clipped buf t bs = overwrite buf (nat t) (drop (nat (- t)) bs)"


section \<open>Bytes of integers\<close>

lemma js_and_255_mod: "js_and x 255 = x mod 256" "js_and 255 x = x mod 256"
proof -
  have "to_int32 x AND 255 = take_bit 8 (to_int32 x)"
    by (simp add: take_bit_eq_mask mask_numeral)
  also have "\<dots> = take_bit 8 x"
    by (simp add: to_int32_def take_bit_signed_take_bit)
  finally show "js_and x 255 = x mod 256" by (simp add: js_and_def to_int32_small take_bit_eq_mod)
  then show "js_and 255 x = x mod 256" by (simp add: js_and_def and.commute)
qed

lemma js_shr_0_mod: "(js_shr x 0 - s) mod 256 = (x - s) mod 256"
proof -
  have "take_bit 8 (to_int32 x) = take_bit 8 x"
    by (simp add: to_int32_def take_bit_signed_take_bit)
  then have "to_int32 x mod 256 = x mod 256" by (simp add: take_bit_eq_mod)
  then have "(to_int32 x - s) mod 256 = (x - s) mod 256" by (rule mod_diff_cong) (rule refl)
  then show ?thesis by (simp add: js_shr_def)
qed

lemma js_ushr_mod:
  assumes "k + 8 \<le> 32"
  shows "js_ushr x k mod 256 = x div 2 ^ k mod 256"
proof -
  have "take_bit 8 (drop_bit k (take_bit 32 x)) = take_bit 8 (drop_bit k x)"
    using assms by (intro bit_eqI) (auto simp: bit_simps)
  then show ?thesis by (simp add: js_ushr_def take_bit_eq_mod drop_bit_eq_div)
qed

lemma js_quot_floor:
  assumes "0 < m"
  shows "js_quot v m = v div m + (if v < 0 \<and> v mod m \<noteq> 0 then 1 else 0)"
proof (cases "v < 0")
  case True
  with assms show ?thesis by (simp add: js_quot_def zdiv_zminus1_eq_if)
qed (simp add: js_quot_def)

lemma byte_of_range: "0 \<le> byte_of v k" "byte_of v k < 256"
  by (simp_all add: byte_of_def)

lemma byte_of_0: "byte_of v 0 = v mod 256"
  by (simp add: byte_of_def)

lemma byte_of_Suc: "byte_of v (Suc k) = byte_of (v div 256) k"
  by (simp add: byte_of_def zdiv_zmult2_eq)

lemma int_bytes_Suc: "int_bytes (Suc n) v = v mod 256 # int_bytes n (v div 256)"
  by (simp add: int_bytes_def upt_conv_Cons byte_of_0 map_Suc_upt [symmetric] comp_def byte_of_Suc
      del: upt_Suc)

lemma length_int_bytes [simp]: "length (int_bytes n v) = n"
  by (simp add: int_bytes_def)

lemma bytes_value_simps [simp]: "bytes_value [] = 0" "bytes_value (b # bs) = b + 256 * bytes_value bs"
  by (simp_all add: bytes_value_def)

lemma bytes_value_int_bytes: "bytes_value (int_bytes n v) = v mod 256 ^ n"
proof (induction n arbitrary: v)
  case (Suc n)
  then show ?case
    using zmod_zmult2_eq [of "256 ^ n" v 256] by (simp add: int_bytes_Suc)
qed (simp add: int_bytes_def)

lemma mod_power_Suc_zero:
  "v mod 256 ^ Suc m = 0 \<longleftrightarrow> v mod 256 ^ m = 0 \<and> byte_of v m = (0::int)"
proof -
  have "v mod 256 ^ Suc m = 256 ^ m * byte_of v m + v mod 256 ^ m"
    using zmod_zmult2_eq [of 256 v "256 ^ m"] by (simp add: byte_of_def mult.commute)
  moreover have "0 \<le> 256 ^ m * byte_of v m" "0 \<le> v mod 256 ^ m"
    by (simp_all add: byte_of_range)
  ultimately show ?thesis by (auto simp: add_nonneg_eq_0_iff)
qed

section \<open>Offsets\<close>

lemma to_int32_number_int: "to_int32_number (Finite (of_int t)) = to_int32 t"
  by (simp add: to_int32_number_def)

lemma to_int32_idem [simp]: "to_int32 (to_int32 a) = to_int32 a"
  by (simp add: to_int32_def)

lemma to_int32_number_twice: "to_int32_number (Finite (of_int (to_int32_number x))) = to_int32_number x"
proof -
  have "to_int32 0 = 0" by (simp add: to_int32_small)
  then have "to_int32 (to_int32_number x) = to_int32_number x"
    by (auto simp: to_int32_number_def split: js_number.splits)
  then show ?thesis by (simp add: to_int32_number_int)
qed

lemma number_index_int [simp]: "number_index (Finite (of_int t)) = t"
  by (simp add: number_index_def)

lemma check_offset_int:
  "check_offset buf (Finite (of_int t)) n =
     (if 0 \<le> t \<and> t + int n \<le> int (length buf) then Inr () else Inl JsRangeError)"
proof -
  have "rat_of_nat (length buf) < of_int t + rat_of_nat n \<longleftrightarrow> int (length buf) < t + int n"
    using of_int_less_iff [of "int (length buf)" "t + int n", where 'a = rat] by simp
  then show ?thesis by (auto simp: check_offset_def)
qed

lemma at_index_nat: "off < length buf \<Longrightarrow> at_index buf (int off) = buf ! off"
  by (simp add: at_index_def array_element_def)

lemma put_at_less [simp]: "i < 0 \<Longrightarrow> put_at buf i v = buf"
  by (simp add: put_at_def)

lemma length_put_at [simp]: "length (put_at buf i v) = length buf"
  by (simp add: put_at_def store_def)

section \<open>What the writes store\<close>

definition puts :: "int list \<Rightarrow> int \<Rightarrow> int \<Rightarrow> (nat \<times> nat) list \<Rightarrow> int list" where
  "puts buf t v ps = foldl (\<lambda>b (k, e). put_at b (t + int k) (byte_of v e)) buf ps"

lemma puts_simps [simp]:
  "puts buf t v [] = buf"
  "puts buf t v ((k, e) # ps) = puts (put_at buf (t + int k) (byte_of v e)) t v ps"
  by (simp_all add: puts_def)

lemma length_puts [simp]: "length (puts buf t v ps) = length buf"
  by (induction ps arbitrary: buf) auto

lemma nth_put_at: "x < length buf \<Longrightarrow> put_at buf i v ! x = (if i = int x then v mod 256 else buf ! x)"
  by (auto simp: put_at_def store_def nth_list_update)

lemma puts_other:
  "x < length buf \<Longrightarrow> (\<And>k e. (k, e) \<in> set ps \<Longrightarrow> int x \<noteq> t + int k) \<Longrightarrow> puts buf t v ps ! x = buf ! x"
proof (induction ps arbitrary: buf)
  case (Cons p ps)
  obtain k e where p: "p = (k, e)" by (cases p)
  have "puts (put_at buf (t + int k) (byte_of v e)) t v ps ! x = put_at buf (t + int k) (byte_of v e) ! x"
    using Cons.prems by (intro Cons.IH) auto
  moreover have "int x \<noteq> t + int k" using Cons.prems(2) [of k e] p by simp
  ultimately show ?case using p Cons.prems(1) by (simp add: nth_put_at)
qed simp

lemma puts_at:
  "distinct (map fst ps) \<Longrightarrow> (k, e) \<in> set ps \<Longrightarrow> x < length buf \<Longrightarrow> int x = t + int k
     \<Longrightarrow> puts buf t v ps ! x = byte_of v e"
proof (induction ps arbitrary: buf)
  case (Cons p ps)
  obtain l f where p: "p = (l, f)" by (cases p)
  show ?case
  proof (cases "(k, e) \<in> set ps")
    case True
    with Cons p show ?thesis by simp
  next
    case False
    with Cons.prems p have "l = k" "f = e" by auto
    moreover from this have "puts (put_at buf (t + int k) (byte_of v e)) t v ps ! x =
        put_at buf (t + int k) (byte_of v e) ! x"
      using Cons.prems p by (intro puts_other) (auto simp: image_iff)
    ultimately show ?thesis using p Cons.prems(3,4) byte_of_range [of v e] by (simp add: nth_put_at)
  qed
qed simp

lemma nth_overwrite:
  "off + length bs \<le> length buf \<Longrightarrow> overwrite buf off bs ! x =
     (if off \<le> x \<and> x < off + length bs then bs ! (x - off) else buf ! x)"
  by (auto simp: overwrite_def nth_append)

lemma length_overwrite: "off + length bs \<le> length buf \<Longrightarrow> length (overwrite buf off bs) = length buf"
  by (simp add: overwrite_def)

lemma clipped_inside: "t + int (length bs) \<le> int (length buf) \<Longrightarrow> nat t + length (drop (nat (- t)) bs) \<le> length buf"
  by auto

lemma length_clipped: "t + int (length bs) \<le> int (length buf) \<Longrightarrow> length (clipped buf t bs) = length buf"
  unfolding clipped_def by (rule length_overwrite) (rule clipped_inside)

lemma nth_clipped:
  assumes "t + int (length bs) \<le> int (length buf)"
  shows "clipped buf t bs ! x =
    (if t \<le> int x \<and> int x < t + int (length bs) then bs ! nat (int x - t) else buf ! x)"
proof -
  have "nat (- t) + (x - nat t) = nat (int x - t)" if "t \<le> int x" using that by simp
  moreover have "nat t \<le> x \<and> x < nat t + length (drop (nat (- t)) bs)
    \<longleftrightarrow> t \<le> int x \<and> int x < t + int (length bs)" by auto
  ultimately show ?thesis
    unfolding clipped_def nth_overwrite [OF clipped_inside [OF assms]] by auto
qed

lemma clipped_nonneg: "0 \<le> t \<Longrightarrow> clipped buf t bs = overwrite buf (nat t) bs"
  by (simp add: clipped_def)

lemma puts_clipped:
  assumes "t + int n \<le> int (length buf)" "distinct (map fst ps)" "\<And>k e. (k, e) \<in> set ps \<longleftrightarrow> k < n \<and> e = f k"
    and "length bs = n" "\<And>k. k < n \<Longrightarrow> bs ! k = byte_of v (f k)"
  shows "puts buf t v ps = clipped buf t bs"
proof (rule nth_equalityI)
  show "length (puts buf t v ps) = length (clipped buf t bs)"
    using assms(1,4) by (simp add: length_clipped)
  fix x assume "x < length (puts buf t v ps)"
  then have x: "x < length buf" by simp
  show "puts buf t v ps ! x = clipped buf t bs ! x"
  proof (cases "t \<le> int x \<and> int x < t + int n")
    case True
    define k where "k = nat (int x - t)"
    have k: "k < n" "int x = t + int k" using True by (auto simp: k_def)
    then have "(k, f k) \<in> set ps" using assms(3) by simp
    from puts_at [OF assms(2) this x k(2), of v] show ?thesis
      using assms(1,4) assms(5) [OF k(1)] True by (simp add: nth_clipped k_def)
  next
    case False
    then have "puts buf t v ps ! x = buf ! x" using assms(3) x by (intro puts_other) auto
    with False assms(1,4) show ?thesis by (auto simp: nth_clipped)
  qed
qed

lemma puts_le:
  "t + int n \<le> int (length buf) \<Longrightarrow> puts buf t v (zip [0..<n] [0..<n]) = clipped buf t (int_bytes n v)"
  by (rule puts_clipped [where n = n and f = "\<lambda>k. k"])
    (auto simp: set_zip int_bytes_def intro!: exI)

lemma puts_be:
  "t + int n \<le> int (length buf) \<Longrightarrow>
     puts buf t v (zip (rev [0..<n]) [0..<n]) = clipped buf t (rev (int_bytes n v))"
proof (rule puts_clipped [where n = n and f = "\<lambda>k. n - 1 - k"])
  show "(k, e) \<in> set (zip (rev [0..<n]) [0..<n]) \<longleftrightarrow> k < n \<and> e = n - 1 - k" for k e
    by (auto simp: set_zip rev_nth intro!: exI [of _ "n - 1 - k"])
qed (auto simp: int_bytes_def rev_nth)

lemma upt_Suc_shift: "[Suc m..<Suc m + length (k # ks)] = Suc m # [Suc (Suc m)..<Suc (Suc m) + length ks]"
  using upt_conv_Cons [of "Suc m" "Suc m + length (k # ks)"] by (simp del: upt_Suc)

lemma put_at_mod: "put_at buf i (x mod 256) = put_at buf i x"
  by (simp add: put_at_def store_def)

lemma put_byte: "put_at buf i (byte_of v k) = put_at buf i (v div 256 ^ k)"
  by (simp add: byte_of_def put_at_mod)

lemma put_and: "put_at buf i (js_and x 255) = put_at buf i x" "put_at buf i (js_and 255 x) = put_at buf i x"
  by (simp_all add: js_and_255_mod put_at_mod)

lemma put_shr: "put_at buf i (js_and (js_shr x 0 - s) 255) = put_at buf i (x - s)"
  by (simp add: js_and_255_mod put_at_def store_def js_shr_0_mod)

lemma write_uint_puts:
  "0 \<le> v \<Longrightarrow> write_uint_loop buf v t (256 ^ m) ks = puts buf t v (zip ks [Suc m..<Suc m + length ks])"
proof (induction ks arbitrary: buf m)
  case (Cons k ks)
  have "put_at buf (t + int k) (js_and (js_quot v (256 ^ m * 256)) 255) =
      put_at buf (t + int k) (byte_of v (Suc m))"
    using Cons.prems by (simp add: put_and put_byte js_quot_def mult.commute)
  moreover have "(256::int) ^ m * 256 = 256 ^ Suc m" by simp
  ultimately show ?case
    using Cons.IH [of _ "Suc m"] Cons.prems upt_Suc_shift [of m k ks] by (simp del: upt_Suc power_Suc)
qed simp

text \<open>The signed loop while the bytes it reads back are there.\<close>

definition carry_right :: "int \<Rightarrow> int \<Rightarrow> nat \<Rightarrow> bool" where
  "carry_right s v m \<longleftrightarrow> s = (if v < 0 \<and> v mod 256 ^ m \<noteq> 0 then 1 else 0)"

lemma carry_step:
  assumes "carry_right s v m" "array_element buf i = Some (byte_of v m)"
    and "s' = (if v < 0 \<and> s = 0 \<and> array_element buf i \<noteq> Some 0 then 1 else s)"
  shows "carry_right s' v (Suc m)"
    and "put_at b j (js_and (js_shr (js_quot v (256 ^ Suc m)) 0 - s') 255) = put_at b j (byte_of v (Suc m))"
proof -
  show c: "carry_right s' v (Suc m)"
    using assms unfolding carry_right_def mod_power_Suc_zero by auto
  have "js_quot v (256 ^ Suc m) - s' = v div 256 ^ Suc m"
    using js_quot_floor [of "256 ^ Suc m" v] c by (simp add: carry_right_def del: power_Suc)
  then show "put_at b j (js_and (js_shr (js_quot v (256 ^ Suc m)) 0 - s') 255) = put_at b j (byte_of v (Suc m))"
    by (simp add: put_shr put_byte del: power_Suc)
qed

lemma element_put_at: "0 \<le> i \<Longrightarrow> i < int (length buf) \<Longrightarrow> array_element (put_at buf i v) i = Some (v mod 256)"
  by (simp add: array_element_def put_at_def store_def)

lemma write_int_puts:
  assumes "carry_right s v m" "array_element buf (t + int prev) = Some (byte_of v m)"
    and "\<forall>k \<in> set ks. 0 \<le> t + int k \<and> t + int k < int (length buf)"
  shows "write_int_loop buf v t (256 ^ m) s prev ks = puts buf t v (zip ks [Suc m..<Suc m + length ks])"
  using assms
proof (induction ks arbitrary: buf m s prev)
  case (Cons k ks)
  define s' where "s' = (if v < 0 \<and> s = 0 \<and> array_element buf (t + int prev) \<noteq> Some 0 then 1 else s)"
  note step = carry_step [OF Cons.prems(1,2) s'_def]
  have pow: "(256::int) ^ m * 256 = 256 ^ Suc m" by simp
  have "write_int_loop (put_at buf (t + int k) (byte_of v (Suc m))) v t (256 ^ Suc m) s' k ks =
      puts (put_at buf (t + int k) (byte_of v (Suc m))) t v (zip ks [Suc (Suc m)..<Suc (Suc m) + length ks])"
    using Cons.prems(3) step(1) byte_of_range [of v "Suc m"]
    by (intro Cons.IH) (auto simp: element_put_at)
  then show ?case
    unfolding write_int_loop.simps Let_def s'_def [symmetric] pow upt_Suc_shift step(2) by simp
qed simp

lemma puts_below: "\<forall>k \<in> set ks. t + int k < 0 \<Longrightarrow> puts buf t v (zip ks es) = buf"
proof (induction ks arbitrary: es)
  case (Cons k ks)
  then show ?case by (cases es) simp_all
qed simp

lemma write_int_below: "\<forall>k \<in> set ks. t + int k < 0 \<Longrightarrow> write_int_loop buf v t a s prev ks = buf"
  by (induction ks arbitrary: a s prev) (simp_all add: Let_def)

text \<open>Downwards the bytes read back are there until the loop has left the buffer.\<close>

lemma write_int_down:
  assumes "0 \<le> t + int p \<Longrightarrow> carry_right s v m \<and> array_element buf (t + int p) = Some (byte_of v m)"
    and "t + int p < int (length buf)"
  shows "write_int_loop buf v t (256 ^ m) s p (rev [0..<p]) = puts buf t v (zip (rev [0..<p]) [Suc m..<Suc m + p])"
  using assms
proof (induction p arbitrary: buf m s)
  case (Suc p)
  show ?case
  proof (cases "t + int p < 0")
    case True
    then have "\<forall>k \<in> set (rev [0..<Suc p]). t + int k < 0" by auto
    then show ?thesis by (simp only: puts_below write_int_below)
  next
    case False
    define s' where "s' = (if v < 0 \<and> s = 0 \<and> array_element buf (t + int (Suc p)) \<noteq> Some 0 then 1 else s)"
    from Suc.prems False have "carry_right s v m" "array_element buf (t + int (Suc p)) = Some (byte_of v m)" by auto
    note step = carry_step [OF this s'_def]
    have pow: "(256::int) ^ m * 256 = 256 ^ Suc m" by simp
    have up: "[Suc m..<Suc m + Suc p] = Suc m # [Suc (Suc m)..<Suc (Suc m) + p]"
      by (simp add: upt_conv_Cons del: upt_Suc)
    have "write_int_loop (put_at buf (t + int p) (byte_of v (Suc m))) v t (256 ^ Suc m) s' p (rev [0..<p]) =
        puts (put_at buf (t + int p) (byte_of v (Suc m))) t v (zip (rev [0..<p]) [Suc (Suc m)..<Suc (Suc m) + p])"
      using False Suc.prems(2) step(1) byte_of_range [of v "Suc m"]
      by (intro Suc.IH) (auto simp: element_put_at)
    then show ?thesis
      unfolding up rev.simps upt_Suc_append [OF le0] rev_append append.simps
        write_int_loop.simps Let_def s'_def [symmetric] pow step(2) by simp
  qed
qed simp

text \<open>Upwards from before the buffer they are not: the loop writes the bytes of the number below.\<close>

lemma write_int_early:
  assumes "v < 0"
  shows "write_int_loop buf v t (256 ^ m) 1 prev ks = puts buf t (v - 1) (zip ks [Suc m..<Suc m + length ks])"
proof (induction ks arbitrary: buf m prev)
  case (Cons k ks)
  have "js_quot v (256 ^ Suc m) - 1 = (v - 1) div 256 ^ Suc m"
  proof -
    have "(- v) div M = - (v div M) - (if v mod M = 0 then 0 else 1)" if "0 < M" for M :: int
      using that by (simp add: zdiv_zminus1_eq_if)
    moreover have "(v - 1) div M = v div M - (if v mod M = 0 then 1 else 0)" if "0 < M" for M :: int
    proof (cases "v mod M = 0")
      case True
      then obtain q where "v = M * q" by auto
      moreover have "(M * q - 1) div M = q + (- 1) div M"
        using that div_mult_self2 [of M "- 1" q] by (simp add: algebra_simps)
      moreover have "(- 1) div M = - 1" using that by (simp add: div_eq_minus1)
      ultimately show ?thesis using that by simp
    next
      case False
      have "0 \<le> v mod M" "v mod M < M" using that by simp_all
      then have "(v - 1) div M = v div M"
        using False by (intro int_div_pos_eq [of "v - 1" M "v div M" "v mod M - 1"])
          (auto simp: algebra_simps)
      with False show ?thesis by simp
    qed
    ultimately show ?thesis using assms by (simp add: js_quot_def del: power_Suc)
  qed
  then have "put_at buf (t + int k) (js_and (js_shr (js_quot v (256 ^ Suc m)) 0 - 1) 255) =
      put_at buf (t + int k) (byte_of (v - 1) (Suc m))"
    by (simp only: put_shr put_byte)
  moreover have "(256::int) ^ m * 256 = 256 ^ Suc m" by simp
  ultimately show ?case
    using Cons.IH [of _ "Suc m"] upt_Suc_shift [of m k ks] by (simp del: upt_Suc power_Suc)
qed simp

text \<open>All writes of integers store the two's complement.\<close>

lemma upt_zip_le: "0 < n \<Longrightarrow> zip [0..<n] [0..<n] = (0, 0) # zip [1..<n] [Suc 0..<Suc 0 + length [1..<n]]"
  by (cases n) (simp_all add: upt_conv_Cons del: upt_Suc)

lemma upt_zip_be:
  "0 < n \<Longrightarrow> zip (rev [0..<n]) [0..<n] = (n - 1, 0) # zip (rev [0..<n - 1]) [Suc 0..<Suc 0 + (n - 1)]"
proof (cases n)
  case (Suc m)
  have "rev [0..<Suc m] = m # rev [0..<m]" by simp
  moreover have "[0..<Suc m] = 0 # [Suc 0..<Suc m]" by (simp add: upt_conv_Cons del: upt_Suc)
  ultimately show ?thesis using Suc by (simp del: upt_Suc)
qed simp

lemma put_first: "put_at buf i (js_and 255 v) = put_at buf i (byte_of v 0)"
  by (simp add: put_and put_byte)

lemma writeUInt_bytes:
  fixes x :: js_number
  assumes "0 < n"
  defines "t \<equiv> to_int32_number x"
  shows "writeUIntLE buf v x n =
      (if 0 \<le> v \<and> v < 2 ^ (8 * n) \<and> t + int n \<le> int (length buf)
       then Inr (clipped buf t (int_bytes n v), t + int n) else Inl JsRangeError)"
    and "writeUIntBE buf v x n =
      (if 0 \<le> v \<and> v < 2 ^ (8 * n) \<and> t + int n \<le> int (length buf)
       then Inr (clipped buf t (rev (int_bytes n v)), t + int n) else Inl JsRangeError)"
proof -
  have "write_uint_loop (put_at buf t (js_and 255 v)) v t 1 [1..<n] = clipped buf t (int_bytes n v)"
    if "0 \<le> v" "t + int n \<le> int (length buf)"
    using write_uint_puts [OF that(1), of "put_at buf t (byte_of v 0)" t 0 "[1..<n]"]
      puts_le [OF that(2), of v] upt_zip_le [OF assms(1)] by (simp add: put_first)
  then show "writeUIntLE buf v x n =
      (if 0 \<le> v \<and> v < 2 ^ (8 * n) \<and> t + int n \<le> int (length buf)
       then Inr (clipped buf t (int_bytes n v), t + int n) else Inl JsRangeError)"
    by (auto simp: writeUIntLE_def check_int_def Let_def simp flip: t_def)
  have last: "t + (int n - 1) = t + int (n - 1)" using assms(1) by simp
  have "write_uint_loop (put_at buf (t + int (n - 1)) (byte_of v 0)) v t (256 ^ 0) (rev [0..<n - 1]) =
      clipped buf t (rev (int_bytes n v))" if "0 \<le> v" "t + int n \<le> int (length buf)"
    unfolding write_uint_puts [OF that(1)] using puts_be [OF that(2), of v] upt_zip_be [OF assms(1)] by simp
  then have "write_uint_loop (put_at buf (t + (int n - 1)) (js_and 255 v)) v t 1 (rev [0..<n - 1]) =
      clipped buf t (rev (int_bytes n v))" if "0 \<le> v" "t + int n \<le> int (length buf)"
    unfolding last put_first using that by simp
  then show "writeUIntBE buf v x n =
      (if 0 \<le> v \<and> v < 2 ^ (8 * n) \<and> t + int n \<le> int (length buf)
       then Inr (clipped buf t (rev (int_bytes n v)), t + int n) else Inl JsRangeError)"
    by (auto simp: writeUIntBE_def check_int_def Let_def simp flip: t_def)
qed

text \<open>The number whose bytes \<open>writeIntLE\<close> leaves.\<close>

definition number_left :: "int \<Rightarrow> int \<Rightarrow> int" where
  "number_left t v = (if t < 0 \<and> v < 0 then v - 1 else v)"

lemma write_int_loop_le:
  assumes "0 < n" "t + int n \<le> int (length buf)"
  shows "write_int_loop (put_at buf t (js_and 255 v)) v t 1 0 0 [1..<n] =
    clipped buf t (int_bytes n (number_left t v))"
proof (cases "t < 0 \<and> v < 0")
  case True
  have zip: "zip [0..<n] [0..<n] = (0, 0) # zip [1..<n] [Suc 0..<Suc 0 + length [1..<n]]"
    by (rule upt_zip_le [OF assms(1)])
  have "write_int_loop buf v t 1 0 0 ks = write_int_loop buf v t 1 1 0 ks" for ks
    using True by (cases ks) (simp_all add: array_element_def Let_def)
  then have "write_int_loop (put_at buf t (js_and 255 v)) v t 1 0 0 [1..<n] =
      puts buf t (v - 1) (zip [1..<n] [Suc 0..<Suc 0 + length [1..<n]])"
    using True write_int_early [of v buf t 0 0 "[1..<n]"] by simp
  also have "\<dots> = puts buf t (v - 1) (zip [0..<n] [0..<n])"
    unfolding zip using True by simp
  finally show ?thesis using puts_le [OF assms(2)] True by (simp add: number_left_def)
next
  case False
  have "write_int_loop (put_at buf t (byte_of v 0)) v t (256 ^ 0) 0 0 [1..<n] =
      puts (put_at buf t (byte_of v 0)) t v (zip [1..<n] [Suc 0..<Suc 0 + length [1..<n]])"
  proof (cases "t < 0")
    case True
    with False have "0 \<le> v" by simp
    have same: "write_int_loop b v t (256 ^ m) 0 prev ks = write_uint_loop b v t (256 ^ m) ks" for b m prev ks
    proof (induction ks arbitrary: b m prev)
      case (Cons k ks)
      have "(256::int) ^ m * 256 = 256 ^ Suc m" by simp
      with Cons [of _ "Suc m"] \<open>0 \<le> v\<close> show ?case
        using put_shr [of _ _ _ 0] by (simp add: put_and del: power_Suc)
    qed simp
    show ?thesis unfolding same by (rule write_uint_puts [OF \<open>0 \<le> v\<close>])
  next
    case False
    with assms byte_of_range [of v 0] show ?thesis
      by (intro write_int_puts) (auto simp: carry_right_def element_put_at)
  qed
  moreover have "number_left t v = v" using False by (auto simp: number_left_def)
  ultimately show ?thesis
    using puts_le [OF assms(2), of v] upt_zip_le [OF assms(1)] by (simp add: put_first)
qed

lemma writeInt_bytes:
  fixes x :: js_number
  assumes "0 < n"
  defines "t \<equiv> to_int32_number x"
  shows "writeIntLE buf v x n =
      (if - (2 ^ (8 * n - 1)) \<le> v \<and> v < 2 ^ (8 * n - 1) \<and> t + int n \<le> int (length buf)
       then Inr (clipped buf t (int_bytes n (number_left t v)), t + int n) else Inl JsRangeError)"
    and "writeIntBE buf v x n =
      (if - (2 ^ (8 * n - 1)) \<le> v \<and> v < 2 ^ (8 * n - 1) \<and> t + int n \<le> int (length buf)
       then Inr (clipped buf t (rev (int_bytes n v)), t + int n) else Inl JsRangeError)"
proof -
  show "writeIntLE buf v x n =
      (if - (2 ^ (8 * n - 1)) \<le> v \<and> v < 2 ^ (8 * n - 1) \<and> t + int n \<le> int (length buf)
       then Inr (clipped buf t (int_bytes n (number_left t v)), t + int n) else Inl JsRangeError)"
    using write_int_loop_le [OF assms(1), of t buf v]
    by (auto simp: writeIntLE_def check_int_def Let_def simp flip: t_def)
  have last: "t + (int n - 1) = t + int (n - 1)" using assms(1) by simp
  have "write_int_loop (put_at buf (t + int (n - 1)) (byte_of v 0)) v t (256 ^ 0) 0 (n - 1) (rev [0..<n - 1]) =
      puts (put_at buf (t + int (n - 1)) (byte_of v 0)) t v (zip (rev [0..<n - 1]) [Suc 0..<Suc 0 + (n - 1)])"
    if "t + int n \<le> int (length buf)"
    using that assms(1) byte_of_range [of v 0]
    by (intro write_int_down) (auto simp: carry_right_def element_put_at)
  then have "write_int_loop (put_at buf (t + (int n - 1)) (js_and 255 v)) v t 1 0 (n - 1) (rev [0..<n - 1]) =
      clipped buf t (rev (int_bytes n v))" if "t + int n \<le> int (length buf)"
    using puts_be [OF that, of v] upt_zip_be [OF assms(1)] that by (simp add: put_first last)
  then show "writeIntBE buf v x n =
      (if - (2 ^ (8 * n - 1)) \<le> v \<and> v < 2 ^ (8 * n - 1) \<and> t + int n \<le> int (length buf)
       then Inr (clipped buf t (rev (int_bytes n v)), t + int n) else Inl JsRangeError)"
    by (auto simp: writeIntBE_def check_int_def Let_def simp flip: t_def)
qed

section \<open>What the reads yield\<close>

lemma read_loop_value:
  "read_loop buf e i r ks = r + i * 256 * bytes_value (map (\<lambda>k. at_index buf (e + int k)) ks)"
  by (induction ks arbitrary: i r) (simp_all add: algebra_simps)

definition segment :: "int list \<Rightarrow> nat \<Rightarrow> nat \<Rightarrow> int list" where
  "segment buf off n = map (\<lambda>k. buf ! (off + k)) [0..<n]"

lemma segment_overwrite: "off + length bs \<le> length buf \<Longrightarrow> segment (overwrite buf off bs) off (length bs) = bs"
  by (rule nth_equalityI) (auto simp: segment_def nth_overwrite)

lemma segment_at_index:
  assumes "0 \<le> e" "e + int n \<le> int (length buf)"
  shows "segment buf (nat e) n = map (\<lambda>k. at_index buf (e + int k)) [0..<n]"
  unfolding segment_def
proof (rule map_cong [OF refl])
  fix k assume "k \<in> set [0..<n]"
  then have "at_index buf (int (nat e + k)) = buf ! (nat e + k)" using assms by (intro at_index_nat) auto
  then show "buf ! (nat e + k) = at_index buf (e + int k)" using assms(1) by (simp add: add.commute)
qed

lemma readUInt_value:
  fixes x :: js_number
  assumes "0 < n"
  defines "e \<equiv> to_int32_number x"
  shows "readUIntLE buf x n =
      (if 0 \<le> e \<and> e + int n \<le> int (length buf)
       then Inr (bytes_value (segment buf (nat e) n)) else Inl JsRangeError)"
    and "readUIntBE buf x n =
      (if 0 \<le> e \<and> e + int n \<le> int (length buf)
       then Inr (bytes_value (rev (segment buf (nat e) n))) else Inl JsRangeError)"
proof -
  have first: "map (\<lambda>k. at_index buf (e + int k)) [0..<n]
      = at_index buf e # map (\<lambda>k. at_index buf (e + int k)) [1..<n]"
    using assms(1) by (simp add: upt_conv_Cons)
  then show "readUIntLE buf x n =
      (if 0 \<le> e \<and> e + int n \<le> int (length buf)
       then Inr (bytes_value (segment buf (nat e) n)) else Inl JsRangeError)"
    by (simp add: readUIntLE_def check_offset_int read_loop_value segment_at_index Let_def flip: e_def)
  have last: "e + (int n - 1) = e + int (n - 1)" using assms(1) by simp
  have "rev (map (\<lambda>k. at_index buf (e + int k)) [0..<n])
      = at_index buf (e + int (n - 1)) # map (\<lambda>k. at_index buf (e + int k)) (rev [0..<n - 1])"
    using assms(1) by (cases n) (simp_all add: rev_map)
  then show "readUIntBE buf x n =
      (if 0 \<le> e \<and> e + int n \<le> int (length buf)
       then Inr (bytes_value (rev (segment buf (nat e) n))) else Inl JsRangeError)"
    by (simp add: readUIntBE_def check_offset_int read_loop_value segment_at_index Let_def last flip: e_def)
qed

lemma readInt_signed:
  "readIntLE buf x n = bindR (readUIntLE buf x n) (\<lambda>r. Inr (signed_value n r))"
  "readIntBE buf x n = bindR (readUIntBE buf x n) (\<lambda>r. Inr (signed_value n r))"
  by (simp_all add: readIntLE_def readUIntLE_def readIntBE_def readUIntBE_def check_offset_int Let_def)

lemma power_256: "(256::int) ^ n = 2 ^ (8 * n)"
  by (simp add: power_mult)

lemma signed_value_mod:
  assumes "0 < n" "- (2 ^ (8 * n - 1)) \<le> v" "v < 2 ^ (8 * n - 1)"
  shows "signed_value n (v mod 256 ^ n) = v"
proof -
  define H where "H = (2::int) ^ (8 * n - 1)"
  have H: "128 * 256 ^ (n - Suc 0) = H"
    using assms(1) by (cases n) (simp_all add: H_def power_256 power_add)
  have two: "2 ^ (8 * n) = 2 * H" "(256::int) ^ n = 2 * H"
    using assms(1) by (simp_all add: H_def power_256 flip: power_Suc)
  have r: "- H \<le> v" "v < H" using assms(2,3) by (simp_all add: H_def)
  show ?thesis
  proof (cases "0 \<le> v")
    case True
    then have "v mod (2 * H) = v" using r by simp
    with True r show ?thesis by (simp add: signed_value_def H two)
  next
    case False
    have "v mod (2 * H) = (v + 2 * H) mod (2 * H)" by simp
    also have "\<dots> = v + 2 * H" using False r by (intro mod_pos_pos_trivial) auto
    finally have "v mod (2 * H) = v + 2 * H" .
    with False r show ?thesis by (simp add: signed_value_def H two)
  qed
qed

section \<open>The fixed widths\<close>

lemma segment_small:
  "segment buf off 1 = [buf ! off]" "segment buf off 2 = [buf ! off, buf ! (off + 1)]"
  "segment buf off 4 = [buf ! off, buf ! (off + 1), buf ! (off + 2), buf ! (off + 3)]"
  by (simp_all add: segment_def upt_rec numeral_2_eq_2 numeral_3_eq_3)

lemma byte_at: "js_bytes buf \<Longrightarrow> i < length buf \<Longrightarrow> 0 \<le> buf ! i \<and> buf ! i < 256"
  by (auto simp: js_bytes_def)

lemma or_bytes:
  assumes "0 \<le> a" "a < 256" "0 \<le> b" "b < 256" "0 \<le> c" "c < 256"
  shows "js_or a (js_shl b 8) = a + 256 * b" "js_or (js_shl b 8) a = a + 256 * b"
    "js_or (js_or a (js_shl b 8)) (js_shl c 16) = a + 256 * b + 65536 * c"
    "js_or (js_or (js_shl c 16) (js_shl b 8)) a = a + 256 * b + 65536 * c"
proof -
  have s: "js_shl b 8 = b * 2 ^ 8" "js_shl c 16 = c * 2 ^ 16"
    using assms by (simp_all add: js_shl_small)
  have comm: "js_or x y = js_or y x" for x y by (simp add: js_or_def or.commute)
  show two: "js_or (js_shl b 8) a = a + 256 * b"
    unfolding s(1) using js_or_plus [of b a 8] assms by simp
  then show two': "js_or a (js_shl b 8) = a + 256 * b" by (simp add: comm)
  have "js_or (c * 2 ^ 16) (a + 256 * b) = c * 2 ^ 16 + (a + 256 * b)"
    using assms by (intro js_or_plus) simp_all
  then show "js_or (js_or a (js_shl b 8)) (js_shl c 16) = a + 256 * b + 65536 * c"
    unfolding two' s(2) by (simp add: comm [of "a + 256 * b"])
  have "js_or (c * 2 ^ 16) (b * 2 ^ 8) = c * 2 ^ 16 + b * 2 ^ 8"
    using assms by (intro js_or_plus) simp_all
  moreover have "js_or ((c * 256 + b) * 2 ^ 8) a = (c * 256 + b) * 2 ^ 8 + a"
    using assms by (intro js_or_plus) simp_all
  ultimately show "js_or (js_or (js_shl c 16) (js_shl b 8)) a = a + 256 * b + 65536 * c"
    unfolding s by (simp add: algebra_simps)
qed

lemma js_and_bit:
  assumes "0 \<le> x" "x < 2147483648" "k < 31"
  shows "js_and (2 ^ k) x \<noteq> 0 \<longleftrightarrow> odd (x div 2 ^ k)"
proof -
  have "(2::int) ^ k \<le> 2 ^ 30" using assms(3) by (intro power_increasing) simp_all
  then have "js_and (2 ^ k) x = 2 ^ k AND x"
    using assms by (simp add: js_and_def to_int32_small)
  then show ?thesis
    by (simp add: and.commute and_exp_eq_0_iff_not_bit bit_iff_odd)
qed

lemma sign_bit:
  "0 \<le> x \<Longrightarrow> x < 256 \<Longrightarrow> js_and 128 x \<noteq> 0 \<longleftrightarrow> 128 \<le> x"
  "0 \<le> x \<Longrightarrow> x < 65536 \<Longrightarrow> js_and 32768 x \<noteq> 0 \<longleftrightarrow> 32768 \<le> x"
proof -
  have top: "odd (x div m) \<longleftrightarrow> m \<le> x" if "0 \<le> x" "x < 2 * m" for m :: int
  proof (cases "m \<le> x")
    case True
    then have "x div m = 1"
      using that div_pos_geq [of m x] by (simp add: div_pos_pos_trivial)
    with True show ?thesis by simp
  qed (use that in simp)
  show "js_and 128 x \<noteq> 0 \<longleftrightarrow> 128 \<le> x" if "0 \<le> x" "x < 256"
    using js_and_bit [of x 7] top [of 128] that by simp
  show "js_and 32768 x \<noteq> 0 \<longleftrightarrow> 32768 \<le> x" if "0 \<le> x" "x < 65536"
    using js_and_bit [of x 15] top [of 32768] that by simp
qed

lemma or_negative:
  assumes "0 \<le> x" "x < 2 ^ k" "k < 31" "to_int32 y = a * 2 ^ k"
  shows "js_or x y = a * 2 ^ k + x" "js_or y x = a * 2 ^ k + x"
proof -
  have "(2::int) ^ k \<le> 2 ^ 30" using assms(3) by (intro power_increasing) simp_all
  then have "to_int32 x = x" using assms(1,2) by (intro to_int32_small) simp_all
  with assms or_plus [OF assms(1,2), of a] show "js_or x y = a * 2 ^ k + x" "js_or y x = a * 2 ^ k + x"
    by (simp_all add: js_or_def or.commute)
qed

lemma to_int32_wrap:
  assumes "2147483648 \<le> x" "x < 4294967296"
  shows "to_int32 x = x - 4294967296"
proof -
  have "take_bit 32 (x - 4294967296) = take_bit 32 x"
    by (simp add: take_bit_eq_mod)
  then have "signed_take_bit 31 x = signed_take_bit 31 (x - 4294967296)"
    by (simp add: signed_take_bit_eq_iff_take_bit_eq)
  with assms show ?thesis
    by (simp add: to_int32_def signed_take_bit_int_eq_self)
qed

lemma to_int32_or: "to_int32 (a OR b) = to_int32 a OR to_int32 b"
  by (intro bit_eqI) (auto simp: to_int32_def bit_simps)

lemma fixed_bytes: "int_bytes 1 v = [byte_of v 0]" "int_bytes 2 v = [byte_of v 0, byte_of v 1]"
  "int_bytes 4 v = [byte_of v 0, byte_of v 1, byte_of v 2, byte_of v 3]"
  by (simp_all add: int_bytes_def upt_rec numeral_2_eq_2 numeral_3_eq_3)

lemma byte_of_wrap: "byte_of (256 + v) 0 = byte_of v 0" "k < 4 \<Longrightarrow> byte_of (4294967296 + v) k = byte_of v k"
proof -
  have wrap: "(c * m + v) div m mod 256 = v div m mod 256" if "c mod 256 = 0" "m \<noteq> 0" for c m :: int
    using that by (simp add: mod_simps flip: mod_add_left_eq)
  show "byte_of (256 + v) 0 = byte_of v 0" by (simp add: byte_of_def)
  show "byte_of (4294967296 + v) k = byte_of v k" if "k < 4"
  proof -
    have eq: "4294967296 = (256::int) ^ (4 - k) * 256 ^ k" using that by (simp flip: power_add)
    have "(256::int) ^ (4 - k) mod 256 = 0" using that by (cases "4 - k") simp_all
    then show ?thesis unfolding byte_of_def eq by (rule wrap) simp
  qed
qed

section \<open>The fixed widths agree with the general reads and writes\<close>

text \<open>An offset that the conversion leaves as it is.\<close>

definition int32_offset :: "js_number \<Rightarrow> bool" where
  "int32_offset x \<longleftrightarrow> x = Finite (of_int (to_int32_number x))"

lemma check_other_offset:
  assumes "\<not> int32_offset x" "length buf \<le> 2147483647" "0 < n"
  shows "check_offset buf x n = Inl JsRangeError"
proof (rule ccontr)
  assume ok: "check_offset buf x n \<noteq> Inl JsRangeError"
  then obtain q where x: "x = Finite q" and q: "q = of_int \<lfloor>q\<rfloor>" "0 \<le> q"
    by (auto simp: check_offset_def split: js_number.splits if_splits)
  define k where "k = \<lfloor>q\<rfloor>"
  have xk: "x = Finite (of_int k)" and k: "0 \<le> k" using x q by (simp_all add: k_def)
  with ok have "k + int n \<le> int (length buf)" by (simp add: check_offset_int split: if_splits)
  with assms(2,3) k have "to_int32 k = k" by (intro to_int32_small) auto
  with xk have "int32_offset x" by (simp add: int32_offset_def to_int32_number_int)
  with assms(1) show False by simp
qed

lemma other_offset_refused:
  assumes "\<not> int32_offset x" "length buf \<le> 2147483647"
  shows "\<forall>f \<in> {readUInt8, readInt8, readUInt16LE, readUInt16BE, readInt16LE, readInt16BE,
      readUInt32LE, readUInt32BE, readInt32LE, readInt32BE}. f buf x = Inl JsRangeError"
  using check_other_offset [OF assms]
  by (simp add: readUInt8_def readInt8_def readUInt16LE_def readUInt16BE_def readInt16LE_def readInt16BE_def
      readUInt32LE_def readUInt32BE_def readInt32LE_def readInt32BE_def Let_def)

lemma int32_offsetD:
  assumes "int32_offset x"
  shows "number_index x = to_int32_number x"
    and "check_offset buf x n =
      (if 0 \<le> to_int32_number x \<and> to_int32_number x + int n \<le> int (length buf) then Inr () else Inl JsRangeError)"
proof -
  define t where "t = to_int32_number x"
  have "x = Finite (of_int t)" using assms by (simp add: int32_offset_def t_def)
  then show "number_index x = to_int32_number x"
    "check_offset buf x n =
      (if 0 \<le> to_int32_number x \<and> to_int32_number x + int n \<le> int (length buf) then Inr () else Inl JsRangeError)"
    unfolding t_def [symmetric] by (simp_all add: check_offset_int)
qed

text \<open>What a fixed read computes from the bytes is what the general one does.\<close>

lemma fixed_read:
  assumes x: "int32_offset x" "length buf \<le> 2147483647"
    and f: "\<And>off. off + n \<le> length buf \<Longrightarrow>
      f (at_index buf (int off)) (at_index buf (int off + 1)) (at_index buf (int off + 2)) (at_index buf (int off + 3))
      = g (segment buf off n)"
  shows "(let e = number_index x in bindR (check_offset buf x n) (\<lambda>_.
      Inr (f (at_index buf e) (at_index buf (e + 1)) (at_index buf (e + 2)) (at_index buf (e + 3))))) =
    (if 0 \<le> to_int32_number x \<and> to_int32_number x + int n \<le> int (length buf)
     then Inr (g (segment buf (nat (to_int32_number x)) n)) else Inl JsRangeError)"
proof -
  define e where "e = to_int32_number x"
  have "f (at_index buf e) (at_index buf (e + 1)) (at_index buf (e + 2)) (at_index buf (e + 3))
    = g (segment buf (nat e) n)" if "0 \<le> e" "e + int n \<le> int (length buf)"
    using that f [of "nat e"] by auto
  then show ?thesis unfolding int32_offsetD [OF x(1)] Let_def e_def [symmetric] by simp
qed

lemma indices:
  "off + n \<le> length buf \<Longrightarrow> 0 < n \<Longrightarrow> at_index buf (int off) = buf ! off"
  "off + n \<le> length buf \<Longrightarrow> 1 < n \<Longrightarrow> at_index buf (int off + 1) = buf ! (off + 1)"
  "off + n \<le> length buf \<Longrightarrow> 2 < n \<Longrightarrow> at_index buf (int off + 2) = buf ! (off + 2)"
  "off + n \<le> length buf \<Longrightarrow> 3 < n \<Longrightarrow> at_index buf (int off + 3) = buf ! (off + 3)"
  using at_index_nat [of off buf] at_index_nat [of "off + 1" buf] at_index_nat [of "off + 2" buf]
    at_index_nat [of "off + 3" buf] by (simp_all add: add.commute)

lemma two_indices:
  assumes "off + 2 \<le> length buf"
  shows "at_index buf (int off) = buf ! off" "at_index buf (int off + 1) = buf ! (off + 1)"
  using indices(1,2) [OF assms] by simp_all

lemma four_indices:
  assumes "off + 4 \<le> length buf"
  shows "at_index buf (int off) = buf ! off" "at_index buf (int off + 1) = buf ! (off + 1)"
    "at_index buf (int off + 2) = buf ! (off + 2)" "at_index buf (int off + 3) = buf ! (off + 3)"
  using indices [OF assms] by simp_all

lemma fixed_unsigned_reads:
  assumes "js_bytes buf" "int32_offset x" "length buf \<le> 2147483647"
  shows "readUInt8 buf x = readUIntLE buf x 1"
    "readUInt16LE buf x = readUIntLE buf x 2" "readUInt16BE buf x = readUIntBE buf x 2"
    "readUInt32LE buf x = readUIntLE buf x 4" "readUInt32BE buf x = readUIntBE buf x 4"
proof -
  note b = byte_at [OF assms(1)]
  note fixed = fixed_read [OF assms(2,3)]
  show "readUInt8 buf x = readUIntLE buf x 1"
    unfolding readUInt8_def readUInt_value [OF zero_less_one]
    by (rule fixed [where f = "\<lambda>a b c d. a" and g = bytes_value]) (simp only: indices zero_less_one segment_small, simp)
  have two: "js_or (buf ! off) (js_shl (buf ! (off + 1)) 8) = bytes_value (segment buf off 2)"
    "js_or (js_shl (buf ! off) 8) (buf ! (off + 1)) = bytes_value (rev (segment buf off 2))"
    if "off + 2 \<le> length buf" for off
    using that b [of off] b [of "off + 1"] or_bytes [of "buf ! off" "buf ! (off + 1)" 0]
      or_bytes [of "buf ! (off + 1)" "buf ! off" 0]
    by (simp_all add: segment_small)
  show "readUInt16LE buf x = readUIntLE buf x 2"
    unfolding readUInt16LE_def readUInt_value [OF zero_less_numeral]
    by (rule fixed [where f = "\<lambda>a b c d. js_or a (js_shl b 8)" and g = bytes_value]) (simp only: two_indices two)
  show "readUInt16BE buf x = readUIntBE buf x 2"
    unfolding readUInt16BE_def readUInt_value [OF zero_less_numeral]
    by (rule fixed [where f = "\<lambda>a b c d. js_or (js_shl a 8) b" and g = "\<lambda>s. bytes_value (rev s)"])
      (simp only: two_indices two)
  have four: "js_or (js_or (buf ! off) (js_shl (buf ! (off + 1)) 8)) (js_shl (buf ! (off + 2)) 16)
      + 16777216 * buf ! (off + 3) = bytes_value (segment buf off 4)"
    "16777216 * buf ! off + js_or (js_or (js_shl (buf ! (off + 1)) 16) (js_shl (buf ! (off + 2)) 8))
      (buf ! (off + 3)) = bytes_value (rev (segment buf off 4))"
    if "off + 4 \<le> length buf" for off
    using that b [of off] b [of "off + 1"] b [of "off + 2"] b [of "off + 3"]
      or_bytes [of "buf ! off" "buf ! (off + 1)" "buf ! (off + 2)"]
      or_bytes [of "buf ! (off + 3)" "buf ! (off + 2)" "buf ! (off + 1)"]
    by (simp_all add: segment_small)
  show "readUInt32LE buf x = readUIntLE buf x 4"
    unfolding readUInt32LE_def readUInt_value [OF zero_less_numeral]
    by (rule fixed [where f = "\<lambda>a b c d. js_or (js_or a (js_shl b 8)) (js_shl c 16) + 16777216 * d"
          and g = bytes_value]) (simp only: four_indices four)
  show "readUInt32BE buf x = readUIntBE buf x 4"
    unfolding readUInt32BE_def readUInt_value [OF zero_less_numeral]
    by (rule fixed [where f = "\<lambda>a b c d. 16777216 * a + js_or (js_or (js_shl b 16) (js_shl c 8)) d"
          and g = "\<lambda>s. bytes_value (rev s)"]) (simp only: four_indices four)
qed

lemma readInt_value:
  fixes x :: js_number
  assumes "0 < n"
  defines "e \<equiv> to_int32_number x"
  shows "readIntLE buf x n =
      (if 0 \<le> e \<and> e + int n \<le> int (length buf)
       then Inr (signed_value n (bytes_value (segment buf (nat e) n))) else Inl JsRangeError)"
    and "readIntBE buf x n =
      (if 0 \<le> e \<and> e + int n \<le> int (length buf)
       then Inr (signed_value n (bytes_value (rev (segment buf (nat e) n)))) else Inl JsRangeError)"
  unfolding e_def by (simp_all add: readInt_signed readUInt_value assms(1))

lemma sign_extend_16:
  assumes "0 \<le> n" "n < 65536"
  shows "(if js_and 32768 n \<noteq> 0 then js_or 4294901760 n else n) = signed_value 2 n"
proof -
  have "to_int32 4294901760 = - 1 * 2 ^ 16" by (simp add: to_int32_wrap)
  from or_negative(2) [OF assms(1) _ _ this] assms sign_bit(2) [OF assms] show ?thesis
    by (simp add: signed_value_def)
qed

lemma sign_in_top_byte:
  assumes "0 \<le> a" "a < 256" "0 \<le> x" "x < 256" "0 \<le> y" "y < 256" "0 \<le> z" "z < 256"
  shows "js_or (a + 256 * x + 65536 * y) (js_shl z 24) = signed_value 4 (a + 256 * x + 65536 * y + 16777216 * z)"
    and "js_or (js_shl z 24) (a + 256 * x + 65536 * y) = signed_value 4 (a + 256 * x + 65536 * y + 16777216 * z)"
proof -
  let ?z = "if 128 \<le> z then z - 256 else z"
  have "to_int32 (z * 16777216) = ?z * 16777216"
    using assms to_int32_wrap [of "z * 16777216"] to_int32_small [of "z * 16777216"] by auto
  then have "to_int32 (js_shl z 24) = ?z * 2 ^ 24"
    using assms to_int32_small [of z] by (simp only: js_shl_def push_bit_eq_mult to_int32_idem) simp
  note or_negative [of "a + 256 * x + 65536 * y" 24, OF _ _ _ this]
  with assms have "js_or (a + 256 * x + 65536 * y) (js_shl z 24) = ?z * 2 ^ 24 + (a + 256 * x + 65536 * y)"
    "js_or (js_shl z 24) (a + 256 * x + 65536 * y) = ?z * 2 ^ 24 + (a + 256 * x + 65536 * y)"
    by (simp_all del: if_split)
  then show "js_or (a + 256 * x + 65536 * y) (js_shl z 24) = signed_value 4 (a + 256 * x + 65536 * y + 16777216 * z)"
    "js_or (js_shl z 24) (a + 256 * x + 65536 * y) = signed_value 4 (a + 256 * x + 65536 * y + 16777216 * z)"
    using assms by (auto simp: signed_value_def)
qed

lemma signed_32:
  assumes "0 \<le> a" "a < 256" "0 \<le> x" "x < 256" "0 \<le> y" "y < 256" "0 \<le> z" "z < 256"
  shows "js_or (js_or (js_or a (js_shl x 8)) (js_shl y 16)) (js_shl z 24) = signed_value 4 (bytes_value [a, x, y, z])"
    and "js_or (js_or (js_or (js_shl z 24) (js_shl y 16)) (js_shl x 8)) a = signed_value 4 (bytes_value [a, x, y, z])"
proof -
  have value4: "bytes_value [a, x, y, z] = a + 256 * x + 65536 * y + 16777216 * z" by simp
  have assoc: "js_or (js_or (js_or p q) r) t = js_or p (js_or (js_or q r) t)" for p q r t
    by (simp add: js_or_def to_int32_or or.assoc)
  show "js_or (js_or (js_or a (js_shl x 8)) (js_shl y 16)) (js_shl z 24) = signed_value 4 (bytes_value [a, x, y, z])"
    unfolding value4 or_bytes(3) [OF assms(1-6)] by (rule sign_in_top_byte(1) [OF assms])
  show "js_or (js_or (js_or (js_shl z 24) (js_shl y 16)) (js_shl x 8)) a = signed_value 4 (bytes_value [a, x, y, z])"
    unfolding value4 assoc or_bytes(4) [OF assms(1-6)] by (rule sign_in_top_byte(2) [OF assms])
qed

lemma fixed_signed_reads:
  assumes "js_bytes buf" "int32_offset x" "length buf \<le> 2147483647"
  shows "readInt8 buf x = readIntLE buf x 1"
    "readInt16LE buf x = readIntLE buf x 2" "readInt16BE buf x = readIntBE buf x 2"
    "readInt32LE buf x = readIntLE buf x 4" "readInt32BE buf x = readIntBE buf x 4"
proof -
  note b = byte_at [OF assms(1)]
  note fixed = fixed_read [OF assms(2,3)]
  have one: "(if js_and 128 c \<noteq> 0 then - 1 * (255 - c + 1) else c) = signed_value 1 c" if "0 \<le> c" "c < 256" for c
    using that sign_bit(1) [of c] by (simp add: signed_value_def)
  show "readInt8 buf x = readIntLE buf x 1"
    unfolding readInt8_def readInt_value [OF zero_less_one]
    by (rule fixed [where f = "\<lambda>a b c d. if js_and 128 a \<noteq> 0 then - 1 * (255 - a + 1) else a"
          and g = "\<lambda>s. signed_value 1 (bytes_value s)"])
      (simp only: indices zero_less_one one b segment_small, simp add: one b)
  have or16: "js_or (buf ! off) (js_shl (buf ! (off + 1)) 8) = bytes_value (segment buf off 2)"
    "js_or (buf ! (off + 1)) (js_shl (buf ! off) 8) = bytes_value (rev (segment buf off 2))"
    "0 \<le> bytes_value (segment buf off 2)" "bytes_value (segment buf off 2) < 65536"
    "0 \<le> bytes_value (rev (segment buf off 2))" "bytes_value (rev (segment buf off 2)) < 65536"
    if "off + 2 \<le> length buf" for off
    using that b [of off] b [of "off + 1"] or_bytes(1) [of "buf ! off" "buf ! (off + 1)" 0]
      or_bytes(1) [of "buf ! (off + 1)" "buf ! off" 0]
    by (simp_all add: segment_small)
  have in_let: "(\<lambda>_::unit. let n = m in Inr (h n)) = (\<lambda>_. Inr (h m))" for m :: int and h :: "int \<Rightarrow> int"
    by simp
  show "readInt16LE buf x = readIntLE buf x 2"
    unfolding readInt16LE_def readInt_value [OF zero_less_numeral] in_let
    by (rule fixed [where f = "\<lambda>a b c d. if js_and 32768 (js_or a (js_shl b 8)) \<noteq> 0
            then js_or 4294901760 (js_or a (js_shl b 8)) else js_or a (js_shl b 8)"
          and g = "\<lambda>s. signed_value 2 (bytes_value s)"])
      (simp only: two_indices or16 sign_extend_16)
  show "readInt16BE buf x = readIntBE buf x 2"
    unfolding readInt16BE_def readInt_value [OF zero_less_numeral] in_let
    by (rule fixed [where f = "\<lambda>a b c d. if js_and 32768 (js_or b (js_shl a 8)) \<noteq> 0
            then js_or 4294901760 (js_or b (js_shl a 8)) else js_or b (js_shl a 8)"
          and g = "\<lambda>s. signed_value 2 (bytes_value (rev s))"])
      (simp only: two_indices or16 sign_extend_16)
  have or32: "js_or (js_or (js_or (buf ! off) (js_shl (buf ! (off + 1)) 8)) (js_shl (buf ! (off + 2)) 16))
      (js_shl (buf ! (off + 3)) 24) = signed_value 4 (bytes_value (segment buf off 4))"
    "js_or (js_or (js_or (js_shl (buf ! off) 24) (js_shl (buf ! (off + 1)) 16))
      (js_shl (buf ! (off + 2)) 8)) (buf ! (off + 3)) = signed_value 4 (bytes_value (rev (segment buf off 4)))"
    if "off + 4 \<le> length buf" for off
    using that b [of off] b [of "off + 1"] b [of "off + 2"] b [of "off + 3"]
      signed_32(1) [of "buf ! off" "buf ! (off + 1)" "buf ! (off + 2)" "buf ! (off + 3)"]
      signed_32(2) [of "buf ! (off + 3)" "buf ! (off + 2)" "buf ! (off + 1)" "buf ! off"]
    by (simp_all only: segment_small rev.simps append.simps)
  show "readInt32LE buf x = readIntLE buf x 4"
    unfolding readInt32LE_def readInt_value [OF zero_less_numeral]
    by (rule fixed [where f = "\<lambda>a b c d. js_or (js_or (js_or a (js_shl b 8)) (js_shl c 16)) (js_shl d 24)"
          and g = "\<lambda>s. signed_value 4 (bytes_value s)"]) (simp only: four_indices or32)
  show "readInt32BE buf x = readIntBE buf x 4"
    unfolding readInt32BE_def readInt_value [OF zero_less_numeral]
    by (rule fixed [where f = "\<lambda>a b c d. js_or (js_or (js_or (js_shl a 24) (js_shl b 16)) (js_shl c 8)) d"
          and g = "\<lambda>s. signed_value 4 (bytes_value (rev s))"]) (simp only: four_indices or32)
qed

lemma put_ushr:
  "put_at buf i (js_ushr v 8) = put_at buf i (byte_of v 1)"
  "put_at buf i (js_ushr v 16) = put_at buf i (byte_of v 2)"
  "put_at buf i (js_ushr v 24) = put_at buf i (byte_of v 3)"
proof -
  have "put_at buf i (js_ushr v k) = put_at buf i (v div 2 ^ k)" if "k + 8 \<le> 32" for k
    using put_at_mod [of buf i "js_ushr v k"] put_at_mod [of buf i "v div 2 ^ k"] js_ushr_mod [OF that, of v] by simp
  from this [of 8] this [of 16] this [of 24]
  show "put_at buf i (js_ushr v 8) = put_at buf i (byte_of v 1)"
    "put_at buf i (js_ushr v 16) = put_at buf i (byte_of v 2)"
    "put_at buf i (js_ushr v 24) = put_at buf i (byte_of v 3)"
    by (simp_all add: put_byte)
qed

text \<open>A few bytes put one by one.\<close>

lemma puts_small:
  "t + 1 \<le> int (length buf) \<Longrightarrow> puts buf t v [(0, 0)] = clipped buf t (int_bytes 1 v)"
  "t + 2 \<le> int (length buf) \<Longrightarrow> puts buf t v [(0, 0), (1, 1)] = clipped buf t (int_bytes 2 v)"
  "t + 2 \<le> int (length buf) \<Longrightarrow> puts buf t v [(0, 1), (1, 0)] = clipped buf t (rev (int_bytes 2 v))"
  "t + 4 \<le> int (length buf) \<Longrightarrow>
     puts buf t v [(3, 3), (2, 2), (1, 1), (0, 0)] = clipped buf t (int_bytes 4 v)"
  "t + 4 \<le> int (length buf) \<Longrightarrow>
     puts buf t v [(0, 0), (1, 1), (2, 2), (3, 3)] = clipped buf t (int_bytes 4 v)"
  "t + 4 \<le> int (length buf) \<Longrightarrow>
     puts buf t v [(0, 3), (1, 2), (2, 1), (3, 0)] = clipped buf t (rev (int_bytes 4 v))"
proof -
  note small = int_bytes_def rev_nth less_Suc_eq numeral_eq_Suc
  show "t + 1 \<le> int (length buf) \<Longrightarrow> puts buf t v [(0, 0)] = clipped buf t (int_bytes 1 v)"
    by (rule puts_clipped [where n = 1 and f = "\<lambda>k. k"]) (auto simp: small)
  show "t + 2 \<le> int (length buf) \<Longrightarrow> puts buf t v [(0, 0), (1, 1)] = clipped buf t (int_bytes 2 v)"
    by (rule puts_clipped [where n = 2 and f = "\<lambda>k. k"]) (auto simp: small)
  show "t + 2 \<le> int (length buf) \<Longrightarrow> puts buf t v [(0, 1), (1, 0)] = clipped buf t (rev (int_bytes 2 v))"
    by (rule puts_clipped [where n = 2 and f = "\<lambda>k. 1 - k"]) (auto simp: small)
  show "t + 4 \<le> int (length buf) \<Longrightarrow>
     puts buf t v [(3, 3), (2, 2), (1, 1), (0, 0)] = clipped buf t (int_bytes 4 v)"
    by (rule puts_clipped [where n = 4 and f = "\<lambda>k. k"]) (auto simp: small)
  show "t + 4 \<le> int (length buf) \<Longrightarrow>
     puts buf t v [(0, 0), (1, 1), (2, 2), (3, 3)] = clipped buf t (int_bytes 4 v)"
    by (rule puts_clipped [where n = 4 and f = "\<lambda>k. k"]) (auto simp: small)
  show "t + 4 \<le> int (length buf) \<Longrightarrow>
     puts buf t v [(0, 3), (1, 2), (2, 1), (3, 0)] = clipped buf t (rev (int_bytes 4 v))"
    by (rule puts_clipped [where n = 4 and f = "\<lambda>k. 3 - k"]) (auto simp: small)
qed

lemma fixed_byte_writes:
  "writeUInt8 buf v x = writeUIntLE buf v x 1" "writeInt8 buf v x = writeIntLE buf v x 1"
proof -
  have "clipped buf t (int_bytes 1 (number_left t v)) = clipped buf t (int_bytes 1 v)" for t
    by (cases "t < 0") (simp_all add: clipped_def number_left_def)
  then show "writeUInt8 buf v x = writeUIntLE buf v x 1" "writeInt8 buf v x = writeIntLE buf v x 1"
    using puts_small(1) [of "to_int32_number x" buf v, symmetric]
    by (auto simp: writeUInt8_def writeInt8_def check_int_def writeUInt_bytes writeInt_bytes put_first
        byte_of_wrap Let_def)
qed

lemma fixed_writes_16:
  "writeUInt16LE buf v x = writeUIntLE buf v x 2" "writeUInt16BE buf v x = writeUIntBE buf v x 2"
  "writeInt16BE buf v x = writeIntBE buf v x 2"
  "0 \<le> v \<or> 0 \<le> to_int32_number x \<Longrightarrow> writeInt16LE buf v x = writeIntLE buf v x 2"
  using puts_small(2,3) [of "to_int32_number x" buf v, symmetric]
  by (auto simp: writeUInt16LE_def writeUInt16BE_def writeInt16LE_def writeInt16BE_def check_int_def
      writeUInt_bytes writeInt_bytes put_first put_ushr number_left_def Let_def)

lemma fixed_writes_32:
  "writeUInt32LE buf v x = writeUIntLE buf v x 4" "writeUInt32BE buf v x = writeUIntBE buf v x 4"
  "writeInt32BE buf v x = writeIntBE buf v x 4"
  "0 \<le> v \<or> 0 \<le> to_int32_number x \<Longrightarrow> writeInt32LE buf v x = writeIntLE buf v x 4"
  using puts_small(4,5,6) [of "to_int32_number x" buf v, symmetric]
  by (auto simp: writeUInt32LE_def writeUInt32BE_def writeInt32LE_def writeInt32BE_def check_int_def
      writeUInt_bytes writeInt_bytes put_first put_ushr number_left_def Let_def byte_of_wrap)

section \<open>Reading back\<close>

lemma segment_clipped:
  assumes "0 \<le> t" "t + int (length bs) \<le> int (length buf)"
  shows "segment (clipped buf t bs) (nat t) (length bs) = bs"
  using assms segment_overwrite [of "nat t" bs buf] by (auto simp: clipped_nonneg)

lemma unsigned_read_back:
  assumes "0 < n"
  shows "writeUIntLE buf v x n = Inr (b, e) \<Longrightarrow>
      readUIntLE b x n = (if 0 \<le> to_int32_number x then Inr v else Inl JsRangeError)"
    and "writeUIntBE buf v x n = Inr (b, e) \<Longrightarrow>
      readUIntBE b x n = (if 0 \<le> to_int32_number x then Inr v else Inl JsRangeError)"
  using assms segment_clipped [of "to_int32_number x" "int_bytes n v" buf]
    segment_clipped [of "to_int32_number x" "rev (int_bytes n v)" buf]
  by (auto simp: writeUInt_bytes readUInt_value bytes_value_int_bytes power_256 length_clipped split: if_splits)

lemma signed_read_back:
  assumes "0 < n"
  shows "writeIntLE buf v x n = Inr (b, e) \<Longrightarrow>
      readIntLE b x n = (if 0 \<le> to_int32_number x then Inr v else Inl JsRangeError)"
    and "writeIntBE buf v x n = Inr (b, e) \<Longrightarrow>
      readIntBE b x n = (if 0 \<le> to_int32_number x then Inr v else Inl JsRangeError)"
  using assms segment_clipped [of "to_int32_number x" "int_bytes n v" buf]
    segment_clipped [of "to_int32_number x" "rev (int_bytes n v)" buf] signed_value_mod [of n v]
  by (auto simp: writeInt_bytes readInt_value bytes_value_int_bytes length_clipped number_left_def split: if_splits)

text \<open>
  A write before the buffer is accepted, and a negative number then leaves the bytes of the number below:
  at the offset -1, -256 leaves 254 by \<open>writeIntLE\<close> and 255 by \<open>writeInt16LE\<close>.
\<close>

lemma negative_offsets_accepted:
  "writeUIntLE [7, 7, 7, 7, 7] 1 (Finite (- 3)) 2 = Inr ([7, 7, 7, 7, 7], - 1)"
  "readUIntLE [7, 7, 7, 7, 7] (Finite (- 3)) 2 = Inl JsRangeError"
  "writeIntLE [7, 7] (- 256) (Finite (- 1)) 2 = Inr ([254, 7], 1)"
  "writeInt16LE [7, 7] (- 256) (Finite (- 1)) = Inr ([255, 7], 1)"
  by code_simp+

end
