(* ===== verification/Swagger_Versions.thy ===== *)
theory Swagger_Versions
  imports Js_Text
begin

text \<open>
  bowser (swagger-ui-bundle.js, lines 100 to 105): the comparison of version strings and the checks
  against minimal versions that use it.  Recognising the browser in a user agent, a cascade of
  regular expressions, is not modelled: what it finds, the flags it sets and the version, is an
  argument.
\<close>

section \<open>compareVersions\<close>

definition version_precision :: "js_string \<Rightarrow> nat" where
  "version_precision e = length (split_on 46 e)"

text \<open>
  \<open>new Array(20 - n).join("0") + chunk\<close>: an array of \<open>k\<close> empty entries joins to \<open>k - 1\<close> zeros, and a
  negative length raises.
\<close>

definition pad_chunk :: "js_string \<Rightarrow> js_string js_res" where
  "pad_chunk e =
     (if 20 < length e then Inl JsRangeError else Inr (replicate (20 - length e - 1) 48 @ e))"

definition version_chunks :: "nat \<Rightarrow> js_string \<Rightarrow> js_string list js_res" where
  "version_chunks r e =
     (let i = r - version_precision e;
          e = e @ concat (replicate i (js ''.0''))
      in bindR (mapR pad_chunk (split_on 46 e)) (\<lambda>cs. Inr (rev cs)))"

text \<open>The loop \<open>while (--r >= 0)\<close>; falling out of it is \<open>undefined\<close>.\<close>

fun compare_chunks :: "js_string list \<Rightarrow> js_string list \<Rightarrow> nat \<Rightarrow> int option" where
  "compare_chunks a b 0 = None"
| "compare_chunks a b (Suc r) =
     (if js_less (b ! r) (a ! r) then Some 1
      else if a ! r \<noteq> b ! r then Some (-1)
      else if r = 0 then Some 0
      else compare_chunks a b r)"

definition compare_versions :: "js_string \<Rightarrow> js_string \<Rightarrow> int option js_res" where
  "compare_versions v w =
     (let r = max (version_precision v) (version_precision w)
      in bindR (version_chunks r v) (\<lambda>a. bindR (version_chunks r w) (\<lambda>b.
           Inr (compare_chunks a b r))))"

section \<open>isUnsupportedBrowser and check\<close>

text \<open>
  \<open>has\<close> tells which flags the detected browser has, \<open>version\<close> is its version as text; the minimal versions
  are the own properties of the map in order.
\<close>

fun is_unsupported_browser :: "(js_string \<Rightarrow> bool) \<Rightarrow> js_string \<Rightarrow> (js_string \<times> js_value) list \<Rightarrow> bool \<Rightarrow> bool js_res" where
  "is_unsupported_browser has version [] strict_mode = Inr strict_mode"
| "is_unsupported_browser has version ((u, v) # minima) strict_mode =
     (if has u then
        (case v of
           JsString m \<Rightarrow>
             bindR (compare_versions version m) (\<lambda>c. Inr (case c of None \<Rightarrow> False | Some n \<Rightarrow> n < 0))
         | _ \<Rightarrow> Inl (JsError ''Browser version in the minVersion map should be a string''))
      else is_unsupported_browser has version minima strict_mode)"

definition check_browser :: "(js_string \<Rightarrow> bool) \<Rightarrow> js_string \<Rightarrow> (js_string \<times> js_value) list \<Rightarrow> bool \<Rightarrow> bool js_res" where
  "check_browser has version minima strict_mode =
     bindR (is_unsupported_browser has version minima strict_mode) (\<lambda>b. Inr (\<not> b))"

section \<open>The specification\<close>

text \<open>Versions as lists of numbers, where missing components are 0.\<close>

definition version_numbers :: "js_string \<Rightarrow> int list" where
  "version_numbers v = map decimal_value (split_on 46 v)"

fun number_order :: "int list \<Rightarrow> int list \<Rightarrow> int" where
  "number_order [] [] = 0"
| "number_order (x # xs) [] = (if x \<noteq> 0 then sgn x else number_order xs [])"
| "number_order [] (y # ys) = (if y \<noteq> 0 then - sgn y else number_order [] ys)"
| "number_order (x # xs) (y # ys) = (if x \<noteq> y then sgn (x - y) else number_order xs ys)"

text \<open>Versions the comparison is meant for: components of at most 19 digits.\<close>

definition plain_version :: "js_string \<Rightarrow> bool" where
  "plain_version v \<longleftrightarrow> (\<forall>c \<in> set (split_on 46 v). digits c \<and> length c \<le> 19)"

section \<open>The comparison is numeric\<close>

lemma mapR_total: "(\<And>x. x \<in> set xs \<Longrightarrow> f x = Inr (g x)) \<Longrightarrow> mapR f xs = Inr (map g xs)"
  by (induction xs) auto

lemma split_on_zeros:
  "split_on 46 (e @ concat (replicate n (js ''.0''))) = split_on 46 e @ replicate n [48]"
proof (induction n)
  case (Suc n)
  have "concat (replicate (Suc n) (js ''.0'')) = concat (replicate n (js ''.0'')) @ 46 # [48]"
    by (simp flip: replicate_append_same)
  then show ?case
    using split_on_snoc [of 46 "[48]" "e @ concat (replicate n (js ''.0''))"] Suc
    by (simp add: replicate_append_same)
qed simp

definition padded :: "js_string \<Rightarrow> js_string" where
  "padded e = replicate (19 - length e) 48 @ e"

lemma padded_facts:
  assumes "digits e" "length e \<le> 19"
  shows "pad_chunk e = Inr (padded e)" "length (padded e) = 19" "digits (padded e)"
    "decimal_value (padded e) = decimal_value e"
  using assms by (auto simp: pad_chunk_def padded_def digits_def unit_defs list_all_iff)

lemma version_chunks_plain:
  assumes "plain_version v"
  shows "version_chunks r v =
    Inr (rev (map padded (split_on 46 v @ replicate (r - version_precision v) [48])))"
proof -
  have "mapR pad_chunk (split_on 46 v @ replicate (r - version_precision v) [48]) =
      Inr (map padded (split_on 46 v @ replicate (r - version_precision v) [48]))"
    using assms by (intro mapR_total padded_facts(1)) (auto simp: plain_version_def digits_def unit_defs)
  then show ?thesis unfolding version_chunks_def Let_def split_on_zeros by simp
qed

text \<open>The loop compares the lists from their first component on.\<close>

lemma compare_chunks_rev:
  assumes "length a = n" "length b = n" "r \<le> n" "r \<noteq> 0"
    and "\<And>e. e \<in> set a \<union> set b \<Longrightarrow> digits e \<and> length e = 19"
  shows "compare_chunks (rev a) (rev b) r =
    Some (number_order (map decimal_value (drop (n - r) a)) (map decimal_value (drop (n - r) b)))"
  using assms(3,4)
proof (induction r)
  case (Suc r)
  let ?i = "n - Suc r"
  have i: "?i < length a" "?i < length b" "rev a ! r = a ! ?i" "rev b ! r = b ! ?i" "Suc ?i = n - r"
    using Suc.prems assms(1,2) by (simp_all add: rev_nth)
  have d: "drop ?i a = a ! ?i # drop (n - r) a" "drop ?i b = b ! ?i # drop (n - r) b"
    using i Cons_nth_drop_Suc by metis+
  have "a ! ?i \<in> set a \<union> set b" "b ! ?i \<in> set a \<union> set b" using i(1,2) nth_mem by blast+
  then have ord: "js_less (b ! ?i) (a ! ?i) \<longleftrightarrow> decimal_value (b ! ?i) < decimal_value (a ! ?i)"
      "a ! ?i = b ! ?i \<longleftrightarrow> decimal_value (a ! ?i) = decimal_value (b ! ?i)"
    using assms(5) numeral_order by simp_all
  have "compare_chunks (rev a) (rev b) r =
      Some (number_order (map decimal_value (drop (n - r) a)) (map decimal_value (drop (n - r) b)))"
    if "r \<noteq> 0"
    using Suc that by simp
  moreover have "drop (n - r) a = []" "drop (n - r) b = []" if "r = 0"
    using that assms(1,2) by simp_all
  ultimately show ?case
    unfolding d list.map compare_chunks.simps i(3,4) ord by (auto simp: sgn_if)
qed simp

lemma number_order_right: "number_order xs (replicate n 0) = number_order xs []"
proof (induction xs arbitrary: n)
  case Nil
  show ?case by (induction n) simp_all
next
  case (Cons x xs)
  then show ?case by (cases n) simp_all
qed

lemma number_order_left: "number_order (replicate m 0) ys = number_order [] ys"
proof (induction ys arbitrary: m)
  case Nil
  show ?case by (induction m) simp_all
next
  case (Cons y ys)
  then show ?case by (cases m) (simp_all add: sgn_if)
qed

lemma number_order_zeros:
  "number_order (xs @ replicate m 0) (ys @ replicate n 0) = number_order xs ys"
proof (induction xs ys arbitrary: m n rule: number_order.induct)
  case 1
  then show ?case by (simp add: number_order_right number_order_left)
next
  case (2 x xs)
  have "number_order (xs @ replicate m 0) (replicate k 0) = number_order xs []" if "x = 0" for k
    using 2 [of m k] that by simp
  then show ?case by (cases n) (auto simp: number_order_right)
next
  case (3 y ys)
  have "number_order (replicate k 0) (ys @ replicate n 0) = number_order [] ys" if "y = 0" for k
    using 3 [of k n] that by simp
  then show ?case by (cases m) (auto simp: number_order_left sgn_if)
qed simp

lemma compare_versions_plain:
  assumes "plain_version v" "plain_version w"
  shows "compare_versions v w = Inr (Some (number_order (version_numbers v) (version_numbers w)))"
proof -
  let ?r = "max (version_precision v) (version_precision w)"
  define a where "a = map padded (split_on 46 v @ replicate (?r - version_precision v) [48])"
  define b where "b = map padded (split_on 46 w @ replicate (?r - version_precision w) [48])"
  have nz: "?r \<noteq> 0" by (simp add: version_precision_def max_def)
  have len: "length a = ?r" "length b = ?r"
    by (auto simp: a_def b_def version_precision_def)
  have num: "digits e \<and> length e \<le> 19" if "e \<in> set (split_on 46 v) \<union> set (split_on 46 w) \<union> {[48]}" for e
    using that assms by (auto simp: plain_version_def digits_def unit_defs)
  have "compare_versions v w = Inr (compare_chunks (rev a) (rev b) ?r)"
    by (simp add: compare_versions_def Let_def version_chunks_plain [OF assms(1)]
        version_chunks_plain [OF assms(2)] a_def b_def)
  also have "compare_chunks (rev a) (rev b) ?r =
      Some (number_order (map decimal_value a) (map decimal_value b))"
    using compare_chunks_rev [OF len order.refl nz] num padded_facts(2,3)
    by (auto simp: a_def b_def dest!: in_set_replicate [THEN iffD1])
  also have "map decimal_value a = version_numbers v @ replicate (?r - version_precision v) 0"
    using num padded_facts(4) by (simp add: a_def version_numbers_def)
  also have "map decimal_value b = version_numbers w @ replicate (?r - version_precision w) 0"
    using num padded_facts(4) by (simp add: b_def version_numbers_def)
  finally show ?thesis by (simp add: number_order_zeros)
qed

end
