(* ===== verification/Codec_Properties.thy ===== *)
theory Codec_Properties
  imports Swagger_Buffer Swagger_Buffer_Numbers Swagger_Versions
begin

text \<open>
  What the modules that encode data promise: base64 implements RFC 4648 and can be undone, a buffer
  holds texts and integers without loss, the fixed widths agree with the general reads and writes,
  and versions compare as numbers.
\<close>

section \<open>Base64\<close>

text \<open>
  C7: The encoder of base64-js, which works on chunks of 16383 bytes, on triples within them and on one
  or two bytes left over, implements RFC 4648: six bits at a time, the last group filled with
  zeros, padded to a multiple of four characters.
\<close>

theorem base64_encodes_rfc:
  assumes "js_bytes e"
  shows "from_byte_array e = base64_spec e"
  using from_byte_array_all [OF assms] encode_all_spec [OF assms] by simp

lemma base64_encodes_rfc_witness:
  "base64_spec [102, 111, 111, 98] = js ''Zm9vYg==''"
proof -
  have 1: "js_bytes [102, 111, 111, 98]" by (simp add: js_bytes_def)
  have 2: "from_byte_array [102, 111, 111, 98] = js ''Zm9vYg==''" by code_simp
  show ?thesis using base64_encodes_rfc [OF 1] 2 by simp
qed

text \<open>
  Decoding what was encoded gives the bytes back, and the length computed beforehand is the number
  of bytes.
\<close>

theorem base64_round_trip:
  assumes "js_bytes e"
  shows "to_byte_array (from_byte_array e) = Inr e
    \<and> byte_length (from_byte_array e) = Inr (int (length e))"
  using to_from_byte_array [OF assms] byte_length_agrees by fastforce

lemma base64_round_trip_witness:
  "to_byte_array (from_byte_array [0, 255, 16, 7]) = Inr [0, 255, 16, 7]"
  using base64_round_trip [of "[0, 255, 16, 7]"] by (simp add: js_bytes_def)

text \<open>
  Decoding never fails on a text whose length is a multiple of four, whatever characters it holds (a
  character outside the alphabet counts as zero), and gives as many bytes as \<open>byteLength\<close> says; any
  other length is refused.
\<close>

theorem base64_decoding_outcome:
  "case to_byte_array s of
     Inl x \<Rightarrow> length s mod 4 \<noteq> 0 \<and> x = JsError ''Invalid string. Length must be a multiple of 4''
   | Inr bs \<Rightarrow> length s mod 4 = 0 \<and> js_bytes bs \<and> byte_length s = Inr (int (length bs))"
  using to_byte_array_cases [of s] byte_length_agrees [of s] by (auto split: if_splits)

section \<open>Buffers of text\<close>

text \<open>
  C10: \<open>utf8ToBytes\<close> writes the UTF-8 of the code points of the string, where a surrogate without partner
  is read as \<open>U+FFFD\<close>; a lead at the end of the string that follows another lead is lost.
\<close>

theorem utf8_writes_code_points:
  assumes "js_units s"
  shows "utf8_to_bytes s None =
    all_utf8 (text_code_points (if ends_in_leads s then butlast s else s))"
  using utf8_to_bytes_seen [OF assms] by (simp add: seen_part_def)

lemma utf8_writes_code_points_witness:
  "utf8_to_bytes [0x41, 0xD83D, 0xDE00, 0xDE00, 0xD83D, 0xD83D] None =
     all_utf8 [0x41, 0x1F600, 0xFFFD, 0xFFFD]"
proof -
  let ?s = "[0x41, 0xD83D, 0xDE00, 0xDE00, 0xD83D, 0xD83D]"
  have 1: "js_units ?s" by code_simp
  have 2: "text_code_points (if ends_in_leads ?s then butlast ?s else ?s) =
    [0x41, 0x1F600, 0xFFFD, 0xFFFD]" by code_simp
  show ?thesis using utf8_writes_code_points [OF 1] unfolding 2 .
qed

text \<open>
  C25: A text put into a buffer under an encoding that can hold it is what \<open>toString\<close> gives back: well
  paired text for UTF-8, code units below 128 for ASCII and below 256 for Latin-1, any text for
  UTF-16.  The name of the encoding may have any case, and no name means UTF-8.
\<close>

theorem buffer_keeps_text:
  assumes "resolved name = Some enc" and "fits enc s"
  shows "\<exists>b. buffer_from s name = Inr b \<and> js_bytes b \<and> buffer_to_string b name = Inr s"
  using text_round_trip [OF assms] .

lemma buffer_keeps_text_witness:
  "\<exists>b. buffer_from [0x20AC, 0xD83D, 0xDE00] (js ''UTF-8'') = Inr b
     \<and> buffer_to_string b (js ''UTF-8'') = Inr [0x20AC, 0xD83D, 0xDE00]"
proof -
  have 1: "resolved (js ''UTF-8'') = Some Utf8" by code_simp
  have 2: "fits Utf8 [0x20AC, 0xD83D, 0xDE00]" by code_simp
  show ?thesis using buffer_keeps_text [OF 1 2] by blast
qed

text \<open>
  Bytes written out in hexadecimal or base64 and read again under the same encoding are the same
  bytes.
\<close>

theorem buffer_keeps_bytes:
  assumes "resolved name = Some enc" "enc \<in> {Hex, Base64}" "js_bytes b"
  shows "\<exists>s. buffer_to_string b name = Inr s \<and> buffer_from s name = Inr b"
  using bytes_round_trip [OF assms] .

lemma buffer_keeps_bytes_witness:
  "\<exists>s. buffer_to_string [0, 9, 171, 255] (js ''hex'') = Inr s \<and> buffer_from s (js ''hex'') = Inr [0, 9, 171, 255]"
proof -
  have 1: "resolved (js ''hex'') = Some Hex" by code_simp
  show ?thesis using buffer_keeps_bytes [OF 1] by (simp add: js_bytes_def)
qed

text \<open>
  C23: Text without unpaired surrogates that goes through a buffer into base64 comes back: decoding the base64 and
  then the UTF-8 gives the text, and no other such text has the same base64.  (An unpaired surrogate is encoded
  like U+FFFD.)
\<close>

theorem text_through_base64:
  assumes "fits Utf8 s"
    and "bindR (buffer_from s (js ''utf8'')) (\<lambda>b. buffer_to_string b (js ''base64'')) = Inr t"
  shows "bindR (buffer_from t (js ''base64'')) (\<lambda>b. buffer_to_string b (js ''utf8'')) = Inr s
    \<and> (\<forall>s'. fits Utf8 s' \<and> bindR (buffer_from s' (js ''utf8'')) (\<lambda>b. buffer_to_string b (js ''base64'')) = Inr t
             \<longrightarrow> s' = s)"
  using base64_text.chained.dec_enc [OF assms] base64_text.chained.enc_eq [OF _ assms(1) _ assms(2)] by blast

lemma text_through_base64_witness:
  "bindR (buffer_from (js ''4oKs'') (js ''base64'')) (\<lambda>b. buffer_to_string b (js ''utf8'')) = Inr [0x20AC]"
proof -
  have 1: "fits Utf8 [0x20AC]" by code_simp
  have 2: "bindR (buffer_from [0x20AC] (js ''utf8'')) (\<lambda>b. buffer_to_string b (js ''base64'')) = Inr (js ''4oKs'')"
    by code_simp
  show ?thesis using text_through_base64 [OF 1 2] by blast
qed

section \<open>Buffers of integers\<close>

text \<open>
  C8: Writing an integer into \<open>n\<close> bytes, 1 to 6, at an offset, any number of which \<open>t\<close> is the 32-bit
  integer, succeeds exactly when the integer is in the range of \<open>n\<close> bytes, unsigned or signed, and the
  last byte is not behind the buffer's end; the result is the offset after the bytes.  Those of them that
  lie within the buffer then hold the two's complement in the order asked for, and every other byte is as
  before.  A negative \<open>t\<close> is not refused, although the bytes before the buffer are lost; and \<open>writeIntLE\<close> then
  writes the bytes of \<open>v - 1\<close> in place of a negative \<open>v\<close>.
\<close>

theorem buffer_integer_bytes:
  fixes x :: js_number
  assumes "0 < n" "n \<le> 6" and "t = to_int32_number x"
  shows "writeUIntLE buf v x n =
      (if 0 \<le> v \<and> v < 2 ^ (8 * n) \<and> t + int n \<le> int (length buf)
       then Inr (clipped buf t (int_bytes n v), t + int n) else Inl JsRangeError)
    \<and> writeUIntBE buf v x n =
      (if 0 \<le> v \<and> v < 2 ^ (8 * n) \<and> t + int n \<le> int (length buf)
       then Inr (clipped buf t (rev (int_bytes n v)), t + int n) else Inl JsRangeError)
    \<and> writeIntLE buf v x n =
      (if - (2 ^ (8 * n - 1)) \<le> v \<and> v < 2 ^ (8 * n - 1) \<and> t + int n \<le> int (length buf)
       then Inr (clipped buf t (int_bytes n (if t < 0 \<and> v < 0 then v - 1 else v)), t + int n)
       else Inl JsRangeError)
    \<and> writeIntBE buf v x n =
      (if - (2 ^ (8 * n - 1)) \<le> v \<and> v < 2 ^ (8 * n - 1) \<and> t + int n \<le> int (length buf)
       then Inr (clipped buf t (rev (int_bytes n v)), t + int n) else Inl JsRangeError)
    \<and> (0 \<le> t \<longrightarrow> clipped buf t bs = overwrite buf (nat t) bs)
    \<and> (t + int (length bs) \<le> int (length buf) \<longrightarrow> length (clipped buf t bs) = length buf
        \<and> (\<forall>i. clipped buf t bs ! i =
              (if t \<le> int i \<and> int i < t + int (length bs) then bs ! nat (int i - t) else buf ! i)))"
  using writeUInt_bytes [OF assms(1)] writeInt_bytes [OF assms(1)] nth_clipped length_clipped
    clipped_nonneg [of t buf bs]
  unfolding assms(3) number_left_def by blast

lemma buffer_integer_bytes_witness:
  "writeIntBE [9, 9, 9, 9] (-2) (Finite 1) 2 = Inr ([9, 255, 254, 9], 3)"
proof -
  have "clipped [9, 9, 9, 9] 1 (rev (int_bytes 2 (-2))) = [9, 255, 254, 9]"
    "1 = to_int32_number (Finite 1)" by code_simp+
  then show ?thesis using buffer_integer_bytes [where n = 2 and t = 1 and x = "Finite 1" and buf = "[9, 9, 9, 9]" and v = "-2"] by simp
qed

text \<open>
  C24: What was written is read back: with the same width, byte order, signedness and offset, the number
  that a write accepted is the number that the read yields, unless the offset is negative as a 32-bit
  integer; then the write was accepted but the read raises a RangeError.
\<close>

theorem buffer_integers_read_back:
  assumes "0 < n" "n \<le> 6"
    and "r = (if 0 \<le> to_int32_number x then Inr v else Inl JsRangeError)"
  shows "(writeUIntLE buf v x n = Inr (b, e) \<longrightarrow> readUIntLE b x n = r)
    \<and> (writeUIntBE buf v x n = Inr (b, e) \<longrightarrow> readUIntBE b x n = r)
    \<and> (writeIntLE buf v x n = Inr (b, e) \<longrightarrow> readIntLE b x n = r)
    \<and> (writeIntBE buf v x n = Inr (b, e) \<longrightarrow> readIntBE b x n = r)"
  unfolding assms(3) using unsigned_read_back [OF assms(1)] signed_read_back [OF assms(1)] by blast

lemma buffer_integers_read_back_witness:
  "readIntLE [7, 255, 253, 255] (Finite 1) 3 = Inr (-513)"
proof -
  have "writeIntLE [7, 0, 0, 0] (-513) (Finite 1) 3 = Inr ([7, 255, 253, 255], 4)"
    "to_int32_number (Finite 1) = 1" by code_simp+
  then show ?thesis using buffer_integers_read_back [where n = 3 and x = "Finite 1" and v = "-513" and buf = "[7, 0, 0, 0]"] by auto
qed



section \<open>Versions\<close>

text \<open>
  C28: Two versions whose components are decimal numbers of at most 19 digits are compared as lists of
  numbers, the first difference deciding and a missing component counting as 0; the result is -1, 0
  or 1.
\<close>

theorem versions_compare_as_numbers:
  assumes "plain_version v" "plain_version w"
  shows "compare_versions v w = Inr (Some (number_order (version_numbers v) (version_numbers w)))"
  using compare_versions_plain [OF assms] .

lemma versions_compare_as_numbers_witness:
  "compare_versions (js ''10.2'') (js ''9.11.1'') = Inr (Some 1)"
proof -
  have 1: "plain_version (js ''10.2'')" "plain_version (js ''9.11.1'')" by code_simp+
  have 2: "number_order (version_numbers (js ''10.2'')) (version_numbers (js ''9.11.1'')) = 1" by code_simp
  show ?thesis using versions_compare_as_numbers [OF 1] 2 by simp
qed

text \<open>
  Beyond 19 digits nothing is padded: components of 20 digits compare with shorter ones as texts, and
  longer ones raise.
\<close>

lemma long_components_misordered:
  "compare_versions (js ''9999999999999999999'') (js ''10000000000000000000'') = Inr (Some 1)"
  "compare_versions (js ''1'') (js ''100000000000000000000'') = Inl JsRangeError"
  by code_simp+

end
