(* ===== verification/Swagger_Buffer_Bytes.thy ===== *)
theory Swagger_Buffer_Bytes
  imports Swagger_Buffer Swagger_Buffer_Numbers Js_Text "HOL-Library.Sublist"
begin

text \<open>
  The methods of the buffer module that work on bytes (swagger-ui-bundle.js, line 12 with the
  helpers of line 6), where typed arrays exist: comparison, search, copying, filling, slices, swapping,
  concatenation, and the ranges of \<open>toString\<close> and \<open>write\<close>.  Offsets are integers, \<open>None\<close> is
  \<open>undefined\<close>; a flag tells whether the argument is the buffer itself.
\<close>

section \<open>Comparison\<close>

definition three_way :: "int \<Rightarrow> int \<Rightarrow> int" where
  "three_way n r = (if n < r then -1 else if r < n then 1 else 0)"

text \<open>The loop: the first two bytes that differ, or the numbers it started with.\<close>

fun first_difference :: "int list \<Rightarrow> int list \<Rightarrow> int \<times> int \<Rightarrow> int \<times> int" where
  "first_difference (a # e) (b # t) d = (if a \<noteq> b then (a, b) else first_difference e t d)"
| "first_difference _ _ d = d"

definition buffer_compare :: "bool \<Rightarrow> int list \<Rightarrow> int list \<Rightarrow> int" where
  "buffer_compare same e t =
     (if same then 0
      else let (n, r) = first_difference e t (int (length e), int (length t)) in three_way n r)"

definition buffer_equals :: "bool \<Rightarrow> int list \<Rightarrow> int list \<Rightarrow> bool" where
  "buffer_equals same this e \<longleftrightarrow> same \<or> buffer_compare same this e = 0"

definition or_else :: "'a \<Rightarrow> 'a option \<Rightarrow> 'a" where
  "or_else d x = (case x of None \<Rightarrow> d | Some y \<Rightarrow> y)"

definition compare_ranges ::
  "bool \<Rightarrow> int list \<Rightarrow> int list \<Rightarrow> int option \<Rightarrow> int option \<Rightarrow> int option \<Rightarrow> int option \<Rightarrow> int js_res" where
  "compare_ranges same this e t n r i =
     (let t = or_else 0 t; n = or_else (int (length e)) n;
          r = or_else 0 r; i = or_else (int (length this)) i
      in if t < 0 \<or> int (length e) < n \<or> r < 0 \<or> int (length this) < i then Inl JsRangeError
         else if i \<le> r \<and> n \<le> t then Inr 0
         else if i \<le> r then Inr (-1)
         else if n \<le> t then Inr 1
         else if same then Inr 0
         else let (a, s) = first_difference (segment this (nat r) (nat (i - r)))
                             (segment e (nat t) (nat (n - t))) (i - r, n - t)
              in Inr (three_way a s))"

section \<open>Slices and text in a range\<close>

text \<open>The bytes of a slice, which shares its memory with the buffer.\<close>

definition slice_bound :: "int \<Rightarrow> int \<Rightarrow> int" where
  "slice_bound n e = (if e < 0 then max 0 (e + n) else if e > n then n else e)"

definition buffer_slice :: "int list \<Rightarrow> int \<Rightarrow> int option \<Rightarrow> int list" where
  "buffer_slice buf e t =
     (let n = int (length buf);
          e = slice_bound n (to_int32 e);
          t = slice_bound n (case t of None \<Rightarrow> n | Some t \<Rightarrow> to_int32 t);
          t = (if t < e then e else t)
      in segment buf (nat e) (nat (t - e)))"

definition decode_bytes :: "encoding \<Rightarrow> int list \<Rightarrow> js_string" where
  "decode_bytes enc b =
     (case enc of
        Utf8 \<Rightarrow> utf8_slice b
      | Ascii \<Rightarrow> map (js_and 127) b
      | Latin1 \<Rightarrow> b
      | Ucs2 \<Rightarrow> utf16le_slice b
      | Hex \<Rightarrow> concat (map to_hex b)
      | Base64 \<Rightarrow> from_byte_array b)"

definition buffer_to_string_range ::
  "int list \<Rightarrow> js_string \<Rightarrow> int option \<Rightarrow> int option \<Rightarrow> js_string js_res" where
  "buffer_to_string_range b name t n =
     (let len = int (length b);
          t = max 0 (or_else 0 t); n = min len (or_else len n)
      in if len = 0 \<or> len < t \<or> n \<le> 0 \<or> n \<le> t then Inr []
         else (case encoding_of (if name = [] then js ''utf8'' else name) of
                 None \<Rightarrow> Inl (JsTypeError ''Unknown encoding'')
               | Some enc \<Rightarrow> Inr (decode_bytes enc (segment b (nat t) (nat (n - t))))))"

text \<open>
  \<open>write(string, offset, length, encoding)\<close> with all arguments given: what the buffer holds afterwards
  and how many bytes were written.  \<open>blit\<close> is \<open>blitBuffer\<close>.
\<close>

fun blit :: "int list \<Rightarrow> int list \<Rightarrow> nat \<Rightarrow> nat \<Rightarrow> int list \<times> nat" where
  "blit [] t n r = (t, 0)"
| "blit (x # e) t n 0 = (t, 0)"
| "blit (x # e) t n (Suc r) =
     (if length t \<le> n then (t, 0)
      else let (t', k) = blit e (store t n x) (Suc n) r in (t', Suc k))"

definition encode_text :: "encoding \<Rightarrow> js_string \<Rightarrow> nat \<Rightarrow> int list js_res" where
  "encode_text enc s room =
     (case enc of
        Utf8 \<Rightarrow> Inr (utf8_to_bytes s (Some room))
      | Ucs2 \<Rightarrow> Inr (utf16le_to_bytes s (int room))
      | Base64 \<Rightarrow> base64_to_bytes s
      | _ \<Rightarrow> Inr (ascii_to_bytes s))"

definition buffer_write ::
  "int list \<Rightarrow> js_string \<Rightarrow> int \<Rightarrow> int \<Rightarrow> js_string \<Rightarrow> (int list \<times> nat) js_res" where
  "buffer_write this e t n name =
     (let i = int (length this) - t; n = (if n > i then i else n) in
      if e \<noteq> [] \<and> (n < 0 \<or> t < 0) \<or> t > int (length this) then Inl JsRangeError
      else (case encoding_of (if name = [] then js ''utf8'' else name) of
              None \<Rightarrow> Inl (JsTypeError ''Unknown encoding'')
            | Some Hex \<Rightarrow> bindR (hex_write (if n = 0 then nat i else nat n) e) (\<lambda>bs. Inr (blit bs this (nat t) (length bs)))
            | Some enc \<Rightarrow>
                bindR (encode_text enc e (nat i)) (\<lambda>bs. Inr (blit bs this (nat t) (nat n)))))"

fun byte_pairs :: "js_string \<Rightarrow> js_string list" where
  "byte_pairs (a # b # s) = [a, b] # byte_pairs s"
| "byte_pairs _ = []"

text \<open>\<open>inspect\<close> shows 50 bytes (\<open>INSPECT_MAX_BYTES\<close>).\<close>

definition buffer_inspect :: "int list \<Rightarrow> js_string" where
  "buffer_inspect this =
     (let e = (if this = [] then []
               else join_str [32] (byte_pairs (concat (map to_hex (take 50 this))))
                    @ (if 50 < length this then js '' ... '' else []))
      in js ''<Buffer '' @ e @ js ''>'')"

section \<open>Copying and filling\<close>

text \<open>The loops of \<open>copy\<close>; a buffer copied into itself is read while it changes.\<close>

definition copy_loop :: "bool \<Rightarrow> int list \<Rightarrow> int list \<Rightarrow> nat \<Rightarrow> nat \<Rightarrow> nat list \<Rightarrow> int list" where
  "copy_loop same this e t n is =
     foldl (\<lambda>e i. e[i + t := (if same then e else this) ! (i + n)]) e is"

definition copy_range :: "bool \<Rightarrow> int list \<Rightarrow> int list \<Rightarrow> nat \<Rightarrow> nat \<Rightarrow> nat \<Rightarrow> int list" where
  "copy_range same this e t n a =
     (if same \<and> n < t \<and> t < n + a then copy_loop same this e t n (rev [0..<a])
      else if a < 1000 then copy_loop same this e t n [0..<a]
      else overwrite e t (segment this n a))"

definition buffer_copy ::
  "bool \<Rightarrow> int list \<Rightarrow> int list \<Rightarrow> int option \<Rightarrow> int option \<Rightarrow> int option \<Rightarrow> (int list \<times> int) js_res" where
  "buffer_copy same this e t n r =
     (let n = or_else 0 n; r = or_else (int (length this)) r;
          t = (case t of None \<Rightarrow> 0 | Some t \<Rightarrow> if t \<ge> int (length e) then int (length e) else t);
          r = (if r > 0 \<and> r < n then n else r)
      in if r = n then Inr (e, 0)
         else if e = [] \<or> this = [] then Inr (e, 0)
         else if t < 0 \<or> n < 0 \<or> n \<ge> int (length this) \<or> r < 0 then Inl JsRangeError
         else let r = (if r > int (length this) then int (length this) else r);
                  r = (if int (length e) - t < r - n then int (length e) - t + n else r);
                  a = r - n
              in Inr (copy_range same this e (nat t) (nat n) (nat a), a))"

datatype fill_value = FillNumber int | FillBytes "int list"

text \<open>An empty pattern stores \<open>undefined\<close>, which is 0.\<close>

definition fill_byte :: "fill_value \<Rightarrow> nat \<Rightarrow> int" where
  "fill_byte v a =
     (case v of
        FillNumber e \<Rightarrow> js_and e 255
      | FillBytes s \<Rightarrow> if s = [] then 0 else s ! (a mod length s))"

text \<open>Stores past the end are dropped, so the loop ends at the length of the buffer.\<close>

definition buffer_fill :: "int list \<Rightarrow> fill_value \<Rightarrow> int option \<Rightarrow> int option \<Rightarrow> int list js_res" where
  "buffer_fill this v t n =
     (let len = int (length this) in
      if or_else 0 t < 0 \<or> len < or_else 0 t \<or> len < or_else 0 n then Inl JsRangeError
      else if (case (t, n) of (Some t, Some n) \<Rightarrow> n \<le> t | _ \<Rightarrow> False) then Inr this
      else let t = nat (or_else 0 t);
               n = nat (min len (case n of None \<Rightarrow> len | Some n \<Rightarrow> n mod 4294967296))
           in Inr (foldl (\<lambda>b a. store b (t + a) (fill_byte v a)) this [0..<n - t]))"

text \<open>
  \<open>fill\<close> with a text: a single unit below 256 is a number; otherwise the text is put into a buffer, read
  back as UTF-8 and encoded again, once the range is known to be good.
\<close>

definition buffer_fill_text ::
  "int list \<Rightarrow> js_string \<Rightarrow> int option \<Rightarrow> int option \<Rightarrow> js_string option \<Rightarrow> int list js_res" where
  "buffer_fill_text this e t n name =
     (if (case name of None \<Rightarrow> False | Some r \<Rightarrow> encoding_of r = None)
      then Inl (JsTypeError ''Unknown encoding'')
      else if length e = 1 \<and> hd e < 256 then buffer_fill this (FillNumber (hd e)) t n
      else if e = [] then buffer_fill this (FillNumber 0) t n
      else bindR (buffer_fill this (FillNumber 0) t n) (\<lambda>_.
             if (case (t, n) of (Some t, Some n) \<Rightarrow> n \<le> t | _ \<Rightarrow> False) then Inr this
             else bindR (buffer_from e (or_else [] name)) (\<lambda>b.
                  bindR (buffer_to_string b []) (\<lambda>s.
                    buffer_fill this (FillBytes (utf8_to_bytes s None)) t n))))"

fun concat_loop :: "int list \<Rightarrow> nat \<Rightarrow> int list list \<Rightarrow> int list js_res" where
  "concat_loop r i [] = Inr r"
| "concat_loop r i (a # as) =
     bindR (buffer_copy False a r (Some (int i)) None None) (\<lambda>(r, _). concat_loop r (i + length a) as)"

definition buffer_concat :: "int list list \<Rightarrow> int option \<Rightarrow> int list js_res" where
  "buffer_concat e t =
     (if e = [] then Inr []
      else let t = or_else (int (length (concat e))) t
           in if t < 0 \<or> t \<ge> 2147483647 then Inl JsRangeError
              else concat_loop (replicate (nat t) 0) 0 e)"

section \<open>Swapping\<close>

definition swap_bytes :: "int list \<Rightarrow> nat \<Rightarrow> nat \<Rightarrow> int list" where
  "swap_bytes e t n = e[t := e ! n, n := e ! t]"

definition swap16 :: "int list \<Rightarrow> int list js_res" where
  "swap16 this =
     (if length this mod 2 \<noteq> 0 then Inl JsRangeError
      else Inr (foldl (\<lambda>b k. let t = 2 * k in swap_bytes b t (t + 1)) this [0..<length this div 2]))"

definition swap32 :: "int list \<Rightarrow> int list js_res" where
  "swap32 this =
     (if length this mod 4 \<noteq> 0 then Inl JsRangeError
      else Inr (foldl (\<lambda>b k. let t = 4 * k in swap_bytes (swap_bytes b t (t + 3)) (t + 1) (t + 2))
                  this [0..<length this div 4]))"

definition swap64 :: "int list \<Rightarrow> int list js_res" where
  "swap64 this =
     (if length this mod 8 \<noteq> 0 then Inl JsRangeError
      else Inr (foldl (\<lambda>b k. let t = 8 * k in
                  swap_bytes (swap_bytes (swap_bytes (swap_bytes b t (t + 7)) (t + 1) (t + 6)) (t + 2) (t + 5))
                    (t + 3) (t + 4))
                  this [0..<length this div 8]))"

section \<open>Search\<close>

text \<open>
  \<open>arrayIndexOf\<close>: under UTF-16 the buffers are read by pairs of bytes and positions count pairs.  Here a
  position is the byte it stands for, so the step is 1 or 2.  \<open>read_unit\<close> is the inner function.
\<close>

definition unit_step :: "bool \<Rightarrow> nat" where
  "unit_step wide = (if wide then 2 else 1)"

definition read_unit :: "bool \<Rightarrow> int list \<Rightarrow> nat \<Rightarrow> int js_res" where
  "read_unit wide e t = (if wide then readUInt16BE e (Finite (of_nat t)) else Inr (e ! t))"

definition units_differ :: "bool \<Rightarrow> int list \<Rightarrow> nat \<Rightarrow> int list \<Rightarrow> nat \<Rightarrow> bool js_res" where
  "units_differ wide e c t h =
     bindR (read_unit wide e c) (\<lambda>x. bindR (read_unit wide t h) (\<lambda>y. Inr (x \<noteq> y)))"

text \<open>Forwards: \<open>l\<close> is where the match under way began and \<open>k\<close> how far it got (0 is \<open>l = -1\<close>).\<close>

function search_forward :: "bool \<Rightarrow> int list \<Rightarrow> int list \<Rightarrow> nat \<Rightarrow> nat \<Rightarrow> int js_res" where
  "search_forward wide e t l k =
     (if l + k < length e then
        bindR (units_differ wide e (l + k) t k) (\<lambda>d.
          if d then search_forward wide e t (l + unit_step wide) 0
          else if k + unit_step wide = length t then Inr (int l)
          else search_forward wide e t l (k + unit_step wide))
      else Inr (-1))"
  by auto
termination
  by (relation "measures [\<lambda>(w, e, t, l, k). length e - l, \<lambda>(w, e, t, l, k). length e - (l + k)]")
    (auto simp: unit_step_def)

declare search_forward.simps [simp del]

text \<open>Backwards; under UTF-16 the number of the pair is returned.\<close>

function match_here :: "bool \<Rightarrow> int list \<Rightarrow> nat \<Rightarrow> int list \<Rightarrow> nat \<Rightarrow> bool js_res" where
  "match_here wide e c t h =
     (if h < length t then
        bindR (units_differ wide e (c + h) t h) (\<lambda>d.
          if d then Inr False else match_here wide e c t (h + unit_step wide))
      else Inr True)"
  by auto
termination
  by (relation "measure (\<lambda>(w, e, c, t, h). length t - h)") (auto simp: unit_step_def)

declare match_here.simps [simp del]

function search_backward :: "bool \<Rightarrow> int list \<Rightarrow> int list \<Rightarrow> int \<Rightarrow> rat js_res" where
  "search_backward wide e t c =
     (if c \<ge> 0 then
        bindR (match_here wide e (nat c) t 0) (\<lambda>p.
          if p then Inr (of_int c / of_nat (unit_step wide))
          else search_backward wide e t (c - int (unit_step wide)))
      else Inr (-1))"
  by auto
termination
  by (relation "measure (\<lambda>(w, e, t, c). nat (c + 1))") (auto simp: unit_step_def)

declare search_backward.simps [simp del]

definition array_index_of :: "int list \<Rightarrow> int list \<Rightarrow> int \<Rightarrow> js_string option \<Rightarrow> bool \<Rightarrow> rat js_res" where
  "array_index_of e t n name dir =
     (let wide = (case name of None \<Rightarrow> False
                 | Some x \<Rightarrow> map ascii_lower x \<in> set (map js [''ucs2'', ''ucs-2'', ''utf16le'', ''utf-16le'']))
      in if wide \<and> (length e < 2 \<or> length t < 2) then Inr (-1)
         else if dir then bindR (search_forward wide e t (nat n) 0) (\<lambda>l. Inr (of_int l))
         else search_backward wide e t
                (if n + int (length t) > int (length e) then int (length e) - int (length t) else n))"

text \<open>\<open>bidirectionalIndexOf\<close>; without an offset, or with one that is no number, it is \<open>None\<close>.\<close>

datatype needle = Bytes "int list" | Text js_string | Number int

fun native_index_of :: "int list \<Rightarrow> int \<Rightarrow> nat list \<Rightarrow> int" where
  "native_index_of e t [] = -1"
| "native_index_of e t (i # is) = (if e ! i = t then int i else native_index_of e t is)"

definition index_in :: "int list \<Rightarrow> needle \<Rightarrow> int option \<Rightarrow> js_string option \<Rightarrow> bool \<Rightarrow> rat js_res" where
  "index_in e t n name dir =
     (if e = [] then Inr (-1)
      else let len = int (length e);
               n = (case n of None \<Rightarrow> if dir then 0 else len - 1
                    | Some n \<Rightarrow> max (-2147483648) (min 2147483647 n));
               n = (if n < 0 then len + n else n)
           in if n \<ge> len \<and> dir \<or> n < 0 \<and> \<not> dir then Inr (-1)
              else let n = (if n \<ge> len then len - 1 else if n < 0 then 0 else n);
                       found = (\<lambda>bs. if bs = [] then Inr (-1) else array_index_of e bs n name dir)
                   in (case t of
                         Bytes bs \<Rightarrow> found bs
                       | Text s \<Rightarrow> bindR (buffer_from s (or_else [] name)) found
                       | Number x \<Rightarrow>
                           Inr (of_int (native_index_of e (js_and x 255)
                                 (if dir then [nat n..<length e] else rev [0..<Suc (nat n)])))))"

definition buffer_indexOf :: "int list \<Rightarrow> needle \<Rightarrow> int option \<Rightarrow> js_string option \<Rightarrow> rat js_res" where
  "buffer_indexOf this e t n = index_in this e t n True"

definition buffer_lastIndexOf :: "int list \<Rightarrow> needle \<Rightarrow> int option \<Rightarrow> js_string option \<Rightarrow> rat js_res" where
  "buffer_lastIndexOf this e t n = index_in this e t n False"

definition buffer_includes :: "int list \<Rightarrow> needle \<Rightarrow> int option \<Rightarrow> js_string option \<Rightarrow> bool js_res" where
  "buffer_includes this e t n = bindR (buffer_indexOf this e t n) (\<lambda>i. Inr (i \<noteq> -1))"


section \<open>Comparison is the order of byte strings\<close>

lemma three_way_sign: "three_way n r = sgn (n - r)"
  by (simp add: three_way_def)

lemma first_difference_order:
  "(case first_difference e t (int (length e) + c, int (length t) + c) of (n, r) \<Rightarrow> three_way n r) =
     (if e = t then 0 else if js_less e t then -1 else 1)"
proof (induction e t arbitrary: c rule: js_less.induct)
  case (1 s)
  then show ?case by (cases s) (auto simp: three_way_def)
next
  case (3 u s v t)
  show ?case
    using 3 [of "1 + c"] by (auto simp: three_way_def algebra_simps)
qed (auto simp: three_way_def)

lemma js_less_linear: "js_less s t \<or> js_less t s \<or> s = t"
proof (induction s t rule: js_less.induct)
  case (1 s)
  then show ?case by (cases s) simp_all
qed auto

lemma js_less_asym: "js_less s t \<Longrightarrow> \<not> js_less t s"
  by (induction s t rule: js_less.induct) auto

lemma buffer_compare_order:
  "buffer_compare False e t = (if e = t then 0 else if js_less e t then -1 else 1)"
  using first_difference_order [of e t 0] by (simp add: buffer_compare_def)

lemma buffer_equals_iff: "buffer_equals False e t \<longleftrightarrow> e = t"
  by (simp add: buffer_equals_def buffer_compare_order)

section \<open>Copying moves bytes\<close>

lemma copy_loop_Nil [simp]: "copy_loop same this e t n [] = e"
  by (simp add: copy_loop_def)

lemma copy_loop_Cons [simp]:
  "copy_loop same this e t n (i # is) =
     copy_loop same this (e[i + t := (if same then e else this) ! (i + n)]) t n is"
  by (simp add: copy_loop_def)

lemma length_copy_loop [simp]: "length (copy_loop same this e t n is) = length e"
  by (induction "is" arbitrary: e) simp_all

text \<open>
  No byte is overwritten before it is read: the order of the loop must not write \<open>j + t\<close> before it
  reads \<open>i + n\<close> at the same place.
\<close>

lemma copy_loop_nth:
  assumes "distinct is" "\<forall>i \<in> set is. i + t < length e"
    and "same \<Longrightarrow> \<forall>i \<in> set is. e ! (i + n) = this ! (i + n)"
    and "same \<Longrightarrow> sorted_wrt (\<lambda>j i. j + t \<noteq> i + n) is"
  shows "copy_loop same this e t n is ! x =
    (if t \<le> x \<and> x - t \<in> set is then this ! (x - t + n) else e ! x)"
  using assms
proof (induction "is" arbitrary: e)
  case (Cons i "is")
  let ?e = "e[i + t := (if same then e else this) ! (i + n)]"
  have v: "(if same then e else this) ! (i + n) = this ! (i + n)" using Cons.prems(3) by auto
  have "copy_loop same this ?e t n is ! x =
      (if t \<le> x \<and> x - t \<in> set is then this ! (x - t + n) else ?e ! x)"
    using Cons.prems by (intro Cons.IH) auto
  moreover have "?e ! x = (if x = i + t then this ! (x - t + n) else e ! x)"
    using Cons.prems(2) v by (auto simp: nth_list_update)
  ultimately show ?case by auto
qed simp

lemma length_segment [simp]: "length (segment buf off n) = n"
  by (simp add: segment_def)

lemma segment_take: "off + n \<le> length buf \<Longrightarrow> segment buf off n = take n (drop off buf)"
  by (rule nth_equalityI) (auto simp: segment_def)

lemma copy_range_moves:
  assumes "same \<longrightarrow> this = e" "t + a \<le> length e" "n + a \<le> length this"
  shows "copy_range same this e t n a = overwrite e t (segment this n a)"
proof -
  have "copy_loop same this e t n is = overwrite e t (segment this n a)"
    if "is = rev [0..<a] \<and> t > n \<or> is = [0..<a] \<and> (same \<longrightarrow> t \<le> n \<or> n + a \<le> t)" for "is"
  proof (rule nth_equalityI)
    show "length (copy_loop same this e t n is) = length (overwrite e t (segment this n a))"
      using assms(2) by (simp add: length_overwrite)
    fix x
    have "sorted_wrt (\<lambda>j i. j + t \<noteq> i + n) is" if same
    proof (cases "is = rev [0..<a] \<and> t > n")
      case True
      moreover have "sorted_wrt (\<lambda>x y. y + t \<noteq> x + n) [0..<a]" if "t > n"
        by (rule sorted_wrt_mono_rel [OF _ sorted_wrt_upt]) (use that in auto)
      ultimately show ?thesis by (simp add: sorted_wrt_rev)
    next
      case False
      with \<open>is = _ \<and> _ \<or> _\<close> \<open>same\<close> have "is = [0..<a]" "t \<le> n \<or> n + a \<le> t" by auto
      moreover have "sorted_wrt (\<lambda>j i. j + t \<noteq> i + n) [0..<a]" if "t \<le> n \<or> n + a \<le> t"
        by (rule sorted_wrt_mono_rel [OF _ sorted_wrt_upt]) (use that in auto)
      ultimately show ?thesis by simp
    qed
    moreover have "set is = {0..<a}" "distinct is" using that by auto
    ultimately have "copy_loop same this e t n is ! x =
        (if t \<le> x \<and> x - t \<in> set is then this ! (x - t + n) else e ! x)"
      using assms by (intro copy_loop_nth) auto
    then show "copy_loop same this e t n is ! x = overwrite e t (segment this n a) ! x"
      using assms(2) \<open>set is = _\<close> by (auto simp: nth_overwrite segment_def add.commute)
  qed
  then show ?thesis unfolding copy_range_def by auto
qed

lemma overwrite_Nil [simp]: "overwrite buf off [] = buf"
  by (simp add: overwrite_def)

text \<open>As many bytes are moved as the source has from \<open>n\<close> on before \<open>r\<close> and the target from \<open>t\<close> on.\<close>

lemma buffer_copy_moves:
  fixes t :: nat
  assumes "same \<longrightarrow> this = e" "n < length this" "n \<le> r"
  defines "k \<equiv> min (min r (length this) - n) (length e - t)"
  shows "buffer_copy same this e (Some (int t)) (Some (int n)) (Some (int r)) =
    Inr (overwrite e t (segment this n k), int k)"
proof -
  consider "e = [] \<or> r = n" | "e \<noteq> []" "r \<noteq> n" "length e \<le> t" | "e \<noteq> []" "r \<noteq> n" "t < length e"
    by linarith
  then show ?thesis
  proof cases
    case 1
    then have "k = 0" by (auto simp: k_def)
    with 1 show ?thesis by (auto simp: buffer_copy_def or_else_def segment_def Let_def)
  next
    case 2
    then have "k = 0" by (auto simp: k_def)
    with 2 assms(2,3) show ?thesis
      by (auto simp: buffer_copy_def or_else_def Let_def segment_def copy_range_def)
  next
    case 3
    let ?r = "if int r > int (length this) then int (length this) else int r"
    have t: "\<not> int t \<ge> int (length e)" using 3 by simp
    have n: "\<not> (0 < int r \<and> int r < int n)" using assms(3) by simp
    have a: "(if int (length e) - int t < ?r - int n then int (length e) - int t + int n else ?r) - int n = int k"
      using 3 assms(2,3) by (auto simp: k_def)
    have "copy_range same this e t n k = overwrite e t (segment this n k)"
      using assms(1,2) 3 by (intro copy_range_moves) (auto simp: k_def)
    moreover have "this \<noteq> []" using assms(2) by auto
    ultimately show ?thesis
      unfolding buffer_copy_def or_else_def Let_def option.case if_not_P [OF n] if_not_P [OF t] a
      using 3 assms(2,3) by simp
  qed
qed

section \<open>Concatenation\<close>

lemma segment_all: "segment a 0 k = take k a" if "k \<le> length a"
  using that segment_take [of 0 k a] by simp

lemma copy_whole:
  "buffer_copy False a r (Some (int i)) None None =
     Inr (take (length r) (take i r @ a @ drop (i + length a) r), int (min (length a) (length r - i)))"
proof (cases "a = []")
  case True
  then show ?thesis by (auto simp: buffer_copy_def or_else_def Let_def min_def)
next
  case False
  have "buffer_copy False a r (Some (int i)) None None =
      buffer_copy False a r (Some (int i)) (Some (int 0)) (Some (int (length a)))"
    by (simp add: buffer_copy_def or_else_def)
  also have "\<dots> = Inr (overwrite r i (take (length r - i) a), int (min (length a) (length r - i)))"
    using False buffer_copy_moves [of False a r 0 "length a" i]
    by (simp add: segment_all min.commute min_def)
  also have "overwrite r i (take (length r - i) a) = take (length r) (take i r @ a @ drop (i + length a) r)"
    by (auto simp: overwrite_def min_def)
  finally show ?thesis .
qed

lemma concat_loop_result:
  "concat_loop r i as = Inr (take (length r) (take i r @ concat as @ drop (i + length (concat as)) r))"
proof (induction as arbitrary: r i)
  case (Cons a as)
  define r' where "r' = take (length r) (take i r @ a @ drop (i + length a) r)"
  define m where "m = i + length a"
  have len: "length r' = length r" by (simp add: r'_def)
  have "concat_loop r i (a # as) = concat_loop r' m as"
    by (simp add: copy_whole r'_def m_def)
  also have "\<dots> = Inr (take (length r) (take m r' @ concat as @ drop (m + length (concat as)) r'))"
    unfolding Cons.IH len ..
  also have "take (length r) (take m r' @ concat as @ drop (m + length (concat as)) r') =
      take (length r) (take i r @ a @ concat as @ drop (m + length (concat as)) r)"
  proof (cases "m \<le> length r")
    case True
    then have "r' = take i r @ a @ drop m r" by (simp add: r'_def m_def)
    with True have "take m r' = take i r @ a" "drop (m + length (concat as)) r' = drop (m + length (concat as)) r"
      by (simp_all add: m_def add.commute add.left_commute)
    then show ?thesis by simp
  next
    case False
    then show ?thesis by (cases "i \<le> length r") (simp_all add: r'_def m_def)
  qed
  finally show ?case by (simp add: m_def add.assoc)
qed simp

lemma buffer_concat_result:
  "0 \<le> or_else (int (length (concat e))) t \<Longrightarrow> or_else (int (length (concat e))) t < 2147483647 \<Longrightarrow>
     buffer_concat e t =
       Inr (let n = nat (or_else (int (length (concat e))) t)
            in if e = [] then [] else take n (concat e @ replicate (n - length (concat e)) 0))"
  by (simp add: buffer_concat_def Let_def concat_loop_result)

section \<open>Swapping mirrors groups\<close>

text \<open>Where the byte at \<open>x\<close> comes from when each group of \<open>k\<close> bytes is mirrored.\<close>

definition mirrored :: "nat \<Rightarrow> nat \<Rightarrow> nat" where
  "mirrored k x = k * (x div k) + (k - 1 - x mod k)"

lemma mirrored_facts:
  assumes "0 < k"
  shows "mirrored k x div k = x div k" "mirrored k (mirrored k x) = x"
    and "x < k * m \<Longrightarrow> mirrored k x < k * m"
proof -
  have r: "k - 1 - x mod k < k" using assms by simp
  then show d: "mirrored k x div k = x div k" by (simp add: mirrored_def)
  have "mirrored k x mod k = k - 1 - x mod k" using r by (simp add: mirrored_def)
  moreover have "x mod k \<le> k - 1" using assms by (simp add: less_Suc_eq_le [symmetric])
  ultimately have "mirrored k (mirrored k x) = k * (x div k) + x mod k"
    unfolding mirrored_def [of k "mirrored k x"] d using assms by auto
  then show "mirrored k (mirrored k x) = x" by simp
  show "mirrored k x < k * m" if "x < k * m"
    using that assms d by (metis less_mult_imp_div_less mult.commute dividend_less_times_div
        div_less_iff_less_mult)
qed

lemma nth_swap_bytes:
  "t < length e \<Longrightarrow> n < length e \<Longrightarrow>
     swap_bytes e t n ! x = (if x = t then e ! n else if x = n then e ! t else e ! x)"
  by (auto simp: swap_bytes_def nth_list_update)

lemma length_swap_bytes [simp]: "length (swap_bytes e t n) = length e"
  by (simp add: swap_bytes_def)

text \<open>A loop over groups whose step mirrors one of them.\<close>

lemma group_loop:
  assumes "0 < k" "\<And>b j. length (f b j) = length b"
    and "\<And>b j x. k * j + k \<le> length b \<Longrightarrow>
           f b j ! x = (if k * j \<le> x \<and> x < k * j + k then b ! (2 * (k * j) + k - 1 - x) else b ! x)"
    and "k * m \<le> length this"
  shows "length (foldl f this [0..<m]) = length this
    \<and> foldl f this [0..<m] ! x = (if x < k * m then this ! mirrored k x else this ! x)"
  using assms(4)
proof (induction m arbitrary: x)
  case (Suc m)
  let ?b = "foldl f this [0..<m]"
  have IH: "length ?b = length this"
    "\<And>x. ?b ! x = (if x < k * m then this ! mirrored k x else this ! x)"
    using Suc by auto
  have step: "f ?b m ! x = (if k * m \<le> x \<and> x < k * m + k then ?b ! (2 * (k * m) + k - 1 - x) else ?b ! x)"
    using Suc.prems IH(1) by (intro assms(3)) simp
  have "2 * (k * m) + k - 1 - x = mirrored k x \<and> \<not> 2 * (k * m) + k - 1 - x < k * m"
    if "k * m \<le> x" "x < k * m + k"
  proof -
    obtain y where y: "x = k * m + y" "y < k" using \<open>k * m \<le> x\<close> \<open>x < k * m + k\<close> by (metis add_less_cancel_left le_Suc_ex)
    then have "x div k = m" "x mod k = y" using assms(1) by simp_all
    with y show ?thesis by (simp add: mirrored_def)
  qed
  with step IH show ?case by (auto simp: assms(2))
qed simp

lemma swap16_mirrors:
  "swap16 this =
     (if length this mod 2 = 0 then Inr (map (\<lambda>x. this ! mirrored 2 x) [0..<length this]) else Inl JsRangeError)"
proof (cases "length this mod 2 = 0")
  case True
  let ?f = "\<lambda>b k. let t = 2 * k in swap_bytes b t (t + 1)"
  have step: "?f b j ! x = (if 2 * j \<le> x \<and> x < 2 * j + 2 then b ! (2 * (2 * j) + 2 - 1 - x) else b ! x)"
    if "2 * j + 2 \<le> length b" for b j x
  proof -
    have "x = 2 * j \<or> x = 2 * j + 1 \<or> x < 2 * j \<or> 2 * j + 2 \<le> x" by linarith
    with that show ?thesis by (elim disjE) (simp_all add: nth_swap_bytes Let_def)
  qed
  have len: "length (?f b j) = length b" for b j by (simp add: Let_def)
  have "length (foldl ?f this [0..<length this div 2]) = length this"
    "foldl ?f this [0..<length this div 2] ! x =
      (if x < 2 * (length this div 2) then this ! mirrored 2 x else this ! x)" for x
    using group_loop [of 2 ?f "length this div 2" this x, OF _ len step] by simp_all
  with True show ?thesis
    by (auto simp: swap16_def intro!: nth_equalityI)
qed (simp add: swap16_def)

lemma swap32_mirrors:
  "swap32 this =
     (if length this mod 4 = 0 then Inr (map (\<lambda>x. this ! mirrored 4 x) [0..<length this]) else Inl JsRangeError)"
proof (cases "length this mod 4 = 0")
  case True
  let ?f = "\<lambda>b k. let t = 4 * k in swap_bytes (swap_bytes b t (t + 3)) (t + 1) (t + 2)"
  have step: "?f b j ! x = (if 4 * j \<le> x \<and> x < 4 * j + 4 then b ! (2 * (4 * j) + 4 - 1 - x) else b ! x)"
    if "4 * j + 4 \<le> length b" for b j x
  proof -
    have "x = 4 * j \<or> x = 4 * j + 1 \<or> x = 4 * j + 2 \<or> x = 4 * j + 3 \<or> x < 4 * j \<or> 4 * j + 4 \<le> x" by linarith
    with that show ?thesis by (elim disjE) (simp_all add: nth_swap_bytes Let_def)
  qed
  have len: "length (?f b j) = length b" for b j by (simp add: Let_def)
  have "length (foldl ?f this [0..<length this div 4]) = length this"
    "foldl ?f this [0..<length this div 4] ! x =
      (if x < 4 * (length this div 4) then this ! mirrored 4 x else this ! x)" for x
    using group_loop [of 4 ?f "length this div 4" this x, OF _ len step] by simp_all
  with True show ?thesis
    by (auto simp: swap32_def intro!: nth_equalityI)
qed (simp add: swap32_def)

lemma swap64_mirrors:
  "swap64 this =
     (if length this mod 8 = 0 then Inr (map (\<lambda>x. this ! mirrored 8 x) [0..<length this]) else Inl JsRangeError)"
proof (cases "length this mod 8 = 0")
  case True
  let ?f = "\<lambda>b k. let t = 8 * k in
      swap_bytes (swap_bytes (swap_bytes (swap_bytes b t (t + 7)) (t + 1) (t + 6)) (t + 2) (t + 5)) (t + 3) (t + 4)"
  have step: "?f b j ! x = (if 8 * j \<le> x \<and> x < 8 * j + 8 then b ! (2 * (8 * j) + 8 - 1 - x) else b ! x)"
    if "8 * j + 8 \<le> length b" for b j x
  proof -
    have "x = 8 * j \<or> x = 8 * j + 1 \<or> x = 8 * j + 2 \<or> x = 8 * j + 3 \<or> x = 8 * j + 4 \<or> x = 8 * j + 5
        \<or> x = 8 * j + 6 \<or> x = 8 * j + 7 \<or> x < 8 * j \<or> 8 * j + 8 \<le> x" by linarith
    with that show ?thesis by (elim disjE) (simp_all add: nth_swap_bytes Let_def)
  qed
  have len: "length (?f b j) = length b" for b j by (simp add: Let_def)
  have "length (foldl ?f this [0..<length this div 8]) = length this"
    "foldl ?f this [0..<length this div 8] ! x =
      (if x < 8 * (length this div 8) then this ! mirrored 8 x else this ! x)" for x
    using group_loop [of 8 ?f "length this div 8" this x, OF _ len step] by simp_all
  with True show ?thesis
    by (auto simp: swap64_def intro!: nth_equalityI)
qed (simp add: swap64_def)

lemma mirrored_segment:
  assumes "0 < k" "k * j + k \<le> length buf"
  shows "segment (map (\<lambda>x. buf ! mirrored k x) [0..<length buf]) (k * j) k = rev (segment buf (k * j) k)"
proof (rule nth_equalityI)
  fix i assume "i < length (segment (map (\<lambda>x. buf ! mirrored k x) [0..<length buf]) (k * j) k)"
  then have i: "i < k" by simp
  then have "(k * j + i) div k = j" "(k * j + i) mod k = i" by simp_all
  then show "segment (map (\<lambda>x. buf ! mirrored k x) [0..<length buf]) (k * j) k ! i = rev (segment buf (k * j) k) ! i"
    using i assms(2) by (simp add: segment_def rev_nth mirrored_def)
qed simp

section \<open>Search finds the first and the last occurrence\<close>

definition occurs :: "int list \<Rightarrow> int list \<Rightarrow> nat \<Rightarrow> bool" where
  "occurs e t p \<longleftrightarrow> p + length t \<le> length e \<and> (\<forall>i < length t. e ! (p + i) = t ! i)"

definition position :: "nat option \<Rightarrow> rat" where
  "position p = (case p of None \<Rightarrow> -1 | Some i \<Rightarrow> of_nat i)"

lemma find_upt: "find P [l..<n] = (if l < n then if P l then Some l else find P [Suc l..<n] else None)"
  by (simp add: upt_conv_Cons del: upt_Suc)

lemma find_None: "(\<And>x. x \<in> set xs \<Longrightarrow> \<not> P x) \<Longrightarrow> find P xs = None"
  by (simp add: find_None_iff)

lemma search_forward_first:
  assumes "k < length t" "\<forall>i < k. e ! (l + i) = t ! i"
  shows "search_forward False e t l k =
    Inr (case find (occurs e t) [l..<length e] of None \<Rightarrow> -1 | Some i \<Rightarrow> int i)"
  using assms
proof (induction False e t l k rule: search_forward.induct)
  case (1 e t l k)
  show ?case
  proof (cases "l + k < length e")
    case False
    with "1.prems"(1) have "find (occurs e t) [l..<length e] = None"
      by (intro find_None) (auto simp: occurs_def)
    with False show ?thesis by (subst search_forward.simps) simp
  next
    case inside: True
    have d: "units_differ False e (l + k) t k = Inr (e ! (l + k) \<noteq> t ! k)"
      by (simp add: units_differ_def read_unit_def)
    show ?thesis
    proof (cases "e ! (l + k) = t ! k")
      case False
      then have "\<not> occurs e t l" using "1.prems"(1) by (auto simp: occurs_def)
      then have "find (occurs e t) [l..<length e] = find (occurs e t) [Suc l..<length e]"
        using inside by (subst find_upt) simp
      moreover have "search_forward False e t (l + 1) 0 =
          Inr (case find (occurs e t) [l + 1..<length e] of None \<Rightarrow> -1 | Some i \<Rightarrow> int i)"
        using "1.hyps"(1) [OF inside d] False "1.prems"(1) by (cases t) (simp_all add: unit_step_def)
      ultimately show ?thesis
        using inside d False by (subst search_forward.simps) (simp add: unit_step_def)
    next
      case eq: True
      then have matched: "\<forall>i < Suc k. e ! (l + i) = t ! i" using "1.prems"(2) by (auto simp: less_Suc_eq)
      show ?thesis
      proof (cases "Suc k = length t")
        case True
        then have "occurs e t l" using matched inside by (auto simp: occurs_def)
        moreover have "l < length e" using inside by simp
        ultimately have "find (occurs e t) [l..<length e] = Some l" by (subst find_upt) simp
        then show ?thesis
          using inside d eq True by (subst search_forward.simps) (simp add: unit_step_def)
      next
        case False
        then have "search_forward False e t l (Suc k) =
            Inr (case find (occurs e t) [l..<length e] of None \<Rightarrow> -1 | Some i \<Rightarrow> int i)"
          using "1.hyps"(2) [OF inside d] eq matched "1.prems"(1) by (simp add: unit_step_def)
        then show ?thesis
          using inside d eq False by (subst search_forward.simps) (simp add: unit_step_def)
      qed
    qed
  qed
qed

lemma match_here_iff:
  "match_here False e c t h = Inr (\<forall>i. h \<le> i \<and> i < length t \<longrightarrow> e ! (c + i) = t ! i)"
proof (induction False e c t h rule: match_here.induct)
  case (1 e c t h)
  show ?case
  proof (cases "h < length t")
    case True
    have d: "units_differ False e (c + h) t h = Inr (e ! (c + h) \<noteq> t ! h)"
      by (simp add: units_differ_def read_unit_def)
    have "(\<forall>i. h \<le> i \<and> i < length t \<longrightarrow> e ! (c + i) = t ! i) \<longleftrightarrow>
        e ! (c + h) = t ! h \<and> (\<forall>i. Suc h \<le> i \<and> i < length t \<longrightarrow> e ! (c + i) = t ! i)"
      using True by (metis Suc_le_eq le_eq_less_or_eq)
    with True d 1 [OF True d] show ?thesis
      by (subst match_here.simps) (simp add: unit_step_def)
  next
    case False
    then show ?thesis by (subst match_here.simps) auto
  qed
qed

lemma search_backward_last:
  "c + int (length t) \<le> int (length e) \<Longrightarrow>
     search_backward False e t c = Inr (position (find (occurs e t) (rev [0..<nat (c + 1)])))"
proof (induction False e t c rule: search_backward.induct)
  case (1 e t c)
  show ?case
  proof (cases "0 \<le> c")
    case True
    have "match_here False e (nat c) t 0 = Inr (occurs e t (nat c))"
      using 1(2) True by (auto simp: match_here_iff occurs_def)
    moreover have "nat (c + 1) = Suc (nat c)" using True by simp
    moreover have "search_backward False e t (c - 1) = Inr (position (find (occurs e t) (rev [0..<nat c])))"
      if "\<not> occurs e t (nat c)"
      using 1(1) [OF True] 1(2) that calculation(1) by (simp add: unit_step_def)
    ultimately show ?thesis
      using True by (subst search_backward.simps) (auto simp: unit_step_def position_def)
  next
    case False
    then show ?thesis by (subst search_backward.simps) (simp add: position_def)
  qed
qed

lemma occurs_sublist: "(\<exists>p. occurs e t p) \<longleftrightarrow> sublist t e"
proof
  assume "\<exists>p. occurs e t p"
  then obtain p where p: "p + length t \<le> length e" "\<forall>i < length t. e ! (p + i) = t ! i"
    by (auto simp: occurs_def)
  then have "take (length t) (drop p e) = t" by (intro nth_equalityI) auto
  then have "e = take p e @ t @ drop (p + length t) e"
    by (metis append_take_drop_id drop_drop add.commute)
  then show "sublist t e" by (metis sublist_appendI)
next
  assume "sublist t e"
  then obtain us vs where "e = us @ t @ vs" by (auto simp: sublist_def)
  then have "occurs e t (length us)" by (auto simp: occurs_def nth_append)
  then show "\<exists>p. occurs e t p" ..
qed

lemma find_rev_shrink:
  "b \<le> a \<Longrightarrow> (\<And>p. b \<le> p \<Longrightarrow> p < a \<Longrightarrow> \<not> P p) \<Longrightarrow> find P (rev [0..<a]) = find P (rev [0..<b])"
proof (induction a)
  case (Suc a)
  show ?case
  proof (cases "b = Suc a")
    case False
    with Suc show ?thesis by simp
  qed simp
qed simp

lemma clamp_offset: "-2147483648 \<le> n \<Longrightarrow> n \<le> 2147483647 \<Longrightarrow> max (-2147483648) (min 2147483647 n) = (n::int)"
  by simp

lemma indexOf_first:
  assumes "t \<noteq> []" "-2147483648 \<le> n" "n \<le> 2147483647"
  shows "buffer_indexOf e (Bytes t) (Some n) None =
    Inr (position (find (occurs e t) [nat (if n < 0 then int (length e) + n else n)..<length e]))"
proof -
  let ?n = "if n < 0 then int (length e) + n else n"
  have early: "find (occurs e t) [nat ?n..<length e] = None" if "int (length e) \<le> ?n"
    using that by simp
  have go: "search_forward False e t m 0 = Inr (case find (occurs e t) [m..<length e] of None \<Rightarrow> -1 | Some i \<Rightarrow> int i)" for m
    using assms(1) by (intro search_forward_first) auto
  have clip: "nat (if int (length e) \<le> ?n then int (length e) - 1 else if ?n < 0 then 0 else ?n) = nat ?n"
    if "\<not> int (length e) \<le> ?n"
    using that by simp
  have pos: "(of_int (case r of None \<Rightarrow> -1 | Some i \<Rightarrow> int i) :: rat) = position r" for r
    by (cases r) (simp_all add: position_def)
  show ?thesis
  proof (cases "e = [] \<or> int (length e) \<le> ?n")
    case True
    then show ?thesis
      using early assms(2,3) by (auto simp: buffer_indexOf_def index_in_def Let_def position_def)
  next
    case False
    then show ?thesis
      unfolding buffer_indexOf_def index_in_def Let_def option.case clamp_offset [OF assms(2,3)]
      using assms(1) clip by (simp add: array_index_of_def go pos split del: if_split)
  qed
qed

lemma lastIndexOf_last:
  assumes "t \<noteq> []" "-2147483648 \<le> n" "n \<le> 2147483647"
  shows "buffer_lastIndexOf e (Bytes t) (Some n) None =
    Inr (position (find (occurs e t) (rev [0..<nat (min (int (length e)) ((if n < 0 then int (length e) + n else n) + 1))])))"
proof -
  define m where "m = (if n < 0 then int (length e) + n else n)"
  define c where "c = min (int (length e) - 1) m"
  define d where "d = (if c + int (length t) > int (length e) then int (length e) - int (length t) else c)"
  have len: "d + int (length t) \<le> int (length e)" by (simp add: d_def)
  have same: "find (occurs e t) (rev [0..<nat (c + 1)]) = find (occurs e t) (rev [0..<nat (d + 1)])"
  proof (rule find_rev_shrink)
    show "nat (d + 1) \<le> nat (c + 1)" by (intro nat_mono) (simp add: d_def)
    show "\<not> occurs e t p" if "nat (d + 1) \<le> p" "p < nat (c + 1)" for p
    proof
      assume "occurs e t p"
      then have "p + length t \<le> length e" by (simp add: occurs_def)
      with that show False unfolding d_def by (simp split: if_splits)
    qed
  qed
  have min: "nat (min (int (length e)) (m + 1)) = nat (c + 1)" by (simp add: c_def min_def)
  show ?thesis
  proof (cases "e = [] \<or> m < 0")
    case True
    then have "nat (c + 1) = 0" by (auto simp: c_def)
    with True show ?thesis
      unfolding m_def [symmetric] min using assms(2,3)
      by (auto simp: buffer_lastIndexOf_def index_in_def Let_def position_def m_def)
  next
    case False
    have "(if int (length e) \<le> m then int (length e) - 1 else if m < 0 then 0 else m) = c"
      using False by (auto simp: c_def)
    then have "buffer_lastIndexOf e (Bytes t) (Some n) None = search_backward False e t d"
      unfolding buffer_lastIndexOf_def index_in_def Let_def option.case clamp_offset [OF assms(2,3)]
        m_def [symmetric]
      using False assms(1) by (simp add: array_index_of_def d_def split del: if_split)
    then show ?thesis
      unfolding m_def [symmetric] min same search_backward_last [OF len] .
  qed
qed

lemma includes_sublist: "t \<noteq> [] \<Longrightarrow> buffer_includes e (Bytes t) (Some 0) None = Inr (sublist t e)"
proof -
  assume t: "t \<noteq> []"
  have "find (occurs e t) [0..<length e] = None \<longleftrightarrow> \<not> (\<exists>p. occurs e t p)"
  proof -
    have "p < length e" if "occurs e t p" for p
      using that t by (cases t) (auto simp: occurs_def)
    then show ?thesis by (auto simp: find_None_iff)
  qed
  moreover have "position r = -1 \<longleftrightarrow> r = None" for r
  proof (cases r)
    case (Some i)
    have "0 \<le> (of_nat i :: rat)" by simp
    then have "(of_nat i :: rat) \<noteq> -1" by linarith
    with Some show ?thesis by (simp add: position_def)
  qed (simp add: position_def)
  ultimately show ?thesis
    using indexOf_first [OF t, of 0 e] by (auto simp: buffer_includes_def occurs_sublist)
qed

section \<open>Filling\<close>

lemma fill_loop_nth:
  "t + m \<le> length this \<Longrightarrow>
     foldl (\<lambda>b a. store b (t + a) (f a)) this [0..<m] ! i =
       (if t \<le> i \<and> i < t + m then f (i - t) mod 256 else this ! i)
     \<and> length (foldl (\<lambda>b a. store b (t + a) (f a)) this [0..<m]) = length this"
  by (induction m) (auto simp: store_def nth_list_update)

lemma buffer_fill_result:
  assumes "t \<le> n" "n \<le> length this" "length this < 2147483647"
  shows "buffer_fill this v (Some (int t)) (Some (int n)) =
    Inr (map (\<lambda>i. if t \<le> i \<and> i < n then fill_byte v (i - t) mod 256 else this ! i) [0..<length this])"
proof (cases "t = n")
  case True
  then have "map (\<lambda>i. if t \<le> i \<and> i < n then fill_byte v (i - t) mod 256 else this ! i) [0..<length this] = this"
    by (intro nth_equalityI) auto
  with True assms show ?thesis by (simp add: buffer_fill_def or_else_def)
next
  case False
  have "nat (min (int (length this)) (int n mod 4294967296)) = n" using assms(2,3) by simp
  moreover have "foldl (\<lambda>b a. store b (t + a) (fill_byte v a)) this [0..<n - t] =
      map (\<lambda>i. if t \<le> i \<and> i < n then fill_byte v (i - t) mod 256 else this ! i) [0..<length this]"
    using fill_loop_nth [of t "n - t" this "fill_byte v"] assms(1,2) by (intro nth_equalityI) auto
  ultimately show ?thesis using assms False by (simp add: buffer_fill_def or_else_def Let_def)
qed

section \<open>Text in a range, and writing\<close>

lemma to_string_whole: "buffer_to_string_range b name None None = buffer_to_string b name"
proof (cases "b = []")
  case False
  then show ?thesis
    by (auto simp: buffer_to_string_range_def or_else_def buffer_to_string_def decode_bytes_def segment_all
        split: option.splits encoding.splits)
qed (simp add: buffer_to_string_range_def buffer_to_string_def)

lemma blit_result:
  "n \<le> length this \<Longrightarrow> blit bs this n r =
     (let k = min (length bs) (min r (length this - n))
      in (overwrite this n (map (\<lambda>x. x mod 256) (take k bs)), k))"
proof (induction bs this n r rule: blit.induct)
  case (3 x e t n r)
  show ?case
  proof (cases "length t \<le> n")
    case True
    with 3 show ?thesis by simp
  next
    case False
    let ?k = "min (length e) (min r (length t - Suc n))"
    have k: "min (length (x # e)) (min (Suc r) (length t - n)) = Suc ?k" using False by (auto simp: min_def)
    have "overwrite (t[n := x mod 256]) (Suc n) bs = overwrite t n (x mod 256 # bs)" for bs
      using False by (simp add: overwrite_def take_Suc_conv_app_nth)
    moreover have "blit e (store t n x) (Suc n) r =
        (overwrite (t[n := x mod 256]) (Suc n) (map (\<lambda>x. x mod 256) (take ?k e)), ?k)"
      using 3(1) [OF False] False by (simp add: store_def Let_def)
    ultimately show ?thesis using False unfolding k by (simp add: Let_def)
  qed
qed simp_all

lemma mod_bytes [simp]: "js_bytes bs \<Longrightarrow> map (\<lambda>x. x mod 256) (take k bs) = take k bs"
  by (rule nth_equalityI) (auto simp: js_bytes_def list_all_length)

lemma text_code_points_scalar: "js_units s \<Longrightarrow> list_all scalar_value (text_code_points s)"
proof (induction s rule: text_code_points.induct)
  case (2 u s)
  have r: "scalar_value 65533" by code_simp
  show ?case
  proof (cases "high_surrogate u")
    case hi: True
    show ?thesis
    proof (cases s)
      case (Cons l s')
      have "scalar_value (pair_value u l)" if "low_surrogate l"
        using pair_value_bounds [OF hi that]
        by (auto simp: scalar_value_def high_surrogate_def low_surrogate_def between_def)
      with hi Cons 2 r show ?thesis by (cases "low_surrogate l") simp_all
    qed (use hi r in simp)
  next
    case False
    have "scalar_value u" if "\<not> low_surrogate u"
      using that False 2(5) by (auto simp: scalar_value_def)
    with False 2 r show ?thesis by (cases "low_surrogate u") simp_all
  qed
qed simp

lemma seen_part_units: "js_units s \<Longrightarrow> js_units (seen_part s)"
  by (auto simp: seen_part_def js_units_def dest: in_set_butlastD)

lemma utf8_budget_bytes:
  assumes "js_units s"
  defines "n \<equiv> length (utf8_to_bytes s None)"
  shows "utf8_to_bytes s (Some n) = utf8_to_bytes s None" "js_bytes (utf8_to_bytes s None)"
proof -
  show "js_bytes (utf8_to_bytes s None)"
    using assms(1) by (simp add: utf8_to_bytes_seen all_utf8_bytes text_code_points_scalar seen_part_units)
  show "utf8_to_bytes s (Some n) = utf8_to_bytes s None"
    using utf8_loop_budget [of None s "int n"] by (cases n) (simp_all add: n_def utf8_to_bytes_def)
qed

lemma utf16le_to_bytes_bytes: "js_units s \<Longrightarrow> js_bytes (utf16le_to_bytes s n)"
  by (induction s n rule: utf16le_to_bytes.induct) (auto simp: js_shr_small)

lemma ascii_to_bytes_bytes: "js_bytes (ascii_to_bytes s)"
  by (auto simp: js_bytes_def ascii_to_bytes_def js_and_255_mod)

lemma hex_pairs_bytes: "js_bytes (hex_pairs n s)" "length (hex_pairs n s) \<le> n"
  by (induction n s rule: hex_pairs.induct) (auto split: option.splits)

lemma base64_bytes: "base64_to_bytes s = Inr bs \<Longrightarrow> js_bytes bs"
  using to_byte_array_cases [of "base64_clean s"] by (auto simp: base64_to_bytes_def split: if_splits)

lemma hex_write_bytes:
  assumes "hex_write n s = Inr bs"
  shows "js_bytes bs" "length bs \<le> n"
  using assms hex_pairs_bytes [of "min n (length s div 2)" s] by (auto simp: hex_write_def split: if_splits)

text \<open>\<open>Buffer.from(string)\<close> allocates what the text takes, writes it and cuts off what was not written.\<close>

lemma write_prefix:
  "js_bytes bs \<Longrightarrow> take (snd (blit bs (replicate n 0) 0 r)) (fst (blit bs (replicate n 0) 0 r)) = take (min r n) bs"
  by (simp add: blit_result Let_def overwrite_def min_def)

lemma buffer_from_writes:
  assumes "js_units s"
  shows "buffer_from s name =
    (case resolved name of
       None \<Rightarrow> Inl (JsTypeError ''\"encoding\" must be a valid string encoding'')
     | Some enc \<Rightarrow> bindR (text_byte_length s enc) (\<lambda>n.
         bindR (buffer_write (replicate n 0) s 0 (int n) name) (\<lambda>(b, k). Inr (take k b))))"
proof (cases "resolved name")
  case None
  then show ?thesis by (simp add: buffer_from_def resolved_def)
next
  case (Some enc)
  have step: "bindR (buffer_write (replicate n 0) s 0 (int n) name) (\<lambda>(b, k). Inr (take k b)) =
      written_bytes n s enc" if "text_byte_length s enc = Inr n" for n
  proof (cases enc)
    case Hex
    have "(if int n = 0 then nat (int n) else nat (int n)) = n" by simp
    moreover have "bindR (hex_write n s) (\<lambda>bs. Inr (take (min (length bs) n) bs)) = hex_write n s"
      using hex_write_bytes(2) [of n s] by (cases "hex_write n s") simp_all
    moreover have "bindR (bindR m (\<lambda>bs. Inr (blit bs (replicate n 0) 0 (length bs)))) (\<lambda>(b, k). Inr (take k b)) =
        bindR m (\<lambda>bs. Inr (take (min (length bs) n) bs))" if "m = hex_write n s" for m
      using that hex_write_bytes(1) [of n s] write_prefix [of _ n]
      by (cases "hex_write n s") (simp_all add: case_prod_beta)
    ultimately show ?thesis
      using Some Hex by (simp add: buffer_write_def resolved_def written_bytes_def)
  next
    case Utf8
    then have "n = length (utf8_to_bytes s None)" using that by (simp add: text_byte_length_def)
    with Utf8 Some utf8_budget_bytes [OF assms] write_prefix [of "utf8_to_bytes s None" n n] show ?thesis
      by (auto simp: buffer_write_def resolved_def written_bytes_def encode_text_def case_prod_beta)
  next
    case Base64
    have "bindR (bindR m (\<lambda>bs. Inr (blit bs (replicate n 0) 0 n))) (\<lambda>(b, k). Inr (take k b)) =
        bindR m (\<lambda>bs. Inr (take n bs))" if "m = base64_to_bytes s" for m
      using that base64_bytes [of s] write_prefix [of _ n n]
      by (cases "base64_to_bytes s") (simp_all add: case_prod_beta)
    with Base64 Some show ?thesis
      by (simp add: buffer_write_def resolved_def written_bytes_def encode_text_def)
  next
    case Ucs2
    with Some utf16le_to_bytes_bytes [OF assms, of "int n"] write_prefix [of "utf16le_to_bytes s (int n)" n n]
    show ?thesis
      by (auto simp: buffer_write_def resolved_def written_bytes_def encode_text_def case_prod_beta)
  qed (use Some ascii_to_bytes_bytes [of s] write_prefix [of "ascii_to_bytes s" n n] in
      \<open>auto simp: buffer_write_def resolved_def written_bytes_def encode_text_def case_prod_beta\<close>)
  then show ?thesis
    using Some by (cases "text_byte_length s enc") (simp_all add: buffer_from_def resolved_def)
qed

text \<open>Swapping twice changes nothing.\<close>

lemma mirror_twice:
  assumes "0 < k" "length this mod k = 0"
  shows "map (\<lambda>x. map (\<lambda>x. this ! mirrored k x) [0..<length this] ! mirrored k x) [0..<length this] = this"
proof (rule nth_equalityI)
  fix x assume "x < length (map (\<lambda>x. map (\<lambda>x. this ! mirrored k x) [0..<length this] ! mirrored k x) [0..<length this])"
  moreover obtain m where "length this = k * m" using assms(2) by (metis mod_0_imp_dvd dvdE)
  ultimately show "map (\<lambda>x. map (\<lambda>x. this ! mirrored k x) [0..<length this] ! mirrored k x) [0..<length this] ! x
      = this ! x"
    using mirrored_facts(2,3) [OF assms(1), of x] by simp
qed simp

text \<open>After mirroring, the two byte orders are exchanged.\<close>

lemma mirrored_reads:
  assumes "0 < k" "k * j + k \<le> length buf"
  defines "b \<equiv> map (\<lambda>x. buf ! mirrored k x) [0..<length buf]"
  shows "segment b (k * j) k = rev (segment buf (k * j) k)"
    and "k * j < 2147483648 \<Longrightarrow> readUIntLE b (Finite (of_nat (k * j))) k = readUIntBE buf (Finite (of_nat (k * j))) k
      \<and> readUIntBE b (Finite (of_nat (k * j))) k = readUIntLE buf (Finite (of_nat (k * j))) k"
proof -
  show seg: "segment b (k * j) k = rev (segment buf (k * j) k)"
    using mirrored_segment [OF assms(1,2)] by (simp add: b_def)
  assume "k * j < 2147483648"
  then have small: "int (k * j) < 2147483648" by (simp only: of_nat_less_numeral_iff)
  have "(rat_of_nat (k * j)) = of_int (int (k * j))" by simp
  then have "to_int32_number (Finite (of_nat (k * j))) = to_int32 (int (k * j))"
    by (simp only: to_int32_number_int)
  also have "\<dots> = int (k * j)" by (rule to_int32_small) (use small in simp_all)
  finally have "to_int32_number (Finite (of_nat (k * j))) = int (k * j)" .
  moreover have "length b = length buf" by (simp add: b_def)
  ultimately show "readUIntLE b (Finite (of_nat (k * j))) k = readUIntBE buf (Finite (of_nat (k * j))) k
      \<and> readUIntBE b (Finite (of_nat (k * j))) k = readUIntLE buf (Finite (of_nat (k * j))) k"
    using seg by (simp only: readUInt_value [OF assms(1)] nat_int rev_rev_ident)
qed

end
