(* ===== verification/Bytes_Properties.thy ===== *)
theory Bytes_Properties
  imports Swagger_Buffer_Bytes
begin

text \<open>
  What the methods of a buffer that work on bytes promise: copying moves bytes even within one
  buffer, searches find the first and the last occurrence, comparison is the order of byte
  strings, swapping exchanges the byte orders, concatenation joins; and where they do not.
\<close>

text \<open>
  C16: Copying moves bytes: the target holds, from \<open>t\<close> on, the bytes the source had from \<open>n\<close> on, as many as
  both have room for, and is unchanged elsewhere.  This also holds where a buffer is copied into
  itself and the ranges overlap.
\<close>

theorem copy_moves_bytes:
  fixes t :: nat
  assumes "same \<longrightarrow> this = e" "n < length this" "n \<le> r"
  shows "buffer_copy same this e (Some (int t)) (Some (int n)) (Some (int r)) =
    (let k = min (min r (length this) - n) (length e - t)
     in Inr (overwrite e t (segment this n k), int k))"
  using buffer_copy_moves [OF assms] by (simp add: Let_def)

lemma copy_moves_bytes_witness:
  "buffer_copy True [1, 2, 3, 4, 5] [1, 2, 3, 4, 5] (Some 1) (Some 0) (Some 4) = Inr ([1, 1, 2, 3, 4], 4)"
proof -
  let ?b = "[1, 2, 3, 4, 5] :: int list"
  have "buffer_copy True ?b ?b (Some (int 1)) (Some (int 0)) (Some (int 4)) =
      (let k = min (min 4 (length ?b) - 0) (length ?b - 1) in Inr (overwrite ?b 1 (segment ?b 0 k), int k))"
    by (rule copy_moves_bytes) simp_all
  also have "\<dots> = Inr ([1, 1, 2, 3, 4], 4)" by code_simp
  finally show ?thesis by simp
qed

text \<open>
  C17: A search for bytes finds them: \<open>indexOf\<close> gives the first position from the offset on where they occur,
  \<open>lastIndexOf\<close> the last one up to it, -1 stands for none, a negative offset counts from the end, and
  \<open>includes\<close> tells whether they occur at all.
\<close>

theorem search_finds_occurrences:
  assumes "t \<noteq> []" "-2147483648 \<le> n" "n \<le> 2147483647"
  shows "buffer_indexOf e (Bytes t) (Some n) None =
      Inr (position (find (occurs e t) [nat (if n < 0 then int (length e) + n else n)..<length e]))
    \<and> buffer_lastIndexOf e (Bytes t) (Some n) None =
      Inr (position (find (occurs e t)
             (rev [0..<nat (min (int (length e)) ((if n < 0 then int (length e) + n else n) + 1))])))
    \<and> buffer_includes e (Bytes t) (Some 0) None = Inr (sublist t e)"
  using indexOf_first [OF assms] lastIndexOf_last [OF assms] includes_sublist [OF assms(1)] by blast

lemma search_finds_occurrences_witness:
  "buffer_indexOf [1, 1, 2, 1, 2] (Bytes [1, 2]) (Some 0) None = Inr 1
   \<and> buffer_lastIndexOf [1, 1, 2, 1, 2] (Bytes [1, 2]) (Some (-1)) None = Inr 3"
proof -
  let ?e = "[1, 1, 2, 1, 2] :: int list" and ?t = "[1, 2] :: int list"
  have "buffer_indexOf ?e (Bytes ?t) (Some 0) None =
      Inr (position (find (occurs ?e ?t) [nat (if 0 < (0::int) then int (length ?e) + 0 else 0)..<length ?e]))"
    by (rule search_finds_occurrences [THEN conjunct1]) simp_all
  also have "\<dots> = Inr 1" by code_simp
  finally have 1: "buffer_indexOf ?e (Bytes ?t) (Some 0) None = Inr 1" .
  have "buffer_lastIndexOf ?e (Bytes ?t) (Some (-1)) None =
      Inr (position (find (occurs ?e ?t)
             (rev [0..<nat (min (int (length ?e)) ((if -1 < (0::int) then int (length ?e) + -1 else -1) + 1))])))"
    by (rule search_finds_occurrences [THEN conjunct2, THEN conjunct1]) simp_all
  also have "nat (min (int (length ?e)) ((if -1 < (0::int) then int (length ?e) + -1 else -1) + 1)) = 5" by simp
  also have "rev [0..<5] = [4, 3, 2, 1, 0 :: nat]" by (simp add: upt_rec)
  also have "Inr (position (find (occurs ?e ?t) [4, 3, 2, 1, 0])) = (Inr 3 :: rat js_res)"
    by (simp add: occurs_def position_def less_Suc_eq numeral_eq_Suc)
  finally show ?thesis using 1 by simp
qed

text \<open>
  C27: \<open>Buffer.compare\<close> orders buffers as byte strings, a proper prefix before what it begins, and \<open>equals\<close>
  holds of the same bytes only.
\<close>

theorem compare_orders_bytes:
  "buffer_compare False e t = (if e = t then 0 else if js_less e t then -1 else 1)
   \<and> buffer_equals False e t = (e = t)
   \<and> buffer_compare False t e = - buffer_compare False e t"
  using js_less_linear [of e t] js_less_asym [of e t] buffer_compare_order [of e t]
    buffer_compare_order [of t e] buffer_equals_iff [of e t]
  by auto

text \<open>
  C26: \<open>swap16\<close> and \<open>swap32\<close> exchange the byte orders: afterwards the bytes of an aligned integer stand the
  other way round, and reading it the one way gives what reading it the other way gave before (a buffer is
  shorter than \<open>2^31\<close>).  Swapping a second time, also by \<open>swap64\<close>, restores the buffer.
\<close>

theorem swapping_exchanges_byte_orders:
  "(swap16 this = Inr b \<longrightarrow> swap16 b = Inr this
      \<and> (\<forall>j. 2 * j + 2 \<le> length this \<longrightarrow> segment b (2 * j) 2 = rev (segment this (2 * j) 2)
           \<and> (2 * j < 2147483648 \<longrightarrow>
                readUIntLE b (Finite (of_nat (2 * j))) 2 = readUIntBE this (Finite (of_nat (2 * j))) 2
                \<and> readUIntBE b (Finite (of_nat (2 * j))) 2 = readUIntLE this (Finite (of_nat (2 * j))) 2)))
   \<and> (swap32 this = Inr b \<longrightarrow> swap32 b = Inr this
      \<and> (\<forall>j. 4 * j + 4 \<le> length this \<longrightarrow> segment b (4 * j) 4 = rev (segment this (4 * j) 4)
           \<and> (4 * j < 2147483648 \<longrightarrow>
                readUIntLE b (Finite (of_nat (4 * j))) 4 = readUIntBE this (Finite (of_nat (4 * j))) 4
                \<and> readUIntBE b (Finite (of_nat (4 * j))) 4 = readUIntLE this (Finite (of_nat (4 * j))) 4)))
   \<and> (swap64 this = Inr b \<longrightarrow> swap64 b = Inr this)"
proof (intro conjI impI allI)
  assume "swap16 this = Inr b"
  then have m: "length this mod 2 = 0" "b = map (\<lambda>x. this ! mirrored 2 x) [0..<length this]"
    by (auto simp: swap16_mirrors split: if_splits)
  then show "swap16 b = Inr this" using mirror_twice [of 2 this] by (simp add: swap16_mirrors)
  fix j assume j: "2 * j + 2 \<le> length this"
  from mirrored_reads [OF zero_less_numeral j]
  show "segment b (2 * j) 2 = rev (segment this (2 * j) 2)"
    "2 * j < 2147483648 \<Longrightarrow>
      readUIntLE b (Finite (of_nat (2 * j))) 2 = readUIntBE this (Finite (of_nat (2 * j))) 2"
    "2 * j < 2147483648 \<Longrightarrow>
      readUIntBE b (Finite (of_nat (2 * j))) 2 = readUIntLE this (Finite (of_nat (2 * j))) 2"
    unfolding m(2) by blast+
next
  assume "swap32 this = Inr b"
  then have m: "length this mod 4 = 0" "b = map (\<lambda>x. this ! mirrored 4 x) [0..<length this]"
    by (auto simp: swap32_mirrors split: if_splits)
  then show "swap32 b = Inr this" using mirror_twice [of 4 this] by (simp add: swap32_mirrors)
  fix j assume j: "4 * j + 4 \<le> length this"
  from mirrored_reads [OF zero_less_numeral j]
  show "segment b (4 * j) 4 = rev (segment this (4 * j) 4)"
    "4 * j < 2147483648 \<Longrightarrow>
      readUIntLE b (Finite (of_nat (4 * j))) 4 = readUIntBE this (Finite (of_nat (4 * j))) 4"
    "4 * j < 2147483648 \<Longrightarrow>
      readUIntBE b (Finite (of_nat (4 * j))) 4 = readUIntLE this (Finite (of_nat (4 * j))) 4"
    unfolding m(2) by blast+
next
  assume "swap64 this = Inr b"
  then show "swap64 b = Inr this"
    using mirror_twice [of 8 this] by (auto simp: swap64_mirrors split: if_splits)
qed

lemma swapping_exchanges_byte_orders_witness:
  "swap32 [4, 3, 2, 1] = Inr [1, 2, 3, 4]"
proof -
  have "swap32 [1, 2, 3, 4] = Inr [4, 3, 2, 1]" by code_simp
  then show ?thesis using swapping_exchanges_byte_orders [of "[1, 2, 3, 4]" "[4, 3, 2, 1]"] by blast
qed

text \<open>Concatenation joins the buffers; a total given with them cuts off or fills up with zeros.\<close>

lemma concat_joins:
  "e \<noteq> [] \<Longrightarrow> length (concat e) < 2147483647 \<Longrightarrow> buffer_concat e None = Inr (concat e)"
  using buffer_concat_result [of e None] by (simp add: or_else_def Let_def)

section \<open>Where the methods go wrong\<close>

text \<open>A buffer compared with itself counts as equal whatever the ranges.\<close>

lemma compare_ignores_ranges_of_itself:
  "compare_ranges True [1, 2] [1, 2] (Some 0) (Some 1) (Some 1) (Some 2) = Inr 0"
  "compare_ranges False [1, 2] [1, 2] (Some 0) (Some 1) (Some 1) (Some 2) = Inr 1"
  by code_simp+

text \<open>\<open>copy\<close> to the end 0 from a later start answers with a negative number of bytes.\<close>

lemma copy_counts_below_zero:
  "buffer_copy False [1, 2, 3] [0, 0, 0] (Some 0) (Some 2) (Some 0) = Inr ([0, 0, 0], -2)"
  by code_simp

text \<open>
  Under UTF-16 \<open>lastIndexOf\<close> gives the number of the pair where \<open>indexOf\<close> gives the byte, and an odd length
  makes a search raise.
\<close>

lemma wide_positions_disagree:
  "buffer_indexOf [0, 0, 97, 0] (Bytes [97, 0]) None (Some (js ''ucs2'')) = Inr 2"
  "buffer_lastIndexOf [0, 0, 97, 0] (Bytes [97, 0]) None (Some (js ''ucs2'')) = Inr 1"
  "buffer_indexOf [1, 2, 3] (Bytes [9, 9]) None (Some (js ''ucs2'')) = Inl JsRangeError"
  by code_simp+

text \<open>A length of zero makes the hexadecimal writer use all the room there is.\<close>

lemma hex_length_zero:
  "buffer_write [0, 0] (js ''ff'') 0 0 (js ''hex'') = Inr ([255, 0], 1)"
  "buffer_write [0, 0] (js ''ff'') 0 0 (js ''latin1'') = Inr ([0, 0], 0)"
  by code_simp+

text \<open>A text in another encoding is filled in as the UTF-8 of what its bytes read as.\<close>

lemma fill_encodes_twice:
  "buffer_fill_text [0, 0, 0] (js ''ff'') (Some 0) (Some 3) (Some (js ''hex'')) = Inr [239, 191, 189]"
  "buffer_from (js ''ff'') (js ''hex'') = Inr [255]"
  by code_simp+

end
