(* ===== verification/Js_Json.thy ===== *)
theory Js_Json
  imports Js_Text Js_Heap
begin

text \<open>
  JSON documents as JavaScript sees them: trees whose objects have their own properties in order,
  with the reflection the modelled code uses on them (\<open>Object.keys\<close>, \<open>hasOwnProperty\<close>, reading a
  property), and equality up to the order of properties.
\<close>

datatype jtree =
    TNull | TBool bool | TNum rat | TStr js_string
  | TArr "jtree list" | TObj "(js_string \<times> jtree) list"

section \<open>Index keys\<close>

lemma of_char_digit: "d < 10 \<Longrightarrow> (of_char (digit_char d) :: int) = 48 + int d"
proof -
  have "(of_char c :: int) = int (of_char c)" for c by (cases c) simp
  moreover assume "d < 10"
  then have "(of_char (digit_char d) :: nat) = 48 + d" by (simp add: digit_char_def)
  ultimately show ?thesis by simp
qed

lemma js_nat_to_string:
  "js (nat_to_string n) =
     (if n < 10 then [48 + int n] else js (nat_to_string (n div 10)) @ [48 + int (n mod 10)])"
  by (subst nat_to_string.simps) (simp add: of_char_digit)

lemma index_key_unfold:
  "index_key n = (if n < 10 then [48 + int n] else index_key (n div 10) @ [48 + int (n mod 10)])"
  by (simp add: index_key_def js_nat_to_string)

lemma index_key_facts:
  "digits (index_key n) \<and> index_key n \<noteq> [] \<and> decimal_value (index_key n) = int n
     \<and> (n \<noteq> 0 \<longrightarrow> hd (index_key n) \<noteq> 48) \<and> (n = 0 \<longrightarrow> index_key n = [48])"
proof (induction n rule: nat_to_string.induct)
  case (1 n)
  show ?case
  proof (cases "n < 10")
    case True
    then show ?thesis by (subst (1 2 3 4 5) index_key_unfold) (simp add: digits_def unit_defs)
  next
    case False
    then have "n div 10 \<noteq> 0" by simp
    note IH = 1 [OF False]
    have "decimal_value (xs @ [u]) = 10 * decimal_value xs + (u - 48)" for xs u
      by (simp add: decimal_value_def)
    then have "decimal_value (index_key n) = int n"
      using IH False by (subst index_key_unfold) (simp add: zdiv_int zmod_int)
    then show ?thesis
      using IH False \<open>n div 10 \<noteq> 0\<close>
      by (subst (1 2 4 5) index_key_unfold) (simp add: digits_def unit_defs)
  qed
qed

lemma index_of_index_key: "n < 4294967295 \<Longrightarrow> index_of_key (index_key n) = Some n"
proof -
  assume n: "n < 4294967295"
  have h: "hd (index_key n) \<noteq> 48 \<or> tl (index_key n) = []"
    using index_key_facts [of n] by (cases "n = 0") auto
  have v: "foldl (\<lambda>n u. 10 * n + (u - 48)) 0 (index_key n) = int n"
    using index_key_facts [of n] by (simp add: decimal_value_def)
  show ?thesis
    using n h index_key_facts [of n] by (simp add: index_of_key_def v digits_def)
qed

lemma index_key_inject [simp]: "index_key m = index_key n \<longleftrightarrow> m = n"
  using index_key_facts [of m] index_key_facts [of n] by (metis of_nat_eq_iff)

lemma index_key_units: "u \<in> set (index_key n) \<Longrightarrow> 48 \<le> u \<and> u \<le> 57"
  using index_key_facts [of n] by (auto simp: digits_def list_all_iff unit_defs)

lemma index_of_key_digit: "index_of_key k = Some i \<Longrightarrow> \<forall>u \<in> set k. 48 \<le> u \<and> u \<le> 57"
  by (auto simp: index_of_key_def list_all_iff unit_defs split: if_splits)

section \<open>Reflection\<close>

definition container :: "jtree \<Rightarrow> bool" where
  "container t \<longleftrightarrow> (case t of TArr _ \<Rightarrow> True | TObj _ \<Rightarrow> True | _ \<Rightarrow> False)"

definition length_key :: js_string where
  "length_key = js ''length''"

definition hop_key :: js_string where
  "hop_key = js ''hasOwnProperty''"

text \<open>\<open>Object.keys\<close> of a container.\<close>

fun tree_keys :: "jtree \<Rightarrow> js_string list" where
  "tree_keys (TArr xs) = map index_key [0..<length xs]"
| "tree_keys (TObj kvs) = map fst kvs"
| "tree_keys _ = []"

text \<open>
  \<open>t.hasOwnProperty(p)\<close>: on an object with a property of that name the call fails, since no JSON value is
  a function.
\<close>

fun has_own :: "jtree \<Rightarrow> js_string \<Rightarrow> bool js_res" where
  "has_own (TArr xs) p =
     Inr (p = length_key \<or> (case index_of_key p of None \<Rightarrow> False | Some i \<Rightarrow> i < length xs))"
| "has_own (TObj kvs) p =
     (if map_of kvs hop_key = None then Inr (map_of kvs p \<noteq> None)
      else Inl (JsTypeError ''hasOwnProperty is not a function''))"
| "has_own _ p = Inr False"

fun own_member :: "jtree \<Rightarrow> js_string \<Rightarrow> jtree option" where
  "own_member (TArr xs) p =
     (if p = length_key then Some (TNum (of_nat (length xs)))
      else (case index_of_key p of
              None \<Rightarrow> None | Some i \<Rightarrow> if i < length xs then Some (xs ! i) else None))"
| "own_member (TObj kvs) p = map_of kvs p"
| "own_member _ p = None"

lemma size_own_member [termination_simp]: "own_member t p = Some c \<Longrightarrow> size c < size t \<or> \<not> container c"
proof (induction t)
  case (TArr xs)
  then show ?case
    by (auto simp: container_def split: if_splits option.splits)
      (meson less_Suc_eq nth_mem order_less_le_trans size_list_estimation' le_imp_less_Suc order_refl)
next
  case (TObj kvs)
  then have "(p, c) \<in> set kvs" by (auto dest: map_of_SomeD)
  then have "size c \<le> size_list (size_prod (\<lambda>x. 0) size) kvs"
    by (rule size_list_estimation') simp
  then show ?case by (auto simp: less_Suc_eq_le)
qed auto

section \<open>Equality up to the order of properties\<close>

function (sequential) json_eq :: "jtree \<Rightarrow> jtree \<Rightarrow> bool" where
  "json_eq (TObj xs) (TObj ys) \<longleftrightarrow>
     list_all (\<lambda>p. case map_of ys (fst p) of None \<Rightarrow> False | Some u \<Rightarrow> json_eq (snd p) u) xs
     \<and> list_all (\<lambda>k. k \<in> set (map fst xs)) (map fst ys)"
| "json_eq (TArr xs) (TArr ys) \<longleftrightarrow> list_all2 json_eq xs ys"
| "json_eq t u \<longleftrightarrow> t = u"
  by pat_completeness auto
termination
  by (relation "measure (size \<circ> fst)")
    (auto simp: less_Suc_eq_le elim!: size_list_estimation')

text \<open>
  Documents a parser yields: an object has a key once, an array no more elements than JavaScript
  allows.
\<close>

fun wf_tree :: "jtree \<Rightarrow> bool" where
  "wf_tree (TArr xs) \<longleftrightarrow> length xs \<le> 4294967295 \<and> list_all wf_tree xs"
| "wf_tree (TObj kvs) \<longleftrightarrow> distinct (map fst kvs) \<and> list_all (\<lambda>p. wf_tree (snd p)) kvs"
| "wf_tree _ \<longleftrightarrow> True"

end
