(* ===== verification/Swagger_Json_Patch.thy ===== *)
theory Swagger_Json_Patch
  imports Js_Json
begin

text \<open>
  json-patch-duplex (swagger-ui-bundle.js, lines 85 to 91): \<open>compare\<close> (the generation of a patch from two
  documents), \<open>apply\<close> without validation, the validator of a single operation and the equality that
  the operation \<open>test\<close> uses.  Documents are JSON trees changed by replacing the tree; the operation
  \<open>copy\<close>, which makes two places share one object, is left out, and so are the observers.  \<open>None\<close> is
  a run that leaves the tree: through what an object inherits, into a number, a string or a
  boolean, or past the end of an array.
\<close>

section \<open>Paths\<close>

text \<open>\<open>~\<close> becomes \<open>~0\<close>, then \<open>/\<close> becomes \<open>~1\<close>.\<close>

definition replace_unit :: "int \<Rightarrow> js_string \<Rightarrow> js_string \<Rightarrow> js_string" where
  "replace_unit u r s = concat (map (\<lambda>x. if x = u then r else [x]) s)"

definition escape_path_component :: "js_string \<Rightarrow> js_string" where
  "escape_path_component s =
     (if 47 \<notin> set s \<and> 126 \<notin> set s then s
      else replace_unit 47 [126, 49] (replace_unit 126 [126, 48] s))"

text \<open>\<open>s.replace(/~1/g, "/")\<close> and \<open>s.replace(/~0/g, "~")\<close>: the pair \<open>~ d\<close> becomes \<open>c\<close>.\<close>

fun replace_pair :: "int \<Rightarrow> int \<Rightarrow> js_string \<Rightarrow> js_string" where
  "replace_pair d c (u # v # s) =
     (if u = 126 \<and> v = d then c # replace_pair d c s else u # replace_pair d c (v # s))"
| "replace_pair d c s = s"

definition unescape_path_component :: "js_string \<Rightarrow> js_string" where
  "unescape_path_component i =
     (if 126 \<in> set i then replace_pair 48 126 (replace_pair 49 47 i) else i)"

text \<open>\<open>parseInt(i, 10)\<close>; \<open>None\<close> is NaN.\<close>

definition parse_int :: "js_string \<Rightarrow> int option" where
  "parse_int s =
     (let s = dropWhile unit_space s;
          neg = (s \<noteq> [] \<and> hd s = 45);
          s = (if s \<noteq> [] \<and> hd s \<in> {43, 45} then tl s else s);
          ds = takeWhile unit_digit s
      in if ds = [] then None
         else Some (if neg then - decimal_value ds else decimal_value ds))"

section \<open>Operations\<close>

datatype patch_op =
    OpAdd jtree | OpRemove | OpReplace jtree | OpTest jtree | OpGet | OpMove js_string

record patch =
  p_op :: patch_op
  p_path :: js_string

definition patch_of :: "js_string \<Rightarrow> patch_op \<Rightarrow> patch" where
  "patch_of path op = \<lparr>p_op = op, p_path = path\<rparr>"

section \<open>compare\<close>

text \<open>
  \<open>_generate(mirror, obj, patches, path)\<close>.  The mirror is a copy of the document, so the test for the
  same object fails; \<open>_deepClone\<close> of a JSON tree is the tree.  \<open>diff_keys\<close> is the loop over the old keys from
  the last to the first; its second result tells whether something was removed.
\<close>

fun diff_added :: "jtree \<Rightarrow> jtree \<Rightarrow> js_string \<Rightarrow> js_string list \<Rightarrow> patch list js_res" where
  "diff_added old new path [] = Inr []"
| "diff_added old new path (k # ks) =
     bindR (has_own old k) (\<lambda>b.
     bindR (diff_added old new path ks) (\<lambda>ps.
       case own_member new k of
         Some v \<Rightarrow>
           Inr (if b then ps else patch_of (path @ 47 # escape_path_component k) (OpAdd v) # ps)
       | None \<Rightarrow> Inr ps))"

function (sequential) diff_tree :: "jtree \<Rightarrow> jtree \<Rightarrow> js_string \<Rightarrow> patch list js_res"
  and diff_keys :: "jtree \<Rightarrow> jtree \<Rightarrow> js_string \<Rightarrow> js_string list \<Rightarrow> (patch list \<times> bool) js_res" where
  "diff_tree old new path =
     bindR (diff_keys old new path (rev (tree_keys old))) (\<lambda>(ps, deleted).
       if deleted \<or> length (tree_keys new) \<noteq> length (tree_keys old) then
         bindR (diff_added old new path (tree_keys new)) (\<lambda>qs. Inr (ps @ qs))
       else Inr ps)"
| "diff_keys old new path [] = Inr ([], False)"
| "diff_keys old new path (k # ks) =
     (let here = path @ 47 # escape_path_component k in
      bindR (has_own new k) (\<lambda>b.
        if \<not> b then
          bindR (diff_keys old new path ks) (\<lambda>(ps, d). Inr (patch_of here OpRemove # ps, True))
        else
          (case (own_member old k, own_member new k) of
             (Some h, Some f) \<Rightarrow>
               if container h \<and> container f then
                 bindR (diff_tree h f here) (\<lambda>qs.
                 bindR (diff_keys old new path ks) (\<lambda>(ps, d). Inr (qs @ ps, d)))
               else if h \<noteq> f then
                 bindR (diff_keys old new path ks) (\<lambda>(ps, d). Inr (patch_of here (OpReplace f) # ps, d))
               else diff_keys old new path ks
           | _ \<Rightarrow> diff_keys old new path ks)))"
  by pat_completeness auto
termination
  by (relation "measures
        [\<lambda>x. case x of Inl (old, _) \<Rightarrow> size old | Inr (old, _) \<Rightarrow> size old,
         \<lambda>x. case x of Inl _ \<Rightarrow> 1 | Inr _ \<Rightarrow> 0,
         \<lambda>x. case x of Inl _ \<Rightarrow> 0 | Inr (_, _, _, ks) \<Rightarrow> length ks]")
    (auto dest!: size_own_member [OF sym])

declare diff_tree.simps [simp del]

text \<open>\<open>compare\<close> on two containers; other roots are outside the model.\<close>

definition compare_docs :: "jtree \<Rightarrow> jtree \<Rightarrow> patch list js_res option" where
  "compare_docs tree1 tree2 =
     (if container tree1 \<and> container tree2 then Some (diff_tree tree1 tree2 []) else None)"

section \<open>The equality of \<open>test\<close>\<close>

text \<open>
  \<open>_equals(a, b)\<close>.  On objects it compares the numbers of keys and then \<open>a[i]\<close> with \<open>b[i]\<close> for the numbers
  \<open>i\<close>, not for the keys; \<open>None\<close> among the arguments is \<open>undefined\<close>.
\<close>

definition js_keys_of :: "jtree option \<Rightarrow> js_string list js_res" where
  "js_keys_of n =
     (case n of
        None \<Rightarrow> Inl (JsTypeError ''Cannot convert undefined or null to object'')
      | Some TNull \<Rightarrow> Inl (JsTypeError ''Cannot convert undefined or null to object'')
      | Some (TStr s) \<Rightarrow> Inr (map index_key [0..<length s])
      | Some t \<Rightarrow> Inr (tree_keys t))"

definition indexed :: "jtree \<Rightarrow> nat \<Rightarrow> jtree option" where
  "indexed t i =
     (case t of
        TStr s \<Rightarrow> if i < length s then Some (TStr [s ! i]) else None
      | TArr xs \<Rightarrow> if i < length xs then Some (xs ! i) else None
      | _ \<Rightarrow> own_member t (index_key i))"

lemma size_indexed: "container t \<Longrightarrow> indexed t i = Some c \<Longrightarrow> size c < size t"
proof (cases t)
  case (TArr xs)
  moreover assume "indexed t i = Some c"
  ultimately have "c \<in> set xs" by (auto simp: indexed_def split: if_splits)
  with TArr show ?thesis by (simp add: less_Suc_eq_le size_list_estimation')
next
  case (TObj kvs)
  moreover assume "indexed t i = Some c"
  ultimately have "(index_key i, c) \<in> set kvs" by (auto simp: indexed_def dest: map_of_SomeD)
  then have "size c \<le> size_list (size_prod (\<lambda>x. 0) size) kvs"
    by (rule size_list_estimation') simp
  with TObj show ?thesis by simp
qed (simp_all add: container_def)

function (sequential) deep_equals :: "jtree option \<Rightarrow> jtree option \<Rightarrow> bool js_res"
  and equal_members :: "jtree \<Rightarrow> jtree option \<Rightarrow> nat list \<Rightarrow> bool js_res" where
  "deep_equals (Some (TArr xs)) n =
     (case n of
        Some (TArr ys) \<Rightarrow>
          if length xs \<noteq> length ys then Inr False else equal_members (TArr xs) n [0..<length xs]
      | _ \<Rightarrow> Inr False)"
| "deep_equals (Some (TObj kvs)) n =
     bindR (js_keys_of n) (\<lambda>ks.
       if length kvs \<noteq> length ks then Inr False else equal_members (TObj kvs) n [0..<length ks])"
| "deep_equals e n = Inr (e = n)"
| "equal_members e n [] = Inr True"
| "equal_members e n (i # is) =
     (if container e then
        bindR (deep_equals (indexed e i) (case n of None \<Rightarrow> None | Some t \<Rightarrow> indexed t i)) (\<lambda>b.
          if b then equal_members e n is else Inr False)
      else Inr True)"
  by pat_completeness auto
termination
  by (relation "measures
        [\<lambda>x. case x of Inl (e, _) \<Rightarrow> (case e of None \<Rightarrow> 0 | Some t \<Rightarrow> Suc (size t)) | Inr (e, _) \<Rightarrow> Suc (size e),
         \<lambda>x. case x of Inl _ \<Rightarrow> 1 | Inr _ \<Rightarrow> 0,
         \<lambda>x. case x of Inl _ \<Rightarrow> 0 | Inr (_, _, is) \<Rightarrow> length is]")
    (auto dest: size_indexed split: option.split)


section \<open>apply\<close>

text \<open>What an operation returns; of the internal \<open>_get\<close>, the value it stores.\<close>

datatype op_result = NoResult | Value jtree | Verdict bool | AtIndex "int option"

definition result_of :: "jtree option \<Rightarrow> op_result" where
  "result_of v = (case v of None \<Rightarrow> NoResult | Some t \<Rightarrow> Value t)"

definition test_verdict :: "jtree \<Rightarrow> bool js_res \<Rightarrow> (jtree \<times> op_result) run" where
  "test_verdict t m = Some (bindR m (\<lambda>b. Inr (t, Verdict b)))"

text \<open>Where \<open>splice\<close> starts; NaN counts as 0.\<close>

definition splice_start :: "nat \<Rightarrow> int option \<Rightarrow> nat" where
  "splice_start n idx =
     (case idx of None \<Rightarrow> 0 | Some i \<Rightarrow> if i < 0 then nat (int n + i) else min (nat i) n)"

definition element :: "jtree list \<Rightarrow> int option \<Rightarrow> jtree option" where
  "element xs idx =
     (case idx of
        None \<Rightarrow> None
      | Some i \<Rightarrow> if 0 \<le> i \<and> i < int (length xs) then Some (xs ! nat i) else None)"

definition array_op :: "patch_op \<Rightarrow> jtree list \<Rightarrow> int option \<Rightarrow> (jtree \<times> op_result) run" where
  "array_op op xs idx =
     (let s = splice_start (length xs) idx in
      case op of
        OpAdd v \<Rightarrow> Some (Inr (TArr (take s xs @ v # drop s xs), AtIndex idx))
      | OpRemove \<Rightarrow>
          Some (Inr (TArr (take s xs @ drop (Suc s) xs),
                     if s < length xs then Value (xs ! s) else NoResult))
      | OpReplace v \<Rightarrow>
          (case element xs idx of
             Some x \<Rightarrow> Some (Inr (TArr (xs[s := v]), Value x))
           | None \<Rightarrow>
               if idx = Some (int (length xs)) then Some (Inr (TArr (xs @ [v]), NoResult)) else None)
      | OpTest v \<Rightarrow> test_verdict (TArr xs) (deep_equals (element xs idx) (Some v))
      | OpGet \<Rightarrow> Some (Inr (TArr xs, result_of (element xs idx)))
      | OpMove _ \<Rightarrow> None)"

text \<open>Reading a property; what is inherited is outside the tree.\<close>

definition read_member :: "(js_string \<times> jtree) list \<Rightarrow> js_string \<Rightarrow> jtree option option" where
  "read_member kvs k =
     (if map_of kvs k = None \<and> k \<in> set object_members then None else Some (map_of kvs k))"

definition object_op :: "patch_op \<Rightarrow> (js_string \<times> jtree) list \<Rightarrow> js_string \<Rightarrow> (jtree \<times> op_result) run" where
  "object_op op kvs k =
     (case op of
        OpAdd v \<Rightarrow>
          if k = proto_key \<and> map_of kvs k = None then None
          else Some (Inr (TObj (AList.update k v kvs), NoResult))
      | OpMove _ \<Rightarrow> None
      | _ \<Rightarrow>
          (case read_member kvs k of
             None \<Rightarrow> None
           | Some x \<Rightarrow>
               (case op of
                  OpRemove \<Rightarrow> Some (Inr (TObj (AList.delete k kvs), result_of x))
                | OpReplace v \<Rightarrow> Some (Inr (TObj (AList.update k v kvs), result_of x))
                | OpTest v \<Rightarrow> test_verdict (TObj kvs) (deep_equals x (Some v))
                | _ \<Rightarrow> Some (Inr (TObj kvs, result_of x)))))"

definition array_index :: "jtree list \<Rightarrow> js_string \<Rightarrow> int option" where
  "array_index xs i = (if i = [45] then Some (int (length xs)) else parse_int i)"

definition undefined_member :: "'a run" where
  "undefined_member = Some (Inl (JsTypeError ''Cannot read property of undefined''))"

text \<open>The loop along the components of the path; \<open>l\<close> is the value reached.\<close>

fun apply_at :: "patch_op \<Rightarrow> js_string list \<Rightarrow> jtree \<Rightarrow> (jtree \<times> op_result) run" where
  "apply_at op [] l = None"
| "apply_at op [i] (TArr xs) = array_op op xs (array_index xs i)"
| "apply_at op [i] (TObj kvs) = object_op op kvs (unescape_path_component i)"
| "apply_at op (i # is) (TArr xs) =
     (case array_index xs i of
        Some n \<Rightarrow>
          if 0 \<le> n \<and> n < int (length xs) then
            bindO (apply_at op is (xs ! nat n)) (\<lambda>(c, r). Some (Inr (TArr (xs[nat n := c]), r)))
          else undefined_member
      | None \<Rightarrow> undefined_member)"
| "apply_at op (i # is) (TObj kvs) =
     (let k = unescape_path_component i in
      case read_member kvs k of
        None \<Rightarrow> None
      | Some None \<Rightarrow> undefined_member
      | Some (Some t) \<Rightarrow>
          bindO (apply_at op is t) (\<lambda>(c, r). Some (Inr (TObj (AList.update k c kvs), r))))"
| "apply_at op (i # is) TNull = undefined_member"
| "apply_at op (i # is) _ = None"

text \<open>Operations on the root, where the object stays and its properties change.\<close>

definition copied_members :: "jtree \<Rightarrow> (js_string \<times> jtree) list" where
  "copied_members v =
     (case v of
        TObj kvs \<Rightarrow> kvs
      | TArr xs \<Rightarrow> zip (tree_keys v) xs
      | TStr s \<Rightarrow> zip (map index_key [0..<length s]) (map (\<lambda>u. TStr [u]) s)
      | _ \<Rightarrow> [])"

definition plain_members :: "(js_string \<times> jtree) list \<Rightarrow> bool" where
  "plain_members kvs \<longleftrightarrow> map_of kvs hop_key = None \<and> map_of kvs proto_key = None"

definition root_op :: "patch_op \<Rightarrow> jtree \<Rightarrow> (jtree \<times> op_result) run" where
  "root_op op doc =
     (case op of
        OpTest v \<Rightarrow> Some (Inr (doc, Verdict (doc = v)))
      | OpGet \<Rightarrow> Some (Inr (doc, Value doc))
      | OpMove _ \<Rightarrow> None
      | _ \<Rightarrow>
          (case doc of
             TObj kvs \<Rightarrow>
               if \<not> plain_members kvs then None
               else (case op of
                       OpRemove \<Rightarrow> Some (Inr (TObj [], Value doc))
                     | OpAdd v \<Rightarrow>
                         if plain_members (copied_members v)
                         then Some (Inr (TObj (copied_members v), NoResult)) else None
                     | OpReplace v \<Rightarrow>
                         if plain_members (copied_members v)
                         then Some (Inr (TObj (copied_members v), Value doc)) else None
                     | _ \<Rightarrow> None)
           | _ \<Rightarrow> None))"

definition path_components :: "js_string \<Rightarrow> js_string list" where
  "path_components path = tl (split_on 47 path)"

definition apply_op :: "patch_op \<Rightarrow> js_string \<Rightarrow> jtree \<Rightarrow> (jtree \<times> op_result) run" where
  "apply_op op path doc =
     (case path_components path of [] \<Rightarrow> root_op op doc | is \<Rightarrow> apply_at op is doc)"

text \<open>\<open>move\<close>: the value at the path is fetched for the result, then the source is fetched, removed and added.\<close>

definition move_op :: "js_string \<Rightarrow> js_string \<Rightarrow> jtree \<Rightarrow> (jtree \<times> op_result) run" where
  "move_op source path doc =
     bindO (apply_op OpGet path doc) (\<lambda>(_, old).
     bindO (apply_op OpGet source doc) (\<lambda>(_, moved).
     if path_components source = [] then None
     else bindO (apply_op OpRemove source doc) (\<lambda>(doc', _).
          case moved of
            Value v \<Rightarrow> bindO (apply_op (OpAdd v) path doc') (\<lambda>(doc'', _). Some (Inr (doc'', old)))
          | _ \<Rightarrow> None)))"

definition apply_one :: "patch \<Rightarrow> jtree \<Rightarrow> (jtree \<times> op_result) run" where
  "apply_one p doc =
     (case p_op p of
        OpMove source \<Rightarrow> move_op source (p_path p) doc
      | op \<Rightarrow> apply_op op (p_path p) doc)"

fun apply_patch :: "jtree \<Rightarrow> patch list \<Rightarrow> (jtree \<times> op_result list) run" where
  "apply_patch doc [] = Some (Inr (doc, []))"
| "apply_patch doc (p # ps) =
     bindO (apply_one p doc) (\<lambda>(d, r).
     bindO (apply_patch d ps) (\<lambda>(d', rs). Some (Inr (d', r # rs))))"

section \<open>The validator\<close>

text \<open>
  \<open>validator(operation, index)\<close> without a document, on an operation read from JSON: the name of the
  error it throws.  \<open>_[op]\<close> also finds what the table inherits; JSON has no \<open>undefined\<close> inside a value.
\<close>

definition op_names :: "js_string list" where
  "op_names = map js [''add'', ''remove'', ''replace'', ''move'', ''copy'', ''test'', ''_get'']"

fun known_op :: "jtree \<Rightarrow> bool" where
  "known_op (TStr s) \<longleftrightarrow> s \<in> set op_names \<or> s \<in> set object_members"
| "known_op (TArr [x]) \<longleftrightarrow> known_op x"
| "known_op _ \<longleftrightarrow> False"

definition op_in :: "jtree \<Rightarrow> string list \<Rightarrow> bool" where
  "op_in t names \<longleftrightarrow> (case t of TStr s \<Rightarrow> s \<in> set (map js names) | _ \<Rightarrow> False)"

definition validate_operation :: "jtree \<Rightarrow> string option" where
  "validate_operation t =
     (case t of
        TObj kvs \<Rightarrow>
          (case map_of kvs (js ''op'') of
             None \<Rightarrow> Some ''OPERATION_OP_INVALID''
           | Some op \<Rightarrow>
               if \<not> known_op op then Some ''OPERATION_OP_INVALID''
               else (case map_of kvs (js ''path'') of
                 Some (TStr p) \<Rightarrow>
                   if p \<noteq> [] \<and> hd p \<noteq> 47 then Some ''OPERATION_PATH_INVALID''
                   else if op_in op [''move'', ''copy'']
                        \<and> (case map_of kvs (js ''from'') of Some (TStr _) \<Rightarrow> False | _ \<Rightarrow> True)
                   then Some ''OPERATION_FROM_REQUIRED''
                   else if op_in op [''add'', ''replace'', ''test''] \<and> map_of kvs (js ''value'') = None
                   then Some ''OPERATION_VALUE_REQUIRED''
                   else None
               | _ \<Rightarrow> Some ''OPERATION_PATH_INVALID''))
      | _ \<Rightarrow> Some ''OPERATION_NOT_AN_OBJECT'')"

text \<open>\<open>validate(sequence)\<close>: the first error.\<close>

fun validate_sequence :: "jtree \<Rightarrow> string option" where
  "validate_sequence (TArr []) = None"
| "validate_sequence (TArr (t # ts)) =
     (case validate_operation t of Some e \<Rightarrow> Some e | None \<Rightarrow> validate_sequence (TArr ts))"
| "validate_sequence _ = Some ''SEQUENCE_NOT_AN_ARRAY''"

text \<open>The object literals \<open>_generate\<close> pushes, and those of the other operations.\<close>

definition operation_json :: "patch \<Rightarrow> jtree" where
  "operation_json p =
     (let lit = (\<lambda>op fields. TObj ([(js ''op'', TStr (js op)), (js ''path'', TStr (p_path p))] @ fields))
      in case p_op p of
           OpAdd v \<Rightarrow> lit ''add'' [(js ''value'', v)]
         | OpRemove \<Rightarrow> lit ''remove'' []
         | OpReplace v \<Rightarrow> lit ''replace'' [(js ''value'', v)]
         | OpTest v \<Rightarrow> lit ''test'' [(js ''value'', v)]
         | OpGet \<Rightarrow> lit ''_get'' []
         | OpMove f \<Rightarrow> lit ''move'' [(js ''from'', TStr f)])"


section \<open>Escaping\<close>

lemma replace_pair_other [simp]: "u \<noteq> 126 \<Longrightarrow> replace_pair d c (u # s) = u # replace_pair d c s"
  by (cases s) simp_all

lemma escape_eq:
  "escape_path_component s =
     concat (map (\<lambda>x. if x = 126 then [126, 48] else if x = 47 then [126, 49] else [x]) s)"
proof -
  have "concat (map (\<lambda>x. if x = 126 then [126, 48] else if x = 47 then [126, 49] else [x]) s) = s"
    if "47 \<notin> set s" "126 \<notin> set s"
    using that by (induction s) auto
  moreover have "replace_unit 47 [126, 49] (replace_unit 126 [126, 48] s) =
      concat (map (\<lambda>x. if x = 126 then [126, 48] else if x = 47 then [126, 49] else [x]) s)"
    by (induction s) (auto simp: replace_unit_def)
  ultimately show ?thesis by (simp add: escape_path_component_def)
qed

lemma escape_no_slash: "47 \<notin> set (escape_path_component s)"
  by (induction s) (auto simp: escape_eq)

lemma unescape_escape: "unescape_path_component (escape_path_component s) = s"
proof (cases "126 \<in> set (escape_path_component s)")
  case True
  have "replace_pair 49 47 (escape_path_component s) = replace_unit 126 [126, 48] s"
    unfolding escape_eq by (induction s) (auto simp: replace_unit_def)
  moreover have "replace_pair 48 126 (replace_unit 126 [126, 48] s) = s"
    by (induction s) (auto simp: replace_unit_def)
  ultimately show ?thesis using True by (simp add: unescape_path_component_def)
next
  case False
  then have "escape_path_component s = s"
    by (induction s) (auto simp: escape_eq split: if_splits)
  with False show ?thesis by (simp add: unescape_path_component_def)
qed

lemma path_components_Nil [simp]: "path_components [] = []"
  by (simp add: path_components_def)

lemma path_components_snoc [simp]:
  "path_components (path @ 47 # escape_path_component k) =
     path_components path @ [escape_path_component k]"
  by (simp add: path_components_def split_on_snoc [OF escape_no_slash])

lemma escape_index_key [simp]: "escape_path_component (index_key i) = index_key i"
  using index_key_units by (fastforce simp: escape_path_component_def)

lemma takeWhile_digits: "digits s \<Longrightarrow> takeWhile unit_digit s = s"
  by (simp add: digits_def list_all_iff takeWhile_eq_all_conv)

lemma parse_index_key: "parse_int (index_key i) = Some (int i)"
proof -
  obtain u s where k: "index_key i = u # s" and d: "digits (u # s)" "decimal_value (u # s) = int i"
    using index_key_facts [of i] by (cases "index_key i") auto
  have "\<not> unit_space u" "u \<noteq> 43" "u \<noteq> 45"
    using d(1) by (auto simp: digits_def unit_defs unit_space_def)
  then show ?thesis
    using d(2) unfolding k parse_int_def
    by (simp add: Let_def takeWhile_digits [OF d(1)] del: decimal_simps takeWhile.simps)
qed

lemma array_index_key [simp]: "array_index xs (index_key i) = Some (int i)"
  using index_key_units [of 45 i] by (auto simp: array_index_def parse_index_key)

lemma index_key_not [simp]: "index_key i \<noteq> length_key" "index_key i \<noteq> proto_key"
proof -
  have "index_key i \<noteq> k" if "108 \<in> set k \<or> 95 \<in> set k" for k
    using that index_key_units by fastforce
  moreover have "108 \<in> set length_key" by (simp add: length_key_def)
  moreover have "95 \<in> set proto_key" by (simp add: proto_key_def)
  ultimately show "index_key i \<noteq> length_key" "index_key i \<noteq> proto_key" by blast+
qed

section \<open>Running relative operations\<close>

text \<open>Operations with paths relative to a subtree, as lists of components.\<close>

type_synonym rel_op = "patch_op \<times> js_string list"

fun run_at :: "rel_op list \<Rightarrow> jtree \<Rightarrow> jtree run" where
  "run_at [] t = Some (Inr t)"
| "run_at ((op, cs) # qs) t = bindO (apply_at op cs t) (\<lambda>(u, _). run_at qs u)"

lemma run_at_append:
  "run_at (qs @ rs) t = bindO (run_at qs t) (run_at rs)"
proof (induction qs arbitrary: t)
  case (Cons q qs)
  then show ?case
    by (cases q) (auto simp: bindO_def split: option.splits sum.splits)
qed simp

definition inside :: "js_string \<Rightarrow> rel_op list \<Rightarrow> rel_op list" where
  "inside k qs = map (\<lambda>(op, cs). (op, k # cs)) qs"

lemma inside_simps [simp]: "inside k [] = []" "inside k ((op, cs) # qs) = (op, k # cs) # inside k qs"
  by (simp_all add: inside_def)

definition proper :: "rel_op list \<Rightarrow> bool" where
  "proper qs \<longleftrightarrow> (\<forall>(op, cs) \<in> set qs. cs \<noteq> [] \<and> op \<notin> range OpMove)"

lemma proper_simps [simp]:
  "proper []" "proper ((op, cs) # qs) \<longleftrightarrow> cs \<noteq> [] \<and> op \<notin> range OpMove \<and> proper qs"
  "proper (qs @ rs) \<longleftrightarrow> proper qs \<and> proper rs" "proper qs \<Longrightarrow> proper (inside k qs)"
  by (auto simp: proper_def inside_def)

lemma apply_inside_object:
  "cs \<noteq> [] \<Longrightarrow> map_of kvs k = Some t \<Longrightarrow>
   apply_at op (escape_path_component k # cs) (TObj kvs) =
     bindO (apply_at op cs t) (\<lambda>(c, r). Some (Inr (TObj (AList.update k c kvs), r)))"
  by (cases cs) (simp_all add: Let_def unescape_escape read_member_def)

lemma apply_inside_array:
  "cs \<noteq> [] \<Longrightarrow> i < length xs \<Longrightarrow>
   apply_at op (index_key i # cs) (TArr xs) =
     bindO (apply_at op cs (xs ! i)) (\<lambda>(c, r). Some (Inr (TArr (xs[i := c]), r)))"
  by (cases cs) simp_all

lemma run_inside_object:
  assumes "run_at qs t = Some (Inr u)" "proper qs" "map_of kvs k = Some t" "distinct (map fst kvs)"
  shows "\<exists>kvs'. run_at (inside (escape_path_component k) qs) (TObj kvs) = Some (Inr (TObj kvs'))
    \<and> map_of kvs' = (map_of kvs)(k \<mapsto> u) \<and> distinct (map fst kvs')"
  using assms
proof (induction qs arbitrary: t kvs)
  case Nil
  then show ?case by (auto simp: map_upd_triv)
next
  case (Cons q qs)
  obtain op cs where q: "q = (op, cs)" by (cases q)
  from Cons.prems(1) q obtain t1 r where t1: "apply_at op cs t = Some (Inr (t1, r))"
    and rest: "run_at qs t1 = Some (Inr u)"
    by (auto simp: bindO_Inr_iff)
  let ?kvs = "AList.update k t1 kvs"
  have "map_of ?kvs k = Some t1" "distinct (map fst ?kvs)"
    using Cons.prems(4) by (simp_all add: update_conv' distinct_update)
  from Cons.IH [OF rest _ this] Cons.prems(2) q obtain kvs' where
    "run_at (inside (escape_path_component k) qs) (TObj ?kvs) = Some (Inr (TObj kvs'))"
    "map_of kvs' = (map_of ?kvs)(k \<mapsto> u)" "distinct (map fst kvs')"
    by (auto simp del: fun_upd_apply)
  then show ?case
    using q t1 Cons.prems(2,3) by (auto simp: apply_inside_object update_conv')
qed

lemma run_inside_array:
  assumes "run_at qs (xs ! i) = Some (Inr u)" "proper qs" "i < length xs"
  shows "run_at (inside (index_key i) qs) (TArr xs) = Some (Inr (TArr (xs[i := u])))"
  using assms
proof (induction qs arbitrary: xs)
  case Nil
  then have "xs ! i = u" by simp
  then show ?case using list_update_id [of xs i] by simp
next
  case (Cons q qs)
  obtain op cs where q: "q = (op, cs)" by (cases q)
  from Cons.prems(1) q obtain t1 r where t1: "apply_at op cs (xs ! i) = Some (Inr (t1, r))"
    and rest: "run_at qs t1 = Some (Inr u)"
    by (auto simp: bindO_Inr_iff)
  with Cons.IH [of "xs[i := t1]"] Cons.prems q show ?case
    by (simp add: apply_inside_array)
qed

text \<open>A generated patch stands for relative operations below its path.\<close>

definition stands_for :: "js_string \<Rightarrow> patch list \<Rightarrow> rel_op list \<Rightarrow> bool" where
  "stands_for path ps qs \<longleftrightarrow>
     map (\<lambda>p. (p_op p, path_components (p_path p))) ps =
       map (\<lambda>(op, cs). (op, path_components path @ cs)) qs"

lemma stands_for_simps [simp]:
  "stands_for path [] []"
  "stands_for path ps qs \<Longrightarrow> stands_for path ps' qs' \<Longrightarrow> stands_for path (ps @ ps') (qs @ qs')"
  "stands_for path ps qs \<Longrightarrow>
     stands_for path (patch_of (path @ 47 # escape_path_component k) op # ps)
       ((op, [escape_path_component k]) # qs)"
  "stands_for (path @ 47 # escape_path_component k) ps qs \<Longrightarrow>
     stands_for path ps (inside (escape_path_component k) qs)"
  by (auto simp: stands_for_def patch_of_def inside_def)


section \<open>What generated patches do: objects\<close>

text \<open>Generating from \<open>h\<close> to \<open>f\<close> succeeds, and running the result on \<open>h\<close> gives \<open>f\<close>.\<close>

definition turns :: "js_string \<Rightarrow> patch list \<Rightarrow> jtree \<Rightarrow> jtree \<Rightarrow> bool" where
  "turns path ps t u \<longleftrightarrow>
     (\<exists>qs. stands_for path ps qs \<and> proper qs \<and> run_at qs t = Some (Inr u))"

definition diff_ok :: "jtree \<Rightarrow> jtree \<Rightarrow> bool" where
  "diff_ok h f \<longleftrightarrow> (\<forall>path. \<exists>ps u. diff_tree h f path = Inr ps \<and> turns path ps h u \<and> json_eq u f)"

lemma turns_Nil [simp]: "turns path [] t t"
  by (auto simp: turns_def intro: exI [where x = "[]"])

lemma turns_append:
  assumes "turns path ps t u" "turns path ps' u v"
  shows "turns path (ps @ ps') t v"
proof -
  obtain qs qs' where "stands_for path ps qs" "proper qs" "run_at qs t = Some (Inr u)"
    "stands_for path ps' qs'" "proper qs'" "run_at qs' u = Some (Inr v)"
    using assms by (auto simp: turns_def)
  then show ?thesis
    by (auto simp: turns_def run_at_append intro!: exI [where x = "qs @ qs'"])
qed

lemma turns_one:
  assumes "apply_at op [escape_path_component k] t = Some (Inr (u, r))" "op \<notin> range OpMove"
  shows "turns path [patch_of (path @ 47 # escape_path_component k) op] t u"
  using assms by (auto simp: turns_def intro!: exI [where x = "[(op, [escape_path_component k])]"])

lemma turns_object:
  assumes "turns (path @ 47 # escape_path_component k) ps t u" "map_of kvs k = Some t"
    "distinct (map fst kvs)"
  obtains kvs' where "turns path ps (TObj kvs) (TObj kvs')" "map_of kvs' = (map_of kvs)(k \<mapsto> u)"
    "distinct (map fst kvs')"
proof -
  obtain qs where qs: "stands_for (path @ 47 # escape_path_component k) ps qs" "proper qs"
    "run_at qs t = Some (Inr u)"
    using assms(1) by (auto simp: turns_def)
  obtain kvs' where "run_at (inside (escape_path_component k) qs) (TObj kvs) = Some (Inr (TObj kvs'))"
    "map_of kvs' = (map_of kvs)(k \<mapsto> u)" "distinct (map fst kvs')"
    using run_inside_object [OF qs(3,2) assms(2,3)] by blast
  moreover from this(1) have "turns path ps (TObj kvs) (TObj kvs')"
    unfolding turns_def using stands_for_simps(4) [OF qs(1)] proper_simps(4) [OF qs(2)] by blast
  ultimately show thesis using that by blast
qed

lemma turns_array:
  assumes "turns (path @ 47 # escape_path_component (index_key i)) ps (xs ! i) u" "i < length xs"
  shows "turns path ps (TArr xs) (TArr (xs[i := u]))"
proof -
  obtain qs where qs: "stands_for (path @ 47 # escape_path_component (index_key i)) ps qs" "proper qs"
    "run_at qs (xs ! i) = Some (Inr u)"
    using assms(1) by (auto simp: turns_def)
  have "stands_for path ps (inside (index_key i) qs)"
    using stands_for_simps(4) [OF qs(1)] by simp
  with run_inside_array [OF qs(3,2) assms(2)] qs(2) show ?thesis
    by (auto simp: turns_def)
qed

definition children_ok :: "(js_string \<times> jtree) list \<Rightarrow> (js_string \<times> jtree) list \<Rightarrow> bool" where
  "children_ok kvs nvs \<longleftrightarrow>
     (\<forall>k f. map_of nvs k = Some f \<longrightarrow>
        json_eq f f \<and> (\<forall>h. map_of kvs k = Some h \<and> container h \<and> container f \<longrightarrow> diff_ok h f))"

lemma children_okD:
  assumes "children_ok kvs nvs" "map_of nvs k = Some f"
  shows "json_eq f f" "map_of kvs k = Some h \<Longrightarrow> container h \<Longrightarrow> container f \<Longrightarrow> diff_ok h f"
  using assms unfolding children_ok_def by blast+

text \<open>One old key of an object.\<close>

lemma diff_key_object:
  assumes hop: "map_of nvs hop_key = None" and k: "map_of kvs k = Some h" "map_of cvs k = Some h"
    and cvs: "distinct (map fst cvs)" and ok: "children_ok kvs nvs"
  shows "\<exists>ps cvs'.
    (\<forall>ks. diff_keys (TObj kvs) (TObj nvs) path (k # ks) =
       bindR (diff_keys (TObj kvs) (TObj nvs) path ks)
         (\<lambda>(ps', d). Inr (ps @ ps', d \<or> map_of nvs k = None)))
    \<and> turns path ps (TObj cvs) (TObj cvs') \<and> distinct (map fst cvs')
    \<and> (\<forall>l. l \<noteq> k \<longrightarrow> map_of cvs' l = map_of cvs l)
    \<and> rel_option json_eq (map_of cvs' k) (map_of nvs k)"
proof (cases "map_of nvs k")
  case None
  let ?ps = "[patch_of (path @ 47 # escape_path_component k) OpRemove]"
  let ?cvs = "AList.delete k cvs"
  have "apply_at OpRemove [escape_path_component k] (TObj cvs) = Some (Inr (TObj ?cvs, Value h))"
    using k(2) by (simp add: object_op_def read_member_def unescape_escape result_of_def)
  then have "turns path ?ps (TObj cvs) (TObj ?cvs)" by (rule turns_one) auto
  moreover have "rel_option json_eq (map_of ?cvs k) (map_of nvs k)"
    using None by (simp add: delete_conv')
  moreover have "map_of ?cvs l = map_of cvs l" if "l \<noteq> k" for l
    using that by (simp add: delete_conv')
  ultimately show ?thesis
    using None hop cvs by (intro exI [of _ ?ps] exI [of _ ?cvs]) (auto simp: Let_def distinct_delete)
next
  case (Some f)
  consider (both) "container h" "container f" | (new) "\<not> (container h \<and> container f)" "h \<noteq> f"
    | (same) "\<not> (container h \<and> container f)" "h = f" by blast
  then show ?thesis
  proof cases
    case both
    then obtain ps u where ps: "diff_tree h f (path @ 47 # escape_path_component k) = Inr ps"
      "turns (path @ 47 # escape_path_component k) ps h u" "json_eq u f"
      using children_okD(2) [OF ok Some k(1)] unfolding diff_ok_def by blast
    obtain cvs' where "turns path ps (TObj cvs) (TObj cvs')" "map_of cvs' = (map_of cvs)(k \<mapsto> u)"
      "distinct (map fst cvs')"
      using turns_object [OF ps(2) k(2) cvs] .
    with both ps Some hop k show ?thesis
      by (intro exI [of _ ps] exI [of _ cvs']) (auto simp: Let_def)
  next
    case new
    let ?ps = "[patch_of (path @ 47 # escape_path_component k) (OpReplace f)]"
    let ?cvs = "AList.update k f cvs"
    have "apply_at (OpReplace f) [escape_path_component k] (TObj cvs) = Some (Inr (TObj ?cvs, Value h))"
      using k(2) by (simp add: object_op_def read_member_def unescape_escape result_of_def)
    then have "turns path ?ps (TObj cvs) (TObj ?cvs)" by (rule turns_one) auto
    with new Some hop k cvs children_okD(1) [OF ok Some] show ?thesis
      by (intro exI [of _ ?ps] exI [of _ ?cvs]) (auto simp: Let_def update_conv' distinct_update)
  next
    case same
    with Some hop k cvs children_okD(1) [OF ok Some] show ?thesis
      by (intro exI [of _ "[]"] exI [of _ cvs]) (auto simp: Let_def bindR_def split: sum.splits)
  qed
qed

lemma diff_keys_object:
  assumes hop: "map_of nvs hop_key = None" and ok: "children_ok kvs nvs"
    and ks: "distinct ks" "set ks \<subseteq> dom (map_of kvs)" "\<forall>k \<in> set ks. map_of cvs k = map_of kvs k"
    and cvs: "distinct (map fst cvs)"
  shows "\<exists>ps d cvs'. diff_keys (TObj kvs) (TObj nvs) path ks = Inr (ps, d)
    \<and> turns path ps (TObj cvs) (TObj cvs') \<and> distinct (map fst cvs')
    \<and> (d \<longleftrightarrow> (\<exists>k \<in> set ks. map_of nvs k = None))
    \<and> (\<forall>k \<in> set ks. rel_option json_eq (map_of cvs' k) (map_of nvs k))
    \<and> (\<forall>k. k \<notin> set ks \<longrightarrow> map_of cvs' k = map_of cvs k)"
  using ks cvs
proof (induction ks arbitrary: cvs)
  case Nil
  then show ?case by (intro exI [of _ "[]"] exI [of _ False] exI [of _ cvs]) simp
next
  case (Cons k ks)
  from Cons.prems obtain h where h: "map_of kvs k = Some h" "map_of cvs k = Some h" by auto
  obtain ps cvs1 where step:
    "\<forall>ks. diff_keys (TObj kvs) (TObj nvs) path (k # ks) =
       bindR (diff_keys (TObj kvs) (TObj nvs) path ks)
         (\<lambda>(ps', d). Inr (ps @ ps', d \<or> map_of nvs k = None))"
    "turns path ps (TObj cvs) (TObj cvs1)" "distinct (map fst cvs1)"
    "\<forall>l. l \<noteq> k \<longrightarrow> map_of cvs1 l = map_of cvs l"
    "rel_option json_eq (map_of cvs1 k) (map_of nvs k)"
    using diff_key_object [OF hop h Cons.prems(4) ok, of path] by (elim exE conjE)
  have "\<forall>l \<in> set ks. map_of cvs1 l = map_of kvs l" using Cons.prems step(4) by auto
  from Cons.IH [OF _ _ this step(3)] Cons.prems obtain ps' d cvs2 where rest:
    "diff_keys (TObj kvs) (TObj nvs) path ks = Inr (ps', d)" "turns path ps' (TObj cvs1) (TObj cvs2)"
    "distinct (map fst cvs2)" "d \<longleftrightarrow> (\<exists>k \<in> set ks. map_of nvs k = None)"
    "\<forall>k \<in> set ks. rel_option json_eq (map_of cvs2 k) (map_of nvs k)"
    "\<forall>k. k \<notin> set ks \<longrightarrow> map_of cvs2 k = map_of cvs1 k"
    by auto
  have "k \<notin> set ks" using Cons.prems(1) by simp
  with step rest turns_append [OF step(2) rest(2)] show ?case by auto
qed


lemma diff_added_object:
  assumes hop: "map_of kvs hop_key = None" and ks: "distinct ks" "set ks \<subseteq> dom (map_of nvs)"
    and plain: "proto_key \<notin> set ks" and cvs: "distinct (map fst cvs)"
  shows "\<exists>ps cvs'. diff_added (TObj kvs) (TObj nvs) path ks = Inr ps
    \<and> turns path ps (TObj cvs) (TObj cvs') \<and> distinct (map fst cvs')
    \<and> (\<forall>k. map_of cvs' k =
          (if k \<in> set ks \<and> map_of kvs k = None then map_of nvs k else map_of cvs k))"
  using ks plain cvs
proof (induction ks arbitrary: cvs)
  case Nil
  then show ?case by (intro exI [of _ "[]"] exI [of _ cvs]) simp
next
  case (Cons k ks)
  from Cons.prems obtain v where v: "map_of nvs k = Some v" by auto
  define cvs1 where "cvs1 = (if map_of kvs k = None then AList.update k v cvs else cvs)"
  let ?ps = "if map_of kvs k = None then [patch_of (path @ 47 # escape_path_component k) (OpAdd v)] else []"
  have "apply_at (OpAdd v) [escape_path_component k] (TObj cvs) =
      Some (Inr (TObj (AList.update k v cvs), NoResult))"
    using Cons.prems(3) by (auto simp: object_op_def unescape_escape)
  from turns_one [OF this, of path] have step: "turns path ?ps (TObj cvs) (TObj cvs1)"
    by (auto simp: cvs1_def)
  have "distinct (map fst cvs1)" using Cons.prems(4) by (simp add: cvs1_def distinct_update)
  with Cons.IH [of cvs1] Cons.prems obtain ps cvs2 where rest:
    "diff_added (TObj kvs) (TObj nvs) path ks = Inr ps" "turns path ps (TObj cvs1) (TObj cvs2)"
    "distinct (map fst cvs2)"
    "\<forall>k. map_of cvs2 k = (if k \<in> set ks \<and> map_of kvs k = None then map_of nvs k else map_of cvs1 k)"
    by auto
  have "diff_added (TObj kvs) (TObj nvs) path (k # ks) = Inr (?ps @ ps)"
    using v hop rest(1) by simp
  moreover have "turns path (?ps @ ps) (TObj cvs) (TObj cvs2)"
    by (rule turns_append [OF step rest(2)])
  moreover have "map_of cvs2 l =
      (if l \<in> set (k # ks) \<and> map_of kvs l = None then map_of nvs l else map_of cvs l)" for l
    using rest(4) v Cons.prems(1) by (auto simp: cvs1_def update_conv')
  ultimately show ?case using rest(3) by blast
qed

section \<open>Documents the generation is right for\<close>

text \<open>
  No object has a key \<open>__proto__\<close> or \<open>hasOwnProperty\<close>, and an array and an object never meet at one path.
\<close>

fun plain_tree :: "jtree \<Rightarrow> bool" where
  "plain_tree (TArr xs) \<longleftrightarrow> list_all plain_tree xs"
| "plain_tree (TObj kvs) \<longleftrightarrow>
     hop_key \<notin> set (map fst kvs) \<and> proto_key \<notin> set (map fst kvs)
     \<and> list_all (\<lambda>p. plain_tree (snd p)) kvs"
| "plain_tree _ \<longleftrightarrow> True"

function (sequential) same_shape :: "jtree \<Rightarrow> jtree \<Rightarrow> bool" where
  "same_shape (TObj xs) (TObj ys) \<longleftrightarrow>
     list_all (\<lambda>p. case map_of ys (fst p) of None \<Rightarrow> True | Some u \<Rightarrow> same_shape (snd p) u) xs"
| "same_shape (TArr xs) (TArr ys) \<longleftrightarrow> list_all (\<lambda>p. same_shape (fst p) (snd p)) (zip xs ys)"
| "same_shape t u \<longleftrightarrow> \<not> (container t \<and> container u)"
  by pat_completeness auto
termination
  by (relation "measure (size \<circ> fst)")
    (auto simp: less_Suc_eq_le elim!: size_list_estimation' dest!: set_zip_leftD)

lemma json_eq_refl: "wf_tree t \<Longrightarrow> json_eq t t"
proof (induction t)
  case (TArr xs)
  then show ?case by (auto simp: list_all2_conv_all_nth list_all_iff)
next
  case (TObj kvs)
  have "map_of kvs (fst p) = Some (snd p)" "json_eq (snd p) (snd p)" if "p \<in> set kvs" for p
    using TObj that by (cases p; fastforce simp: list_all_iff)+
  then show ?case by (auto simp: list_all_iff split: option.split)
qed auto

lemma json_eq_object:
  assumes "distinct (map fst kvs)" "\<And>k. rel_option json_eq (map_of kvs k) (map_of nvs k)"
  shows "json_eq (TObj kvs) (TObj nvs)"
proof -
  have "(case map_of nvs (fst p) of None \<Rightarrow> False | Some u \<Rightarrow> json_eq (snd p) u)" if "p \<in> set kvs" for p
  proof -
    have "map_of kvs (fst p) = Some (snd p)" using assms(1) that by simp
    with assms(2) [of "fst p"] show ?thesis by (auto simp: rel_option_iff split: option.splits)
  qed
  moreover have "k \<in> set (map fst kvs)" if "k \<in> set (map fst nvs)" for k
  proof -
    have "map_of nvs k \<noteq> None" using that by (simp add: map_of_eq_None_iff)
    then have "map_of kvs k \<noteq> None" using assms(2) [of k] by (auto simp: rel_option_iff split: option.splits)
    then show ?thesis by (simp add: map_of_eq_None_iff)
  qed
  ultimately show ?thesis by (simp add: list_all_iff)
qed

lemma diff_object:
  assumes hop: "map_of kvs hop_key = None" "map_of nvs hop_key = None" "map_of nvs proto_key = None"
    and dist: "distinct (map fst kvs)" "distinct (map fst nvs)"
    and ok: "children_ok kvs nvs"
  shows "diff_ok (TObj kvs) (TObj nvs)"
  unfolding diff_ok_def
proof
  fix path
  let ?ks = "rev (map fst kvs)"
  have "distinct ?ks" "set ?ks \<subseteq> dom (map_of kvs)" "\<forall>k \<in> set ?ks. map_of kvs k = map_of kvs k"
    using dist(1) by (auto simp: dom_map_of_conv_image_fst)
  from diff_keys_object [OF hop(2) ok this dist(1), of path] obtain ps d cvs where old:
    "diff_keys (TObj kvs) (TObj nvs) path ?ks = Inr (ps, d)" "turns path ps (TObj kvs) (TObj cvs)"
    "distinct (map fst cvs)" "d \<longleftrightarrow> (\<exists>k \<in> set ?ks. map_of nvs k = None)"
    "\<forall>k \<in> set ?ks. rel_option json_eq (map_of cvs k) (map_of nvs k)"
    "\<forall>k. k \<notin> set ?ks \<longrightarrow> map_of cvs k = map_of kvs k"
    by blast
  have gone: "map_of cvs k = None" if "map_of kvs k = None" for k
    using old(6) that by (auto simp: map_of_eq_None_iff)
  have kept: "rel_option json_eq (map_of cvs k) (map_of nvs k)" if "map_of kvs k \<noteq> None" for k
    using old(5) that by (auto simp: map_of_eq_None_iff)
  show "\<exists>ps u. diff_tree (TObj kvs) (TObj nvs) path = Inr ps \<and> turns path ps (TObj kvs) u
    \<and> json_eq u (TObj nvs)"
  proof (cases "d \<or> length nvs \<noteq> length kvs")
    case True
    have "distinct (map fst nvs)" "set (map fst nvs) \<subseteq> dom (map_of nvs)" "proto_key \<notin> set (map fst nvs)"
      using dist(2) hop(3) by (auto simp: dom_map_of_conv_image_fst map_of_eq_None_iff)
    from diff_added_object [OF hop(1) this old(3), of path] obtain qs cvs' where added:
      "diff_added (TObj kvs) (TObj nvs) path (map fst nvs) = Inr qs" "turns path qs (TObj cvs) (TObj cvs')"
      "distinct (map fst cvs')"
      "\<forall>k. map_of cvs' k =
          (if k \<in> set (map fst nvs) \<and> map_of kvs k = None then map_of nvs k else map_of cvs k)"
      by blast
    have final: "map_of cvs' k = (if map_of kvs k = None then map_of nvs k else map_of cvs k)" for k
    proof -
      have "k \<in> set (map fst nvs) \<longleftrightarrow> map_of nvs k \<noteq> None"
        by (simp only: map_of_eq_None_iff set_map not_not)
      with added(4) gone [of k] show ?thesis by (auto simp del: set_map)
    qed
    have "rel_option json_eq (map_of cvs' k) (map_of nvs k)" for k
      using final [of k] kept [of k] children_okD(1) [OF ok, of k]
      by (cases "map_of nvs k"; cases "map_of kvs k") (auto simp del: set_map)
    then have "json_eq (TObj cvs') (TObj nvs)" by (rule json_eq_object [OF added(3)])
    with True old(1) added(1) turns_append [OF old(2) added(2)] show ?thesis
      by (auto simp: diff_tree.simps)
  next
    case False
    then have "set (map fst kvs) \<subseteq> set (map fst nvs)"
      using old(4) by (force simp: map_of_eq_None_iff)
    moreover have "card (set (map fst kvs)) = card (set (map fst nvs))"
      using False dist by (simp add: distinct_card del: set_map)
    ultimately have "set (map fst kvs) = set (map fst nvs)"
      by (intro card_subset_eq) simp_all
    then have "map_of kvs k = None \<longleftrightarrow> map_of nvs k = None" for k
      by (simp add: map_of_eq_None_iff)
    then have "rel_option json_eq (map_of cvs k) (map_of nvs k)" for k
      using gone [of k] kept [of k] by (cases "map_of kvs k = None") auto
    then have "json_eq (TObj cvs) (TObj nvs)" by (rule json_eq_object [OF old(3)])
    with False old(1,2) show ?thesis by (auto simp: diff_tree.simps)
  qed
qed


section \<open>What generated patches do: arrays\<close>

lemma has_own_index:
  "i < 4294967295 \<Longrightarrow> has_own (TArr xs) (index_key i) = Inr (i < length xs)"
  by (simp add: index_of_index_key)

lemma own_member_index:
  "i < 4294967295 \<Longrightarrow> own_member (TArr xs) (index_key i) = (if i < length xs then Some (xs ! i) else None)"
  by (simp add: index_of_index_key)

definition elements_ok :: "jtree list \<Rightarrow> jtree list \<Rightarrow> bool" where
  "elements_ok xs ys \<longleftrightarrow>
     (\<forall>i < length ys. json_eq (ys ! i) (ys ! i)
        \<and> (i < length xs \<and> container (xs ! i) \<and> container (ys ! i) \<longrightarrow> diff_ok (xs ! i) (ys ! i)))"

text \<open>The array while the old indices below \<open>c\<close> are still to be visited.\<close>

definition halfway :: "jtree list \<Rightarrow> jtree list \<Rightarrow> nat \<Rightarrow> jtree list \<Rightarrow> bool" where
  "halfway xs ys c zs \<longleftrightarrow>
     length zs = max c (min (length xs) (length ys)) \<and> (\<forall>i < c. zs ! i = xs ! i)
     \<and> (\<forall>i. c \<le> i \<and> i < length xs \<and> i < length ys \<longrightarrow> json_eq (zs ! i) (ys ! i))"

lemma diff_key_array:
  assumes len: "length xs \<le> 4294967295" and c: "c < length xs"
    and ok: "elements_ok xs ys" and zs: "halfway xs ys (Suc c) zs"
  shows "\<exists>ps zs'.
    (\<forall>ks. diff_keys (TArr xs) (TArr ys) path (index_key c # ks) =
       bindR (diff_keys (TArr xs) (TArr ys) path ks) (\<lambda>(ps', d). Inr (ps @ ps', d \<or> length ys \<le> c)))
    \<and> turns path ps (TArr zs) (TArr zs') \<and> halfway xs ys c zs'"
proof -
  have lim: "c < 4294967295" and k: "c < length zs" "zs ! c = xs ! c"
    using len c zs by (auto simp: halfway_def)
  note at_c = has_own_index [OF lim] own_member_index [OF lim]
  show ?thesis
  proof (cases "c < length ys")
    case False
    let ?ps = "[patch_of (path @ 47 # escape_path_component (index_key c)) OpRemove]"
    let ?zs = "take c zs @ drop (Suc c) zs"
    have "length zs = Suc c" using zs False by (auto simp: halfway_def)
    then have "apply_at OpRemove [escape_path_component (index_key c)] (TArr zs) =
        Some (Inr (TArr ?zs, Value (zs ! c)))"
      by (simp add: array_op_def splice_start_def)
    then have "turns path ?ps (TArr zs) (TArr ?zs)" by (rule turns_one) auto
    moreover have "halfway xs ys c ?zs"
      using zs False \<open>length zs = Suc c\<close> by (auto simp: halfway_def nth_append)
    ultimately show ?thesis
      using False at_c [of ys] by (intro exI [of _ ?ps] exI [of _ ?zs]) (simp add: Let_def)
  next
    case True
    let ?h = "xs ! c" and ?f = "ys ! c"
    note sub = ok [unfolded elements_ok_def, rule_format, OF True]
    have half: "halfway xs ys c (zs[c := u])" if "json_eq u ?f" for u
      using zs c True that by (auto simp: halfway_def nth_list_update)
    consider (both) "container ?h" "container ?f" | (new) "\<not> (container ?h \<and> container ?f)" "?h \<noteq> ?f"
      | (same) "\<not> (container ?h \<and> container ?f)" "?h = ?f" by blast
    then show ?thesis
    proof cases
      case both
      then obtain ps u where ps:
        "diff_tree ?h ?f (path @ 47 # escape_path_component (index_key c)) = Inr ps"
        "turns (path @ 47 # escape_path_component (index_key c)) ps ?h u" "json_eq u ?f"
        using sub c unfolding diff_ok_def by blast
      have "turns path ps (TArr zs) (TArr (zs[c := u]))"
        using turns_array [OF _ k(1)] ps(2) k(2) by simp
      with both ps True c at_c [of ys] at_c [of xs] half show ?thesis
        by (intro exI [of _ ps] exI [of _ "zs[c := u]"]) (auto simp: Let_def)
    next
      case new
      let ?ps = "[patch_of (path @ 47 # escape_path_component (index_key c)) (OpReplace ?f)]"
      have "apply_at (OpReplace ?f) [escape_path_component (index_key c)] (TArr zs) =
          Some (Inr (TArr (zs[c := ?f]), Value (zs ! c)))"
        using k(1) by (simp add: array_op_def splice_start_def element_def)
      then have "turns path ?ps (TArr zs) (TArr (zs[c := ?f]))" by (rule turns_one) auto
      with new True c at_c [of ys] at_c [of xs] half sub show ?thesis
        by (intro exI [of _ ?ps] exI [of _ "zs[c := ?f]"]) (auto simp: Let_def)
    next
      case same
      have "zs[c := ?f] = zs" using same k(2) by (metis list_update_id)
      with same True c at_c [of ys] at_c [of xs] half [of ?f] sub show ?thesis
        by (intro exI [of _ "[]"] exI [of _ zs]) (auto simp: Let_def bindR_def split: sum.splits)
    qed
  qed
qed

lemma diff_keys_array:
  assumes len: "length xs \<le> 4294967295" and ok: "elements_ok xs ys"
    and "c \<le> length xs" "halfway xs ys c zs"
  shows "\<exists>ps us. diff_keys (TArr xs) (TArr ys) path (map index_key (rev [0..<c])) =
      Inr (ps, length ys < c)
    \<and> turns path ps (TArr zs) (TArr us) \<and> halfway xs ys 0 us"
  using assms(3,4)
proof (induction c arbitrary: zs)
  case 0
  then show ?case by (intro exI [of _ "[]"] exI [of _ zs]) simp
next
  case (Suc c)
  obtain ps zs1 where step:
    "\<forall>ks. diff_keys (TArr xs) (TArr ys) path (index_key c # ks) =
       bindR (diff_keys (TArr xs) (TArr ys) path ks) (\<lambda>(ps', d). Inr (ps @ ps', d \<or> length ys \<le> c))"
    "turns path ps (TArr zs) (TArr zs1)" "halfway xs ys c zs1"
    using diff_key_array [OF len _ ok Suc.prems(2), of path] Suc.prems(1) by auto
  obtain qs us where rest:
    "diff_keys (TArr xs) (TArr ys) path (map index_key (rev [0..<c])) = Inr (qs, length ys < c)"
    "turns path qs (TArr zs1) (TArr us)" "halfway xs ys 0 us"
    using Suc.IH [OF _ step(3)] Suc.prems(1) by auto
  have "map index_key (rev [0..<Suc c]) = index_key c # map index_key (rev [0..<c])" by simp
  with step(1) rest(1) have "diff_keys (TArr xs) (TArr ys) path (map index_key (rev [0..<Suc c])) =
      Inr (ps @ qs, length ys < Suc c)"
    by (auto simp del: upt_Suc diff_keys.simps)
  with turns_append [OF step(2) rest(2)] rest(3) show ?case by blast
qed

text \<open>New elements are added at the end, one after the other.\<close>

lemma diff_added_array:
  assumes len: "length ys \<le> 4294967295" and n: "n \<le> length ys"
  shows "\<exists>ps. diff_added (TArr xs) (TArr ys) path (map index_key [n..<length ys]) = Inr ps
    \<and> (length zs = max n (length xs) \<longrightarrow>
         turns path ps (TArr zs) (TArr (zs @ drop (length zs) ys)))"
  using n
proof (induction "length ys - n" arbitrary: n zs)
  case 0
  then show ?case by (intro exI [of _ "[]"]) auto
next
  case (Suc d)
  then have n: "n < length ys" by simp
  then have lim: "n < 4294967295" using len by simp
  have up: "[n..<length ys] = n # [Suc n..<length ys]" using n by (rule upt_conv_Cons)
  define zs1 where "zs1 = (if n < length xs then zs else zs @ [ys ! n])"
  have "d = length ys - Suc n" "Suc n \<le> length ys" using Suc.hyps(2) n by simp_all
  then obtain ps where ps: "diff_added (TArr xs) (TArr ys) path (map index_key [Suc n..<length ys]) = Inr ps"
    "length zs1 = max (Suc n) (length xs) \<longrightarrow>
       turns path ps (TArr zs1) (TArr (zs1 @ drop (length zs1) ys))"
    using Suc.hyps(1) by blast
  let ?ps = "if n < length xs then []
             else [patch_of (path @ 47 # escape_path_component (index_key n)) (OpAdd (ys ! n))]"
  have "diff_added (TArr xs) (TArr ys) path (map index_key [n..<length ys]) = Inr (?ps @ ps)"
    using ps(1) n has_own_index [OF lim, of xs] own_member_index [OF lim, of ys] unfolding up
    by (simp del: has_own.simps own_member.simps)
  moreover have "turns path (?ps @ ps) (TArr zs) (TArr (zs @ drop (length zs) ys))"
    if len_zs: "length zs = max n (length xs)"
  proof (cases "n < length xs")
    case True
    then show ?thesis using ps(2) len_zs by (simp add: zs1_def)
  next
    case False
    then have l: "length zs = n" using len_zs by simp
    have "apply_at (OpAdd (ys ! n)) [escape_path_component (index_key n)] (TArr zs) =
        Some (Inr (TArr zs1, AtIndex (Some (int n))))"
      using False l by (simp add: array_op_def splice_start_def zs1_def)
    from turns_one [OF this, of path] False have "turns path ?ps (TArr zs) (TArr zs1)" by auto
    moreover have "turns path ps (TArr zs1) (TArr (zs1 @ drop (length zs1) ys))"
      using ps(2) False l by (simp add: zs1_def)
    ultimately have "turns path (?ps @ ps) (TArr zs) (TArr (zs1 @ drop (length zs1) ys))"
      by (rule turns_append)
    moreover have "zs1 @ drop (length zs1) ys = zs @ drop (length zs) ys"
      using False l n by (simp add: zs1_def Cons_nth_drop_Suc)
    ultimately show ?thesis by simp
  qed
  ultimately show ?case by blast
qed


lemma halfway_0: "halfway xs ys 0 us \<Longrightarrow> length xs \<le> length ys \<Longrightarrow> elements_ok xs ys
    \<Longrightarrow> list_all2 json_eq (us @ drop (length xs) ys) ys"
  by (auto simp: halfway_def elements_ok_def list_all2_conv_all_nth nth_append)

lemma diff_array:
  assumes len: "length xs \<le> 4294967295" "length ys \<le> 4294967295" and ok: "elements_ok xs ys"
  shows "diff_ok (TArr xs) (TArr ys)"
  unfolding diff_ok_def
proof
  fix path
  have "halfway xs ys (length xs) xs" by (auto simp: halfway_def)
  from diff_keys_array [OF len(1) ok order.refl this, of path] obtain ps us where old:
    "diff_keys (TArr xs) (TArr ys) path (rev (tree_keys (TArr xs))) = Inr (ps, length ys < length xs)"
    "turns path ps (TArr xs) (TArr us)" "halfway xs ys 0 us"
    by (auto simp: rev_map)
  have len_us: "length us = min (length xs) (length ys)" using old(3) by (simp add: halfway_def)
  show "\<exists>ps u. diff_tree (TArr xs) (TArr ys) path = Inr ps \<and> turns path ps (TArr xs) u
    \<and> json_eq u (TArr ys)"
  proof (cases "length ys \<le> length xs")
    case True
    have eq: "json_eq (TArr us) (TArr ys)"
      using old(3) True by (auto simp: halfway_def list_all2_conv_all_nth)
    obtain qs where qs: "diff_added (TArr xs) (TArr ys) path (tree_keys (TArr ys)) = Inr qs"
      using diff_added_array [OF len(2), of 0 xs path] by auto
    have "qs = []"
    proof -
      have "diff_added (TArr xs) (TArr ys) path ks = Inr []" if "set ks \<subseteq> set (tree_keys (TArr ys))" for ks
        using that True len
        by (induction ks) (auto simp: index_of_index_key)
      with qs show ?thesis by (metis Inr_inject order.refl)
    qed
    with old(1,2) qs eq show ?thesis by (auto simp: diff_tree.simps)
  next
    case False
    then have "length us = max 0 (length xs)" using len_us by simp
    then obtain qs where qs: "diff_added (TArr xs) (TArr ys) path (tree_keys (TArr ys)) = Inr qs"
      "turns path qs (TArr us) (TArr (us @ drop (length us) ys))"
      using diff_added_array [OF len(2), of 0 xs path us] by auto
    have "json_eq (TArr (us @ drop (length us) ys)) (TArr ys)"
      using halfway_0 [OF old(3) _ ok] False len_us by simp
    moreover have "diff_tree (TArr xs) (TArr ys) path = Inr (ps @ qs)"
      using old(1) qs(1) False by (simp add: diff_tree.simps)
    ultimately show ?thesis using turns_append [OF old(2) qs(2)] by blast
  qed
qed

section \<open>The round trip\<close>

lemma diff_correct:
  "wf_tree t \<Longrightarrow> wf_tree u \<Longrightarrow> plain_tree t \<Longrightarrow> plain_tree u \<Longrightarrow> same_shape t u
     \<Longrightarrow> container t \<Longrightarrow> container u \<Longrightarrow> diff_ok t u"
proof (induction t arbitrary: u rule: measure_induct_rule [where f = size])
  case (less t)
  show ?case
  proof (cases t)
    case (TArr xs)
    with less.prems obtain ys where ys: "u = TArr ys" by (cases u) (auto simp: container_def)
    have "elements_ok xs ys"
      unfolding elements_ok_def
    proof (intro allI impI conjI)
      fix i assume i: "i < length ys"
      then show "json_eq (ys ! i) (ys ! i)"
        using less.prems(2) ys by (auto simp: list_all_iff intro: json_eq_refl)
      assume c: "i < length xs \<and> container (xs ! i) \<and> container (ys ! i)"
      then have "(xs ! i, ys ! i) \<in> set (zip xs ys)" "xs ! i \<in> set xs" "ys ! i \<in> set ys"
        using i by (auto simp: set_zip)
      moreover from this have "size (xs ! i) < size t"
        using TArr by (simp add: less_Suc_eq_le size_list_estimation')
      ultimately show "diff_ok (xs ! i) (ys ! i)"
        using c less.prems TArr ys by (intro less.IH) (auto simp: list_all_iff)
    qed
    with less.prems TArr ys show ?thesis by (auto intro: diff_array)
  next
    case (TObj kvs)
    with less.prems obtain nvs where nvs: "u = TObj nvs" by (cases u) (auto simp: container_def)
    have "children_ok kvs nvs"
      unfolding children_ok_def
    proof (intro allI impI conjI)
      fix k f assume f: "map_of nvs k = Some f"
      then have fin: "(k, f) \<in> set nvs" by (rule map_of_SomeD)
      then show "json_eq f f"
        using less.prems(2) nvs by (auto simp: list_all_iff intro!: json_eq_refl)
      fix h assume h: "map_of kvs k = Some h \<and> container h \<and> container f"
      then have hin: "(k, h) \<in> set kvs" by (auto dest: map_of_SomeD)
      have "size h \<le> size_list (size_prod (\<lambda>x. 0) size) kvs"
        using hin by (rule size_list_estimation') simp
      with TObj have "size h < size t" by simp
      moreover have "same_shape h f"
        using less.prems(5) TObj nvs hin f by (fastforce simp: list_all_iff)
      ultimately show "diff_ok h f"
        using h hin fin less.prems TObj nvs by (intro less.IH) (auto simp: list_all_iff)
    qed
    moreover have "map_of kvs hop_key = None" "map_of nvs hop_key = None" "map_of nvs proto_key = None"
      using less.prems(3,4) TObj nvs by (auto simp: map_of_eq_None_iff)
    ultimately show ?thesis
      using less.prems TObj nvs by (auto intro: diff_object)
  qed (use less.prems in \<open>auto simp: container_def\<close>)
qed

text \<open>Applying the patches is running the operations they stand for.\<close>

lemma apply_patch_turns:
  assumes "stands_for [] ps qs" "proper qs" "run_at qs t = Some (Inr u)"
  shows "\<exists>rs. apply_patch t ps = Some (Inr (u, rs))"
  using assms
proof (induction qs arbitrary: ps t)
  case Nil
  then show ?case by (simp add: stands_for_def)
next
  case (Cons q qs)
  obtain op cs where q: "q = (op, cs)" by (cases q)
  from Cons.prems(1) q obtain p ps' where ps: "ps = p # ps'" "p_op p = op"
    "path_components (p_path p) = cs" "stands_for [] ps' qs"
    by (cases ps) (auto simp: stands_for_def)
  from Cons.prems(3) q obtain t1 r where t1: "apply_at op cs t = Some (Inr (t1, r))"
    and rest: "run_at qs t1 = Some (Inr u)"
    by (auto simp: bindO_Inr_iff)
  have "apply_one p t = Some (Inr (t1, r))"
    using Cons.prems(2) q ps(2,3) t1
    by (cases op; cases cs) (auto simp: apply_one_def apply_op_def)
  moreover obtain rs where "apply_patch t1 ps' = Some (Inr (u, rs))"
    using Cons.IH [OF ps(4) _ rest] Cons.prems(2) q by auto
  ultimately show ?case using ps(1) by auto
qed

lemma compare_apply:
  assumes "wf_tree t" "wf_tree u" "plain_tree t" "plain_tree u" "same_shape t u"
    "container t" "container u"
  shows "\<exists>ps v rs. compare_docs t u = Some (Inr ps) \<and> apply_patch t ps = Some (Inr (v, rs))
    \<and> json_eq v u"
proof -
  obtain ps v where "diff_tree t u [] = Inr ps" "turns [] ps t v" "json_eq v u"
    using diff_correct [OF assms] unfolding diff_ok_def by blast
  with apply_patch_turns assms(6,7) show ?thesis
    unfolding turns_def by (fastforce simp: compare_docs_def)
qed


section \<open>The observer\<close>

text \<open>
  \<open>generate(observer)\<close>: the patches from the mirror to the object, and the mirror brought up to date
  by them; callbacks are left out.
\<close>

definition generate_patches :: "jtree \<Rightarrow> jtree \<Rightarrow> (jtree \<times> patch list) run" where
  "generate_patches mirror obj =
     bindO (compare_docs mirror obj) (\<lambda>ps.
       if ps = [] then Some (Inr (mirror, []))
       else bindO (apply_patch mirror ps) (\<lambda>(m, _). Some (Inr (m, ps))))"

lemma generate_follows:
  assumes "wf_tree t" "wf_tree u" "plain_tree t" "plain_tree u" "same_shape t u"
    "container t" "container u"
  shows "\<exists>ps v. generate_patches t u = Some (Inr (v, ps)) \<and> json_eq v u"
proof -
  obtain ps v rs where r: "compare_docs t u = Some (Inr ps)" "apply_patch t ps = Some (Inr (v, rs))"
    "json_eq v u"
    using compare_apply [OF assms] by blast
  show ?thesis
  proof (cases "ps = []")
    case True
    with r(2) have "v = t" by simp
    with True r show ?thesis by (simp add: generate_patches_def)
  next
    case False
    with r show ?thesis by (simp add: generate_patches_def)
  qed
qed

section \<open>Generated patches are valid\<close>

definition generated :: "js_string \<Rightarrow> patch \<Rightarrow> bool" where
  "generated path p \<longleftrightarrow>
     (\<exists>w. p_path p = path @ 47 # w)
     \<and> (case p_op p of OpAdd _ \<Rightarrow> True | OpRemove \<Rightarrow> True | OpReplace _ \<Rightarrow> True | _ \<Rightarrow> False)"

lemma generated_below: "generated (path @ 47 # w) p \<Longrightarrow> generated path p"
  by (auto simp: generated_def)

lemma diff_added_generated:
  "diff_added old new path ks = Inr ps \<Longrightarrow> p \<in> set ps \<Longrightarrow> generated path p"
proof (induction ks arbitrary: ps)
  case (Cons k ks)
  then obtain b qs where "diff_added old new path ks = Inr qs"
    "ps = qs \<or> (\<exists>v. ps = patch_of (path @ 47 # escape_path_component k) (OpAdd v) # qs)"
    by (auto simp: bindR_Inr_iff split: option.splits if_splits)
  with Cons show ?case by (auto simp: generated_def patch_of_def)
qed simp

lemma diff_generated:
  "diff_tree old new path = Inr ps \<Longrightarrow> p \<in> set ps \<Longrightarrow> generated path p"
  "diff_keys old new path ks = Inr (qs, d) \<Longrightarrow> q \<in> set qs \<Longrightarrow> generated path q"
proof (induction old new path and old new path ks arbitrary: ps p and qs d q
    rule: diff_tree_diff_keys.induct)
  case (1 old new path)
  then show ?case
    by (auto simp: diff_tree.simps bindR_Inr_iff split: if_splits dest: diff_added_generated)
next
  case (3 old new path k ks)
  let ?here = "path @ 47 # escape_path_component k"
  have one: "generated path (patch_of ?here OpRemove)" "generated path (patch_of ?here (OpReplace f))" for f
    by (simp_all add: generated_def patch_of_def)
  obtain b where b: "has_own new k = Inr b"
    using "3.prems"(1) by (auto simp: Let_def bindR_Inr_iff)
  show ?case
  proof (cases b)
    case False
    then obtain qs' d' where "diff_keys old new path ks = Inr (qs', d')" "qs = patch_of ?here OpRemove # qs'"
      using "3.prems"(1) b by (auto simp: Let_def bindR_Inr_iff)
    then show ?thesis using "3.prems"(2) "3.IH"(1) [OF refl b] False one by auto
  next
    case True
    show ?thesis
    proof (cases "own_member old k = None \<or> own_member new k = None")
      case True
      then have "diff_keys old new path ks = Inr (qs, d)"
        using "3.prems"(1) b \<open>b\<close> by (auto simp: Let_def split: option.splits)
      then show ?thesis
        using "3.IH" b \<open>b\<close> True "3.prems"(2) by (cases "own_member old k") auto
    next
      case False
      then obtain h f where hf: "own_member old k = Some h" "own_member new k = Some f" by auto
      consider (both) "container h \<and> container f" | (new) "\<not> (container h \<and> container f)" "h \<noteq> f"
        | (same) "\<not> (container h \<and> container f)" "h = f" by blast
      then show ?thesis
      proof cases
        case both
        then obtain rs qs' d' where r: "diff_tree h f ?here = Inr rs"
          "diff_keys old new path ks = Inr (qs', d')" "qs = rs @ qs'"
          using "3.prems"(1) b \<open>b\<close> hf by (auto simp: Let_def bindR_Inr_iff)
        have "generated path q" if "q \<in> set rs"
        proof -
          have "generated ?here q"
            using "3.IH"(4) [OF refl b] \<open>b\<close> hf both r(1) that by auto
          then show ?thesis by (rule generated_below)
        qed
        moreover have "generated path q" if "q \<in> set qs'"
          using "3.IH"(5) [OF refl b] \<open>b\<close> hf both r that by auto
        ultimately show ?thesis using r(3) "3.prems"(2) by auto
      next
        case new
        then obtain qs' d' where r: "diff_keys old new path ks = Inr (qs', d')"
          "qs = patch_of ?here (OpReplace f) # qs'"
          using "3.prems"(1) b \<open>b\<close> hf by (auto simp: Let_def bindR_Inr_iff)
        then show ?thesis using "3.IH"(6) [OF refl b] \<open>b\<close> hf new "3.prems"(2) one by auto
      next
        case same
        then have "diff_keys old new path ks = Inr (qs, d)"
          using "3.prems"(1) b \<open>b\<close> hf by (auto simp: Let_def)
        then show ?thesis using "3.IH"(7) [OF refl b] \<open>b\<close> hf same "3.prems"(2) by auto
      qed
    qed
  qed
qed simp

lemma generated_validates: "generated [] p \<Longrightarrow> validate_operation (operation_json p) = None"
  by (cases "p_op p")
    (auto simp: generated_def operation_json_def validate_operation_def op_names_def op_in_def Let_def)

lemma sequence_validates:
  "(\<And>p. p \<in> set ps \<Longrightarrow> validate_operation (operation_json p) = None)
     \<Longrightarrow> validate_sequence (TArr (map operation_json ps)) = None"
  by (induction ps) simp_all

section \<open>The equality of \<open>test\<close>\<close>

text \<open>Objects without numeric keys are equal to it when they have the same number of keys.\<close>

lemma equal_members_unnumbered:
  assumes "\<And>i. map_of kvs (index_key i) = None" "\<And>i. map_of nvs (index_key i) = None"
  shows "equal_members (TObj kvs) (Some (TObj nvs)) is = Inr True"
  using assms by (induction "is") (simp_all add: container_def indexed_def)

lemma deep_equals_objects:
  assumes "\<And>i. map_of kvs (index_key i) = None" "\<And>i. map_of nvs (index_key i) = None"
  shows "deep_equals (Some (TObj kvs)) (Some (TObj nvs)) = Inr (length kvs = length nvs)"
  using equal_members_unnumbered [OF assms] by (simp add: js_keys_of_def)

text \<open>Without objects it is equality.\<close>

fun no_objects :: "jtree \<Rightarrow> bool" where
  "no_objects (TArr xs) \<longleftrightarrow> list_all no_objects xs"
| "no_objects (TObj _) \<longleftrightarrow> False"
| "no_objects _ \<longleftrightarrow> True"

lemma deep_equals_arrays:
  "no_objects t \<Longrightarrow> deep_equals (Some t) (Some u) = Inr (t = u)"
proof (induction t arbitrary: u)
  case (TArr xs)
  have members: "equal_members (TArr xs) (Some (TArr ys)) is = Inr (\<forall>i \<in> set is. xs ! i = ys ! i)"
    if "length xs = length ys" "set is \<subseteq> {..<length xs}" for ys "is"
    using that
  proof (induction "is")
    case (Cons i "is")
    then have "deep_equals (Some (xs ! i)) (Some (ys ! i)) = Inr (xs ! i = ys ! i)"
      using TArr by (auto simp: list_all_iff)
    with Cons show ?case by (auto simp: container_def indexed_def)
  qed simp
  show ?case
  proof (cases u)
    case u: (TArr ys)
    show ?thesis
    proof (cases "length xs = length ys")
      case True
      then have "(\<forall>i \<in> set [0..<length xs]. xs ! i = ys ! i) \<longleftrightarrow> xs = ys"
        by (auto intro: nth_equalityI)
      moreover have "set [0..<length xs] \<subseteq> {..<length xs}" by auto
      note members [OF True this]
      ultimately show ?thesis using True unfolding u by simp
    next
      case False
      then show ?thesis unfolding u by auto
    qed
  qed auto
qed auto

text \<open>\<open>test\<close> on a member of the document.\<close>

lemma test_member:
  "map_of kvs k = Some t \<Longrightarrow>
     apply_one (patch_of (47 # escape_path_component k) (OpTest v)) (TObj kvs) =
       test_verdict (TObj kvs) (deep_equals (Some t) (Some v))"
  using escape_no_slash [of k]
  by (simp add: apply_one_def apply_op_def patch_of_def path_components_def object_op_def read_member_def
      unescape_escape split_on_word)

text \<open>A path built from keys leads along these keys.\<close>

interpretation component: codec
  "\<lambda>k. Inr (escape_path_component k)" "\<lambda>i. Inr (unescape_path_component i)" "\<lambda>_. True"
  by unfold_locales (auto simp: unescape_escape)

definition path_of :: "js_string list \<Rightarrow> js_string" where
  "path_of ks = concat (map (\<lambda>k. 47 # escape_path_component k) ks)"

lemma path_components_path_of: "path_components (path_of ks) = map escape_path_component ks"
proof (induction ks)
  case (Cons k ks)
  obtain w ws where s: "split_on 47 (path_of ks) = w # ws" by (cases "split_on 47 (path_of ks)") auto
  have "path_of ks = [] \<or> (\<exists>t. path_of ks = 47 # t)" by (cases ks) (simp_all add: path_of_def)
  then have "split_on 47 (escape_path_component k @ path_of ks) =
      escape_path_component k # tl (split_on 47 (path_of ks))"
    using escape_no_slash [of k] by (auto simp: split_on_word split_on_append)
  with Cons show ?case by (simp add: path_components_def path_of_def)
qed (simp add: path_of_def path_components_def)

lemma path_keys: "map unescape_path_component (path_components (path_of ks)) = ks"
proof -
  have lift: "mapR (\<lambda>x. Inr (f x)) xs = Inr (map f xs)" for f :: "js_string \<Rightarrow> js_string" and xs
    by (induction xs) simp_all
  from component.dec_all [of ks "path_components (path_of ks)"] show ?thesis
    by (simp add: lift path_components_path_of)
qed

end
