(* ===== verification/Patch_Properties.thy ===== *)
theory Patch_Properties
  imports Swagger_Json_Patch
begin

text \<open>
  What json-patch promises: a generated patch turns the first document into the second, passes the
  module's own validator and keeps an observer's mirror up to date; and what its \<open>test\<close> compares.
\<close>

section \<open>compare and apply\<close>

text \<open>
  C2: The patch that \<open>compare\<close> generates from two documents, applied to the first, gives the second, up to
  the order of properties.  The documents have no array at a path where the other has an object
  (those are compared by key and never replaced), and no property named \<open>hasOwnProperty\<close> or
  \<open>__proto__\<close>.
\<close>

theorem compare_then_apply:
  assumes "wf_tree t" "wf_tree u" "plain_tree t" "plain_tree u" "same_shape t u"
    and "container t" "container u"
  shows "\<exists>ps v rs. compare_docs t u = Some (Inr ps) \<and> apply_patch t ps = Some (Inr (v, rs))
    \<and> json_eq v u"
  using compare_apply [OF assms] .

definition doc_before :: jtree where
  "doc_before = TObj [(js ''a/b'', TArr [TNum 1, TNum 2, TNum 3]), (js ''~'', TStr (js ''x'')), (js ''c'', TObj [])]"

definition doc_after :: jtree where
  "doc_after = TObj [(js ''c'', TObj [(js ''d'', TNull)]), (js ''a/b'', TArr [TNum 4]), (js ''e'', TBool True)]"

lemmas demo_docs = doc_before_def doc_after_def container_def hop_key_def proto_key_def

lemma compare_then_apply_witness:
  "\<exists>ps v rs. compare_docs doc_before doc_after = Some (Inr ps)
     \<and> apply_patch doc_before ps = Some (Inr (v, rs)) \<and> json_eq v doc_after"
  by (rule compare_then_apply) (simp_all add: demo_docs)

text \<open>
  An observer that generates its patches brings its mirror up to the document, so that the next round
  starts from there.
\<close>

theorem observer_mirror_follows:
  assumes "wf_tree t" "wf_tree u" "plain_tree t" "plain_tree u" "same_shape t u"
    and "container t" "container u"
  shows "\<exists>ps v. generate_patches t u = Some (Inr (v, ps)) \<and> json_eq v u"
  using generate_follows [OF assms] .

lemma observer_mirror_follows_witness:
  "\<exists>ps v. generate_patches doc_before doc_after = Some (Inr (v, ps)) \<and> json_eq v doc_after"
  by (rule observer_mirror_follows) (simp_all add: demo_docs)

text \<open>
  C29: Whatever two documents are compared, each operation of the generated patch passes the validator:
  it is an object with a known name, a path that starts with a slash and a value where its name
  needs one.
\<close>

theorem generated_patches_validate:
  assumes "compare_docs t u = Some (Inr ps)"
  shows "validate_sequence (TArr (map operation_json ps)) = None"
proof -
  have "diff_tree t u [] = Inr ps" using assms by (auto simp: compare_docs_def split: if_splits)
  then have "validate_operation (operation_json p) = None" if "p \<in> set ps" for p
    using diff_generated(1) that generated_validates by blast
  then show ?thesis by (rule sequence_validates)
qed

lemma generated_patches_validate_witness:
  "validate_sequence (TArr (map operation_json
     [patch_of (js ''/b'') OpRemove, patch_of (js ''/a'') (OpReplace (TBool True))])) = None"
proof -
  have "compare_docs (TObj [(js ''a'', TNull), (js ''b'', TNull)]) (TObj [(js ''a'', TBool True)]) =
      Some (Inr [patch_of (js ''/b'') OpRemove, patch_of (js ''/a'') (OpReplace (TBool True))])"
    by code_simp
  then show ?thesis by (rule generated_patches_validate)
qed

section \<open>test\<close>



text \<open>On a value without objects in it, \<open>test\<close> is equality.\<close>

lemma test_without_objects:
  "map_of kvs k = Some t \<Longrightarrow> no_objects t \<Longrightarrow>
     apply_one (patch_of (47 # escape_path_component k) (OpTest v)) (TObj kvs) =
       Some (Inr (TObj kvs, Verdict (t = v)))"
  by (simp add: test_member deep_equals_arrays test_verdict_def)

section \<open>Where compare goes wrong\<close>

text \<open>An array and an object at one path are compared by key: emptied, they count as equal.\<close>

lemma compare_confuses_arrays_and_objects: "compare_docs (TArr []) (TObj []) = Some (Inr [])"
  by code_simp

lemma compare_raises_on_hasOwnProperty:
  "map_of kvs hop_key \<noteq> None \<Longrightarrow> old \<noteq> [] \<Longrightarrow>
     compare_docs (TObj old) (TObj kvs) = Some (Inl (JsTypeError ''hasOwnProperty is not a function''))"
  by (cases old rule: rev_cases) (auto simp: compare_docs_def container_def diff_tree.simps Let_def)

lemma validator_accepts_inherited_names:
  "validate_operation (TObj [(js ''op'', TStr (js ''constructor'')), (js ''path'', TStr [])]) = None"
  by code_simp

end
