(* ===== verification/Swagger_Markup.thy ===== *)
theory Swagger_Markup
  imports Js_Json
begin

text \<open>
  The HTML renderer of CommonMark (swagger-ui-bundle.js): \<open>escapeXml\<close> (line 12), the state of a renderer
  (line 26) and the methods for the nodes of a document (line 111).  A document is the list of
  events of its walker.
\<close>

section \<open>escapeXml\<close>

definition escape_unit :: "int \<Rightarrow> js_string" where
  "escape_unit u =
     (if u = 38 then js ''&amp;'' else if u = 60 then js ''&lt;'' else if u = 62 then js ''&gt;''
      else if u = 34 then js ''&quot;'' else [u])"

definition hex_unit_ci :: "int \<Rightarrow> bool" where
  "hex_unit_ci u \<longleftrightarrow> unit_digit u \<or> 65 \<le> u \<and> u \<le> 70 \<or> 97 \<le> u \<and> u \<le> 102"

text \<open>
  How many units of \<open>s\<close> complete an entity after its ampersand:
  \<open>(?:#x[a-f0-9]{1,8}|#[0-9]{1,8}|[a-z][a-z0-9]{1,31});\<close> without regard to case.
\<close>

definition run_then :: "(int \<Rightarrow> bool) \<Rightarrow> nat \<Rightarrow> js_string \<Rightarrow> nat option" where
  "run_then P m s =
     (let n = length (takeWhile P s)
      in if 1 \<le> n \<and> n \<le> m \<and> n < length s \<and> s ! n = 59 then Some (Suc n) else None)"

definition entity_length :: "js_string \<Rightarrow> nat option" where
  "entity_length s =
     (case s of
        [] \<Rightarrow> None
      | u # r \<Rightarrow>
          if u = 35 then
            (case r of
               x # q \<Rightarrow> if x = 120 \<or> x = 88 then map_option (\<lambda>n. n + 2) (run_then hex_unit_ci 8 q)
                        else map_option Suc (run_then unit_digit 8 r)
             | [] \<Rightarrow> None)
          else if unit_lower u \<or> unit_upper u then map_option Suc (run_then unit_alnum 31 r)
          else None)"

lemma run_then_bound: "run_then P m s = Some n \<Longrightarrow> n \<le> length s"
  by (auto simp: run_then_def Let_def split: if_splits)

lemma entity_length_bound: "entity_length s = Some n \<Longrightarrow> n \<le> length s"
  by (fastforce simp: entity_length_def dest: run_then_bound split: list.splits if_splits)

function escape_preserving :: "js_string \<Rightarrow> js_string" where
  "escape_preserving s =
     (case s of
        [] \<Rightarrow> []
      | u # r \<Rightarrow>
          (case (if u = 38 then entity_length r else None) of
             Some n \<Rightarrow> u # take n r @ escape_preserving (drop n r)
           | None \<Rightarrow> escape_unit u @ escape_preserving r))"
  by auto
termination by (relation "measure length") auto

declare escape_preserving.simps [simp del]

definition special_unit :: "int \<Rightarrow> bool" where
  "special_unit u \<longleftrightarrow> u = 38 \<or> u = 60 \<or> u = 62 \<or> u = 34"

text \<open>
  The test uses a regular expression with the flag \<open>g\<close>, which starts where its previous match ended
  (\<open>lastIndex\<close>); the replacement by the same expression sets that index to 0, the other one leaves it.
\<close>

definition test_special :: "js_string \<Rightarrow> nat \<Rightarrow> bool \<times> nat" where
  "test_special e n =
     (let k = n + length (takeWhile (\<lambda>u. \<not> special_unit u) (drop n e))
      in if k < length e then (True, Suc k) else (False, 0))"

definition escape_xml :: "js_string \<Rightarrow> bool \<Rightarrow> nat \<Rightarrow> js_string \<times> nat" where
  "escape_xml e preserve n =
     (let (found, n) = test_special e n
      in if found then
           if preserve then (escape_preserving e, n) else (concat (map escape_unit e), 0)
         else (e, n))"

section \<open>The renderer\<close>

record markup =
  m_buffer :: js_string
  m_disabled :: int
  m_last :: js_string
  m_from :: nat

text \<open>\<open>m_from\<close> is where the next test of \<open>escapeXml\<close> starts; all renderers share it.\<close>

record render_options =
  o_safe :: bool
  o_softbreak :: js_string
  o_sourcepos :: bool

datatype node =
    Document | TextNode js_string | Softbreak | Linebreak | Emph | Strong
  | Link js_string js_string | Image js_string js_string
  | Code js_string | CodeBlock js_string js_string | HtmlInline js_string | HtmlBlock js_string
  | Paragraph bool | Heading nat | BlockQuote | Item | ListNode bool "int option" | ThematicBreak
  | CustomInline js_string js_string | CustomBlock js_string js_string

text \<open>
  \<open>Link\<close> and \<open>Image\<close> carry destination and title, \<open>CodeBlock\<close> its info and text, \<open>Paragraph\<close> whether it is in
  a tight list, \<open>ListNode\<close> whether it has bullets and where it starts, the custom nodes what they emit on
  entering and leaving.
\<close>

record event =
  e_node :: node
  e_entering :: bool
  e_pos :: "(int \<times> int \<times> int \<times> int) option"

definition lit :: "js_string \<Rightarrow> markup \<Rightarrow> markup" where
  "lit e s = s\<lparr>m_buffer := m_buffer s @ e, m_last := e\<rparr>"

definition cr :: "markup \<Rightarrow> markup" where
  "cr s = (if m_last s \<noteq> [10] then lit [10] s else s)"

definition esc :: "js_string \<Rightarrow> bool \<Rightarrow> markup \<Rightarrow> js_string \<times> markup" where
  "esc e preserve s = (let (x, n) = escape_xml e preserve (m_from s) in (x, s\<lparr>m_from := n\<rparr>))"

definition out :: "js_string \<Rightarrow> markup \<Rightarrow> markup" where
  "out e s = (let (x, s) = esc e False s in lit x s)"

definition tag :: "js_string \<Rightarrow> (js_string \<times> js_string) list \<Rightarrow> bool \<Rightarrow> markup \<Rightarrow> markup" where
  "tag e t n s =
     (if 0 < m_disabled s then s
      else s\<lparr>m_buffer := m_buffer s @ 60 # e
               @ concat (map (\<lambda>(a, v). 32 # a @ js ''=\"'' @ v @ js ''\"'') t)
               @ (if n then js '' /'' else []) @ js ''>'',
             m_last := js ''>''\<rparr>)"

definition text_of_int :: "int \<Rightarrow> js_string" where
  "text_of_int n = js (int_to_string n)"

definition attrs :: "render_options \<Rightarrow> event \<Rightarrow> (js_string \<times> js_string) list" where
  "attrs p e =
     (case (o_sourcepos p, e_pos e) of
        (True, Some (a, b, c, d)) \<Rightarrow>
          [(js ''data-sourcepos'',
            text_of_int a @ js '':'' @ text_of_int b @ js ''-'' @ text_of_int c @ js '':'' @ text_of_int d)]
      | _ \<Rightarrow> [])"

text \<open>
  \<open>/^javascript:|vbscript:|file:|data:/i\<close>, where the anchor belongs to the first alternative only, but not
  \<open>/^data:image\/(?:png|gif|jpeg|webp)/i\<close>.
\<close>

fun contains_units :: "js_string \<Rightarrow> js_string \<Rightarrow> bool" where
  "contains_units [] n = (n = [])"
| "contains_units (u # s) n = (startswith (u # s) n \<or> contains_units s n)"

definition potentially_unsafe :: "js_string \<Rightarrow> bool" where
  "potentially_unsafe e =
     (let l = map ascii_lower e
      in (startswith l (js ''javascript:'') \<or> contains_units l (js ''vbscript:'')
          \<or> contains_units l (js ''file:'') \<or> contains_units l (js ''data:''))
         \<and> \<not> list_ex (\<lambda>x. startswith l (js ''data:image/'' @ js x)) [''png'', ''gif'', ''jpeg'', ''webp''])"

definition titled :: "js_string \<Rightarrow> markup \<Rightarrow> (js_string \<times> js_string) list \<times> markup" where
  "titled t s = (if t = [] then ([], s) else let (x, s) = esc t True s in ([(js ''title'', x)], s))"

definition language_of :: "js_string \<Rightarrow> js_string" where
  "language_of info = takeWhile (\<lambda>u. \<not> unit_space u) info"

definition omitted_html :: js_string where
  "omitted_html = js ''<!-- raw HTML omitted -->''"

definition paired :: "js_string \<Rightarrow> bool \<Rightarrow> markup \<Rightarrow> markup" where
  "paired e t s = tag (if t then e else 47 # e) [] False s"

definition link :: "render_options \<Rightarrow> (js_string \<times> js_string) list \<Rightarrow> js_string \<Rightarrow> js_string \<Rightarrow> markup \<Rightarrow> markup" where
  "link p a d ti s =
     (let (h, s) = (if o_safe p \<and> potentially_unsafe d then ([], s)
                    else let (x, s) = esc d True s in ([(js ''href'', x)], s));
          (t, s) = titled ti s
      in tag (js ''a'') (a @ h @ t) False s)"

definition image :: "render_options \<Rightarrow> js_string \<Rightarrow> js_string \<Rightarrow> bool \<Rightarrow> markup \<Rightarrow> markup" where
  "image p d ti t s =
     (if t then
        (let s = (if m_disabled s = 0 then
                    if o_safe p \<and> potentially_unsafe d then lit (js ''<img src=\"\" alt=\"'') s
                    else let (x, s) = esc d True s in lit (js ''<img src=\"'' @ x @ js ''\" alt=\"'') s
                  else s)
         in s\<lparr>m_disabled := m_disabled s + 1\<rparr>)
      else
        (let s = s\<lparr>m_disabled := m_disabled s - 1\<rparr>
         in if m_disabled s = 0 then
              lit (js ''\" />'')
                (if ti = [] then s
                 else let (x, s) = esc ti True s in lit (js ''\" title=\"'' @ x) s)
            else s))"

definition code_block :: "(js_string \<times> js_string) list \<Rightarrow> js_string \<Rightarrow> js_string \<Rightarrow> markup \<Rightarrow> markup" where
  "code_block a i l s =
     (let (a, s) = (if language_of i = [] then (a, s)
                    else let (x, s) = esc (language_of i) True s
                         in (a @ [(js ''class'', js ''language-'' @ x)], s))
      in cr (tag (js ''/pre'') [] False (tag (js ''/code'') [] False (out l
           (tag (js ''code'') a False (tag (js ''pre'') [] False (cr s)))))))"

definition block :: "js_string \<Rightarrow> (js_string \<times> js_string) list \<Rightarrow> bool \<Rightarrow> markup \<Rightarrow> markup" where
  "block e a t s = (if t then cr (tag e a False (cr s)) else cr (tag (47 # e) [] False (cr s)))"

definition render_event :: "render_options \<Rightarrow> event \<Rightarrow> markup \<Rightarrow> markup" where
  "render_event p e s =
     (let t = e_entering e; a = attrs p e in
      case e_node e of
        Document \<Rightarrow> s
      | TextNode l \<Rightarrow> out l s
      | Softbreak \<Rightarrow> lit (o_softbreak p) s
      | Linebreak \<Rightarrow> cr (tag (js ''br'') [] True s)
      | Emph \<Rightarrow> paired (js ''em'') t s
      | Strong \<Rightarrow> paired (js ''strong'') t s
      | Link d ti \<Rightarrow>
          if t then link p a d ti s else tag (js ''/a'') [] False s
      | Image d ti \<Rightarrow> image p d ti t s
      | Code l \<Rightarrow> tag (js ''/code'') [] False (out l (tag (js ''code'') [] False s))
      | CodeBlock i l \<Rightarrow> code_block a i l s
      | HtmlInline l \<Rightarrow> lit (if o_safe p then omitted_html else l) s
      | HtmlBlock l \<Rightarrow> cr (lit (if o_safe p then omitted_html else l) (cr s))
      | Paragraph tight \<Rightarrow>
          if tight then s
          else if t then tag (js ''p'') a False (cr s)
          else cr (tag (js ''/p'') [] False s)
      | Heading n \<Rightarrow>
          (let h = js ''h'' @ text_of_int (int n) in
           if t then tag h a False (cr s) else cr (tag (47 # h) [] False s))
      | BlockQuote \<Rightarrow> block (js ''blockquote'') a t s
      | Item \<Rightarrow> if t then tag (js ''li'') a False s else cr (tag (js ''/li'') [] False s)
      | ListNode bullet start \<Rightarrow>
          block (if bullet then js ''ul'' else js ''ol'')
            (a @ (case start of None \<Rightarrow> [] | Some i \<Rightarrow> if i = 1 then [] else [(js ''start'', text_of_int i)])) t s
      | ThematicBreak \<Rightarrow> cr (tag (js ''hr'') a True (cr s))
      | CustomInline x y \<Rightarrow>
          if t \<and> x \<noteq> [] then lit x s else if \<not> t \<and> y \<noteq> [] then lit y s else s
      | CustomBlock x y \<Rightarrow>
          cr (if t \<and> x \<noteq> [] then lit x (cr s) else if \<not> t \<and> y \<noteq> [] then lit y (cr s) else cr s))"

definition new_renderer :: "nat \<Rightarrow> markup" where
  "new_renderer n = \<lparr>m_buffer = [], m_disabled = 0, m_last = [10], m_from = n\<rparr>"

definition render :: "render_options \<Rightarrow> event list \<Rightarrow> markup \<Rightarrow> markup" where
  "render p es s = fold (render_event p) es (s\<lparr>m_buffer := [], m_last := [10]\<rparr>)"

section \<open>What escaping does\<close>

definition markup_unit :: "int \<Rightarrow> bool" where
  "markup_unit u \<longleftrightarrow> u = 60 \<or> u = 62 \<or> u = 34"

lemma special_markup: "special_unit u \<longleftrightarrow> u = 38 \<or> markup_unit u"
  by (auto simp: special_unit_def markup_unit_def)

lemma test_special_later:
  "(\<exists>i. n \<le> i \<and> i < length e \<and> special_unit (e ! i)) \<longleftrightarrow> (\<exists>u \<in> set (drop n e). special_unit u)"
proof
  assume "\<exists>i. n \<le> i \<and> i < length e \<and> special_unit (e ! i)"
  then obtain i where i: "n \<le> i" "i < length e" "special_unit (e ! i)" by blast
  then have "drop n e ! (i - n) = e ! i" "i - n < length (drop n e)" by auto
  with i(3) show "\<exists>u \<in> set (drop n e). special_unit u" by (metis nth_mem)
next
  assume "\<exists>u \<in> set (drop n e). special_unit u"
  then obtain j where "j < length (drop n e)" "special_unit (drop n e ! j)" by (auto simp: in_set_conv_nth)
  then show "\<exists>i. n \<le> i \<and> i < length e \<and> special_unit (e ! i)" by (intro exI [of _ "n + j"]) auto
qed

lemma test_special_found:
  "fst (test_special e n) \<longleftrightarrow> (\<exists>i. n \<le> i \<and> i < length e \<and> special_unit (e ! i))"
proof -
  let ?k = "length (takeWhile (\<lambda>u. \<not> special_unit u) (drop n e))"
  have "n + ?k < length e \<longleftrightarrow> (\<exists>u \<in> set (drop n e). special_unit u)"
  proof
    assume "n + ?k < length e"
    then have k: "?k < length (drop n e)" by simp
    from nth_length_takeWhile [OF this] nth_mem [OF k] show "\<exists>u \<in> set (drop n e). special_unit u" by blast
  next
    assume "\<exists>u \<in> set (drop n e). special_unit u"
    then have "takeWhile (\<lambda>u. \<not> special_unit u) (drop n e) \<noteq> drop n e"
      using takeWhile_eq_all_conv [of "\<lambda>u. \<not> special_unit u" "drop n e"] by auto
    then have "?k \<noteq> length (drop n e)"
      using takeWhile_eq_take [of "\<lambda>u. \<not> special_unit u" "drop n e"] by auto
    with length_takeWhile_le [of "\<lambda>u. \<not> special_unit u" "drop n e"] show "n + ?k < length e" by auto
  qed
  then show ?thesis unfolding test_special_later by (simp add: test_special_def Let_def)
qed

lemma test_special_lost: "\<not> fst (test_special e n) \<Longrightarrow> test_special e n = (False, 0)"
  by (simp add: test_special_def Let_def split: if_splits)

lemma escape_unit_safe: "u \<in> set (escape_unit v) \<Longrightarrow> \<not> markup_unit u"
  by (auto simp: escape_unit_def markup_unit_def js_def split: if_splits)

text \<open>The two ways on of the scan that keeps entities, as equations and as an induction.\<close>

lemma escape_preserving_Nil: "escape_preserving [] = []"
  by (subst escape_preserving.simps) simp

lemma escape_preserving_entity:
  "entity_length r = Some n \<Longrightarrow>
     escape_preserving (38 # r) = 38 # take n r @ escape_preserving (drop n r)"
  by (subst escape_preserving.simps) simp

lemma escape_preserving_unit:
  "u \<noteq> 38 \<or> entity_length r = None \<Longrightarrow>
     escape_preserving (u # r) = escape_unit u @ escape_preserving r"
  by (subst escape_preserving.simps) auto

lemmas escape_preserving_eqs = escape_preserving_Nil escape_preserving_entity escape_preserving_unit

lemma escape_induct [case_names Nil entity unit]:
  assumes "P []"
    and "\<And>r n. entity_length r = Some n \<Longrightarrow> P (drop n r) \<Longrightarrow> P (38 # r)"
    and "\<And>u r. u \<noteq> 38 \<or> entity_length r = None \<Longrightarrow> P r \<Longrightarrow> P (u # r)"
  shows "P e"
proof (induction e rule: measure_induct_rule [of length])
  case (less e)
  show ?case
  proof (cases e)
    case (Cons u r)
    show ?thesis
    proof (cases "u = 38 \<and> entity_length r \<noteq> None")
      case True
      then obtain n where "entity_length r = Some n" by auto
      moreover have "P (drop n r)" using less Cons by simp
      ultimately show ?thesis using assms(2) True Cons by simp
    next
      case False
      moreover have "P r" using less Cons by simp
      ultimately show ?thesis using assms(3) Cons by simp
    qed
  qed (simp add: assms(1))
qed

lemma run_then_units: "run_then P m s = Some n \<Longrightarrow> u \<in> set (take n s) \<Longrightarrow> P u \<or> u = 59"
proof -
  assume r: "run_then P m s = Some n" and u: "u \<in> set (take n s)"
  let ?k = "length (takeWhile P s)"
  have n: "n = Suc ?k" "?k < length s" "s ! ?k = 59" using r by (auto simp: run_then_def Let_def split: if_splits)
  then have "take n s = takeWhile P s @ [59]" by (simp add: take_Suc_conv_app_nth takeWhile_eq_take [symmetric])
  with u show "P u \<or> u = 59" using set_takeWhileD [of u P s] by auto
qed

lemma entity_units: "entity_length s = Some n \<Longrightarrow> u \<in> set (take n s) \<Longrightarrow> \<not> markup_unit u"
proof (rule notI)
  assume e: "entity_length s = Some n" "u \<in> set (take n s)" and m: "markup_unit u"
  have "\<not> (unit_alnum u \<or> hex_unit_ci u \<or> unit_digit u \<or> u = 59 \<or> u = 35 \<or> u = 120 \<or> u = 88)"
    using m by (auto simp: markup_unit_def hex_unit_ci_def unit_defs)
  with e show False
    by (auto simp: entity_length_def take_Suc numeral_2_eq_2 unit_alnum_def dest!: run_then_units
             split: list.splits if_splits)
qed

lemma escape_preserving_safe: "u \<in> set (escape_preserving e) \<Longrightarrow> \<not> markup_unit u"
proof (induction e rule: escape_induct)
  case (entity r n)
  then show ?case using entity_units [OF entity.hyps] by (auto simp: escape_preserving_eqs markup_unit_def)
next
  case (unit v r)
  then show ?case using escape_unit_safe by (auto simp: escape_preserving_eqs)
qed (simp add: escape_preserving_eqs)

lemma escape_xml_plain:
  "\<not> fst (test_special e n) \<Longrightarrow> escape_xml e preserve n = (e, 0)"
  by (simp add: escape_xml_def test_special_lost)

lemma escape_xml_safe:
  "fst (test_special e n) \<Longrightarrow> u \<in> set (fst (escape_xml e preserve n)) \<Longrightarrow> \<not> markup_unit u"
  by (auto simp: escape_xml_def split: prod.splits if_splits dest: escape_preserving_safe escape_unit_safe)

lemma escape_xml_units_iff:
  "(\<forall>u \<in> set (fst (escape_xml e preserve n)). \<not> markup_unit u) \<longleftrightarrow>
     (\<forall>u \<in> set e. \<not> markup_unit u) \<or> (\<exists>i. n \<le> i \<and> i < length e \<and> special_unit (e ! i))"
proof (cases "fst (test_special e n)")
  case True
  then show ?thesis using escape_xml_safe [OF True] test_special_found [of e n] by blast
next
  case False
  then show ?thesis using escape_xml_plain [OF False] test_special_found [of e n] by auto
qed

text \<open>What is escaped already stays as it is when entities are kept.\<close>

lemma run_then_take: "run_then P m s = Some n \<Longrightarrow> run_then P m (take n s @ t) = Some n"
proof -
  assume r: "run_then P m s = Some n"
  let ?k = "length (takeWhile P s)"
  have n: "n = Suc ?k" "1 \<le> ?k" "?k \<le> m" "?k < length s" "s ! ?k = 59"
    using r by (auto simp: run_then_def Let_def split: if_splits)
  then have eq: "take n s @ t = takeWhile P s @ 59 # t"
    by (simp add: take_Suc_conv_app_nth takeWhile_eq_take [symmetric])
  have "\<not> P 59" using n(4,5) nth_length_takeWhile [of P s] by simp
  then have "takeWhile P (takeWhile P s @ 59 # t) = takeWhile P s"
    by (subst takeWhile_append2) (auto dest: set_takeWhileD)
  with n show ?thesis unfolding eq run_then_def by (simp add: Let_def nth_append)
qed

lemma entity_length_take:
  assumes "entity_length s = Some n"
  shows "entity_length (take n s @ t) = Some n"
proof -
  obtain u r where s: "s = u # r" using assms by (cases s) (auto simp: entity_length_def)
  show ?thesis
  proof (cases "u = 35")
    case True
    then obtain x q where r: "r = x # q" using assms s by (cases r) (auto simp: entity_length_def)
    show ?thesis
    proof (cases "x = 120 \<or> x = 88")
      case True
      then obtain m where "run_then hex_unit_ci 8 q = Some m" "n = Suc (Suc m)"
        using assms s r \<open>u = 35\<close> by (auto simp: entity_length_def)
      then show ?thesis
        using s r \<open>u = 35\<close> True run_then_take [of hex_unit_ci 8 q m t] by (simp add: entity_length_def)
    next
      case False
      then obtain m where m: "run_then unit_digit 8 r = Some m" "n = Suc m"
        using assms s r \<open>u = 35\<close> by (auto simp: entity_length_def)
      then have "take m r @ t = x # take (m - 1) q @ t"
        using r by (cases m) (auto simp: run_then_def Let_def split: if_splits)
      then show ?thesis
        using s m \<open>u = 35\<close> False run_then_take [OF m(1), of t] by (simp add: entity_length_def)
    qed
  next
    case False
    then obtain m where "run_then unit_alnum 31 r = Some m" "n = Suc m" "unit_lower u \<or> unit_upper u"
      using assms s by (auto simp: entity_length_def split: if_splits)
    then show ?thesis
      using s False run_then_take [of unit_alnum 31 r m t] by (simp add: entity_length_def)
  qed
qed

lemma escape_preserving_taken:
  assumes "entity_length e = Some n"
  shows "escape_preserving (38 # take n e @ t) = 38 # take n e @ escape_preserving t"
proof -
  have "n \<le> length e" using assms by (rule entity_length_bound)
  with escape_preserving_entity [OF entity_length_take [OF assms]] show ?thesis by simp
qed

lemma escaped_entities:
  "entity_length [97, 109, 112, 59] = Some 4" "entity_length [108, 116, 59] = Some 3"
  "entity_length [103, 116, 59] = Some 3" "entity_length [113, 117, 111, 116, 59] = Some 5"
  by (simp_all add: entity_length_def run_then_def unit_defs)

lemma escape_preserving_escaped: "escape_preserving (escape_unit u @ t) = escape_unit u @ escape_preserving t"
proof (cases "special_unit u")
  case True
  then consider "escape_unit u = 38 # [97, 109, 112, 59]" | "escape_unit u = 38 # [108, 116, 59]"
    | "escape_unit u = 38 # [103, 116, 59]" | "escape_unit u = 38 # [113, 117, 111, 116, 59]"
    by (auto simp: special_unit_def escape_unit_def)
  then show ?thesis
    using escaped_entities [THEN escape_preserving_taken, of t] by cases simp_all
next
  case False
  then have "u \<noteq> 38" "escape_unit u = [u]" by (auto simp: special_unit_def escape_unit_def)
  then show ?thesis using escape_preserving_unit [of u t] by simp
qed

lemma escape_preserving_twice: "escape_preserving (escape_preserving e) = escape_preserving e"
proof (induction e rule: escape_induct)
  case (entity r n)
  then show ?case by (simp add: escape_preserving_entity escape_preserving_taken)
next
  case (unit u r)
  then show ?case by (simp add: escape_preserving_unit escape_preserving_escaped)
qed (simp add: escape_preserving_Nil)

text \<open>Different texts are escaped differently.\<close>

lemma escape_unit_eq:
  "escape_unit u @ s = escape_unit v @ t \<longleftrightarrow> u = v \<and> s = t"
  by (auto simp: escape_unit_def js_def split: if_splits)

lemma escape_units_inj: "concat (map escape_unit e) = concat (map escape_unit d) \<longleftrightarrow> e = d"
proof (induction e arbitrary: d)
  case Nil
  have "escape_unit u \<noteq> []" for u by (simp add: escape_unit_def js_def)
  then show ?case by (cases d) auto
next
  case (Cons u e)
  have "escape_unit v \<noteq> []" for v by (simp add: escape_unit_def js_def)
  with Cons show ?case by (cases d) (auto simp: escape_unit_eq)
qed

section \<open>The tags of the output\<close>

text \<open>
  A reader of the output is in the text, in a tag or in a quoted attribute value; the skeleton of the output
  is what it reads in tags.
\<close>

datatype place = InText | InTag | InValue

fun scan_unit :: "place \<Rightarrow> int \<Rightarrow> place \<times> js_string" where
  "scan_unit InText u = (if u = 60 then (InTag, [u]) else (InText, []))"
| "scan_unit InTag u = (if u = 62 then InText else if u = 34 then InValue else InTag, [u])"
| "scan_unit InValue u = (if u = 34 then (InTag, [u]) else (InValue, []))"

fun scan_markup :: "place \<Rightarrow> js_string \<Rightarrow> place \<times> js_string" where
  "scan_markup q [] = (q, [])"
| "scan_markup q (u # s) =
     (let (q, e) = scan_unit q u; (q, r) = scan_markup q s in (q, e @ r))"

definition skeleton :: "js_string \<Rightarrow> js_string" where
  "skeleton s = snd (scan_markup InText s)"

lemma scan_markup_append:
  "scan_markup q (s @ t) =
     (let (q, e) = scan_markup q s; (q, r) = scan_markup q t in (q, e @ r))"
  by (induction s arbitrary: q) (auto split: prod.splits)

lemma scan_text: "60 \<notin> set s \<Longrightarrow> scan_markup InText s = (InText, [])"
  by (induction s) auto

lemma scan_value: "34 \<notin> set s \<Longrightarrow> scan_markup InValue s = (InValue, [])"
  by (induction s) auto

lemma scan_tag: "\<forall>u \<in> set s. u \<noteq> 34 \<and> u \<noteq> 62 \<Longrightarrow> scan_markup InTag s = (InTag, s)"
  by (induction s) auto

definition attribute_text :: "(js_string \<times> js_string) list \<Rightarrow> js_string" where
  "attribute_text t = concat (map (\<lambda>(a, v). 32 # a @ js ''=\"'' @ v @ js ''\"'') t)"

lemma scan_attributes:
  "\<forall>(a, v) \<in> set t. (\<forall>u \<in> set a. u \<noteq> 34 \<and> u \<noteq> 62) \<and> 34 \<notin> set v \<Longrightarrow>
     scan_markup InTag (attribute_text t) = (InTag, concat (map (\<lambda>(a, v). 32 # a @ js ''=\"\"'') t))"
proof (induction t)
  case (Cons x t)
  obtain a v where x: "x = (a, v)" by (cases x)
  with Cons.prems have "scan_markup InTag a = (InTag, a)" "scan_markup InValue v = (InValue, [])"
    by (simp_all add: scan_tag scan_value)
  with Cons x show ?case by (simp add: attribute_text_def scan_markup_append js_def)
qed (simp add: attribute_text_def)

section \<open>The tags do not depend on the texts\<close>

text \<open>Two states of a renderer whose outputs have the same skeleton.\<close>

definition place_of :: "markup \<Rightarrow> place" where
  "place_of s = (if m_disabled s = 0 then InText else InValue)"

definition same_markup :: "markup \<Rightarrow> markup \<Rightarrow> bool" where
  "same_markup s s' \<longleftrightarrow>
     0 \<le> m_disabled s \<and> m_disabled s = m_disabled s' \<and> m_from s = 0 \<and> m_from s' = 0
     \<and> scan_markup InText (m_buffer s) = scan_markup InText (m_buffer s')
     \<and> fst (scan_markup InText (m_buffer s)) = place_of s"

lemma same_markup_lit:
  assumes "same_markup s s'" "scan_markup (place_of s) x = scan_markup (place_of s) x'"
    and "fst (scan_markup (place_of s) x) = place_of s"
  shows "same_markup (lit x s) (lit x' s')"
  using assms by (auto simp: same_markup_def place_of_def lit_def scan_markup_append split: prod.splits)

text \<open>A text is quiet when it stays text, or value, wherever it stands.\<close>

definition quiet :: "js_string \<Rightarrow> bool" where
  "quiet x \<longleftrightarrow> 60 \<notin> set x \<and> 34 \<notin> set x"

lemma scan_quiet: "quiet x \<Longrightarrow> scan_markup (place_of s) x = (place_of s, [])"
  by (auto simp: quiet_def place_of_def intro!: scan_text scan_value)

lemma same_markup_quiet: "same_markup s s' \<Longrightarrow> quiet x \<Longrightarrow> quiet x' \<Longrightarrow> same_markup (lit x s) (lit x' s')"
  by (rule same_markup_lit) (simp_all add: scan_quiet)

lemma same_markup_quiet_left: "same_markup s s' \<Longrightarrow> quiet x \<Longrightarrow> same_markup (lit x s) s'"
  by (auto simp: same_markup_def place_of_def lit_def scan_markup_append quiet_def scan_text scan_value
           split: prod.splits)

lemma same_markup_sym: "same_markup s s' \<Longrightarrow> same_markup s' s"
  unfolding same_markup_def place_of_def by (elim conjE) simp

lemma same_markup_last: "same_markup (s\<lparr>m_last := x\<rparr>) (s'\<lparr>m_last := y\<rparr>) = same_markup s s'"
  by (simp add: same_markup_def place_of_def)

lemma same_markup_cr: "same_markup s s' \<Longrightarrow> same_markup (cr s) (cr s')"
proof -
  assume s: "same_markup s s'"
  have "quiet [10]" by (simp add: quiet_def)
  with s show ?thesis
    using same_markup_quiet [OF s] same_markup_quiet_left [OF s]
      same_markup_quiet_left [OF same_markup_sym [OF s], THEN same_markup_sym]
    by (auto simp: cr_def)
qed

lemma same_markup_out: "same_markup s s' \<Longrightarrow> same_markup (out l s) (out l' s')"
proof -
  assume s: "same_markup s s'"
  have out: "out l s = lit (concat (map escape_unit l)) s" if "m_from s = 0" for l s
  proof (cases "fst (test_special l 0)")
    case True
    have "escape_xml l False 0 = (concat (map escape_unit l), 0)"
      using True by (cases "test_special l 0") (simp add: escape_xml_def)
    then show ?thesis using that by (cases s) (simp add: out_def esc_def lit_def)
  next
    case False
    then have "\<forall>u \<in> set l. \<not> special_unit u" using test_special_found [of l 0] by (auto simp: in_set_conv_nth)
    then have "concat (map escape_unit l) = l" by (induction l) (auto simp: escape_unit_def special_unit_def)
    then show ?thesis using that escape_xml_plain [OF False] by (simp add: out_def esc_def lit_def)
  qed
  have "quiet (concat (map escape_unit l))" for l
    using escape_unit_safe by (force simp: quiet_def markup_unit_def)
  moreover have "m_from s = 0" "m_from s' = 0" using s by (simp_all add: same_markup_def)
  ultimately show ?thesis using same_markup_quiet [OF s] by (simp add: out)
qed

definition plain_name :: "js_string \<Rightarrow> bool" where
  "plain_name a \<longleftrightarrow> (\<forall>u \<in> set a. u \<noteq> 34 \<and> u \<noteq> 62)"

definition like_attributes :: "(js_string \<times> js_string) list \<Rightarrow> (js_string \<times> js_string) list \<Rightarrow> bool" where
  "like_attributes t t' \<longleftrightarrow>
     map fst t = map fst t' \<and> (\<forall>(a, v) \<in> set t \<union> set t'. plain_name a \<and> 34 \<notin> set v)"

lemma same_markup_tag:
  assumes "same_markup s s'" "plain_name e" "like_attributes t t'"
  shows "same_markup (tag e t n s) (tag e t' n s')"
proof (cases "0 < m_disabled s")
  case True
  moreover from True have "0 < m_disabled s'" using assms(1) by (simp add: same_markup_def)
  ultimately show ?thesis using assms(1) by (simp only: tag_def if_True)
next
  case False
  then have inside: "place_of s = InText" "m_disabled s = 0" "m_disabled s' = 0"
    using assms(1) by (auto simp: same_markup_def place_of_def)
  let ?o = "\<lambda>t. 60 # e @ attribute_text t @ (if n then js '' /'' else []) @ js ''>''"
  have tag: "tag e t n s = (lit (?o t) s)\<lparr>m_last := js ''>''\<rparr>" if "m_disabled s = 0" for t s
    using that by (simp add: tag_def lit_def attribute_text_def)
  have names: "concat (map (\<lambda>(a, v). 32 # a @ js ''=\"\"'') t) = concat (map (\<lambda>a. 32 # a @ js ''=\"\"'') (map fst t))"
    for t :: "(js_string \<times> js_string) list" by (simp add: case_prod_unfold comp_def)
  have scan: "scan_markup InText (?o t) =
      (InText, 60 # e @ concat (map (\<lambda>a. 32 # a @ js ''=\"\"'') (map fst t)) @ (if n then js '' /'' else []) @ js ''>'')"
    if "\<forall>(a, v) \<in> set t. plain_name a \<and> 34 \<notin> set v" for t
    using that scan_attributes [of t] scan_tag [of e] assms(2) names [of t]
    by (auto simp: scan_markup_append plain_name_def js_def)
  have "same_markup (lit (?o t) s) (lit (?o t') s')"
    using assms(1,3) inside scan [of t] scan [of t'] by (intro same_markup_lit) (auto simp: like_attributes_def)
  then show ?thesis using inside tag by (simp add: same_markup_last)
qed

text \<open>Going into an attribute value, the alternative text of an image, and leaving it.\<close>

lemma same_markup_open:
  assumes "same_markup s s'" "m_disabled s = 0"
    and "scan_markup InText x = (InValue, e)" "scan_markup InText x' = (InValue, e)"
  shows "same_markup ((lit x s)\<lparr>m_disabled := m_disabled s + 1\<rparr>) ((lit x' s')\<lparr>m_disabled := m_disabled s' + 1\<rparr>)"
  using assms by (auto simp: same_markup_def place_of_def lit_def scan_markup_append split: prod.splits)

lemma same_markup_close:
  assumes "same_markup s s'" "m_disabled s = 1"
    and "scan_markup InValue x = (InText, e)" "scan_markup InValue x' = (InText, e)"
  shows "same_markup (lit x (s\<lparr>m_disabled := 0\<rparr>)) (lit x' (s'\<lparr>m_disabled := 0\<rparr>))"
  using assms by (auto simp: same_markup_def place_of_def lit_def scan_markup_append split: prod.splits)

lemma same_markup_cong:
  assumes "same_markup t t'"
    and "m_buffer s = m_buffer t \<and> m_disabled s = m_disabled t \<and> m_from s = m_from t"
    and "m_buffer s' = m_buffer t' \<and> m_disabled s' = m_disabled t' \<and> m_from s' = m_from t'"
  shows "same_markup s s'"
proof -
  from assms(2,3) have "same_markup s s' = same_markup t t'"
    unfolding same_markup_def place_of_def by (elim conjE) (simp only:)
  with assms(1) show ?thesis by simp
qed

lemma same_markup_disabled:
  assumes "same_markup s s'" "m_disabled s \<noteq> 0" "0 < k"
  shows "same_markup (s\<lparr>m_disabled := k\<rparr>) (s'\<lparr>m_disabled := k\<rparr>)"
  using assms by (auto simp: same_markup_def place_of_def split: prod.splits)

definition plain_text :: "js_string \<Rightarrow> bool" where
  "plain_text d \<longleftrightarrow> (\<forall>u \<in> set d. \<not> special_unit u)"

lemma esc_plain: "plain_text d \<Longrightarrow> m_from s = 0 \<Longrightarrow> esc d True s = (d, s)"
proof -
  assume "plain_text d" "m_from s = 0"
  moreover from \<open>plain_text d\<close> have "escape_xml d True 0 = (d, 0)"
    by (intro escape_xml_plain) (auto simp: test_special_found plain_text_def)
  ultimately show "esc d True s = (d, s)" by (cases s) (simp add: esc_def)
qed

lemma plain_text_unquoted: "plain_text d \<Longrightarrow> 34 \<notin> set d"
  by (auto simp: plain_text_def special_unit_def)

text \<open>
  The document without its texts: literals are empty, a destination is only unsafe or not, a title and an info
  only there or not.
\<close>

definition erased_destination :: "render_options \<Rightarrow> js_string \<Rightarrow> js_string" where
  "erased_destination p d = (if o_safe p \<and> potentially_unsafe d then js ''file:'' else [])"

definition erased_text :: "js_string \<Rightarrow> js_string" where
  "erased_text t = (if t = [] then [] else js ''t'')"

fun erase :: "render_options \<Rightarrow> node \<Rightarrow> node" where
  "erase p (TextNode l) = TextNode []"
| "erase p (Link d t) = Link (erased_destination p d) (erased_text t)"
| "erase p (Image d t) = Image (erased_destination p d) (erased_text t)"
| "erase p (Code l) = Code []"
| "erase p (CodeBlock i l) = CodeBlock (erased_text (language_of i)) []"
| "erase p (HtmlInline l) = HtmlInline []"
| "erase p (HtmlBlock l) = HtmlBlock []"
| "erase p n = n"

fun renderable :: "render_options \<Rightarrow> node \<Rightarrow> bool" where
  "renderable p (Link d t) = (plain_text d \<and> plain_text t)"
| "renderable p (Image d t) = (plain_text d \<and> plain_text t)"
| "renderable p (CodeBlock i l) = plain_text (language_of i)"
| "renderable p (HtmlInline l) = o_safe p"
| "renderable p (HtmlBlock l) = o_safe p"
| "renderable p (CustomInline x y) = False"
| "renderable p (CustomBlock x y) = False"
| "renderable p n = True"

definition erase_event :: "render_options \<Rightarrow> event \<Rightarrow> event" where
  "erase_event p e = e\<lparr>e_node := erase p (e_node e)\<rparr>"

definition softbreak_closed :: "render_options \<Rightarrow> bool" where
  "softbreak_closed p \<longleftrightarrow> fst (scan_markup InText (o_softbreak p)) = InText \<and> 34 \<notin> set (o_softbreak p)"

definition image_step :: "event \<Rightarrow> int" where
  "image_step e = (case e_node e of Image d t \<Rightarrow> if e_entering e then 1 else - 1 | _ \<Rightarrow> 0)"

fun images_nested :: "int \<Rightarrow> event list \<Rightarrow> bool" where
  "images_nested n [] = True"
| "images_nested n (e # es) = (0 \<le> n + image_step e \<and> images_nested (n + image_step e) es)"

lemma digit_text: "u \<in> set (js (nat_to_string n)) \<Longrightarrow> 48 \<le> u \<and> u \<le> 57"
  using index_key_facts [of n] by (auto simp: index_key_def digits_def list_all_iff unit_defs)

lemma int_text: "u \<in> set (text_of_int n) \<Longrightarrow> u = 45 \<or> 48 \<le> u \<and> u \<le> 57"
  using digit_text by (auto simp: text_of_int_def int_to_string_def split: if_splits)

lemma int_text_plain: "plain_name (text_of_int n)" "34 \<notin> set (text_of_int n)"
  using int_text by (force simp: plain_name_def)+

lemma attrs_like: "like_attributes (attrs p e) (attrs p e)"
  using int_text_plain by (auto simp: like_attributes_def attrs_def plain_name_def js_def split: bool.splits option.splits)

lemma attrs_erased: "attrs p (erase_event p e) = attrs p e"
  by (simp add: attrs_def erase_event_def)

lemma like_attributes_simps [simp]:
  "like_attributes [] []"
  "like_attributes ((a, v) # t) ((b, w) # t') \<longleftrightarrow>
     a = b \<and> plain_name a \<and> 34 \<notin> set v \<and> 34 \<notin> set w \<and> like_attributes t t'"
  by (auto simp: like_attributes_def)

lemma like_attributes_append:
  "like_attributes t t' \<Longrightarrow> like_attributes r r' \<Longrightarrow> like_attributes (t @ r) (t' @ r')"
  by (auto simp: like_attributes_def)

lemma erased_destination:
  "plain_text (erased_destination p d)"
  "(o_safe p \<and> potentially_unsafe d) = (o_safe p \<and> potentially_unsafe (erased_destination p d))"
proof -
  have "potentially_unsafe (js ''file:'')" "\<not> potentially_unsafe []"
    by (auto simp: potentially_unsafe_def startswith_def ascii_lower_def unit_defs js_def)
  then show "plain_text (erased_destination p d)"
    "(o_safe p \<and> potentially_unsafe d) = (o_safe p \<and> potentially_unsafe (erased_destination p d))"
    by (auto simp: erased_destination_def plain_text_def special_unit_def)
qed

lemma erased_text:
  "plain_text (erased_text t)" "t = [] \<longleftrightarrow> erased_text t = []" "language_of (erased_text t) = erased_text t"
  by (auto simp: erased_text_def plain_text_def special_unit_def language_of_def unit_space_def between_def)

lemma plain_name_simps [simp]:
  "plain_name []" "plain_name (u # e) \<longleftrightarrow> u \<noteq> 34 \<and> u \<noteq> 62 \<and> plain_name e"
  "plain_name (d @ e) \<longleftrightarrow> plain_name d \<and> plain_name e"
  by (auto simp: plain_name_def)

lemma titled_plain:
  "plain_text t \<Longrightarrow> m_from s = 0 \<Longrightarrow>
     titled t s = (if t = [] then [] else [(js ''title'', t)], s)"
  by (simp add: titled_def esc_plain)

lemma same_markup_from: "same_markup s s' \<Longrightarrow> m_from s = 0 \<and> m_from s' = 0 \<and> m_disabled s' = m_disabled s"
  by (simp add: same_markup_def)

lemma same_markup_link:
  assumes "same_markup s s'" "like_attributes a a"
    and "plain_text d" "plain_text t" "plain_text d'" "plain_text t'"
    and "(o_safe p \<and> potentially_unsafe d) = (o_safe p \<and> potentially_unsafe d')" "t = [] \<longleftrightarrow> t' = []"
  shows "same_markup (link p a d t s) (link p a d' t' s')"
proof -
  let ?h = "\<lambda>d. if o_safe p \<and> potentially_unsafe d then [] else [(js ''href'', d)]"
  let ?t = "\<lambda>t. if t = [] then [] else [(js ''title'', t)]"
  have link: "link p a d t s = tag (js ''a'') (a @ ?h d @ ?t t) False s"
    if "plain_text d" "plain_text t" "m_from s = 0" for d t s
    using that by (simp add: link_def esc_plain titled_plain)
  have "like_attributes (a @ ?h d @ ?t t) (a @ ?h d' @ ?t t')"
    using assms(2-) by (intro like_attributes_append) (auto simp: plain_text_unquoted)
  then show ?thesis
    using assms(1,3-6) same_markup_from [OF assms(1)]
    by (simp add: link same_markup_tag)
qed

lemma scan_image_start:
  "34 \<notin> set d \<Longrightarrow> scan_markup InText (js ''<img src=\"'' @ d @ js ''\" alt=\"'') =
     (InValue, js ''<img src=\"\" alt=\"'')"
  by (simp add: scan_markup_append scan_value js_def)

lemma scan_image_end:
  "34 \<notin> set t \<Longrightarrow> scan_markup InValue (js ''\" title=\"'' @ t @ js ''\" />'') =
     (InText, js ''\" title=\"\" />'')"
  "scan_markup InValue (js ''\" />'') = (InText, js ''\" />'')"
  by (simp_all add: scan_markup_append scan_value js_def)

lemma same_markup_image_start:
  assumes "same_markup s s'" "plain_text d" "plain_text d'"
    and "(o_safe p \<and> potentially_unsafe d) = (o_safe p \<and> potentially_unsafe d')"
  shows "same_markup (image p d t True s) (image p d' t' True s')"
proof (cases "m_disabled s = 0")
  case True
  let ?x = "\<lambda>d. js ''<img src=\"'' @ (if o_safe p \<and> potentially_unsafe d then [] else d) @ js ''\" alt=\"''"
  have image: "image p d t True s = (lit (?x d) s)\<lparr>m_disabled := m_disabled s + 1\<rparr>"
    if "plain_text d" "m_from s = 0" "m_disabled s = 0" for d t s
    using that by (simp add: image_def esc_plain lit_def js_def)
  have scan: "scan_markup InText (?x d) = (InValue, js ''<img src=\"\" alt=\"'')" if "plain_text d" for d
    by (rule scan_image_start) (simp add: plain_text_unquoted [OF that])
  have from_0: "m_from s = 0" "m_from s' = 0" "m_disabled s' = 0"
    using same_markup_from [OF assms(1)] True by simp_all
  show ?thesis
    unfolding image [OF assms(2) from_0(1) True] image [OF assms(3) from_0(2,3)]
    by (rule same_markup_open [OF assms(1) True scan [OF assms(2)] scan [OF assms(3)]])
next
  case False
  then have "0 < m_disabled s + 1" using assms(1) by (simp add: same_markup_def)
  from same_markup_disabled [OF assms(1) False this] show ?thesis
    using False same_markup_from [OF assms(1)] by (simp add: image_def)
qed

lemma same_markup_image_end:
  assumes "same_markup s s'" "plain_text t" "plain_text t'" "t = [] \<longleftrightarrow> t' = []" "0 < m_disabled s"
  shows "same_markup (image p d t False s) (image p d' t' False s')"
proof (cases "m_disabled s = 1")
  case True
  let ?x = "\<lambda>t. (if t = [] then [] else js ''\" title=\"'' @ t) @ js ''\" />''"
  have image: "m_buffer (image p d t False s) = m_buffer (lit (?x t) (s\<lparr>m_disabled := 0\<rparr>))
      \<and> m_disabled (image p d t False s) = m_disabled (lit (?x t) (s\<lparr>m_disabled := 0\<rparr>))
      \<and> m_from (image p d t False s) = m_from (lit (?x t) (s\<lparr>m_disabled := 0\<rparr>))"
    if "plain_text t" "m_from s = 0" "m_disabled s = 1" for d t s
    using that by (simp add: image_def esc_plain lit_def)
  define e where "e = (if t = [] then js ''\" />'' else js ''\" title=\"\" />'')"
  have "scan_markup InValue (?x t) = (InText, e)" "scan_markup InValue (?x t') = (InText, e)"
    using assms(4) scan_image_end(2) scan_image_end(1) [OF plain_text_unquoted [OF assms(2)]]
      scan_image_end(1) [OF plain_text_unquoted [OF assms(3)]]
    by (simp_all only: e_def append_assoc append_Nil if_True if_False split: if_split) simp_all
  note close = same_markup_close [OF assms(1) True this]
  have from_0: "m_from s = 0" "m_from s' = 0" "m_disabled s' = 1"
    using same_markup_from [OF assms(1)] True by simp_all
  show ?thesis
    by (rule same_markup_cong [OF close image [OF assms(2) from_0(1) True] image [OF assms(3) from_0(2,3)]])
next
  case False
  with assms(5) have "0 < m_disabled s - 1" "m_disabled s \<noteq> 0" by simp_all
  from same_markup_disabled [OF assms(1) this(2,1)] show ?thesis
    using False same_markup_from [OF assms(1)] by (simp add: image_def)
qed

lemma same_markup_code_block:
  assumes "same_markup s s'" "like_attributes a a" "plain_text (language_of i)" "plain_text (language_of i')"
    and "language_of i = [] \<longleftrightarrow> language_of i' = []"
  shows "same_markup (code_block a i l s) (code_block a i' l' s')"
proof -
  let ?a = "\<lambda>i. if language_of i = [] then a else a @ [(js ''class'', js ''language-'' @ language_of i)]"
  have code: "code_block a i l s =
      cr (tag (js ''/pre'') [] False (tag (js ''/code'') [] False (out l
        (tag (js ''code'') (?a i) False (tag (js ''pre'') [] False (cr s))))))"
    if "plain_text (language_of i)" "m_from s = 0" for i l s
    using that by (simp add: code_block_def esc_plain)
  have "like_attributes (?a i) (?a i')"
    using assms(2-) by (auto intro!: like_attributes_append simp: plain_text_unquoted js_def)
  then show ?thesis
    using assms(1,3,4) same_markup_from [OF assms(1)]
    by (simp add: code same_markup_cr same_markup_tag same_markup_out)
qed

lemma same_markup_block:
  "same_markup s s' \<Longrightarrow> plain_name e \<Longrightarrow> like_attributes a a \<Longrightarrow> same_markup (block e a t s) (block e a t s')"
  by (simp add: block_def same_markup_cr same_markup_tag)

lemma omitted_quiet: "scan_markup InText omitted_html = (InText, omitted_html)" "34 \<notin> set omitted_html"
  by (simp_all add: omitted_html_def js_def)

lemma same_markup_same:
  "same_markup s s' \<Longrightarrow> fst (scan_markup InText x) = InText \<Longrightarrow> 34 \<notin> set x \<Longrightarrow>
     same_markup (lit x s) (lit x s')"
  by (rule same_markup_lit) (simp_all add: place_of_def scan_value)

lemmas same_markup_intros = same_markup_cr same_markup_out same_markup_tag same_markup_block

lemma same_markup_event:
  assumes "same_markup s s'" "renderable p (e_node e)" "softbreak_closed p" "0 \<le> m_disabled s + image_step e"
  shows "same_markup (render_event p e s) (render_event p (erase_event p e) s')"
proof -
  have erased: "e_node (erase_event p e) = erase p (e_node e)" "e_entering (erase_event p e) = e_entering e"
    by (simp_all add: erase_event_def)
  note like = attrs_like [of p e]
  have start: "like_attributes (attrs p e @ (case i of None \<Rightarrow> [] | Some i \<Rightarrow> if i = 1 then [] else [(js ''start'', text_of_int i)]))
      (attrs p e @ (case i of None \<Rightarrow> [] | Some i \<Rightarrow> if i = 1 then [] else [(js ''start'', text_of_int i)]))" for i
    using like by (intro like_attributes_append) (auto simp: int_text_plain split: option.splits)
  note rules = assms(1) like start int_text_plain same_markup_intros
  show ?thesis
  proof (cases "e_node e")
    case (Image d t)
    have event: "render_event p e s = image p d t (e_entering e) s"
      "render_event p (erase_event p e) s' = image p (erased_destination p d) (erased_text t) (e_entering e) s'"
      by (simp_all only: render_event_def erased Image erase.simps node.case Let_def)
    have plain: "plain_text d" "plain_text t" using assms(2) Image by simp_all
    show ?thesis
    proof (cases "e_entering e")
      case True
      then show ?thesis
        unfolding event using same_markup_image_start [OF assms(1) plain(1) erased_destination] by simp
    next
      case False
      then have "0 < m_disabled s" using assms(4) Image by (simp add: image_step_def)
      with False show ?thesis
        unfolding event using same_markup_image_end [OF assms(1) plain(2) erased_text(1,2)] by simp
    qed
  next
    case (Link d t)
    have event: "render_event p e s =
        (if e_entering e then link p (attrs p e) d t s else tag (js ''/a'') [] False s)"
      "render_event p (erase_event p e) s' =
        (if e_entering e then link p (attrs p e) (erased_destination p d) (erased_text t) s'
         else tag (js ''/a'') [] False s')"
      by (simp_all only: render_event_def erased Link erase.simps node.case Let_def attrs_erased)
    have plain: "plain_text d" "plain_text t" using assms(2) Link by simp_all
    show ?thesis
      unfolding event
      using same_markup_link [OF assms(1) like plain erased_destination(1) erased_text(1)
          erased_destination(2) erased_text(2)] same_markup_tag [OF assms(1)] by simp
  next
    case (CodeBlock i l)
    have event: "render_event p e s = code_block (attrs p e) i l s"
      "render_event p (erase_event p e) s' = code_block (attrs p e) (erased_text (language_of i)) [] s'"
      by (simp_all only: render_event_def erased CodeBlock erase.simps node.case Let_def attrs_erased)
    have "plain_text (language_of i)" using assms(2) CodeBlock by simp
    then show ?thesis
      unfolding event
      using same_markup_code_block [OF assms(1) like, of i "erased_text (language_of i)"]
        erased_text [of "language_of i"] by simp
  next
    case Softbreak
    then show ?thesis
      using assms(1,3) by (simp add: render_event_def erased softbreak_closed_def same_markup_same)
  next
    case (HtmlInline l)
    then show ?thesis
      using assms(1,2) by (simp add: render_event_def erased same_markup_same omitted_quiet)
  next
    case (HtmlBlock l)
    then show ?thesis
      using assms(1,2) by (simp add: render_event_def erased same_markup_same same_markup_cr omitted_quiet)
  next
    case (ListNode b i)
    show ?thesis
      using rules by (simp add: ListNode render_event_def erased attrs_erased)
  next
    case (Heading n)
    show ?thesis
      using rules by (simp add: Heading render_event_def erased attrs_erased Let_def)
  qed (use assms(2) rules in \<open>simp_all add: render_event_def erased attrs_erased paired_def\<close>)
qed

lemma disabled_event: "m_disabled (render_event p e s) = m_disabled s + image_step e"
proof -
  have lit: "m_disabled (lit x s) = m_disabled s" for x s by (simp add: lit_def)
  have cr: "m_disabled (cr s) = m_disabled s" for s by (simp add: cr_def lit)
  have esc: "m_disabled (snd (esc x b s)) = m_disabled s" for x b s by (simp add: esc_def case_prod_beta Let_def)
  have out: "m_disabled (out x s) = m_disabled s" for x s
    by (simp add: out_def lit esc case_prod_beta Let_def)
  have tag: "m_disabled (tag e t n s) = m_disabled s" for e t n s by (simp add: tag_def)
  have titled: "m_disabled (snd (titled t s)) = m_disabled s" for t s
    by (simp add: titled_def esc case_prod_beta Let_def)
  have link: "m_disabled (link p a d t s) = m_disabled s" for a d t s
    by (simp add: link_def tag titled esc case_prod_beta Let_def)
  have code: "m_disabled (code_block a i l s) = m_disabled s" for a i l s
    by (simp add: code_block_def tag cr out esc case_prod_beta Let_def)
  have image: "m_disabled (image p d t b s) = m_disabled s + (if b then 1 else - 1)" for d t b s
    by (simp add: image_def lit esc case_prod_beta Let_def)
  show ?thesis
    by (cases "e_node e")
       (simp_all add: render_event_def image_step_def image link code lit cr out tag block_def paired_def Let_def)
qed

lemma same_markup_render:
  assumes "same_markup s s'" "\<forall>e \<in> set es. renderable p (e_node e)" "softbreak_closed p"
    and "images_nested (m_disabled s) es"
  shows "same_markup (fold (render_event p) es s) (fold (render_event p) (map (erase_event p) es) s')"
  using assms
proof (induction es arbitrary: s s')
  case (Cons e es)
  have "same_markup (render_event p e s) (render_event p (erase_event p e) s')"
    using Cons.prems by (intro same_markup_event) simp_all
  moreover have "images_nested (m_disabled (render_event p e s)) es"
    using Cons.prems(4) by (simp add: disabled_event)
  ultimately show ?case using Cons.IH Cons.prems(2,3) by simp
qed simp

text \<open>
  Where the test starts late nothing is escaped: after a destination with a special unit at \<open>k\<close>, a text whose
  special units all stand at \<open>k\<close> or before is written as it is.
\<close>

lemma test_special_first:
  assumes "k < length e" "special_unit (e ! k)" "\<forall>i < k. \<not> special_unit (e ! i)"
  shows "test_special e 0 = (True, Suc k)"
proof -
  have "length (takeWhile (\<lambda>u. \<not> special_unit u) e) = k"
    using assms by (metis (no_types, lifting) length_takeWhile_less_P_nth takeWhile_eq_take_P_nth length_take min.absorb2 less_imp_le)
  with assms(1) show ?thesis by (simp add: test_special_def)
qed

lemma text_after_link:
  assumes "k < length d" "special_unit (d ! k)" "\<forall>i < k. \<not> special_unit (d ! i)"
    and "\<forall>i. k < i \<longrightarrow> i < length l \<longrightarrow> \<not> special_unit (l ! i)"
    and "\<not> (o_safe p \<and> potentially_unsafe d)" "m_disabled s = 0" "m_from s = 0"
    and "e_node e = Link d []" "e_entering e" "e_node f = TextNode l"
  shows "m_buffer (render_event p f (render_event p e s)) =
    m_buffer (tag (js ''a'') (attrs p e @ [(js ''href'', escape_preserving d)]) False s) @ l"
proof -
  have "escape_xml d True 0 = (escape_preserving d, Suc k)"
    using test_special_first [OF assms(1-3)] by (simp add: escape_xml_def)
  then have link: "render_event p e s =
      tag (js ''a'') (attrs p e @ [(js ''href'', escape_preserving d)]) False (s\<lparr>m_from := Suc k\<rparr>)"
    using assms(5-9) by (auto simp: render_event_def link_def esc_def titled_def)
  have "\<not> fst (test_special l (Suc k))"
    unfolding test_special_found using assms(4) by auto
  from escape_xml_plain [OF this, of False] have "out l (t\<lparr>m_from := Suc k\<rparr>) = lit l (t\<lparr>m_from := 0\<rparr>)" for t
    by (simp add: out_def esc_def)
  moreover have "tag x a b (s\<lparr>m_from := Suc k\<rparr>) = (tag x a b s)\<lparr>m_from := Suc k\<rparr>" for x a b
    by (simp add: tag_def)
  moreover have "render_event p f t = out l t" for t by (simp add: render_event_def assms(10))
  ultimately show ?thesis by (simp only: link) (simp add: lit_def)
qed

text \<open>From the start, the test decides nothing: escaping is the replacement of every special unit.\<close>

lemma escape_plain:
  "\<forall>u \<in> set e. \<not> special_unit u \<Longrightarrow> escape_preserving e = e \<and> concat (map escape_unit e) = e"
  by (induction e) (auto simp: escape_preserving_eqs escape_unit_def special_unit_def)

lemma escape_xml_0:
  "fst (escape_xml e preserve 0) = (if preserve then escape_preserving e else concat (map escape_unit e))"
proof (cases "fst (test_special e 0)")
  case True
  then show ?thesis by (cases "test_special e 0") (simp add: escape_xml_def)
next
  case False
  then have "\<forall>u \<in> set e. \<not> special_unit u" by (auto simp: test_special_found in_set_conv_nth)
  from escape_plain [OF this] escape_xml_plain [OF False] show ?thesis by simp
qed

end
