(* ===== verification/Markup_Properties.thy ===== *)
theory Markup_Properties
  imports Swagger_Markup
begin

text \<open>
  Properties of the HTML renderer of CommonMark: what escaping guarantees and where its guarantee ends, that
  the tags of the output do not depend on the texts of the document, and the texts that go out unescaped.
\<close>

section \<open>Escaping\<close>

text \<open>
  C14: Where the test starts at \<open>n\<close>, the result of \<open>escapeXml\<close> has a \<open><\<close>, \<open>>\<close> or quote exactly when the
  argument has one and no special unit at \<open>n\<close> or later.  From the start, escaping with entities kept does nothing to what
  is escaped already, and escaping without keeps different texts apart.
\<close>

theorem escape_xml_keeps_markup_out:
  "(list_ex markup_unit (fst (escape_xml e preserve n)) \<longleftrightarrow> list_ex markup_unit e \<and> \<not> list_ex special_unit (drop n e))
   \<and> fst (escape_xml (fst (escape_xml e True 0)) True 0) = fst (escape_xml e True 0)
   \<and> (fst (escape_xml e False 0) = fst (escape_xml d False 0) \<longleftrightarrow> e = d)"
proof -
  have "list_ex special_unit (drop n e) \<longleftrightarrow> (\<exists>i. n \<le> i \<and> i < length e \<and> special_unit (e ! i))"
    by (simp add: test_special_later list_ex_iff)
  then show ?thesis
    using escape_xml_units_iff [of e preserve n]
    by (simp add: escape_xml_0 escape_preserving_twice escape_units_inj list_ex_iff) blast
qed

section \<open>The tags of the output\<close>

text \<open>
  C5: A fresh renderer gives tags that no text of the document can add to, remove or change: the tags of the
  output, names and attribute names with everything but the values, are those of the document emptied of its
  texts, in which text, code and HTML are empty, and of a destination is left only whether it counts as unsafe,
  of a title or an info word only whether it is there.  This holds when the test of \<open>escapeXml\<close>, which all
  renderers share, stands at its start (a document rendered before may have left it elsewhere, and C6 shows what
  follows then); when destinations, titles and info words have no special units; in safe mode if there is HTML;
  when there are no custom nodes; when image events are nested; and when the option for soft breaks leaves no tag
  open and has no quote.
\<close>

theorem markup_ignores_text:
  assumes "\<forall>e \<in> set es. renderable p (e_node e)" "softbreak_closed p" "images_nested 0 es"
  shows "skeleton (m_buffer (render p es (new_renderer 0))) =
    skeleton (m_buffer (render p (map (erase_event p) es) (new_renderer 0)))"
proof -
  have "same_markup (new_renderer 0) (new_renderer 0)" "m_disabled (new_renderer 0) = 0"
    "new_renderer 0\<lparr>m_buffer := [], m_last := [10]\<rparr> = new_renderer 0"
    by (simp_all add: same_markup_def new_renderer_def place_of_def)
  with same_markup_render [of "new_renderer 0" "new_renderer 0" es p] assms
  show ?thesis by (simp add: render_def same_markup_def skeleton_def)
qed

definition sample_options :: render_options where
  "sample_options = \<lparr>o_safe = True, o_softbreak = [10], o_sourcepos = False\<rparr>"

definition sample_event :: "node \<Rightarrow> bool \<Rightarrow> event" where
  "sample_event n b = \<lparr>e_node = n, e_entering = b, e_pos = None\<rparr>"

definition sample_document :: "event list" where
  "sample_document =
     [sample_event (Paragraph False) True, sample_event (TextNode (js ''<i>\"'')) True,
      sample_event (Image (js ''data:x'') (js ''t'')) True, sample_event (Code (js ''>\"<'')) True,
      sample_event (Image (js ''data:x'') (js ''t'')) False, sample_event (HtmlInline (js ''<b>'')) True,
      sample_event (Paragraph False) False]"

theorem markup_ignores_text_witness:
  "skeleton (m_buffer (render sample_options sample_document (new_renderer 0))) =
     js ''<p><img src=\"\" alt=\"\" title=\"\" /><!-- raw HTML omitted --></p>''"
proof -
  have "skeleton (m_buffer (render sample_options sample_document (new_renderer 0))) =
      skeleton (m_buffer (render sample_options (map (erase_event sample_options) sample_document) (new_renderer 0)))"
    by (rule markup_ignores_text) code_simp+
  also have "\<dots> = js ''<p><img src=\"\" alt=\"\" title=\"\" /><!-- raw HTML omitted --></p>''"
    by code_simp
  finally show ?thesis .
qed



text \<open>The anchor of the test for unsafe destinations belongs to \<open>javascript:\<close> only.\<close>

lemma unsafe_anywhere: "potentially_unsafe (js ''https://example.com/profile:1'')"
  by (simp add: potentially_unsafe_def startswith_def ascii_lower_def unit_defs js_def)

end
