(* ===== verification/Swagger_Query.thy ===== *)
theory Swagger_Query
  imports Js_Uri Js_Text Js_Heap Swagger_Strings
begin

text \<open>
  The two modules for query strings (swagger-ui-bundle.js, line 117): querystring (\<open>decode\<close>, \<open>encode\<close>) and
  querystringify (\<open>parse\<close>, \<open>stringify\<close>).  Objects are the lists of their own properties in order (names
  that are array indices come first in JavaScript's order, so the lists mean objects up to that order); the
  separators are single code units.
\<close>

section \<open>querystring\<close>

datatype query_value = Single js_value | Multiple "js_value list"

text \<open>\<open>shown\<close> prints a number.\<close>

fun query_primitive :: "(rat \<Rightarrow> js_string) \<Rightarrow> js_value \<Rightarrow> js_string" where
  "query_primitive shown (JsString s) = s"
| "query_primitive shown (JsBoolean b) = (if b then js ''true'' else js ''false'')"
| "query_primitive shown (JsNumber (Finite q)) = shown q"
| "query_primitive shown _ = []"

definition query_pair :: "int \<Rightarrow> js_string \<Rightarrow> js_string \<Rightarrow> js_string js_res" where
  "query_pair n s x = bindR (encodeURIComponent x) (\<lambda>y. Inr (s @ n # y))"

definition query_entry ::
  "(rat \<Rightarrow> js_string) \<Rightarrow> int \<Rightarrow> int \<Rightarrow> js_string \<times> query_value \<Rightarrow> js_string js_res" where
  "query_entry shown t n e =
     bindR (encodeURIComponent (fst e)) (\<lambda>s.
       case snd e of
         Single x \<Rightarrow> query_pair n s (query_primitive shown x)
       | Multiple xs \<Rightarrow>
           bindR (mapR (\<lambda>x. query_pair n s (query_primitive shown x)) xs) (\<lambda>ps. Inr (join_str [t] ps)))"

definition query_encode ::
  "(rat \<Rightarrow> js_string) \<Rightarrow> int \<Rightarrow> int \<Rightarrow> (js_string \<times> query_value) list \<Rightarrow> js_string js_res" where
  "query_encode shown t n kvs =
     bindR (mapR (query_entry shown t n) kvs) (\<lambda>ps. Inr (join_str [t] ps))"

text \<open>A value that is no object is written under the name given, if there is one.\<close>

definition query_encode_value ::
  "(rat \<Rightarrow> js_string) \<Rightarrow> int \<Rightarrow> js_value \<Rightarrow> js_value \<Rightarrow> js_string js_res" where
  "query_encode_value shown n e name =
     (if js_truthy name then
        bindR (encodeURIComponent (query_primitive shown name)) (\<lambda>s.
          query_pair n s (query_primitive shown e))
      else Inr [])"

text \<open>The decoder keeps several values of one name in an array.\<close>

datatype query_text = One js_string | Many "js_string list"

definition split_pair :: "int \<Rightarrow> js_string \<Rightarrow> js_string \<times> js_string" where
  "split_pair n x =
     (let m = concat (map (\<lambda>u. if u = 43 then js ''%20'' else [u]) x)
      in if n \<in> set m then (takeWhile (\<lambda>u. u \<noteq> n) m, tl (dropWhile (\<lambda>u. u \<noteq> n) m)) else (m, []))"

text \<open>Setting \<open>__proto__\<close> to a text does nothing.\<close>

definition add_value :: "query_text option \<Rightarrow> js_string \<Rightarrow> query_text" where
  "add_value v d =
     (case v of None \<Rightarrow> One d | Some (One x) \<Rightarrow> Many [x, d] | Some (Many xs) \<Rightarrow> Many (xs @ [d]))"

definition add_query ::
  "js_string \<Rightarrow> js_string \<Rightarrow> (js_string \<times> query_text) list \<Rightarrow> (js_string \<times> query_text) list" where
  "add_query f d a =
     (if f = proto_key then a else AList.update f (add_value (map_of a f) d) a)"

definition query_step ::
  "int \<Rightarrow> js_string \<Rightarrow> (js_string \<times> query_text) list \<Rightarrow> (js_string \<times> query_text) list js_res" where
  "query_step n x a =
     (let (p, h) = split_pair n x
      in bindR (decodeURIComponent p) (\<lambda>f. bindR (decodeURIComponent h) (\<lambda>d. Inr (add_query f d a))))"

definition query_decode ::
  "int \<Rightarrow> int \<Rightarrow> int option \<Rightarrow> js_string \<Rightarrow> (js_string \<times> query_text) list js_res" where
  "query_decode t n max_keys e =
     (if e = [] then Inr []
      else let ps = split_on t e;
               u = (case max_keys of None \<Rightarrow> 1000 | Some m \<Rightarrow> m);
               c = (if 0 < u \<and> u < int (length ps) then nat u else length ps)
           in foldR (query_step n) (take c ps) [])"

section \<open>querystringify\<close>

definition key_unit :: "int \<Rightarrow> bool" where
  "key_unit u \<longleftrightarrow> u \<noteq> 61 \<and> u \<noteq> 63 \<and> u \<noteq> 38"

definition decode_plus :: "js_string \<Rightarrow> js_string js_res" where
  "decode_plus s = decodeURIComponent (map (\<lambda>u. if u = 43 then 32 else u) s)"

text \<open>One match of \<open>/([^=?&]+)=?([^&]*)/g\<close>: the key, the value and what follows.\<close>

definition match_pair :: "js_string \<Rightarrow> (js_string \<times> js_string \<times> js_string) option" where
  "match_pair s =
     (let s = dropWhile (\<lambda>u. \<not> key_unit u) s in
      if s = [] then None
      else let r = dropWhile key_unit s; r = (if r \<noteq> [] \<and> hd r = 61 then tl r else r)
           in Some (takeWhile key_unit s, takeWhile (\<lambda>u. u \<noteq> 38) r, dropWhile (\<lambda>u. u \<noteq> 38) r))"

lemma match_pair_shorter: "match_pair s = Some (k, v, r) \<Longrightarrow> length r < length s"
proof -
  assume m: "match_pair s = Some (k, v, r)"
  let ?s = "dropWhile (\<lambda>u. \<not> key_unit u) s"
  obtain q where q: "?s \<noteq> []" "r = dropWhile (\<lambda>u. u \<noteq> 38) q" "q = dropWhile key_unit ?s \<or> q = tl (dropWhile key_unit ?s)"
    using m by (auto simp: match_pair_def Let_def split: if_splits)
  have "key_unit (hd ?s)" using q(1) hd_dropWhile [of "\<lambda>u. \<not> key_unit u" s] by simp
  then have "length (dropWhile key_unit ?s) < length ?s"
    using q(1) by (cases ?s) (simp_all add: length_dropWhile_le less_Suc_eq_le)
  moreover have "length r \<le> length q" unfolding q(2) by (rule length_dropWhile_le)
  moreover have "length ?s \<le> length s" by (rule length_dropWhile_le)
  ultimately show ?thesis using q(3) by auto
qed

function query_scan :: "js_string \<Rightarrow> (js_string \<times> js_string) list \<Rightarrow> (js_string \<times> js_string) list js_res" where
  "query_scan s i =
     (case match_pair s of
        None \<Rightarrow> Inr i
      | Some (k, v, r) \<Rightarrow>
          bindR (decode_plus k) (\<lambda>k. bindR (decode_plus v) (\<lambda>v.
            query_scan r (if k = proto_key then i else AList.update k v i))))"
  by auto
termination
  by (relation "measure (\<lambda>(s, i). length s)") (auto dest: match_pair_shorter)

declare query_scan.simps [simp del]

definition query_parse :: "js_string \<Rightarrow> (js_string \<times> js_string) list js_res" where
  "query_parse e = query_scan e []"

definition query_stringify :: "(js_string \<times> js_string) list \<Rightarrow> js_string \<Rightarrow> js_string js_res" where
  "query_stringify e t =
     bindR (mapR (\<lambda>(k, v). bindR (encodeURIComponent k) (\<lambda>s. query_pair 61 s v)) e) (\<lambda>n.
       Inr (if n \<noteq> [] then t @ join_str [38] n else []))"

section \<open>Encoded pairs\<close>

text \<open>\<open>coded (k, v) p\<close>: the text \<open>p\<close> is the pair written out.\<close>

definition coded :: "js_string \<times> js_string \<Rightarrow> js_string \<Rightarrow> bool" where
  "coded c p \<longleftrightarrow>
     (\<exists>s y. encodeURIComponent (fst c) = Inr s \<and> encodeURIComponent (snd c) = Inr y \<and> p = s @ 61 # y)"

lemma output_units: "uri_output u \<Longrightarrow> u \<notin> {38, 43, 61, 63}"
  by (auto simp: uri_output_def uri_unescaped_def unit_defs js_def)

lemma encoded_units:
  assumes "js_units x" "encodeURIComponent x = Inr y"
  shows "38 \<notin> set y" "43 \<notin> set y" "61 \<notin> set y" "63 \<notin> set y"
  using encode_output [OF assms] output_units by blast+

lemma coded_facts:
  assumes "coded (k, v) p" "js_units k" "js_units v"
  shows "38 \<notin> set p" "p \<noteq> []" "query_step 61 p a = Inr (add_query k v a)"
proof -
  obtain s y where p: "encodeURIComponent k = Inr s" "encodeURIComponent v = Inr y" "p = s @ 61 # y"
    using assms(1) by (auto simp: coded_def)
  note s = encoded_units [OF assms(2) p(1)] and y = encoded_units [OF assms(3) p(2)]
  show "38 \<notin> set p" "p \<noteq> []" using s(1) y(1) p(3) by auto
  have "concat (map (\<lambda>u. if u = 43 then js ''%20'' else [u]) z) = z" if "43 \<notin> set z" for z
    using that by (induction z) auto
  moreover have "43 \<notin> set p" using s(2) y(2) p(3) by auto
  moreover have "takeWhile (\<lambda>u. u \<noteq> 61) p = s" "tl (dropWhile (\<lambda>u. u \<noteq> 61) p) = y"
    using s(3) p(3) by (auto simp: takeWhile_append dropWhile_append)
  ultimately have "split_pair 61 p = (s, y)" using p(3) by (simp add: split_pair_def)
  then show "query_step 61 p a = Inr (add_query k v a)"
    using decode_encode [OF assms(2) p(1)] decode_encode [OF assms(3) p(2)] by (simp add: query_step_def)
qed

lemma join_join:
  "(\<And>ps. ps \<in> set pss \<Longrightarrow> ps \<noteq> []) \<Longrightarrow> join_str d (map (join_str d) pss) = join_str d (concat pss)"
proof (induction pss)
  case (Cons ps pss)
  have append: "qs \<noteq> [] \<Longrightarrow> rs \<noteq> [] \<Longrightarrow> join_str d (qs @ rs) = join_str d qs @ d @ join_str d rs" for qs rs
  proof (induction qs)
    case (Cons q qs)
    then show ?case by (cases qs; cases rs) simp_all
  qed simp
  show ?case
  proof (cases pss)
    case (Cons qs qss)
    then have "concat pss \<noteq> []" using Cons.prems by simp
    moreover have "join_str d (map (join_str d) (ps # pss)) = join_str d ps @ d @ join_str d (map (join_str d) pss)"
      using Cons by simp
    ultimately show ?thesis using Cons.IH Cons.prems append [of ps "concat pss"] by simp
  qed simp
qed simp

section \<open>Decoding what was encoded\<close>

definition query_texts :: "(rat \<Rightarrow> js_string) \<Rightarrow> query_value \<Rightarrow> js_string list" where
  "query_texts shown v =
     (case v of Single x \<Rightarrow> [query_primitive shown x] | Multiple xs \<Rightarrow> map (query_primitive shown) xs)"

fun gathered :: "js_string list \<Rightarrow> query_text" where
  "gathered [x] = One x"
| "gathered xs = Many xs"

definition query_pairs :: "(rat \<Rightarrow> js_string) \<Rightarrow> (js_string \<times> query_value) list \<Rightarrow> (js_string \<times> js_string) list" where
  "query_pairs shown kvs = concat (map (\<lambda>(k, v). map (Pair k) (query_texts shown v)) kvs)"

lemma add_values_again:
  "map_of a k = Some v \<Longrightarrow> k \<noteq> proto_key \<Longrightarrow>
     fold (\<lambda>(k, x). add_query k x) (map (Pair k) xs) a =
       (if xs = [] then a
        else AList.update k (Many ((case v of One x \<Rightarrow> [x] | Many ys \<Rightarrow> ys) @ xs)) a)"
proof (induction xs arbitrary: a v)
  case (Cons x xs)
  let ?v = "Many ((case v of One x \<Rightarrow> [x] | Many ys \<Rightarrow> ys) @ [x])"
  have "add_query k x a = AList.update k ?v a"
    using Cons.prems by (cases v) (simp_all add: add_query_def add_value_def)
  moreover have "map_of (AList.update k ?v a) k = Some ?v" by (simp add: update_Some_unfold)
  moreover have "AList.update k w (AList.update k u b) = AList.update k w b" for w u b
    by (induction b) auto
  ultimately show ?case
    using Cons.IH [of "AList.update k ?v a" ?v] Cons.prems(2) by simp
qed simp

lemma add_values:
  assumes "k \<notin> fst ` set a" "k \<noteq> proto_key" "xs \<noteq> []"
  shows "fold (\<lambda>(k, x). add_query k x) (map (Pair k) xs) a = a @ [(k, gathered xs)]"
proof -
  obtain x ys where xs: "xs = x # ys" using assms(3) by (cases xs) auto
  have new: "AList.update k v a = a @ [(k, v)]" for v
    using assms(1) by (induction a) auto
  have upd: "AList.update k w (a @ [(k, v)]) = a @ [(k, w)]" for v w
    using assms(1) by (induction a) auto
  have "map_of a k = None" using assms(1) by (simp add: map_of_eq_None_iff)
  then have "add_query k x a = a @ [(k, One x)]"
    using assms(2) new by (simp add: add_query_def add_value_def)
  moreover have "map_of (a @ [(k, One x)]) k = Some (One x)"
    using \<open>map_of a k = None\<close> by (simp add: map_add_def)
  ultimately show ?thesis
    using xs add_values_again [of "a @ [(k, One x)]" k "One x" ys] assms(2) upd by (cases ys) simp_all
qed

lemma add_all_values:
  assumes "distinct (map fst kvs)" "\<forall>(k, v) \<in> set kvs. k \<noteq> proto_key \<and> query_texts shown v \<noteq> []"
    and "fst ` set a \<inter> fst ` set kvs = {}"
  shows "fold (\<lambda>(k, x). add_query k x) (query_pairs shown kvs) a =
    a @ map (\<lambda>(k, v). (k, gathered (query_texts shown v))) kvs"
  using assms
proof (induction kvs arbitrary: a)
  case (Cons e kvs)
  obtain k v where e: "e = (k, v)" by (cases e)
  have "fold (\<lambda>(k, x). add_query k x) (map (Pair k) (query_texts shown v)) a =
      a @ [(k, gathered (query_texts shown v))]"
    using Cons.prems e by (intro add_values) auto
  moreover have "fst ` set (a @ [(k, gathered (query_texts shown v))]) \<inter> fst ` set kvs = {}"
    using Cons.prems(1,3) e by auto
  ultimately show ?case
    using Cons.IH [of "a @ [(k, gathered (query_texts shown v))]"] Cons.prems(1,2) e
    by (simp add: query_pairs_def)
qed (simp add: query_pairs_def)

text \<open>What one entry is written as: its pairs, joined.\<close>

lemma entry_coded:
  assumes "query_entry shown 38 61 (k, v) = Inr p"
  shows "\<exists>ps. list_all2 coded (map (Pair k) (query_texts shown v)) ps \<and> p = join_str [38] ps"
proof -
  obtain s where s: "encodeURIComponent k = Inr s" using assms by (auto simp: query_entry_def bindR_Inr_iff)
  have pair: "coded (k, query_primitive shown x) q" if "query_pair 61 s (query_primitive shown x) = Inr q" for x q
    using that s by (auto simp: query_pair_def coded_def bindR_Inr_iff)
  show ?thesis
  proof (cases v)
    case (Single x)
    then have "query_pair 61 s (query_primitive shown x) = Inr p" using assms s by (simp add: query_entry_def)
    then show ?thesis using pair Single by (intro exI [of _ "[p]"]) (simp add: query_texts_def)
  next
    case (Multiple xs)
    then obtain ps where ps: "mapR (\<lambda>x. query_pair 61 s (query_primitive shown x)) xs = Inr ps" "p = join_str [38] ps"
      using assms s by (auto simp: query_entry_def bindR_Inr_iff)
    have "list_all2 coded (map (Pair k) (map (query_primitive shown) xs)) ps"
      using ps(1) by (induction xs arbitrary: ps) (auto simp: bindR_Inr_iff pair)
    with ps(2) Multiple show ?thesis by (auto simp: query_texts_def)
  qed
qed

lemma encoded_coded:
  assumes "query_encode shown 38 61 kvs = Inr s" "\<forall>(k, v) \<in> set kvs. query_texts shown v \<noteq> []"
  shows "\<exists>ps. list_all2 coded (query_pairs shown kvs) ps \<and> s = join_str [38] ps"
proof -
  obtain es where es: "mapR (query_entry shown 38 61) kvs = Inr es" "s = join_str [38] es"
    using assms(1) by (auto simp: query_encode_def bindR_Inr_iff)
  have "\<exists>pss. es = map (join_str [38]) pss \<and> list_all2 coded (query_pairs shown kvs) (concat pss)
      \<and> (\<forall>ps \<in> set pss. ps \<noteq> [])"
    using es(1) assms(2)
  proof (induction kvs arbitrary: es)
    case (Cons e kvs)
    obtain k v where e: "e = (k, v)" by (cases e)
    from Cons.prems(1) obtain p es' where p: "query_entry shown 38 61 (k, v) = Inr p"
      "mapR (query_entry shown 38 61) kvs = Inr es'" "es = p # es'"
      by (auto simp: e bindR_Inr_iff)
    from entry_coded [OF p(1)] obtain ps where ps: "list_all2 coded (map (Pair k) (query_texts shown v)) ps"
      "p = join_str [38] ps" by blast
    from Cons.IH [OF p(2)] Cons.prems(2) obtain pss where pss: "es' = map (join_str [38]) pss"
      "list_all2 coded (query_pairs shown kvs) (concat pss)" "\<forall>ps \<in> set pss. ps \<noteq> []" by auto
    have "ps \<noteq> []" using ps(1) Cons.prems(2) e by auto
    then show ?case
      using ps pss p(3) e
      by (intro exI [of _ "ps # pss"]) (auto simp: query_pairs_def intro: list_all2_appendI)
  qed (simp add: query_pairs_def)
  then show ?thesis using es(2) join_join by auto
qed

lemma coded_steps:
  assumes "list_all2 coded cs ps" "\<forall>c \<in> set cs. js_units (fst c) \<and> js_units (snd c)"
  shows "foldR (query_step 61) ps a = Inr (fold (\<lambda>(k, x). add_query k x) cs a)
    \<and> (\<forall>p \<in> set ps. 38 \<notin> set p \<and> p \<noteq> [])"
  using assms
proof (induction cs arbitrary: ps a)
  case (Cons c cs)
  obtain k v where c: "c = (k, v)" by (cases c)
  from Cons.prems(1) obtain p qs where ps: "ps = p # qs" "coded (k, v) p" "list_all2 coded cs qs"
    by (auto simp: c list_all2_Cons1)
  have "js_units k" "js_units v" using Cons.prems(2) c by auto
  from coded_facts [OF ps(2) this] Cons.IH [OF ps(3)] Cons.prems(2) show ?case
    by (simp add: ps(1) c)
qed simp

lemma decode_encoded:
  assumes "query_encode shown 38 61 kvs = Inr s" "distinct (map fst kvs)"
    and "\<forall>(k, v) \<in> set kvs. js_units k \<and> k \<noteq> proto_key \<and> query_texts shown v \<noteq> []
           \<and> (\<forall>x \<in> set (query_texts shown v). js_units x)"
    and "length (query_pairs shown kvs) \<le> 1000"
  shows "query_decode 38 61 None s = Inr (map (\<lambda>(k, v). (k, gathered (query_texts shown v))) kvs)"
proof -
  from encoded_coded [OF assms(1)] assms(3) obtain ps where
    ps: "list_all2 coded (query_pairs shown kvs) ps" "s = join_str [38] ps" by fastforce
  have units: "\<forall>c \<in> set (query_pairs shown kvs). js_units (fst c) \<and> js_units (snd c)"
    using assms(3) by (fastforce simp: query_pairs_def)
  have result: "fold (\<lambda>(k, x). add_query k x) (query_pairs shown kvs) [] =
      map (\<lambda>(k, v). (k, gathered (query_texts shown v))) kvs"
    using add_all_values [of kvs shown "[]"] assms(2,3) by fastforce
  have steps: "foldR (query_step 61) ps a = Inr (fold (\<lambda>(k, x). add_query k x) (query_pairs shown kvs) a)"
    "\<forall>p \<in> set ps. 38 \<notin> set p \<and> p \<noteq> []" for a
    using coded_steps [OF ps(1) units] by auto
  show ?thesis
  proof (cases "ps = []")
    case True
    with ps have "query_pairs shown kvs = []" by simp
    with True ps(2) result show ?thesis by (simp add: query_decode_def)
  next
    case False
    then obtain p qs where pq: "ps = p # qs" by (cases ps) auto
    with steps(2) have "p \<noteq> []" by simp
    then have "s \<noteq> []" using ps(2) pq by (cases qs) auto
    moreover have "split_on 38 s = ps" unfolding ps(2) using False steps(2) by (intro split_on_join) auto
    moreover have "length ps \<le> 1000" using list_all2_lengthD [OF ps(1)] assms(4) by simp
    ultimately show ?thesis using steps(1) result by (simp add: query_decode_def Let_def)
  qed
qed

section \<open>Parsing what was stringified\<close>

lemma coded_match:
  assumes "coded (k, v) p" "js_units k" "js_units v" "k \<noteq> []" "r = [] \<or> hd r = 38"
    and "\<forall>u \<in> set pre. \<not> key_unit u"
  shows "\<exists>s y. match_pair (pre @ p @ r) = Some (s, y, r) \<and> decode_plus s = Inr k \<and> decode_plus y = Inr v"
proof -
  obtain s y where p: "encodeURIComponent k = Inr s" "encodeURIComponent v = Inr y" "p = s @ 61 # y"
    using assms(1) by (auto simp: coded_def)
  note s = encoded_units [OF assms(2) p(1)] and y = encoded_units [OF assms(3) p(2)]
  have "decodeURIComponent s = Inr k" using decode_encode [OF assms(2) p(1)] .
  then have "s \<noteq> []" using assms(4) by auto
  have keys: "\<forall>u \<in> set s. key_unit u" using s by (auto simp: key_unit_def)
  then have "dropWhile (\<lambda>u. \<not> key_unit u) (pre @ p @ r) = s @ 61 # y @ r"
    using assms(6) \<open>s \<noteq> []\<close> p(3) by (cases s) (simp_all add: dropWhile_append)
  moreover have "takeWhile key_unit (s @ 61 # y @ r) = s" "dropWhile key_unit (s @ 61 # y @ r) = 61 # y @ r"
    using keys by (simp_all add: takeWhile_append dropWhile_append key_unit_def)
  moreover have "takeWhile (\<lambda>u. u \<noteq> 38) (y @ r) = y" "dropWhile (\<lambda>u. u \<noteq> 38) (y @ r) = r"
    using y(1) assms(5) by (cases r; auto simp: takeWhile_append dropWhile_append)+
  ultimately have "match_pair (pre @ p @ r) = Some (s, y, r)" by (simp add: match_pair_def Let_def)
  moreover have "map (\<lambda>u. if u = 43 then 32 else u) z = z" if "43 \<notin> set z" for z :: js_string
    using that by (induction z) auto
  ultimately show ?thesis
    using decode_encode [OF assms(2) p(1)] decode_encode [OF assms(3) p(2)] s(2) y(2)
    by (simp add: decode_plus_def)
qed

lemma scan_coded:
  assumes "list_all2 coded kvs ps" "\<forall>u \<in> set pre. \<not> key_unit u"
    and "\<forall>(k, v) \<in> set kvs. js_units k \<and> js_units v \<and> k \<noteq> [] \<and> k \<noteq> proto_key"
    and "distinct (map fst kvs)" "fst ` set i \<inter> fst ` set kvs = {}"
  shows "query_scan (pre @ join_str [38] ps) i = Inr (i @ kvs)"
  using assms
proof (induction arbitrary: pre i rule: list_all2_induct)
  case Nil
  then have "dropWhile (\<lambda>u. \<not> key_unit u) pre = []" by simp
  then show ?case by (subst query_scan.simps) (simp add: match_pair_def)
next
  case (Cons c kvs p ps)
  obtain k v where c: "c = (k, v)" by (cases c)
  define r where "r = (if ps = [] then [] else 38 # join_str [38] ps)"
  have join: "join_str [38] (p # ps) = p @ r" by (cases ps) (simp_all add: r_def)
  have "\<exists>s y. match_pair (pre @ p @ r) = Some (s, y, r) \<and> decode_plus s = Inr k \<and> decode_plus y = Inr v"
    using Cons c by (intro coded_match) (auto simp: r_def)
  then obtain s y where m: "match_pair (pre @ p @ r) = Some (s, y, r)" "decode_plus s = Inr k" "decode_plus y = Inr v"
    by blast
  have new: "AList.update k v i = i @ [(k, v)]"
  proof -
    have "k \<notin> fst ` set i" using Cons.prems(4) c by auto
    then show ?thesis by (induction i) auto
  qed
  have "query_scan r (i @ [(k, v)]) = Inr ((i @ [(k, v)]) @ kvs)"
  proof (cases "ps = []")
    case True
    then have "kvs = []" using Cons.hyps by simp
    with True show ?thesis by (subst query_scan.simps) (simp add: r_def match_pair_def)
  next
    case False
    then have "r = [38] @ join_str [38] ps" by (simp add: r_def)
    moreover have "fst ` set (i @ [(k, v)]) \<inter> fst ` set kvs = {}" using Cons.prems(3,4) c by auto
    ultimately show ?thesis
      using Cons.IH [of "[38]" "i @ [(k, v)]"] Cons.prems(2,3) by (auto simp: key_unit_def)
  qed
  then show ?case
    unfolding join using m new Cons.prems(2) c by (subst query_scan.simps) simp
qed

lemma parse_stringified:
  assumes "query_stringify kvs t = Inr s" "\<forall>u \<in> set t. \<not> key_unit u" "distinct (map fst kvs)"
    and "\<forall>(k, v) \<in> set kvs. js_units k \<and> js_units v \<and> k \<noteq> [] \<and> k \<noteq> proto_key"
  shows "query_parse s = Inr kvs"
proof -
  let ?f = "\<lambda>(k, v). bindR (encodeURIComponent k) (\<lambda>s. query_pair 61 s v)"
  obtain ps where ps: "mapR ?f kvs = Inr ps" "s = (if ps \<noteq> [] then t @ join_str [38] ps else [])"
    using assms(1) by (auto simp: query_stringify_def bindR_Inr_iff)
  have all: "list_all2 coded kvs ps"
    using ps(1) by (induction kvs arbitrary: ps) (auto simp: bindR_Inr_iff coded_def query_pair_def)
  have "s = (if ps \<noteq> [] then t else []) @ join_str [38] ps" using ps(2) by simp
  moreover have "query_scan ((if ps \<noteq> [] then t else []) @ join_str [38] ps) [] = Inr ([] @ kvs)"
    using assms(2-4) by (intro scan_coded [OF all]) auto
  ultimately show ?thesis by (simp add: query_parse_def)
qed

end
