(* ===== verification/Query_Properties.thy ===== *)
theory Query_Properties
  imports Swagger_Query
begin

text \<open>
  Properties of the modules for query strings: what is written is read back, and what cannot be.
\<close>

section \<open>querystring\<close>

text \<open>
  C12: \<open>decode\<close> reads back what \<open>encode\<close> wrote with the separators \<open>&\<close> and \<open>=\<close>: the same names in the same order,
  each with the text of its value, or with the array of the texts when it had several.  The names are different
  and none is \<open>__proto__\<close> (which is lost), no value is an empty array (which leaves nothing to read), and there are
  at most 1000 pairs, the decoder's default limit (further ones are dropped); \<open>encode\<close> has succeeded, so no name or
  text has an unpaired surrogate, and otherwise their units may be any.
\<close>

theorem query_round_trip:
  assumes "query_encode shown 38 61 kvs = Inr s" "distinct (map fst kvs)"
    and "\<forall>(k, v) \<in> set kvs. js_units k \<and> k \<noteq> proto_key \<and> query_texts shown v \<noteq> []
           \<and> (\<forall>x \<in> set (query_texts shown v). js_units x)"
    and "length (query_pairs shown kvs) \<le> 1000"
  shows "query_decode 38 61 None s = Inr (map (\<lambda>(k, v). (k, gathered (query_texts shown v))) kvs)"
  by (rule decode_encoded [OF assms])

definition sample_query :: "(js_string \<times> query_value) list" where
  "sample_query =
     [(js ''a&b'', Single (JsString (js ''1 +2''))),
      (js ''c'', Multiple [JsString (js ''='' @ [233]), JsBoolean True, JsNull]),
      ([], Single (JsBoolean False))]"

theorem query_round_trip_witness:
  "query_encode (\<lambda>q. []) 38 61 sample_query = Inr (js ''a%26b=1%20%2B2&c=%3D%C3%A9&c=true&c=&=false'')
   \<and> query_decode 38 61 None (js ''a%26b=1%20%2B2&c=%3D%C3%A9&c=true&c=&=false'') =
       Inr [(js ''a&b'', One (js ''1 +2'')), (js ''c'', Many [js ''='' @ [233], js ''true'', []]), ([], One (js ''false''))]"
proof
  show encoded: "query_encode (\<lambda>q. []) 38 61 sample_query = Inr (js ''a%26b=1%20%2B2&c=%3D%C3%A9&c=true&c=&=false'')"
    by code_simp
  have "query_decode 38 61 None (js ''a%26b=1%20%2B2&c=%3D%C3%A9&c=true&c=&=false'') =
      Inr (map (\<lambda>(k, v). (k, gathered (query_texts (\<lambda>q. []) v))) sample_query)"
    by (rule query_round_trip [OF encoded])
       (simp_all add: sample_query_def query_texts_def query_pairs_def proto_key_def js_def)
  also have "\<dots> = Inr [(js ''a&b'', One (js ''1 +2'')), (js ''c'', Many [js ''='' @ [233], js ''true'', []]),
      ([], One (js ''false''))]"
    by (simp add: sample_query_def query_texts_def js_def)
  finally show "query_decode 38 61 None (js ''a%26b=1%20%2B2&c=%3D%C3%A9&c=true&c=&=false'') =
      Inr [(js ''a&b'', One (js ''1 +2'')), (js ''c'', Many [js ''='' @ [233], js ''true'', []]), ([], One (js ''false''))]" .
qed

section \<open>querystringify\<close>

text \<open>
  C13: \<open>parse\<close> reads back what \<open>stringify\<close> wrote, after no prefix or one made of \<open>?\<close>, \<open>&\<close> and \<open>=\<close> only, for
  different names that are neither empty nor \<open>__proto__\<close>; where \<open>stringify\<close> succeeded (no unpaired surrogate)
  names and values may have any units.
\<close>

theorem querystringify_round_trip:
  assumes "query_stringify kvs t = Inr s" "\<forall>u \<in> set t. \<not> key_unit u" "distinct (map fst kvs)"
    and "\<forall>(k, v) \<in> set kvs. js_units k \<and> js_units v \<and> k \<noteq> [] \<and> k \<noteq> proto_key"
  shows "query_parse s = Inr kvs"
  by (rule parse_stringified [OF assms])

theorem querystringify_round_trip_witness:
  "query_stringify [(js ''a b'', js ''x=y&z''), (js ''c'', [])] (js ''?'') = Inr (js ''?a%20b=x%3Dy%26z&c='')
   \<and> query_parse (js ''?a%20b=x%3Dy%26z&c='') = Inr [(js ''a b'', js ''x=y&z''), (js ''c'', [])]"
proof
  show written: "query_stringify [(js ''a b'', js ''x=y&z''), (js ''c'', [])] (js ''?'') = Inr (js ''?a%20b=x%3Dy%26z&c='')"
    by code_simp
  show "query_parse (js ''?a%20b=x%3Dy%26z&c='') = Inr [(js ''a b'', js ''x=y&z''), (js ''c'', [])]"
    by (rule querystringify_round_trip [OF written]) (simp_all add: key_unit_def proto_key_def js_def)
qed

section \<open>What is lost\<close>

text \<open>An empty name becomes the value, and the name \<open>__proto__\<close> is set on no own property.\<close>

lemma empty_name_lost:
  "query_stringify [([], js ''x'')] [] = Inr (js ''=x'') \<and> query_parse (js ''=x'') = Inr [(js ''x'', [])]"
  by code_simp

lemma proto_name_lost:
  "query_parse (js ''__proto__=x'') = Inr []" "query_decode 38 61 None (js ''__proto__=x'') = Inr []"
  by code_simp+

text \<open>A malformed escape makes \<open>parse\<close> raise.\<close>

lemma malformed_escape_raises: "query_parse (js ''a=%E9'') = Inl (JsURIError)"
  by code_simp

end
