(* ===== verification/Swagger_Punycode.thy ===== *)
theory Swagger_Punycode
  imports Js_Bits Js_Text
begin

text \<open>
  The module punycode (swagger-ui-bundle.js, line 117): strings as code points (\<open>ucs2\<close>), RFC 3492
  (\<open>encode\<close>, \<open>decode\<close>) and the names of hosts and mail addresses (\<open>toASCII\<close>, \<open>toUnicode\<close>).

  All numbers are integers below \<open>2^53\<close>.  Only where control characters give \<open>decode\<close> negative digits may
  \<open>adapt\<close> divide by zero; there the model leaves JavaScript, which goes on with infinities.
\<close>

section \<open>Strings and code points\<close>

fun ucs2_decode :: "js_string \<Rightarrow> int list" where
  "ucs2_decode [] = []"
| "ucs2_decode (t # s) =
     (if 55296 \<le> t \<and> t \<le> 56319 then
        (case s of
           [] \<Rightarrow> [t]
         | n # r \<Rightarrow>
             if 56320 = js_and 64512 n then (js_shl (js_and 1023 t) 10 + js_and 1023 n + 65536) # ucs2_decode r
             else t # ucs2_decode s)
      else t # ucs2_decode s)"

definition point_units :: "int \<Rightarrow> js_string" where
  "point_units e =
     (if 65535 < e then
        (let e = e - 65536 in
         [js_or (js_and (js_ushr e 10) 1023) 55296, js_or 56320 (js_and 1023 e)])
      else [e mod 65536])"

definition ucs2_encode :: "int list \<Rightarrow> js_string" where
  "ucs2_encode e = concat (map point_units e)"

section \<open>Digits, thresholds and the bias\<close>

definition puny_max :: int where "puny_max = 2147483647"

definition basic_to_digit :: "int \<Rightarrow> int" where
  "basic_to_digit e =
     (if e - 48 < 10 then e - 22 else if e - 65 < 26 then e - 65 else if e - 97 < 26 then e - 97 else 36)"

definition digit_to_basic :: "int \<Rightarrow> int \<Rightarrow> int" where
  "digit_to_basic e t = e + 22 + 75 * (if e < 26 then 1 else 0) - js_shl (if t \<noteq> 0 then 1 else 0) 5"

definition threshold :: "int \<Rightarrow> int \<Rightarrow> int" where
  "threshold bias k = (if k \<le> bias then 1 else if bias + 26 \<le> k then 26 else k - bias)"

function adapt_loop :: "int \<Rightarrow> int \<Rightarrow> int \<times> int" where
  "adapt_loop e r = (if e > js_shr (35 * 26) 1 then adapt_loop (e div 35) (r + 36) else (e, r))"
  by auto
termination
  by (relation "measure (\<lambda>(e, r). nat e)") (auto simp: js_shr_small)

declare adapt_loop.simps [simp del]

definition adapt :: "int \<Rightarrow> int \<Rightarrow> bool \<Rightarrow> int" where
  "adapt e t first =
     (let e = (if first then e div 700 else js_shr e 1);
          e = e + e div t;
          (e, r) = adapt_loop e 0
      in r + 36 * e div (e + 38))"

section \<open>decode\<close>

text \<open>One number of variable length: \<open>y\<close> collects it with the weight \<open>s\<close>; \<open>u\<close> is the place of the digit.\<close>

fun read_varint :: "int \<Rightarrow> int \<Rightarrow> int \<Rightarrow> int \<Rightarrow> js_string \<Rightarrow> (int \<times> js_string) js_res" where
  "read_varint bias y s u [] = Inl JsRangeError"
| "read_varint bias y s u (x # cs) =
     (let c = basic_to_digit x in
      if 36 \<le> c \<or> (puny_max - y) div s < c then Inl JsRangeError
      else let y = y + c * s; h = threshold bias u in
        if c < h then Inr (y, cs)
        else let d = 36 - h in
          if puny_max div d < s then Inl JsRangeError else read_varint bias y (s * d) (u + 36) cs)"

lemma read_varint_shorter: "read_varint bias y s u cs = Inr (y', cs') \<Longrightarrow> length cs' < length cs"
  by (induction bias y s u cs arbitrary: y' cs' rule: read_varint.induct) (force simp: Let_def split: if_splits)+

definition js_rem :: "int \<Rightarrow> int \<Rightarrow> int" where
  "js_rem y t = (if y < 0 then - (- y mod t) else y mod t)"

definition splice_in :: "int list \<Rightarrow> int \<Rightarrow> int \<Rightarrow> int list" where
  "splice_in m y g =
     (let k = nat (if y < 0 then max 0 (int (length m) + y) else min y (int (length m)))
      in take k m @ g # drop k m)"

function decode_deltas :: "int list \<Rightarrow> int \<Rightarrow> int \<Rightarrow> int \<Rightarrow> js_string \<Rightarrow> int list js_res" where
  "decode_deltas m y g bias cs =
     (if cs = [] then Inr m
      else bindR (read_varint bias y 1 36 cs) (\<lambda>(y', cs').
        let t = int (length m) + 1; bias = adapt (y' - y) t (y = 0) in
        if puny_max - g < y' div t then Inl JsRangeError
        else let g = g + y' div t; y = js_rem y' t
             in decode_deltas (splice_in m y g) (y + 1) g bias cs'))"
  by auto
termination
  by (relation "measure (\<lambda>(m, y, g, bias, cs). length cs)") (auto dest: read_varint_shorter)

declare decode_deltas.simps [simp del]

definition puny_decode :: "js_string \<Rightarrow> js_string js_res" where
  "puny_decode e =
     (let n = (if 45 \<in> set e then length e - 1 - length (takeWhile (\<lambda>u. u \<noteq> 45) (rev e)) else 0);
          m = take n e
      in if list_ex (\<lambda>u. 128 \<le> u) m then Inl JsRangeError
         else bindR (decode_deltas m 0 128 72 (drop (if 0 < n then n + 1 else 0) e)) (\<lambda>m. Inr (ucs2_encode m)))"

section \<open>encode\<close>

lemma threshold_bounds: "1 \<le> threshold bias k" "threshold bias k \<le> 26"
  by (auto simp: threshold_def)

lemma varint_less:
  assumes "\<not> l < threshold bias k"
  shows "(l - threshold bias k) div (36 - threshold bias k) < l" "0 \<le> (l - threshold bias k) div (36 - threshold bias k)"
proof -
  let ?d = "threshold bias k"
  have d: "1 \<le> ?d" "?d \<le> 26" by (rule threshold_bounds)+
  have "(l - ?d) div (36 - ?d) \<le> (l - ?d) div 1" using d assms by (intro zdiv_mono2) linarith+
  with d assms show "(l - ?d) div (36 - ?d) < l" by simp
  show "0 \<le> (l - ?d) div (36 - ?d)" using d assms by (simp add: pos_imp_zdiv_nonneg_iff)
qed

function varint_units :: "int \<Rightarrow> int \<Rightarrow> int \<Rightarrow> js_string" where
  "varint_units bias k l =
     (let d = threshold bias k in
      if l < d then [digit_to_basic l 0]
      else digit_to_basic (d + (l - d) mod (36 - d)) 0 # varint_units bias (k + 36) ((l - d) div (36 - d)))"
  by auto
termination
proof (relation "measure (\<lambda>(bias, k, l). nat l)")
  fix bias k l d assume "d = threshold bias k" "\<not> l < d"
  then show "((bias, k + 36, (l - d) div (36 - d)), (bias, k, l)) \<in> measure (\<lambda>(bias, k, l). nat l)"
    using varint_less [of l bias k] threshold_bounds [of bias k] by simp
qed simp

declare varint_units.simps [simp del]

record puny =
  p_delta :: int
  p_bias :: int
  p_handled :: int
  p_out :: js_string

text \<open>One code point \<open>m\<close> in a round for \<open>t\<close>; \<open>y\<close> is taken at the start of the round.\<close>

definition encode_point :: "int \<Rightarrow> int \<Rightarrow> int \<Rightarrow> int \<Rightarrow> puny \<Rightarrow> puny js_res" where
  "encode_point t y i m s =
     (if m < t then
        (if puny_max < p_delta s + 1 then Inl JsRangeError else Inr (s\<lparr>p_delta := p_delta s + 1\<rparr>))
      else if m = t then
        Inr \<lparr>p_delta = 0, p_bias = adapt (p_delta s) y (p_handled s = i), p_handled = p_handled s + 1,
             p_out = p_out s @ varint_units (p_bias s) 36 (p_delta s)\<rparr>
      else Inr s)"

definition next_point :: "int \<Rightarrow> int list \<Rightarrow> int" where
  "next_point t e = fold (\<lambda>m u. if t \<le> m \<and> m < u then m else u) e puny_max"

partial_function (option) encode_rounds :: "int list \<Rightarrow> int \<Rightarrow> int \<Rightarrow> puny \<Rightarrow> js_string js_res option" where
  "encode_rounds e t i s =
     (if p_handled s < int (length e) then
        (let u = next_point t e; y = p_handled s + 1 in
         if (puny_max - p_delta s) div y < u - t then Some (Inl JsRangeError)
         else case foldR (encode_point u y i) e (s\<lparr>p_delta := p_delta s + (u - t) * y\<rparr>) of
                Inl x \<Rightarrow> Some (Inl x)
              | Inr s \<Rightarrow> encode_rounds e (u + 1) i (s\<lparr>p_delta := p_delta s + 1\<rparr>))
      else Some (Inr (p_out s)))"

declare encode_rounds.simps [code]

definition puny_encode :: "js_string \<Rightarrow> js_string js_res option" where
  "puny_encode e =
     (let e = ucs2_decode e; k = filter (\<lambda>m. m < 128) e; i = int (length k)
      in encode_rounds e 128 i
           \<lparr>p_delta = 0, p_bias = 72, p_handled = i, p_out = k @ (if i \<noteq> 0 then [45] else [])\<rparr>)"

section \<open>toASCII and toUnicode\<close>

fun map_labels :: "(js_string \<Rightarrow> js_string js_res option) \<Rightarrow> js_string list \<Rightarrow> js_string list js_res option" where
  "map_labels f [] = Some (Inr [])"
| "map_labels f (l # ls) =
     (case map_labels f ls of
        None \<Rightarrow> None
      | Some (Inl x) \<Rightarrow> Some (Inl x)
      | Some (Inr rs) \<Rightarrow>
          (case f l of None \<Rightarrow> None | Some (Inl x) \<Rightarrow> Some (Inl x) | Some (Inr r) \<Rightarrow> Some (Inr (r # rs))))"

definition label_dot :: "int \<Rightarrow> int" where
  "label_dot u = (if u \<in> {46, 12290, 65294, 65377} then 46 else u)"

definition map_domain :: "(js_string \<Rightarrow> js_string js_res option) \<Rightarrow> js_string \<Rightarrow> js_string js_res option" where
  "map_domain f e =
     (let n = split_on 64 e;
          r = (if 1 < length n then n ! 0 @ [64] else []);
          e = map label_dot (if 1 < length n then n ! 1 else e)
      in case map_labels f (split_on 46 e) of
           None \<Rightarrow> None
         | Some (Inl x) \<Rightarrow> Some (Inl x)
         | Some (Inr ls) \<Rightarrow> Some (Inr (r @ join_str [46] ls)))"

definition xn_prefix :: js_string where "xn_prefix = js ''xn--''"

text \<open>\<open>lower\<close> is \<open>toLowerCase\<close>, of which only the part on ASCII matters here.\<close>

definition unicode_label :: "(js_string \<Rightarrow> js_string) \<Rightarrow> js_string \<Rightarrow> js_string js_res option" where
  "unicode_label lower l =
     Some (if startswith l xn_prefix then puny_decode (lower (drop 4 l)) else Inr l)"

definition ascii_label :: "js_string \<Rightarrow> js_string js_res option" where
  "ascii_label l =
     (if list_ex (\<lambda>u. u < 32 \<or> 126 < u) l then
        (case puny_encode l of
           None \<Rightarrow> None
         | Some (Inl x) \<Rightarrow> Some (Inl x)
         | Some (Inr s) \<Rightarrow> Some (Inr (xn_prefix @ s)))
      else Some (Inr l))"

definition to_unicode :: "(js_string \<Rightarrow> js_string) \<Rightarrow> js_string \<Rightarrow> js_string js_res option" where
  "to_unicode lower = map_domain (unicode_label lower)"

definition to_ascii :: "js_string \<Rightarrow> js_string js_res option" where
  "to_ascii = map_domain ascii_label"

section \<open>Numbers of variable length\<close>

lemma le_div_iff: "0 < q \<Longrightarrow> (l::int) \<le> n div q \<longleftrightarrow> l * q \<le> n"
proof
  assume q: "0 < q" and l: "l \<le> n div q"
  have "l * q \<le> n div q * q" using q l by (intro mult_right_mono) auto
  also have "\<dots> \<le> n" using div_mult_mod_eq [of n q] pos_mod_sign [OF q, of n] by linarith
  finally show "l * q \<le> n" .
next
  assume "0 < q" "l * q \<le> n"
  then show "l \<le> n div q" using zdiv_mono1 [of "l * q" n q] by simp
qed

lemma digit_simp: "digit_to_basic e 0 = (if e < 26 then e + 97 else e + 22)"
  by (simp add: digit_to_basic_def js_shl_small)

lemma basic_digit: "0 \<le> e \<Longrightarrow> e < 36 \<Longrightarrow> basic_to_digit (digit_to_basic e 0) = e"
  by (simp add: digit_simp basic_to_digit_def)

lemma digit_unit: "0 \<le> e \<Longrightarrow> e < 36 \<Longrightarrow> unit_lower (digit_to_basic e 0) \<or> unit_digit (digit_to_basic e 0)"
  by (auto simp: digit_simp unit_defs)

lemma varint_digit:
  fixes bias k l :: int
  assumes "0 \<le> l"
  defines "d \<equiv> threshold bias k"
  shows "l < d \<Longrightarrow> l < 36" "\<not> l < d \<Longrightarrow> d \<le> d + (l - d) mod (36 - d) \<and> d + (l - d) mod (36 - d) < 36"
proof -
  have d: "1 \<le> d" "d \<le> 26" unfolding d_def by (rule threshold_bounds)+
  then show "l < d \<Longrightarrow> l < 36" by simp
  have "0 \<le> (l - d) mod (36 - d)" "(l - d) mod (36 - d) < 36 - d" using d by simp_all
  then show "d \<le> d + (l - d) mod (36 - d) \<and> d + (l - d) mod (36 - d) < 36" by linarith
qed

lemma varint_units_units:
  assumes "0 \<le> l" "u \<in> set (varint_units bias k l)"
  shows "unit_lower u \<or> unit_digit u"
  using assms
proof (induction bias k l rule: varint_units.induct)
  case (1 bias k l)
  let ?d = "threshold bias k"
  show ?case
  proof (cases "l < ?d")
    case True
    then have "u = digit_to_basic l 0" using "1.prems" by (simp add: varint_units.simps)
    then show ?thesis using digit_unit [of l] varint_digit(1) [of l bias k] "1.prems" True by simp
  next
    case False
    then consider "u = digit_to_basic (?d + (l - ?d) mod (36 - ?d)) 0"
      | "u \<in> set (varint_units bias (k + 36) ((l - ?d) div (36 - ?d)))"
      using "1.prems" by (subst (asm) varint_units.simps) (auto simp: Let_def)
    then show ?thesis
    proof cases
      case 1
      then show ?thesis
        using digit_unit [of "?d + (l - ?d) mod (36 - ?d)"] varint_digit(2) [OF "1.prems"(1) False]
          threshold_bounds [of bias k] by simp
    next
      case 2
      then show ?thesis using "1.IH" [OF refl False] varint_less(2) [OF False] by simp
    qed
  qed
qed

text \<open>
  The decoder raises an error when its weight leaves 31 bits, even if no digit uses the weight.  With a bias up to
  226 the weight is a power of 35 below \<open>35^6\<close> while thresholds may be small, and from then on a digit pays for it.
\<close>

definition weight_ok :: "int \<Rightarrow> nat \<Rightarrow> int \<Rightarrow> bool" where
  "weight_ok bias j s \<longleftrightarrow> 1 \<le> s \<and> (s \<le> 35 ^ j \<or> bias + 26 \<le> 36 * (int j + 1))"

lemma weight_next:
  fixes bias l s :: int and j :: nat
  assumes "weight_ok bias j s" "bias \<le> 226"
  defines "d \<equiv> threshold bias (36 * (int j + 1))"
  assumes "d \<le> l" "l * s \<le> puny_max"
  shows "weight_ok bias (Suc j) (s * (36 - d))" "s * (36 - d) \<le> puny_max"
proof -
  have d: "1 \<le> d" "d \<le> 26" unfolding d_def by (rule threshold_bounds)+
  have s: "1 \<le> s" using assms(1) by (simp add: weight_ok_def)
  have "1 * 1 \<le> s * (36 - d)" using s d by (intro mult_mono) auto
  moreover consider (late) "bias + 26 \<le> 36 * (int j + 1)" | (early) "s \<le> 35 ^ j" "36 * (int j + 1) < bias + 26"
    using assms(1) unfolding weight_ok_def by (metis not_le)
  then have "(s * (36 - d) \<le> 35 ^ Suc j \<or> bias + 26 \<le> 36 * (int (Suc j) + 1)) \<and> s * (36 - d) \<le> puny_max"
  proof cases
    case late
    then have "d = 26" by (simp add: d_def threshold_def)
    have "26 * s \<le> l * s" using assms(4) s \<open>d = 26\<close> by (intro mult_right_mono) auto
    with assms(5) have "s * 10 \<le> puny_max" using s by linarith
    with \<open>d = 26\<close> late show ?thesis by simp
  next
    case early
    have "s * (36 - d) \<le> 35 ^ j * 35" using early s d by (intro mult_mono) auto
    moreover have "int j < 6" using early(2) assms(2) by presburger
    then have "(35::int) ^ Suc j \<le> 35 ^ 6" by (intro power_increasing) simp_all
    moreover have "(35::int) ^ 6 \<le> puny_max" by (simp add: puny_max_def)
    ultimately show ?thesis by simp
  qed
  ultimately show "weight_ok bias (Suc j) (s * (36 - d))" "s * (36 - d) \<le> puny_max"
    by (auto simp: weight_ok_def)
qed

lemma weighted_sum: "(y::int) + c * s + l * (s * w) = y + (c + l * w) * s"
  by (simp add: algebra_simps)

lemma read_varint_units:
  assumes "weight_ok bias j s" "bias \<le> 226" "0 \<le> l" "0 \<le> y" "y + l * s \<le> puny_max"
  shows "read_varint bias y s (36 * (int j + 1)) (varint_units bias (36 * (int j + 1)) l @ rest) =
    Inr (y + l * s, rest)"
  using assms
proof (induction "nat l" arbitrary: l y s j rule: less_induct)
  case less
  let ?k = "36 * (int j + 1)"
  let ?d = "threshold bias ?k"
  have d: "1 \<le> ?d" "?d \<le> 26" by (rule threshold_bounds)+
  have s: "1 \<le> s" using less.prems(1) by (simp add: weight_ok_def)
  show ?case
  proof (cases "l < ?d")
    case True
    have "l \<le> (puny_max - y) div s" using less.prems(5) s by (simp add: le_div_iff)
    moreover have "basic_to_digit (digit_to_basic l 0) = l" using True d less.prems(3) by (intro basic_digit) simp_all
    ultimately show ?thesis using True d by (subst varint_units.simps) (simp add: Let_def)
  next
    case False
    let ?c = "?d + (l - ?d) mod (36 - ?d)" and ?l = "(l - ?d) div (36 - ?d)"
    have c: "?d \<le> ?c" "?c < 36" using varint_digit(2) [OF less.prems(3) False] by auto
    have digits: "?c + ?l * (36 - ?d) = l" using div_mult_mod_eq [of "l - ?d" "36 - ?d"] by simp
    then have sum: "y + ?c * s + ?l * (s * (36 - ?d)) = y + l * s"
      unfolding weighted_sum by (simp only: digits)
    have "0 \<le> ?l * (s * (36 - ?d))" using varint_less(2) [OF False] s d by simp
    then have "?c * s \<le> puny_max - y" using sum less.prems(5) by linarith
    then have bound: "?c \<le> (puny_max - y) div s" using s by (simp add: le_div_iff)
    have "l * s \<le> puny_max" using less.prems(4,5) by linarith
    note w = weight_next [OF less.prems(1,2) _ this] 
    have w: "weight_ok bias (Suc j) (s * (36 - ?d))" "s * (36 - ?d) \<le> puny_max" using w False by simp_all
    from w(2) have "s \<le> puny_max div (36 - ?d)" using d by (simp add: le_div_iff)
    moreover have "read_varint bias (y + ?c * s) (s * (36 - ?d)) (36 * (int (Suc j) + 1))
        (varint_units bias (36 * (int (Suc j) + 1)) ?l @ rest) = Inr (y + ?c * s + ?l * (s * (36 - ?d)), rest)"
    proof (rule less.hyps)
      show "nat ?l < nat l" using varint_less [OF False] by simp
      show "0 \<le> y + ?c * s" using less.prems(4) s c d by simp
    qed (use w less.prems(2,5) sum varint_less(2) [OF False] in simp_all)
    moreover have "36 * (int (Suc j) + 1) = ?k + 36" by simp
    moreover have "basic_to_digit (digit_to_basic ?c 0) = ?c" using c d by (intro basic_digit) simp_all
    ultimately show ?thesis
      using False c bound sum by (subst varint_units.simps) (simp add: Let_def del: of_nat_Suc)
  qed
qed

section \<open>The bias\<close>

lemma adapt_loop_bounds:
  "e \<le> 455 * 35 ^ n \<Longrightarrow> 0 \<le> e \<Longrightarrow>
     (case adapt_loop e r of (e', r') \<Rightarrow> 0 \<le> e' \<and> e' \<le> 455 \<and> r \<le> r' \<and> r' \<le> r + 36 * int n)"
proof (induction n arbitrary: e r)
  case 0
  then show ?case by (subst adapt_loop.simps) (simp add: js_shr_small)
next
  case (Suc n)
  have "e div 35 \<le> 455 * 35 ^ n" using Suc.prems(1) zdiv_mono1 [of e "455 * 35 ^ n * 35" 35] by simp
  moreover have "0 \<le> e div 35" using Suc.prems(2) by simp
  ultimately show ?case
    using Suc.IH [of "e div 35" "r + 36"] Suc.prems(2)
    by (subst adapt_loop.simps) (auto simp: js_shr_small split: prod.splits)
qed

lemma adapt_bounds:
  assumes "0 \<le> e" "e \<le> puny_max" "1 \<le> t"
  shows "adapt e t first \<le> 226" 
proof -
  let ?e = "if first then e div 700 else js_shr e 1"
  let ?f = "?e + ?e div t"
  have half: "js_shr e (Suc 0) = e div 2" using assms by (simp add: js_shr_small puny_max_def)
  have e: "0 \<le> ?e" "?e \<le> e div 2" using assms(1) by (auto simp: half zdiv_mono2)
  have "?e div t \<le> ?e div 1" using e assms(3) by (intro zdiv_mono2) auto
  moreover have "0 \<le> ?e div t" using e assms(3) by (simp add: pos_imp_zdiv_nonneg_iff)
  ultimately have f: "0 \<le> ?f" "?f \<le> 455 * 35 ^ 5" using e assms(2) by (auto simp: puny_max_def)
  obtain e' r' where a: "adapt_loop ?f 0 = (e', r')" by (cases "adapt_loop ?f 0")
  from adapt_loop_bounds [OF f(2,1), of 0] a have b: "0 \<le> e'" "e' \<le> 455" "r' \<le> 180" by auto
  have "36 * e' div (e' + 38) \<le> 36"
  proof -
    have "36 * e' div (e' + 38) \<le> 36 * (e' + 38) div (e' + 38)" using b by (intro zdiv_mono1) auto
    also have "\<dots> = 36" using b by (intro nonzero_mult_div_cancel_right) simp
    finally show ?thesis .
  qed
  then show ?thesis using a b by (simp add: adapt_def Let_def)
qed

text \<open>Small deltas adapt the bias without regard to the number of points.\<close>

lemma adapt_small: "0 \<le> e \<Longrightarrow> e < t \<Longrightarrow> t \<le> t' \<Longrightarrow> t' \<le> puny_max \<Longrightarrow> adapt e t False = adapt e t' False"
  by (simp add: adapt_def js_shr_small puny_max_def zdiv_eq_0_iff)

section \<open>The decoder follows the encoder\<close>

text \<open>
  In the round for \<open>t\<close>, with \<open>p\<close> seen and \<open>q\<close> to come, the points up to here are what the decoder has; the
  encoder's delta is the number of steps the decoder, at position \<open>y\<close> after inserting \<open>g\<close>, has to make.
\<close>

definition so_far :: "int \<Rightarrow> int list \<Rightarrow> int list \<Rightarrow> int list" where
  "so_far t p q = filter (\<lambda>m. m \<le> t) p @ filter (\<lambda>m. m < t) q"

definition place_in :: "int \<Rightarrow> int list \<Rightarrow> int" where
  "place_in t p = int (length (filter (\<lambda>m. m \<le> t) p))"

definition follows :: "int \<Rightarrow> int list \<Rightarrow> int list \<Rightarrow> int \<Rightarrow> puny \<Rightarrow> int \<Rightarrow> int \<Rightarrow> bool" where
  "follows t p q i s y g \<longleftrightarrow>
     p_handled s = int (length (so_far t p q))
     \<and> p_delta s = (t - g) * (p_handled s + 1) + place_in t p - y
     \<and> 0 \<le> p_delta s \<and> 0 \<le> y \<and> 0 \<le> g \<and> g \<le> t \<and> p_bias s \<le> 226
     \<and> 0 \<le> i \<and> i \<le> p_handled s \<and> (y = 0 \<longleftrightarrow> p_handled s = i)"

text \<open>The number of points at the start of the round does, though points have been handled since.\<close>

definition round_ok :: "int \<Rightarrow> int list \<Rightarrow> int \<Rightarrow> int \<Rightarrow> puny \<Rightarrow> bool" where
  "round_ok t q i r s \<longleftrightarrow>
     int (length (filter (\<lambda>m. m < t) q)) < r \<and> i < r \<and> r \<le> p_handled s + 1
     \<and> (p_handled s + 1 = r \<or> p_delta s + int (length (filter (\<lambda>m. m < t) q)) < r)"

definition in_range :: "int \<Rightarrow> int \<Rightarrow> bool" where
  "in_range t n \<longleftrightarrow> 0 \<le> t \<and> (t + 1) * (n + 1) \<le> puny_max"

lemma place_in_bounds: "0 \<le> place_in t p" "place_in t p \<le> int (length (so_far t p q))"
  by (simp_all add: place_in_def so_far_def)

lemma so_far_length: "length (so_far t p q) \<le> length (p @ q)"
  by (simp add: so_far_def add_mono)

lemma steps_bound:
  assumes "follows t p q i s y g" "in_range t (int (length (p @ q)))"
  shows "y + p_delta s < puny_max" "p_delta s < puny_max" "p_handled s + 1 \<le> puny_max" "t \<le> puny_max"
proof -
  let ?n = "int (length (p @ q)) + 1"
  have h: "0 \<le> p_handled s" "p_handled s + 1 \<le> ?n" "place_in t p \<le> p_handled s"
    using assms(1) so_far_length [of t p q] place_in_bounds(2) [of t p q] by (auto simp: follows_def)
  have t: "0 \<le> t" "0 \<le> g" "0 \<le> y" using assms by (auto simp: follows_def in_range_def)
  have "(t - g) * (p_handled s + 1) \<le> t * ?n" using t h by (intro mult_mono) auto
  then have "(t - g) * (p_handled s + 1) + place_in t p < (t + 1) * ?n"
    using h by (simp add: distrib_right)
  also have "\<dots> \<le> puny_max" using assms(2) by (simp add: in_range_def)
  finally show "y + p_delta s < puny_max" "p_delta s < puny_max" using assms(1) t by (auto simp: follows_def)
  have "?n \<le> (t + 1) * ?n" "t + 1 \<le> (t + 1) * ?n"
    using t mult_right_mono [of 1 "t + 1" ?n] mult_left_mono [of 1 ?n "t + 1"] by simp_all
  moreover have "(t + 1) * ?n \<le> puny_max" using assms(2) by (simp only: in_range_def)
  ultimately have "?n \<le> puny_max" "t + 1 \<le> puny_max" using order_trans by blast+
  then show "p_handled s + 1 \<le> puny_max" "t \<le> puny_max" using h by simp_all
qed

lemma splice_in_middle:
  assumes "k = int (length a)"
  shows "splice_in (a @ b) k g = a @ g # b"
  using assms by (simp add: splice_in_def)

lemma decode_emitted:
  assumes "follows t p (t # q) i s y g" "round_ok t (t # q) i r s" "in_range t (int (length (p @ t # q)))"
  shows "decode_deltas (so_far t p (t # q)) y g (p_bias s) (varint_units (p_bias s) 36 (p_delta s) @ rest) =
    decode_deltas (so_far t (p @ [t]) q) (place_in t p + 1) t (adapt (p_delta s) r (p_handled s = i)) rest"
proof -
  let ?m = "so_far t p (t # q)"
  note bound = steps_bound [OF assms(1,3)]
  have f: "p_handled s = int (length ?m)" "p_delta s = (t - g) * (int (length ?m) + 1) + place_in t p - y"
    "0 \<le> p_delta s" "0 \<le> y" "p_bias s \<le> 226" "(y = 0) = (p_handled s = i)"
    using assms(1) by (auto simp: follows_def)
  have nonempty: "varint_units (p_bias s) 36 (p_delta s) \<noteq> []"
    by (subst varint_units.simps) (simp add: Let_def)
  have read: "read_varint (p_bias s) y 1 36 (varint_units (p_bias s) 36 (p_delta s) @ rest) = Inr (y + p_delta s, rest)"
    using read_varint_units [of "p_bias s" 0 1 "p_delta s" y rest] f bound(1) by (simp add: weight_ok_def)
  have adapt: "adapt (p_delta s) (int (length ?m) + 1) (y = 0) = adapt (p_delta s) r (p_handled s = i)"
  proof (cases "p_handled s + 1 = r")
    case False
    then have "p_delta s < r" "r \<le> int (length ?m) + 1" "p_handled s \<noteq> i"
      using assms(2) f(1) by (auto simp: round_ok_def)
    with adapt_small [of "p_delta s" r "int (length ?m) + 1"] f bound(3) show ?thesis by simp
  qed (use f in auto)
  have place: "0 \<le> place_in t p" "place_in t p < int (length ?m) + 1"
    using place_in_bounds(1) [of t p] place_in_bounds(2) [of t p "t # q"] by linarith+
  have sum: "y + p_delta s = place_in t p + (t - g) * (int (length ?m) + 1)" using f(2) by simp
  have quot: "(y + p_delta s) div (int (length ?m) + 1) = t - g" "(y + p_delta s) mod (int (length ?m) + 1) = place_in t p"
    unfolding sum using place by simp_all
  have rem: "js_rem (y + p_delta s) (int (length ?m) + 1) = place_in t p"
    using f(3,4) quot(2) by (simp add: js_rem_def)
  have "splice_in ?m (place_in t p) t = so_far t (p @ [t]) q"
    unfolding so_far_def by (subst splice_in_middle) (simp_all add: place_in_def)
  then show ?thesis
    using nonempty bound(4) by (subst decode_deltas.simps) (simp add: read adapt quot(1) rem Let_def)
qed

lemma follow_emitted:
  assumes "follows t p (t # q) i s y g" "round_ok t (t # q) i r s" "in_range t (int (length (p @ t # q)))"
    and "encode_point t r i t s = Inr s'"
  shows "follows t (p @ [t]) q i s' (place_in t p + 1) t" "round_ok t q i r s'"
    "p_bias s' = adapt (p_delta s) r (p_handled s = i)"
proof -
  have s': "p_delta s' = 0" "p_bias s' = adapt (p_delta s) r (p_handled s = i)" "p_handled s' = p_handled s + 1"
    using assms(4) by (auto simp: encode_point_def)
  show "p_bias s' = adapt (p_delta s) r (p_handled s = i)" by (rule s')
  have "1 \<le> r" using assms(2) by (auto simp: round_ok_def)
  then have "p_bias s' \<le> 226"
    using steps_bound(2) [OF assms(1,3)] assms(1) by (auto simp: s' follows_def intro!: adapt_bounds)
  moreover have "place_in t (p @ [t]) = place_in t p + 1" by (simp add: place_in_def)
  moreover have "0 \<le> place_in t p" by (rule place_in_bounds)
  ultimately show "follows t (p @ [t]) q i s' (place_in t p + 1) t"
    using assms(1) by (auto simp: follows_def s' so_far_def)
  show "round_ok t q i r s'" using assms(2) by (auto simp: round_ok_def s')
qed

text \<open>Where nothing is emitted, the delta grows by the decoder's steps.\<close>

lemma follows_moved:
  assumes "follows t p q i s y g" "length (so_far t' p' q') = length (so_far t p q)"
    and "p_handled s' = p_handled s" "p_bias s' = p_bias s" "p_delta s' = p_delta s + n" "0 \<le> n" "t \<le> t'"
    and "n = (t' - t) * (p_handled s + 1) + place_in t' p' - place_in t p"
  shows "follows t' p' q' i s' y g"
proof -
  have f: "p_handled s = int (length (so_far t p q))"
    "p_delta s = (t - g) * (p_handled s + 1) + place_in t p - y" "0 \<le> p_delta s" "0 \<le> y" "0 \<le> g" "g \<le> t"
    "p_bias s \<le> 226" "0 \<le> i" "i \<le> p_handled s" "(y = 0) = (p_handled s = i)"
    using assms(1) unfolding follows_def by blast+
  have "0 \<le> p_delta s'" using f(3) assms(5,6) by simp
  moreover have "p_delta s' = (t' - g) * (p_handled s' + 1) + place_in t' p' - y"
    using f(2) assms(3,5,8) by (simp add: algebra_simps)
  moreover have "p_handled s' = int (length (so_far t' p' q'))" "g \<le> t'" "i \<le> p_handled s'"
    "(y = 0) = (p_handled s' = i)" "p_bias s' \<le> 226"
    using f assms(2,3,4,7) by simp_all
  ultimately show ?thesis unfolding follows_def using f(4,5,8) by blast
qed

lemma follow_counted:
  assumes "follows t p (m # q) i s y g" "round_ok t (m # q) i r s" "m \<noteq> t"
    and "in_range t (int (length (p @ m # q)))"
  shows "\<exists>s'. encode_point t r i m s = Inr s' \<and> p_bias s' = p_bias s \<and> p_out s' = p_out s
    \<and> follows t (p @ [m]) q i s' y g \<and> round_ok t q i r s' \<and> so_far t (p @ [m]) q = so_far t p (m # q)"
proof -
  define n :: int where "n = (if m < t then 1 else 0)"
  define s' where "s' = s\<lparr>p_delta := p_delta s + n\<rparr>"
  have same: "so_far t (p @ [m]) q = so_far t p (m # q)" "place_in t (p @ [m]) = place_in t p + n"
    using assms(3) by (auto simp: place_in_def so_far_def n_def)
  have "encode_point t r i m s = Inr s'"
    using steps_bound(2) [OF assms(1,4)] assms(3) by (auto simp: encode_point_def s'_def n_def)
  moreover have "follows t (p @ [m]) q i s' y g"
    by (rule follows_moved [OF assms(1), where n = n]) (simp_all add: same s'_def n_def)
  moreover have "round_ok t q i r s'"
    using assms(2) by (auto simp: round_ok_def s'_def n_def split: if_splits)
  ultimately show ?thesis using same(1) by (intro exI [of _ s']) (simp add: s'_def)
qed

lemma follow_round:
  assumes "follows t p q i s y g" "round_ok t q i r s" "in_range t (int (length (p @ q)))"
  shows "\<exists>s' w y' g'. foldR (encode_point t r i) q s = Inr s' \<and> p_out s' = p_out s @ w
    \<and> (\<forall>u \<in> set w. unit_lower u \<or> unit_digit u)
    \<and> (\<forall>rest. decode_deltas (so_far t p q) y g (p_bias s) (w @ rest) =
         decode_deltas (so_far t (p @ q) []) y' g' (p_bias s') rest)
    \<and> follows t (p @ q) [] i s' y' g'"
  using assms
proof (induction q arbitrary: p s y g)
  case Nil
  show ?case by (insert Nil, rule exI [of _ s], rule exI [of _ "[]"], rule exI [of _ y], rule exI [of _ g]) simp
next
  case (Cons m q)
  have range: "in_range t (int (length ((p @ [m]) @ q)))" using Cons.prems(3) by simp
  show ?case
  proof (cases "m = t")
    case True
    obtain s1 where s1: "encode_point t r i t s = Inr s1"
      "p_out s1 = p_out s @ varint_units (p_bias s) 36 (p_delta s)"
      by (simp add: encode_point_def)
    note emitted = follow_emitted [OF Cons.prems [unfolded True] s1(1)]
    from Cons.IH [OF emitted(1,2) range [unfolded True]] obtain s' w y' g' where
      IH: "foldR (encode_point t r i) q s1 = Inr s'" "p_out s' = p_out s1 @ w"
        "\<forall>u \<in> set w. unit_lower u \<or> unit_digit u"
        "\<And>rest. decode_deltas (so_far t (p @ [t]) q) (place_in t p + 1) t (p_bias s1) (w @ rest) =
           decode_deltas (so_far t ((p @ [t]) @ q) []) y' g' (p_bias s') rest"
        "follows t ((p @ [t]) @ q) [] i s' y' g'"
      by blast
    have "0 \<le> p_delta s" using Cons.prems(1) unfolding follows_def by blast
    then have units: "\<forall>u \<in> set (varint_units (p_bias s) 36 (p_delta s)). unit_lower u \<or> unit_digit u"
      using varint_units_units by blast
    note facts = True s1 IH units decode_emitted [OF Cons.prems [unfolded True]] emitted(3)
    show ?thesis
      by (insert facts, rule exI [of _ s'], rule exI [of _ "varint_units (p_bias s) 36 (p_delta s) @ w"],
          rule exI [of _ y'], rule exI [of _ g']) auto
  next
    case False
    from follow_counted [OF Cons.prems(1,2) False Cons.prems(3)] obtain s1 where
      s1: "encode_point t r i m s = Inr s1" "p_bias s1 = p_bias s" "p_out s1 = p_out s"
        "follows t (p @ [m]) q i s1 y g" "round_ok t q i r s1" "so_far t (p @ [m]) q = so_far t p (m # q)"
      by blast
    from Cons.IH [OF s1(4,5) range] show ?thesis using s1(1-3,6) by simp
  qed
qed

section \<open>The rounds\<close>

lemma fold_least:
  fixes e :: "int list"
  shows "fold (\<lambda>m u. if t \<le> m \<and> m < u then m else u) e a = c \<Longrightarrow>
     c \<le> a \<and> (\<forall>m \<in> set e. t \<le> m \<longrightarrow> c \<le> m) \<and> (c = a \<or> c \<in> set e \<and> t \<le> c)"
proof (induction e arbitrary: a)
  case (Cons x e)
  define b where "b = (if t \<le> x \<and> x < a then x else a)"
  have "c \<le> b \<and> (\<forall>m \<in> set e. t \<le> m \<longrightarrow> c \<le> m) \<and> (c = b \<or> c \<in> set e \<and> t \<le> c)"
    using Cons.prems by (intro Cons.IH) (simp add: b_def)
  moreover have "b \<le> a" "t \<le> x \<longrightarrow> b \<le> x" "b = a \<or> b = x \<and> t \<le> x" by (auto simp: b_def)
  ultimately show ?case by auto
qed simp

lemma next_point_least:
  assumes "x \<in> set e" "t \<le> x" "\<forall>m \<in> set e. m < puny_max"
  shows "next_point t e \<in> set e" "t \<le> next_point t e" "\<forall>m \<in> set e. t \<le> m \<longrightarrow> next_point t e \<le> m"
  using fold_least [of t e puny_max "next_point t e"] assms unfolding next_point_def by fastforce+

lemma in_range_mono: "in_range t n \<Longrightarrow> 0 \<le> u \<Longrightarrow> u \<le> t \<Longrightarrow> 0 \<le> n \<Longrightarrow> in_range u n"
  unfolding in_range_def by (meson add_mono_thms_linordered_semiring(3) mult_right_mono order_trans add_nonneg_nonneg zero_le_one)

lemma so_far_next: "so_far (u + 1) [] e = so_far u e []"
  by (auto simp: so_far_def zless_add1_eq le_less intro!: filter_cong)

lemma follow_rounds:
  assumes "follows t [] e i s y g" "\<forall>m \<in> set e. 0 \<le> m \<and> m \<le> 1114111" "in_range 1114111 (int (length e))"
  shows "\<exists>w. encode_rounds e t i s = Some (Inr (p_out s @ w)) \<and> (\<forall>u \<in> set w. unit_lower u \<or> unit_digit u)
    \<and> decode_deltas (so_far t [] e) y g (p_bias s) w = Inr e"
  using assms(1)
proof (induction "length (filter (\<lambda>m. t \<le> m) e)" arbitrary: t s y g rule: less_induct)
  case less
  have handled: "p_handled s = int (length (filter (\<lambda>m. m < t) e))"
    using less.prems by (simp add: follows_def so_far_def)
  show ?case
  proof (cases "p_handled s < int (length e)")
    case False
    then have "filter (\<lambda>m. m < t) e = e"
      using handled by (metis length_filter_less not_le of_nat_less_iff filter_id_conv)
    with False show ?thesis
      by (subst encode_rounds.simps, subst decode_deltas.simps) (simp add: so_far_def)
  next
    case True
    then have "filter (\<lambda>m. m < t) e \<noteq> e" using handled by auto
    then obtain x where x: "x \<in> set e" "t \<le> x" by (auto simp: filter_id_conv not_less)
    have small: "\<forall>m \<in> set e. m < puny_max" using assms(2) by (force simp: puny_max_def)
    define u where "u = next_point t e"
    note u = next_point_least [OF x small, folded u_def]
    define r where "r = p_handled s + 1"
    define s1 where "s1 = s\<lparr>p_delta := p_delta s + (u - t) * r\<rparr>"
    have below: "filter (\<lambda>m. m < u) e = filter (\<lambda>m. m < t) e"
      using u by (intro filter_cong) auto
    have f1: "follows u [] e i s1 y g"
      by (rule follows_moved [OF less.prems, where n = "(u - t) * r"])
         (use u(2) handled in \<open>simp_all add: s1_def r_def so_far_def below place_in_def\<close>)
    have "i \<le> p_handled s" using less.prems unfolding follows_def by blast
    then have r1: "round_ok u e i r s1"
      unfolding round_ok_def below using handled by (simp add: s1_def r_def)
    have range: "in_range u (int (length ([] @ e)))"
      using in_range_mono [OF assms(3), of u] assms(2) u(1) by simp
    from follow_round [OF f1 r1 range] obtain s2 w1 y2 g2 where
      s2: "foldR (encode_point u r i) e s1 = Inr s2" "p_out s2 = p_out s1 @ w1"
        "\<forall>v \<in> set w1. unit_lower v \<or> unit_digit v"
        "\<And>rest. decode_deltas (so_far u [] e) y g (p_bias s1) (w1 @ rest) =
           decode_deltas (so_far u e []) y2 g2 (p_bias s2) rest"
        "follows u e [] i s2 y2 g2"
      by auto
    define s3 where "s3 = s2\<lparr>p_delta := p_delta s2 + 1\<rparr>"
    have h2: "p_handled s2 = place_in u e" using s2(5) by (simp add: follows_def place_in_def so_far_def)
    have f3: "follows (u + 1) [] e i s3 y2 g2"
      by (rule follows_moved [OF s2(5), where n = 1])
         (simp_all add: s3_def so_far_next h2, simp_all add: place_in_def)
    have "length (filter (\<lambda>m. u + 1 \<le> m) e) < length (filter (\<lambda>m. t \<le> m) e)"
    proof -
      have "filter (\<lambda>m. u + 1 \<le> m) e = filter (\<lambda>m. u + 1 \<le> m) (filter (\<lambda>m. t \<le> m) e)"
        using u(2) by (auto intro!: filter_cong)
      moreover have "length (filter (\<lambda>m. u + 1 \<le> m) (filter (\<lambda>m. t \<le> m) e)) < length (filter (\<lambda>m. t \<le> m) e)"
        using u(1,2) by (intro length_filter_less [of u]) auto
      ultimately show ?thesis by simp
    qed
    from less.hyps [OF this f3] obtain w2 where
      w2: "encode_rounds e (u + 1) i s3 = Some (Inr (p_out s3 @ w2))" "\<forall>v \<in> set w2. unit_lower v \<or> unit_digit v"
        "decode_deltas (so_far (u + 1) [] e) y2 g2 (p_bias s3) w2 = Inr e"
      by auto
    have "p_delta s1 < puny_max" using steps_bound(2) [OF f1 range] .
    moreover have "0 < r" using handled by (simp add: r_def)
    ultimately have "u - t \<le> (puny_max - p_delta s) div r" by (simp add: le_div_iff s1_def)
    then have "encode_rounds e t i s = encode_rounds e (u + 1) i s3"
      using True s2(1) by (subst encode_rounds.simps) (simp add: u_def r_def s1_def s3_def Let_def)
    moreover have "so_far t [] e = so_far u [] e" using below by (simp add: so_far_def)
    ultimately show ?thesis
      using w2 s2 by (intro exI [of _ "w1 @ w2"]) (auto simp: s1_def s3_def so_far_next)
  qed
qed

section \<open>Strings there and back\<close>

lemma js_and_64512:
  assumes "0 \<le> n" "n < 65536"
  shows "js_and 64512 n = n - n mod 1024"
proof -
  have "to_int32 64512 = 64512" "to_int32 n = n" using assms by (simp_all add: to_int32_small)
  moreover have "(mask 16 AND NOT (mask 10) :: int) = 64512" by (simp add: mask_eq_exp_minus_1)
  then have "(64512::int) AND n = push_bit 10 (take_bit 6 (drop_bit 10 n))"
    using slice_eq_mask [of 10 6 n] by (simp add: ac_simps)
  moreover have "take_bit 6 (drop_bit 10 n) = n div 1024"
    using assms by (simp add: drop_bit_eq_div take_bit_int_eq_self)
  ultimately show ?thesis
    by (simp add: js_and_def push_bit_eq_mult minus_mod_eq_mult_div algebra_simps)
qed

lemma js_or_commute: "js_or x y = js_or y x"
  by (simp add: js_or_def or.commute)

lemma point_units_pair:
  assumes "0 \<le> a" "a < 1024" "0 \<le> b" "b < 1024"
  shows "point_units (a * 1024 + b + 65536) = [a + 55296, b + 56320]"
proof -
  let ?v = "a * 1024 + b"
  have v: "0 \<le> ?v" "?v < 1048576" "?v div 1024 = a" "?v mod 1024 = b" using assms by simp_all
  then have "js_ushr ?v 10 = a" by (simp add: js_ushr_def drop_bit_eq_div take_bit_int_eq_self)
  moreover have "js_and a 1023 = a" "js_and 1023 ?v = b"
    using assms v js_and_mask [of a 10] js_and_mask [of ?v 10] by simp_all
  moreover have "js_or a 55296 = a + 55296" "js_or 56320 b = b + 56320"
    using assms js_or_plus [of 54 a 10] js_or_plus [of 55 b 10] by (simp_all add: js_or_commute)
  ultimately show ?thesis using v(1) by (simp add: point_units_def Let_def)
qed

lemma surrogate_pair:
  assumes "55296 \<le> t" "t \<le> 56319" "0 \<le> n" "n < 65536" "56320 = js_and 64512 n"
  defines "c \<equiv> js_shl (js_and 1023 t) 10 + js_and 1023 n + 65536"
  shows "point_units c = [t, n]" "65536 \<le> c" "c \<le> 1114111"
proof -
  have "(t - 55296 + 54 * 1024) mod 1024 = (t - 55296) mod 1024" by (rule mod_mult_self1)
  then have "t mod 1024 = t - 55296" using assms(1,2) by simp
  then have t: "js_and 1023 t = t - 55296" using assms(1,2) js_and_mask [of t 10] by simp
  have n: "js_and 1023 n = n - 56320" "56320 \<le> n" "n < 57344"
  proof -
    have "n - n mod 1024 = 56320" using js_and_64512 [OF assms(3,4)] assms(5) by simp
    moreover have "0 \<le> n mod 1024" "n mod 1024 < 1024" by simp_all
    moreover have "js_and 1023 n = n mod 1024" using js_and_mask [of n 10] assms(3,4) by simp
    ultimately show "js_and 1023 n = n - 56320" "56320 \<le> n" "n < 57344" by linarith+
  qed
  have c: "c = (t - 55296) * 1024 + (n - 56320) + 65536"
    using assms(1,2) unfolding c_def t n(1) by (simp add: js_shl_small)
  show "point_units c = [t, n]"
    unfolding c using point_units_pair [of "t - 55296" "n - 56320"] assms(1,2) n by simp
  show "65536 \<le> c" "c \<le> 1114111" unfolding c using assms(1,2) n by simp_all
qed

lemma ucs2_round_trip:
  "js_units e \<Longrightarrow> ucs2_encode (ucs2_decode e) = e \<and> (\<forall>c \<in> set (ucs2_decode e). 0 \<le> c \<and> c \<le> 1114111)
     \<and> length (ucs2_decode e) \<le> length e"
proof (induction e rule: ucs2_decode.induct)
  case (2 t s)
  have single: "point_units t = [t]" using "2.prems" by (simp add: point_units_def)
  show ?case
  proof (cases "\<exists>n r. s = n # r \<and> 55296 \<le> t \<and> t \<le> 56319 \<and> 56320 = js_and 64512 n")
    case True
    then obtain n r where s: "s = n # r" "55296 \<le> t" "t \<le> 56319" "56320 = js_and 64512 n" by blast
    have "0 \<le> n" "n < 65536" "js_units r" using "2.prems" s(1) by simp_all
    note pair = surrogate_pair [OF s(2,3) this(1,2) s(4)]
    define c where "c = js_shl (js_and 1023 t) 10 + js_and 1023 n + 65536"
    have "ucs2_decode (t # s) = c # ucs2_decode r" using s by (simp add: c_def)
    then show ?thesis
      using pair [folded c_def] "2.IH"(1) [of n r] s \<open>js_units r\<close> by (simp add: ucs2_encode_def)
  next
    case False
    note none = this
    then have "ucs2_decode (t # s) = t # ucs2_decode s" by (cases s) auto
    moreover have "ucs2_encode (ucs2_decode s) = s \<and> (\<forall>c \<in> set (ucs2_decode s). 0 \<le> c \<and> c \<le> 1114111)
        \<and> length (ucs2_decode s) \<le> length s"
    proof (cases "55296 \<le> t \<and> t \<le> 56319")
      case True
      show ?thesis
      proof (cases s)
        case (Cons n r)
        then show ?thesis using "2.IH"(2) [OF True, of n r] "2.prems" True none by auto
      qed (simp add: ucs2_encode_def)
    next
      case False
      then show ?thesis using "2.IH"(3) "2.prems" by simp
    qed
    ultimately show ?thesis using single "2.prems" by (simp add: ucs2_encode_def)
  qed
qed (simp add: ucs2_encode_def)

section \<open>decode undoes encode\<close>

lemma last_hyphen:
  assumes "45 \<notin> set w"
  shows "length (k @ 45 # w) - 1 - length (takeWhile (\<lambda>u. u \<noteq> 45) (rev (k @ 45 # w))) = length k"
proof -
  have "takeWhile (\<lambda>u. u \<noteq> 45) (rev w @ 45 # rev k) = rev w" using assms by (auto simp: takeWhile_append)
  then show ?thesis by simp
qed

lemma puny_decode_parts:
  assumes "\<forall>u \<in> set k. u < 128" "\<forall>u \<in> set w. unit_lower u \<or> unit_digit u"
    and "decode_deltas k 0 128 72 w = Inr m"
  shows "puny_decode (k @ (if k \<noteq> [] then [45] else []) @ w) = Inr (ucs2_encode m)"
proof -
  have none: "45 \<notin> set w" using assms(2) by (auto simp: unit_defs)
  show ?thesis
  proof (cases "k = []")
    case True
    then show ?thesis using none assms(3) by (simp add: puny_decode_def)
  next
    case False
    have "\<not> list_ex (\<lambda>u. 128 \<le> u) k" using assms(1) by (auto simp: list_ex_iff)
    then show ?thesis
      using False assms(3) last_hyphen [OF none, of k] by (simp add: puny_decode_def Let_def)
  qed
qed

lemma decode_encoded_name:
  assumes "js_units e" "length e \<le> 1926"
  shows "\<exists>s. puny_encode e = Some (Inr s) \<and> puny_decode s = Inr e
    \<and> (\<forall>u \<in> set s. u < 128 \<and> u \<in> set e \<or> unit_lower u \<or> unit_digit u \<or> u = 45)"
proof -
  define c where "c = ucs2_decode e"
  define k where "k = filter (\<lambda>m. m < 128) c"
  define s where "s = \<lparr>p_delta = 0, p_bias = 72, p_handled = int (length k), p_out = k @ (if k \<noteq> [] then [45] else [])\<rparr>"
  have c: "ucs2_encode c = e" "\<forall>m \<in> set c. 0 \<le> m \<and> m \<le> 1114111" "length c \<le> length e"
    using ucs2_round_trip [OF assms(1)] by (simp_all add: c_def)
  have "follows 128 [] c (int (length k)) s 0 128"
    by (simp add: follows_def s_def so_far_def place_in_def k_def)
  moreover have "in_range 1114111 (int (length c))" using c(3) assms(2) by (simp add: in_range_def puny_max_def)
  ultimately obtain w where w: "encode_rounds c 128 (int (length k)) s = Some (Inr (p_out s @ w))"
    "\<forall>u \<in> set w. unit_lower u \<or> unit_digit u" "decode_deltas (so_far 128 [] c) 0 128 72 w = Inr c"
    using follow_rounds [OF _ c(2)] by (fastforce simp: s_def)
  have "puny_encode e = Some (Inr (p_out s @ w))"
    using w(1) by (simp add: puny_encode_def Let_def c_def [symmetric] k_def [symmetric] s_def)
  moreover have "puny_decode (p_out s @ w) = Inr e"
    using puny_decode_parts [of k w c] w(2,3) c(1) by (simp add: k_def s_def so_far_def)
  moreover have "m \<in> set e" if "m \<in> set k" for m
  proof -
    have "m \<in> set c" "0 \<le> m" "m < 128" using that c(2) by (auto simp: k_def)
    moreover then have "point_units m = [m]" by (simp add: point_units_def)
    ultimately have "m \<in> set (ucs2_encode c)" by (force simp: ucs2_encode_def)
    then show ?thesis by (simp add: c(1))
  qed
  ultimately show ?thesis using w(2) by (intro exI [of _ "p_out s @ w"]) (auto simp: s_def k_def)
qed

section \<open>Names of hosts\<close>

definition label_unit :: "int \<Rightarrow> bool" where
  "label_unit u \<longleftrightarrow> u \<notin> {46, 12290, 65294, 65377} \<and> u \<noteq> 64"

definition mail_prefix :: "js_string \<Rightarrow> bool" where
  "mail_prefix p \<longleftrightarrow> p = [] \<or> last p = 64 \<and> 64 \<notin> set (butlast p)"

lemma map_labels_all2:
  "list_all2 (\<lambda>l r. f l = Some (Inr r)) ls rs \<Longrightarrow> map_labels f ls = Some (Inr rs)"
  by (induction rule: list_all2_induct) simp_all

lemma set_join: "u \<in> set (join_str [d] ls) \<Longrightarrow> u = d \<or> (\<exists>l \<in> set ls. u \<in> set l)"
  by (induction "[d]" ls rule: join_str.induct) auto

lemma map_domain_labels:
  assumes "mail_prefix p" "ls \<noteq> []" "\<forall>l \<in> set ls. \<forall>u \<in> set l. label_unit u"
    and "list_all2 (\<lambda>l r. f l = Some (Inr r)) ls rs"
  shows "map_domain f (p @ join_str [46] ls) = Some (Inr (p @ join_str [46] rs))"
proof -
  let ?e = "join_str [46] ls"
  have units: "64 \<notin> set ?e" "\<forall>u \<in> set ?e. label_dot u = u"
    using set_join [of _ 46 ls] assms(3) by (fastforce simp: label_unit_def label_dot_def)+
  then have same: "map label_dot ?e = ?e" by (intro map_idI) auto
  have split: "split_on 46 ?e = ls"
    using assms(2,3) by (intro split_on_join) (auto simp: label_unit_def)
  note labels = map_labels_all2 [OF assms(4)]
  show ?thesis
  proof (cases "p = []")
    case True
    then show ?thesis using units(1) by (simp add: map_domain_def split_on_word same split labels Let_def)
  next
    case False
    with assms(1) obtain q where q: "p = q @ [64]" "64 \<notin> set q"
      unfolding mail_prefix_def by (metis append_butlast_last_id)
    then have "split_on 64 (p @ ?e) = [q, ?e]" using units(1) by (simp add: split_on_append split_on_word)
    then show ?thesis using q by (simp add: map_domain_def same split labels Let_def)
  qed
qed

definition plain_label :: "js_string \<Rightarrow> bool" where
  "plain_label l \<longleftrightarrow> js_units l \<and> length l \<le> 1926 \<and> \<not> startswith l xn_prefix
     \<and> (\<forall>u \<in> set l. label_unit u \<and> \<not> unit_upper u)"

lemma label_round_trip:
  assumes "plain_label l" "\<And>s. \<forall>u \<in> set s. 0 \<le> u \<and> u < 128 \<Longrightarrow> lower s = map ascii_lower s"
  shows "\<exists>s. ascii_label l = Some (Inr s) \<and> unicode_label lower s = Some (Inr l)
    \<and> (\<forall>u \<in> set s. label_unit u \<and> 0 \<le> u \<and> u < 128)"
proof (cases "list_ex (\<lambda>u. u < 32 \<or> 126 < u) l")
  case False
  then have "\<forall>u \<in> set l. 32 \<le> u \<and> u \<le> 126" by (auto simp: list_ex_iff)
  with False assms(1) show ?thesis
    by (intro exI [of _ l]) (auto simp: plain_label_def ascii_label_def unicode_label_def)
next
  case True
  have l: "js_units l" "length l \<le> 1926" "\<forall>u \<in> set l. label_unit u \<and> \<not> unit_upper u"
    using assms(1) by (simp_all add: plain_label_def)
  from decode_encoded_name [OF l(1,2)] obtain s where s: "puny_encode l = Some (Inr s)" "puny_decode s = Inr l"
    "\<forall>u \<in> set s. u < 128 \<and> u \<in> set l \<or> unit_lower u \<or> unit_digit u \<or> u = 45" by blast
  have units: "label_unit u \<and> 0 \<le> u \<and> u < 128 \<and> \<not> unit_upper u" if "u \<in> set s" for u
    using that s(3) l by (fastforce simp: label_unit_def unit_defs js_units_def)
  then have "lower s = map ascii_lower s" by (intro assms(2)) auto
  also have "\<dots> = s" using units by (intro map_idI) (simp add: ascii_lower_def)
  finally have "unicode_label lower (xn_prefix @ s) = Some (Inr l)"
    using s(2) by (simp add: unicode_label_def xn_prefix_def js_def startswith_def)
  moreover have "\<forall>u \<in> set (xn_prefix @ s). label_unit u \<and> 0 \<le> u \<and> u < 128"
    using units by (auto simp: xn_prefix_def js_def label_unit_def)
  ultimately show ?thesis using True s(1) by (intro exI [of _ "xn_prefix @ s"]) (simp add: ascii_label_def)
qed

lemma host_round_trip:
  assumes "mail_prefix p" "ls \<noteq> []" "\<forall>l \<in> set ls. plain_label l"
    and "\<And>s. \<forall>u \<in> set s. 0 \<le> u \<and> u < 128 \<Longrightarrow> lower s = map ascii_lower s"
  shows "\<exists>t. to_ascii (p @ join_str [46] ls) = Some (Inr (p @ t))
    \<and> to_unicode lower (p @ t) = Some (Inr (p @ join_str [46] ls)) \<and> (\<forall>u \<in> set t. 0 \<le> u \<and> u < 128)"
proof -
  have "\<forall>l \<in> set ls. \<exists>s. ascii_label l = Some (Inr s) \<and> unicode_label lower s = Some (Inr l)
      \<and> (\<forall>u \<in> set s. label_unit u \<and> 0 \<le> u \<and> u < 128)"
    using label_round_trip [OF _ assms(4)] assms(3) by blast
  from bchoice [OF this] obtain g where
    g: "\<forall>l \<in> set ls. ascii_label l = Some (Inr (g l)) \<and> unicode_label lower (g l) = Some (Inr l)
          \<and> (\<forall>u \<in> set (g l). label_unit u \<and> 0 \<le> u \<and> u < 128)" by blast
  define rs where "rs = map g ls"
  have "list_all2 (\<lambda>l r. ascii_label l = Some (Inr r)) ls rs" "list_all2 (\<lambda>l r. unicode_label lower l = Some (Inr r)) rs ls"
    using g by (simp_all add: rs_def list_all2_conv_all_nth)
  note all = this
  have "to_ascii (p @ join_str [46] ls) = Some (Inr (p @ join_str [46] rs))"
    unfolding to_ascii_def
    using assms(1-3) all(1) by (intro map_domain_labels) (auto simp: plain_label_def)
  moreover have "to_unicode lower (p @ join_str [46] rs) = Some (Inr (p @ join_str [46] ls))"
    unfolding to_unicode_def
    using assms(1,2) all(2) g by (intro map_domain_labels) (auto simp: rs_def)
  moreover have "\<forall>u \<in> set (join_str [46] rs). 0 \<le> u \<and> u < 128"
    using set_join [of _ 46 rs] g by (fastforce simp: rs_def)
  ultimately show ?thesis by blast
qed

end
