(* ===== verification/Names_Properties.thy ===== *)
theory Names_Properties
  imports Swagger_Punycode
begin

text \<open>
  Properties of punycode: names with letters of any script survive the way into ASCII and back; what
  \<open>decode\<close> accepts beyond what \<open>encode\<close> writes.
\<close>

section \<open>RFC 3492\<close>

text \<open>
  C4: \<open>encode\<close> succeeds on every string of at most 1926 code units, surrogates without partner included, writes ASCII
  only, and \<open>decode\<close> gives the string back: neither meets an overflow, and the number of points
  that \<open>encode\<close> hands to \<open>adapt\<close>, taken once per round, leads to the same bias as the decoder's.
\<close>

theorem punycode_round_trip:
  assumes "js_units e" "length e \<le> 1926"
  shows "\<exists>s. puny_encode e = Some (Inr s) \<and> puny_decode s = Inr e \<and> (\<forall>u \<in> set s. 0 \<le> u \<and> u < 128)"
proof -
  from decode_encoded_name [OF assms] obtain s where
    s: "puny_encode e = Some (Inr s)" "puny_decode s = Inr e"
      "\<forall>u \<in> set s. u < 128 \<and> u \<in> set e \<or> unit_lower u \<or> unit_digit u \<or> u = 45" by blast
  have "0 \<le> u \<and> u < 128" if "u \<in> set s" for u
    using that s(3) assms(1) by (fastforce simp: unit_defs js_units_def)
  with s(1,2) show ?thesis by blast
qed

theorem punycode_round_trip_witness:
  "puny_encode (js ''M'' @ [252] @ js ''nchen'' @ [252, 55357, 56832]) = Some (Inr (js ''Mnchen-3yaf45456i''))
   \<and> puny_decode (js ''Mnchen-3yaf45456i'') = Inr (js ''M'' @ [252] @ js ''nchen'' @ [252, 55357, 56832])"
proof -
  have "\<exists>s. puny_encode (js ''M'' @ [252] @ js ''nchen'' @ [252, 55357, 56832]) = Some (Inr s)
      \<and> puny_decode s = Inr (js ''M'' @ [252] @ js ''nchen'' @ [252, 55357, 56832]) \<and> (\<forall>u \<in> set s. 0 \<le> u \<and> u < 128)"
    by (rule punycode_round_trip) (simp_all add: js_def)
  moreover have "puny_encode (js ''M'' @ [252] @ js ''nchen'' @ [252, 55357, 56832]) = Some (Inr (js ''Mnchen-3yaf45456i''))"
    by code_simp
  ultimately show ?thesis by simp
qed

section \<open>Hosts and mail addresses\<close>

text \<open>
  C11: \<open>toASCII\<close> turns the name of a host, or a mail address, into ASCII behind the \<open>@\<close> and \<open>toUnicode\<close> turns it back, when
  the labels have no capital ASCII letters, do not begin with \<open>xn--\<close> and have at most 1926 units.
\<close>

theorem host_names_round_trip:
  assumes "mail_prefix p" "labels \<noteq> []" "\<forall>l \<in> set labels. plain_label l"
    and "\<And>s. \<forall>u \<in> set s. 0 \<le> u \<and> u < 128 \<Longrightarrow> lower s = map ascii_lower s"
  shows "\<exists>t. to_ascii (p @ join_str [46] labels) = Some (Inr (p @ t)) \<and> (\<forall>u \<in> set t. 0 \<le> u \<and> u < 128)
    \<and> to_unicode lower (p @ t) = Some (Inr (p @ join_str [46] labels))"
  using host_round_trip [OF assms] by blast

theorem host_names_round_trip_witness:
  "to_ascii (js ''a@b'' @ [252] @ js ''cher.nl'') = Some (Inr (js ''a@xn--bcher-kva.nl''))
   \<and> to_unicode (map ascii_lower) (js ''a@xn--bcher-kva.nl'') = Some (Inr (js ''a@b'' @ [252] @ js ''cher.nl''))"
proof -
  have "\<exists>t. to_ascii (js ''a@'' @ join_str [46] [js ''b'' @ [252] @ js ''cher'', js ''nl'']) = Some (Inr (js ''a@'' @ t))
      \<and> (\<forall>u \<in> set t. 0 \<le> u \<and> u < 128)
      \<and> to_unicode (map ascii_lower) (js ''a@'' @ t) = Some (Inr (js ''a@'' @ join_str [46] [js ''b'' @ [252] @ js ''cher'', js ''nl'']))"
    by (rule host_names_round_trip)
       (simp_all add: mail_prefix_def plain_label_def label_unit_def xn_prefix_def startswith_def unit_defs js_def)
  moreover have "to_ascii (js ''a@b'' @ [252] @ js ''cher.nl'') = Some (Inr (js ''a@xn--bcher-kva.nl''))"
    by code_simp
  ultimately show ?thesis by auto
qed

section \<open>What else is accepted\<close>

text \<open>Characters below \<open>0\<close> count as digits, so a name has spellings that \<open>encode\<close> never writes.\<close>

lemma punctuation_counts_as_digits:
  "basic_to_digit 33 = basic_to_digit 108" "puny_decode (js ''!'') = puny_decode (js ''l'')"
  by code_simp+

text \<open>What follows a second \<open>@\<close> is dropped.\<close>

lemma second_at_lost: "to_ascii (js ''a@b@c'') = Some (Inr (js ''a@b''))"
  by code_simp

end
