(* ===== verification/Swagger_Preset.thy ===== *)
theory Swagger_Preset
  imports Swagger_Extend Swagger_Buffer Swagger_Buffer_Numbers
begin

text \<open>
  The modules that swagger-ui-standalone-preset.js holds a second time: Object.assign (lines 1 to 6),
  base64-js (line 6) and buffer (lines 6 to 12).  Their texts differ from those of the bundle in
  the names of variables only, so each is the function modelled for the bundle.
\<close>

definition preset_object_assign ::
  "bool \<Rightarrow> (js_value \<Rightarrow> nat) \<Rightarrow> heap \<Rightarrow> js_value list \<Rightarrow> (heap \<times> js_value) js_res" where
  "preset_object_assign = object_assign"

definition preset_to_byte_array :: "js_string \<Rightarrow> int list js_res" where
  "preset_to_byte_array = to_byte_array"

definition preset_from_byte_array :: "int list \<Rightarrow> js_string" where
  "preset_from_byte_array = from_byte_array"

definition preset_buffer_from :: "js_string \<Rightarrow> js_string \<Rightarrow> int list js_res" where
  "preset_buffer_from = buffer_from"

definition preset_buffer_to_string :: "int list \<Rightarrow> js_string \<Rightarrow> js_string js_res" where
  "preset_buffer_to_string = buffer_to_string"

definition preset_writeIntLE :: "int list \<Rightarrow> int \<Rightarrow> js_number \<Rightarrow> nat \<Rightarrow> (int list \<times> int) js_res" where
  "preset_writeIntLE = writeIntLE"

definition preset_readIntLE :: "int list \<Rightarrow> js_number \<Rightarrow> nat \<Rightarrow> int js_res" where
  "preset_readIntLE = readIntLE"

text \<open>What one page writes the other reads.\<close>

lemma preset_reads_bundle_text:
  "resolved name = Some enc \<Longrightarrow> fits enc s \<Longrightarrow>
     \<exists>b. buffer_from s name = Inr b \<and> preset_buffer_to_string b name = Inr s"
  using text_round_trip [of name enc s] by (auto simp: preset_buffer_to_string_def)

lemma preset_reads_bundle_integers:
  "0 < n \<Longrightarrow> 0 \<le> to_int32_number x \<Longrightarrow> writeIntLE buf v x n = Inr (b, e) \<Longrightarrow> preset_readIntLE b x n = Inr v"
  using signed_read_back(1) by (simp add: preset_readIntLE_def)

end
