(* ===== verification/Swagger_Events.thy ===== *)
theory Swagger_Events
  imports Js_Base
begin

text \<open>
  isEventSupported of React (swagger-ui-bundle.js, lines 12 to 26): whether the browser fires an event.
  The browser's document is an argument.
\<close>

text \<open>
  \<open>d_has p\<close> is \<open>p in document\<close>; \<open>d_handler p\<close> tells whether a new \<open>div\<close> with the attribute \<open>p\<close> has a function
  under that name; \<open>d_feature\<close> is \<open>document.implementation.hasFeature\<close> where that exists.
\<close>

record document =
  d_can_use :: bool
  d_has :: "js_string \<Rightarrow> bool"
  d_handler :: "js_string \<Rightarrow> bool"
  d_feature :: "(js_string \<Rightarrow> js_string \<Rightarrow> bool) option"

text \<open>A browser whose \<open>hasFeature\<close> answers yes to everything is not asked.\<close>

definition use_has_feature :: "document \<Rightarrow> bool" where
  "use_has_feature d \<longleftrightarrow>
     d_can_use d \<and> (case d_feature d of None \<Rightarrow> False | Some f \<Rightarrow> \<not> f [] [])"

definition is_event_supported :: "document \<Rightarrow> js_string \<Rightarrow> bool \<Rightarrow> bool" where
  "is_event_supported d e capture =
     (if \<not> d_can_use d \<or> capture \<and> \<not> d_has d (js ''addEventListener'') then False
      else let n = js ''on'' @ e;
               r = d_has d n;
               r = (if \<not> r then d_handler d n else r)
           in if \<not> r \<and> use_has_feature d \<and> e = js ''wheel'' then
                (case d_feature d of None \<Rightarrow> False | Some f \<Rightarrow> f (js ''Events.wheel'') (js ''3.0''))
              else r)"

text \<open>The event is reported when one of three signs shows it.\<close>

lemma is_event_supported_iff:
  "is_event_supported d e capture \<longleftrightarrow>
     d_can_use d \<and> (capture \<longrightarrow> d_has d (js ''addEventListener''))
     \<and> (d_has d (js ''on'' @ e) \<or> d_handler d (js ''on'' @ e)
        \<or> e = js ''wheel'' \<and> (\<exists>f. d_feature d = Some f \<and> \<not> f [] [] \<and> f (js ''Events.wheel'') (js ''3.0'')))"
  by (auto simp: is_event_supported_def use_has_feature_def Let_def split: option.splits)

end
