(* ===== verification/Spec2Isabelle.thy ===== *)
theory Spec2Isabelle
  imports
    Run_Properties Store_Properties Validation_Properties Trust_Properties Intake_Properties
    Bakery_Properties Swagger_Properties Codec_Properties Bytes_Properties Patch_Properties
    Markup_Properties Query_Properties Names_Properties Swagger_Preset Swagger_Events
begin

text \<open>
  \<^bold>\<open>Badges: the verifier, the bakery and the script modules of the API pages\<close>

  The repository is a server for Open Badges.  Three parts of it are modelled here.

  \<^bold>\<open>1. The script modules of the API pages\<close>
  (\<open>apps/mainsite/static/swagger-ui/swagger-ui-bundle.js\<close>, \<open>swagger-ui-standalone-preset.js\<close>): the
  JavaScript of the repository is a bundle in which each module is a function on a few long lines.
  A module's definitions name the lines its text is on; where a module starts at the end of one
  line and goes on after its licence comment, its exported function names the whole range and its
  helpers the line of code.
  The language:
  \<^item> \<open>Js_Base\<close>: strings as lists of 16-bit code units, numbers, values, exceptions, trimming, UTF-16; the
    locales \<open>codec\<close> and \<open>codec_chain\<close>, what an encoder and its decoder promise alone and in a row.
  \<^item> \<open>Js_Bits\<close>: the 32-bit operators, bytes.  \<open>Js_Text\<close>: splitting, joining and comparing texts, decimal numerals.
  \<^item> \<open>Js_Uri\<close>: \<open>encodeURIComponent\<close> and \<open>decodeURIComponent\<close>; decoding undoes encoding.
  \<^item> \<open>Js_Heap\<close>: objects with prototypes, reading and writing with the accessor \<open>__proto__\<close>; regions
    of a heap that are closed under what objects lead to, and the steps that stay within one.
  \<^item> \<open>Js_Json\<close>: JSON documents as trees, their reflection, equality up to the order of properties.
  The modules:
  \<^item> \<open>Swagger_Cookie\<close>: cookie.parse and cookie.serialize; the locale \<open>cookie_codec\<close>, a codec with a safe
    output, states what they need of an encoder, and is interpreted with the URI functions.
  \<^item> \<open>Swagger_Strings\<close>: the polyfill of repeat, fromCodePoint (both copies), classnames, pascalcase.
  \<^item> \<open>Swagger_Extend\<close>: both copies of deep-extend, and Object.assign.
  \<^item> \<open>Swagger_Base64\<close>: base64-js, with RFC 4648 on bit strings as its specification.
  \<^item> \<open>Swagger_Buffer\<close>: texts in the buffer module, \<open>Buffer.from\<close> and \<open>toString\<close> with every codec; the codecs
    are interpretations of \<open>codec\<close>, UTF-8 and base64 in a row one of \<open>codec_chain\<close>.
  \<^item> \<open>Swagger_Buffer_Numbers\<close>: integers in it, with a byte length as argument and at fixed widths; an
    offset is any number, converted or checked as the methods do it.
  \<^item> \<open>Swagger_Buffer_Bytes\<close>: its methods on bytes: comparison, search, copying, filling, slices, swapping,
    concatenation, and writing into a range.
  \<^item> \<open>Swagger_Versions\<close>: bowser's comparison of versions.  \<open>Swagger_Events\<close>: isEventSupported.
  \<^item> \<open>Swagger_Json_Patch\<close>: json-patch, the comparison of two documents, the application of a patch and
    the validator; its path components are a \<open>codec\<close>.
  \<^item> \<open>Swagger_Query\<close>: querystring and querystringify, objects as lists of their properties.
  \<^item> \<open>Swagger_Markup\<close>: the HTML renderer of CommonMark over the events of a document's walker, and
    \<open>escapeXml\<close> with the regular expression that remembers where it stopped, a part of the state.
  \<^item> \<open>Swagger_Punycode\<close>: punycode, with the relation \<open>follows\<close> between an encoder within a round and its decoder.
  \<^item> \<open>Swagger_Preset\<close>: the modules that the second script holds again.
  What they promise:
  \<^item> \<open>Swagger_Properties\<close>: cookies that are written can be read; deep-extend shares nothing with its
    sources, returns on sources without cycles, what each key holds afterwards, and what a
    property named \<open>__proto__\<close> does; the last source wins in Object.assign; the results of the text
    functions.
  \<^item> \<open>Codec_Properties\<close>: base64 implements its RFC and UTF-8 the encoding of code points; texts, bytes and
    integers come out of a buffer as they went in, exactly the integers in range are accepted, also
    at negative offsets, the fixed widths agree with the general routines but for two differences; versions compare as numbers.
  \<^item> \<open>Bytes_Properties\<close>: copying moves bytes even within one buffer, searches find the first and the last
    occurrence, comparison is the order of byte strings, swapping exchanges the byte orders.
  \<^item> \<open>Names_Properties\<close>: \<open>decode\<close> undoes \<open>encode\<close> on every string of up to 1926 units (so that all numbers
    stay below \<open>2^31\<close>, a code point times the length), and so does \<open>toUnicode\<close> on hosts.
  \<^item> \<open>Query_Properties\<close>: what is written into a query string is read back.  \<open>Markup_Properties\<close>: the tags
    of rendered markup do not depend on the texts of the document, when destinations, titles and info words have
    nothing to escape and the shared test starts afresh; and what goes out unescaped when they have.
  \<^item> \<open>Patch_Properties\<close>: a generated patch is valid and leads from the one document to the other; what
    \<open>test\<close> does not compare.

  \<^bold>\<open>2. The verifier\<close> (\<open>openbadges/verifier\<close>): a store changed by actions only, a table of tasks with
  prerequisites, and functions that carry a task out by looking at the store and returning
  actions.
  \<^item> \<open>Prelude\<close>, \<open>Py_Value\<close>: exceptions and results, lists and texts; the dynamic values of Python.
  \<^item> \<open>Verifier_State\<close> (state.py), \<open>Verifier_Actions\<close> (actions/), \<open>Verifier_Reducers\<close> (reducers/): the record
    \<open>vstate\<close> is the store, one definition per selector, action creator and reducer; \<open>dispatch\<close>
    applies an action or leaves the store alone when a reducer raises.
  \<^item> \<open>Verifier_Invariants\<close>: well-formed task tables (increasing numbers, one fetch per address) and
    settled tasks, kept by every action; the locales \<open>settled_store\<close> and \<open>closing_store\<close> state what the
    task loop needs of the store.
  \<^item> \<open>Verifier_Engine\<close> (verifier.py, tasks/utils.py): \<open>call_task\<close>, the loop and the report.
  \<^item> \<open>Verifier_Values\<close>, \<open>Verifier_Classes\<close>, \<open>Verifier_Validation\<close> (tasks/utils.py, tasks/validation.py),
    \<open>Verifier_Trust\<close> (tasks/verification.py, tasks/crypto.py), \<open>Verifier_Intake\<close> (tasks/input.py,
    tasks/graph.py), \<open>Verifier_Upgrades\<close> (tasks/object\_upgrades.py), \<open>Verifier_Resources\<close>
    (tasks/images.py, tasks/extensions.py): one definition per task function.
  \<^item> \<open>Verifier_Tasks\<close> (tasks/\_\_init\_\_.py, verifier.py): the table of all task functions and the two entry
    points, over the record \<open>env\<close> of everything the network and the packages answer.
  \<^item> \<open>Run_Properties\<close>, \<open>Store_Properties\<close>, \<open>Validation_Properties\<close>, \<open>Trust_Properties\<close>,
    \<open>Intake_Properties\<close>: runs end with nothing left to do, no address is fetched twice, what the
    report says; the store's steps; what is validated and accepted; when trust checks pass; how
    data enters and old formats are upgraded.

  \<^bold>\<open>3. The bakery\<close> (\<open>openbadges_bakery\<close>): \<open>Bakery\<close> and \<open>Bakery_Properties\<close>, reading back what was written
  into PNG and SVG images.

  \<^bold>\<open>Fuel.\<close>  The task loop of the verifier may run for ever (remote data may name ever new nodes), so it
  takes a number of rounds, no number is enough for all inputs, and the theorems on whole runs are about those
  that finish.  deep-extend takes the depth of calls; \<open>deep_extend_returns\<close> says that the nesting
  of the sources is enough.  The loop of the repeat polyfill and the rounds of \<open>encode\<close> are partial functions;
  \<open>repeat_polyfill_result\<close> and \<open>punycode_round_trip\<close> say when they end.

  \<^bold>\<open>Parameters.\<close>  Third-party packages (JSON-LD, JWS, hashing, URI parsing, HTTP, PNG, XML) are fields of
  records that the definitions take; hypotheses on them state what they document.

  \<^bold>\<open>Not modelled.\<close>  The rest of the script bundle (frameworks and libraries), the Django applications
  (issuer, backpack, accounts), server set-up, migrations, the document loader's cache, the
  command line.  In the scripts: getters, frozen objects and other
  properties that cannot be written (such as the characters of a String wrapper as a target), a Buffer's bytes as properties,
  assignment to an array's length, decimal printing of numbers above \<open>10^21\<close>; of buffer the floats,
  \<open>noAssert\<close>, the fallback without typed arrays and the sharing of memory between a buffer and its
  slices; of json-patch the
  operation \<open>copy\<close>, which makes two places share an object, and the observers' callbacks; of bowser the
  recognition of browsers; of CommonMark the parser, so a document is any sequence of events.
\<close>

end
